(* ===== verification/Prelude.thy ===== *)
theory Prelude
  imports Main "HOL-Library.Word"
begin

unbundle bit_operations_syntax

text \<open>
  Shared vocabulary of the development: the C integer types as words, the faults a C function of
  the emulator can end in, indexed loops over arrays, and the lemmas on bits and lists that the
  component theories use.
\<close>

subsection \<open>C types\<close>

type_synonym u8 = "8 word"
type_synonym u16 = "16 word"
type_synonym u32 = "32 word"
type_synonym u64 = "64 word"

text \<open>An offset into a memory-mapped register window.\<close>

type_synonym hwaddr = nat

named_theorems reg_defs \<open>register offsets and bit constants of the devices\<close>
named_theorems op_defs \<open>the operations of the devices\<close>

subsection \<open>Faults\<close>

text \<open>
  A C function that runs to its end gives \<open>Inr\<close>. A failed assertion, a null dereference, an access
  outside an array (undefined in C), an \<open>error_fatal\<close> exit, a shift by more than the width
  (undefined in C), an object freed while it is still reachable, a division by zero (undefined in C)
  and the use of allocated memory nothing was stored in are the values of \<open>Inl\<close>.
\<close>

datatype fault = AssertFailed | NullDeref | OutOfBounds | FatalError | UndefinedShift | UseAfterFree
  | DivideByZero | UninitRead

type_synonym 'a res = "fault + 'a"

definition rbind :: "'a res \<Rightarrow> ('a \<Rightarrow> 'b res) \<Rightarrow> 'b res" where
  "rbind r f = (case r of Inl e \<Rightarrow> Inl e | Inr x \<Rightarrow> f x)"

lemma rbind_simps [simp]:
  "rbind (Inl e) f = Inl e"
  "rbind (Inr x) f = f x"
  by (simp_all add: rbind_def)

lemma rbind_eq_Inr [simp]: "rbind r f = Inr y \<longleftrightarrow> (\<exists>x. r = Inr x \<and> f x = Inr y)"
  by (cases r) auto

lemma rbind_assoc: "rbind (rbind r f) g = rbind r (\<lambda>x. rbind (f x) g)"
  by (cases r) auto

text \<open>For recursion under \<open>rbind\<close>: the continuation is only called with the result.\<close>

lemma rbind_cong: "r = r' \<Longrightarrow> (\<And>x. r' = Inr x \<Longrightarrow> f x = g x) \<Longrightarrow> rbind r f = rbind r' g"
  by (cases r') auto

subsection \<open>Indexed loops over an array\<close>

text \<open>\<open>for (i = 0; i < n; i++) xs[i] = f(i, xs[i]);\<close>\<close>

definition for_upd :: "nat \<Rightarrow> (nat \<Rightarrow> 'a \<Rightarrow> 'a) \<Rightarrow> 'a list \<Rightarrow> 'a list" where
  "for_upd n f xs = fold (\<lambda>i ys. ys[i := f i (ys ! i)]) [0..<n] xs"

lemma for_upd_0 [simp]: "for_upd 0 f xs = xs"
  by (simp add: for_upd_def)

lemma for_upd_Suc: "for_upd (Suc n) f xs = (for_upd n f xs)[n := f n (for_upd n f xs ! n)]"
  by (simp add: for_upd_def)

lemma length_for_upd [simp]: "length (for_upd n f xs) = length xs"
  by (induction n) (simp_all add: for_upd_Suc)

lemma nth_for_upd [simp]:
  "i < length xs \<Longrightarrow> for_upd n f xs ! i = (if i < n then f i (xs ! i) else xs ! i)"
proof (induction n)
  case (Suc n)
  then show ?case by (cases "i = n") (auto simp: for_upd_Suc nth_list_update)
qed simp

lemma for_upd_code [code]: "for_upd n f xs = fold (\<lambda>i ys. ys[i := f i (ys ! i)]) [0..<n] xs"
  by (rule for_upd_def)

subsection \<open>Single bits\<close>

text \<open>\<open>BIT(n)\<close>: the word with only bit \<open>n\<close> set (no bit at all when \<open>n\<close> is past the width).\<close>

definition BIT :: "nat \<Rightarrow> 'a::len word" where
  "BIT n = push_bit n 1"

lemma bit_BIT [simp]: "bit (BIT n :: 'a::len word) m \<longleftrightarrow> m = n \<and> n < LENGTH('a)"
  by (auto simp: BIT_def bit_push_bit_iff bit_1_iff simp del: push_bit_of_1)

lemma and_BIT_eq_0: "(w AND BIT n = 0) \<longleftrightarrow> \<not> bit (w :: 'a::len word) n"
proof
  assume "w AND BIT n = 0"
  then have "\<not> bit (w AND BIT n) n" by simp
  then show "\<not> bit w n" by (auto simp: bit_and_iff dest: bit_imp_le_length)
next
  assume "\<not> bit w n"
  then show "w AND BIT n = 0" by (auto intro!: bit_eqI simp: bit_and_iff)
qed

lemma BIT_and_eq_0: "(BIT n AND w = 0) \<longleftrightarrow> \<not> bit (w :: 'a::len word) n"
  using and_BIT_eq_0 [of w n] by (simp add: and.commute)

lemma word_eq_0_bits: "(w :: 'a::len word) = 0 \<longleftrightarrow> (\<forall>n < LENGTH('a). \<not> bit w n)"
  by (auto intro: bit_word_eqI)

lemma word_neq_0_bit: "(w :: 'a::len word) \<noteq> 0 \<Longrightarrow> \<exists>n < LENGTH('a). bit w n"
  by (simp add: word_eq_0_bits)

lemma bit_BIT_minus_1: "n \<le> LENGTH('a) \<Longrightarrow> bit (BIT n - 1 :: 'a::len word) m \<longleftrightarrow> m < n"
proof -
  assume n: "n \<le> LENGTH('a)"
  have "(BIT n - 1 :: 'a word) = mask n"
    by (simp add: BIT_def mask_eq_exp_minus_1 push_bit_eq_mult)
  then show ?thesis using n by (auto simp: bit_mask_iff)
qed

lemmas bit_logic = bit_and_iff bit_or_iff bit_xor_iff bit_not_iff bit_push_bit_iff bit_drop_bit_eq
  bit_take_bit_iff bit_mask_iff

lemma and_not_mask_eq: "(w :: 'a::len word) AND NOT (mask n) = push_bit n (drop_bit n w)"
  by (rule bit_word_eqI) (auto simp: bit_logic)

subsection \<open>Lists\<close>

lemma length_takeWhile_upt_le: "length (takeWhile P [a..<b]) \<le> b - a"
  using length_takeWhile_le [of P "[a..<b]"] by simp

lemma upt_split_at: "a \<le> b \<Longrightarrow> b < c \<Longrightarrow> [a..<c] = [a..<b] @ b # [Suc b..<c]"
  using upt_add_eq_append [of a b "c - b"] by (simp add: upt_conv_Cons)

lemma filter_upt_Cons:
  "filter P [a..<b] = x # xs \<Longrightarrow> a \<le> x \<and> x < b \<and> P x \<and> (\<forall>i. a \<le> i \<and> i < x \<longrightarrow> \<not> P i)"
proof (induction "b - a" arbitrary: a)
  case 0
  then show ?case by simp
next
  case (Suc d)
  then have ab: "a < b" by simp
  show ?case
  proof (cases "P a")
    case True
    then show ?thesis using Suc.prems ab by (auto simp: upt_conv_Cons)
  next
    case False
    then have "filter P [Suc a..<b] = x # xs" using Suc.prems ab by (simp add: upt_conv_Cons)
    moreover have "d = b - Suc a" using Suc.hyps(2) by simp
    ultimately have "Suc a \<le> x \<and> x < b \<and> P x \<and> (\<forall>i. Suc a \<le> i \<and> i < x \<longrightarrow> \<not> P i)"
      using Suc.hyps(1) by blast
    then show ?thesis using False by (metis Suc_leD le_antisym not_less_eq_eq)
  qed
qed

end
