(* ===== verification/Bitops.thy ===== *)
theory Bitops
  imports Prelude
begin

text \<open>
  The bit-array and bit-field helpers of \<open>include/qemu/bitops.h\<close> and \<open>util/bitops.c\<close> that the
  device models call. A bit array is a list of 32-bit words. \<open>unsigned long\<close> is 64 bits wide, as
  on the LP64 hosts the emulator runs on; bit counts are natural numbers.
\<close>

subsection \<open>Bit arrays of 32-bit words\<close>

definition set_bit32 :: "nat \<Rightarrow> u32 list \<Rightarrow> u32 list" where
  "set_bit32 nr addr = addr[nr div 32 := (addr ! (nr div 32)) OR BIT (nr mod 32)]"

definition clear_bit32 :: "nat \<Rightarrow> u32 list \<Rightarrow> u32 list" where
  "clear_bit32 nr addr = addr[nr div 32 := (addr ! (nr div 32)) AND NOT (BIT (nr mod 32))]"

definition test_bit32 :: "nat \<Rightarrow> u32 list \<Rightarrow> u32" where
  "test_bit32 nr addr = 1 AND drop_bit (nr mod 32) (addr ! (nr div 32))"

text \<open>\<open>ctz32\<close>: the number of zero bits below the lowest set bit, 32 for zero.\<close>

definition ctz32 :: "u32 \<Rightarrow> nat" where
  "ctz32 v = length (takeWhile (\<lambda>i. \<not> bit v i) [0..<32])"

definition find_first_bit32_word :: "nat \<Rightarrow> nat \<Rightarrow> u32 \<Rightarrow> nat" where
  "find_first_bit32_word sz result tmp =
     (let result = result + ctz32 tmp in if result < sz then result else sz)"

function find_first_bit32_loop :: "u32 list \<Rightarrow> nat \<Rightarrow> nat \<Rightarrow> nat" where
  "find_first_bit32_loop addr sz result =
     (if result < sz
      then if addr ! (result div 32) \<noteq> 0
           then find_first_bit32_word sz result (addr ! (result div 32))
           else find_first_bit32_loop addr sz (result + 32)
      else sz)"
  by pat_completeness auto
termination
  by (relation "measure (\<lambda>(addr, sz, result). sz - result)") auto

declare find_first_bit32_loop.simps [simp del]

definition find_first_bit32 :: "u32 list \<Rightarrow> nat \<Rightarrow> nat" where
  "find_first_bit32 addr sz = find_first_bit32_loop addr sz 0"

subsection \<open>The word-at-a-time search for the next set bit\<close>

text \<open>
  \<open>find_next_bit32\<close> keeps its two exits \<open>found_first\<close> and \<open>found_middle\<close>, its loop over four words
  and its loop over single words. The temporary is an \<open>unsigned long\<close>, so the mask of
  \<open>found_first\<close> is a 64-bit one.
\<close>

definition found_middle :: "nat \<Rightarrow> u64 \<Rightarrow> nat" where
  "found_middle result tmp = result + ctz32 (ucast tmp)"

definition found_first :: "nat \<Rightarrow> nat \<Rightarrow> u64 \<Rightarrow> nat" where
  "found_first result sz tmp =
     (let tmp = tmp AND drop_bit (32 - sz) (NOT 0)
      in if tmp = 0 then result + sz else found_middle result tmp)"

function find_next_words :: "u32 list \<Rightarrow> nat \<Rightarrow> nat \<Rightarrow> nat \<Rightarrow> nat" where
  "find_next_words addr p result sz =
     (if 32 \<le> sz
      then if addr ! p \<noteq> 0 then found_middle result (ucast (addr ! p))
           else find_next_words addr (p + 1) (result + 32) (sz - 32)
      else if sz = 0 then result
      else found_first result sz (ucast (addr ! p)))"
  by pat_completeness auto
termination
  by (relation "measure (\<lambda>(addr, p, result, sz). sz)") auto

function find_next_quads :: "u32 list \<Rightarrow> nat \<Rightarrow> nat \<Rightarrow> nat \<Rightarrow> nat" where
  "find_next_quads addr p result sz =
     (if 4 * 32 \<le> sz
      then if addr ! p \<noteq> 0 then found_middle result (ucast (addr ! p))
           else if (addr ! (p + 1)) OR (addr ! (p + 2)) OR (addr ! (p + 3)) \<noteq> 0
           then find_next_words addr p result sz
           else find_next_quads addr (p + 4) (result + 4 * 32) (sz - 4 * 32)
      else find_next_words addr p result sz)"
  by pat_completeness auto
termination
  by (relation "measure (\<lambda>(addr, p, result, sz). sz)") auto

declare find_next_words.simps [simp del] find_next_quads.simps [simp del]

definition find_next_bit32 :: "u32 list \<Rightarrow> nat \<Rightarrow> nat \<Rightarrow> nat" where
  "find_next_bit32 addr sz offset =
     (if sz \<le> offset then sz
      else let p = offset div 32; result = 32 * (offset div 32); sz = sz - result;
               offset = offset mod 32
        in if offset \<noteq> 0
           then let tmp = (ucast (addr ! p) :: u64) AND push_bit offset (NOT 0)
             in if sz < 32 then found_first result sz tmp
                else if tmp \<noteq> 0 then found_middle result tmp
                else find_next_quads addr (p + 1) (result + 32) (sz - 32)
           else find_next_quads addr p result sz)"

subsection \<open>Bit fields\<close>

definition extract32 :: "u32 \<Rightarrow> nat \<Rightarrow> nat \<Rightarrow> u32" where
  "extract32 v start len = drop_bit start v AND drop_bit (32 - len) (NOT 0)"

definition extract64 :: "u64 \<Rightarrow> nat \<Rightarrow> nat \<Rightarrow> u64" where
  "extract64 v start len = drop_bit start v AND drop_bit (64 - len) (NOT 0)"

definition deposit32 :: "u32 \<Rightarrow> nat \<Rightarrow> nat \<Rightarrow> u32 \<Rightarrow> u32" where
  "deposit32 v start len fieldval =
     (let mask = push_bit start (drop_bit (32 - len) (NOT 0))
      in (v AND NOT mask) OR (push_bit start fieldval AND mask))"

definition deposit64 :: "u64 \<Rightarrow> nat \<Rightarrow> nat \<Rightarrow> u64 \<Rightarrow> u64" where
  "deposit64 v start len fieldval =
     (let mask = push_bit start (drop_bit (64 - len) (NOT 0))
      in (v AND NOT mask) OR (push_bit start fieldval AND mask))"

subsection \<open>Single-bit operations on a bit array\<close>

text \<open>Bit \<open>i\<close> of the array, the abstraction the lemmas are stated with.\<close>

definition bm_bit :: "u32 list \<Rightarrow> nat \<Rightarrow> bool" where
  "bm_bit addr i \<longleftrightarrow> bit (addr ! (i div 32)) (i mod 32)"

lemma length_set_clear_bit32 [simp]:
  "length (set_bit32 n addr) = length addr"
  "length (clear_bit32 n addr) = length addr"
  by (simp_all add: set_bit32_def clear_bit32_def)

lemma test_bit32_iff [simp]: "test_bit32 n addr = 0 \<longleftrightarrow> \<not> bm_bit addr n"
proof -
  have "(1 AND w = 0) \<longleftrightarrow> \<not> bit w 0" for w :: u32
    using BIT_and_eq_0 [of 0 w] by (simp add: BIT_def)
  then show ?thesis
    by (simp add: test_bit32_def bm_bit_def bit_drop_bit_eq)
qed

lemma bm_bit_set_bit32:
  assumes "n < 32 * length addr"
  shows "bm_bit (set_bit32 n addr) i \<longleftrightarrow> i = n \<or> bm_bit addr i"
proof -
  have "n div 32 < length addr" using assms by auto
  moreover have "i div 32 = n div 32 \<Longrightarrow> i mod 32 = n mod 32 \<Longrightarrow> i = n"
    by (metis mult_div_mod_eq)
  ultimately show ?thesis
    by (cases "i div 32 = n div 32") (auto simp: bm_bit_def set_bit32_def bit_or_iff)
qed

lemma bm_bit_clear_bit32:
  assumes "n < 32 * length addr"
  shows "bm_bit (clear_bit32 n addr) i \<longleftrightarrow> i \<noteq> n \<and> bm_bit addr i"
proof -
  have "n div 32 < length addr" using assms by auto
  moreover have "i div 32 = n div 32 \<Longrightarrow> i mod 32 = n mod 32 \<Longrightarrow> i = n"
    by (metis mult_div_mod_eq)
  ultimately show ?thesis
    by (cases "i div 32 = n div 32")
      (auto simp: bm_bit_def clear_bit32_def bit_and_iff bit_not_iff)
qed

lemma bm_bit_word_or:
  "k < length addr \<Longrightarrow> bm_bit (addr[k := addr ! k OR v]) i \<longleftrightarrow>
     bm_bit addr i \<or> (i div 32 = k \<and> bit v (i mod 32))"
  by (cases "i div 32 = k") (auto simp: bm_bit_def bit_or_iff)

lemma bm_bit_word_andnot:
  "k < length addr \<Longrightarrow> bm_bit (addr[k := addr ! k AND NOT v]) i \<longleftrightarrow>
     bm_bit addr i \<and> \<not> (i div 32 = k \<and> bit v (i mod 32))"
  by (cases "i div 32 = k") (auto simp: bm_bit_def bit_and_iff bit_not_iff)

subsection \<open>Counting trailing zeros\<close>

lemma ctz32_le: "ctz32 v \<le> 32"
  using length_takeWhile_upt_le [of "\<lambda>i. \<not> bit v i" 0 32] by (simp add: ctz32_def)

lemma ctz32_below: "i < ctz32 v \<Longrightarrow> \<not> bit v i"
proof -
  assume i: "i < ctz32 v"
  let ?t = "takeWhile (\<lambda>i. \<not> bit v i) [0..<32]"
  have "?t ! i \<in> set ?t" using i by (simp add: ctz32_def)
  then have "\<not> bit v (?t ! i)" by (auto dest: set_takeWhileD)
  moreover have "?t ! i = [0..<32] ! i" using i by (simp add: ctz32_def takeWhile_nth)
  moreover have "i < 32" using i ctz32_le [of v] by simp
  ultimately show ?thesis by simp
qed

lemma ctz32_bit: "ctz32 v < 32 \<Longrightarrow> bit v (ctz32 v)"
  using nth_length_takeWhile [of "\<lambda>i. \<not> bit v i" "[0..<32]"] by (simp add: ctz32_def)

lemma ctz32_eq_32 [simp]: "ctz32 v = 32 \<longleftrightarrow> v = 0"
proof
  assume "ctz32 v = 32"
  then have "\<forall>i < 32. \<not> bit v i" using ctz32_below [of _ v] by simp
  then show "v = 0" by (simp add: word_eq_0_bits)
next
  assume "v = 0"
  then show "ctz32 v = 32" by (simp add: ctz32_def takeWhile_eq_all_conv [THEN iffD2])
qed

lemma ctz32_less_32: "v \<noteq> 0 \<Longrightarrow> ctz32 v < 32"
  using ctz32_le [of v] by (simp add: le_less)

lemma ctz32_ge: "\<forall>i < k. \<not> bit v i \<Longrightarrow> k \<le> 32 \<Longrightarrow> k \<le> ctz32 v"
  using ctz32_bit [of v] by (meson leI less_le_trans)

lemma ucast_ucast_32_64 [simp]: "(ucast (ucast (w :: u32) :: u64) :: u32) = w"
  by (auto intro!: bit_word_eqI simp: bit_ucast_iff)

lemma ucast_64_eq_0 [simp]: "(ucast (w :: u32) :: u64) = 0 \<longleftrightarrow> w = 0"
  by (metis ucast_0 ucast_ucast_32_64)

subsection \<open>The specification of the search\<close>

text \<open>
  \<open>next_bit_spec f n a r\<close>: \<open>r\<close> is the least position at or after \<open>a\<close> where \<open>f\<close> holds, or \<open>n\<close> when
  there is none below \<open>n\<close>. The reference search scans bit by bit.
\<close>

definition next_bit_spec :: "(nat \<Rightarrow> bool) \<Rightarrow> nat \<Rightarrow> nat \<Rightarrow> nat \<Rightarrow> bool" where
  "next_bit_spec f n a r \<longleftrightarrow>
     r \<le> n \<and> (r < n \<longrightarrow> a \<le> r \<and> f r) \<and> (\<forall>i. a \<le> i \<and> i < r \<longrightarrow> \<not> f i)"

definition next_set_bit :: "u32 list \<Rightarrow> nat \<Rightarrow> nat \<Rightarrow> nat" where
  "next_set_bit addr sz a = (case filter (bm_bit addr) [a..<sz] of [] \<Rightarrow> sz | i # _ \<Rightarrow> i)"

lemma next_set_bit_spec: "next_bit_spec (bm_bit addr) sz a (next_set_bit addr sz a)"
proof (cases "filter (bm_bit addr) [a..<sz]")
  case Nil
  then have "\<forall>i. a \<le> i \<and> i < sz \<longrightarrow> \<not> bm_bit addr i"
    by (simp add: filter_empty_conv)
  with Nil show ?thesis by (simp add: next_bit_spec_def next_set_bit_def)
next
  case (Cons x xs)
  from filter_upt_Cons [OF this] Cons show ?thesis
    by (simp add: next_bit_spec_def next_set_bit_def)
qed

lemma next_bit_spec_unique:
  "next_bit_spec f n a r \<Longrightarrow> next_bit_spec f n a r' \<Longrightarrow> r = r'"
  unfolding next_bit_spec_def by (metis le_less_trans linorder_neqE_nat not_le)

subsection \<open>The two searches meet the specification\<close>

lemma bm_bit_in_word: "j < 32 \<Longrightarrow> bm_bit addr (32 * p + j) \<longleftrightarrow> bit (addr ! p) j"
  by (simp add: bm_bit_def)

lemma zero_word_no_bit:
  "addr ! p = 0 \<Longrightarrow> 32 * p \<le> i \<Longrightarrow> i < 32 * p + 32 \<Longrightarrow> \<not> bm_bit addr i"
  using bm_bit_in_word [of "i - 32 * p" addr p] by simp

lemma found_middle_spec:
  assumes "w \<noteq> 0" and "32 * p + 32 \<le> n" and "a \<le> 32 * p + ctz32 w"
    and w: "\<And>j. j < 32 \<Longrightarrow> a \<le> 32 * p + j \<Longrightarrow> bit w j = bm_bit addr (32 * p + j)"
    and low: "\<And>i. a \<le> i \<Longrightarrow> i < 32 * p \<Longrightarrow> \<not> bm_bit addr i"
  shows "next_bit_spec (bm_bit addr) n a (found_middle (32 * p) (ucast (w :: u32)))"
proof -
  have c: "ctz32 w < 32" using assms(1) by (rule ctz32_less_32)
  have "\<not> bm_bit addr i" if "a \<le> i" "i < 32 * p + ctz32 w" for i
  proof (cases "i < 32 * p")
    case True
    with that low show ?thesis by simp
  next
    case False
    then have "i - 32 * p < ctz32 w" using that by simp
    then have "\<not> bit w (i - 32 * p)" by (rule ctz32_below)
    with False that c w [of "i - 32 * p"] show ?thesis by simp
  qed
  then show ?thesis
    using c assms(2,3) w [of "ctz32 w"] ctz32_bit [OF c]
    by (auto simp: next_bit_spec_def found_middle_def)
qed

lemma next_bit_spec_skip:
  "next_bit_spec f n b r \<Longrightarrow> a \<le> b \<Longrightarrow> (\<And>i. a \<le> i \<Longrightarrow> i < b \<Longrightarrow> \<not> f i) \<Longrightarrow> next_bit_spec f n a r"
  unfolding next_bit_spec_def by (meson le_trans not_le)

lemma find_next_words_spec:
  "32 dvd sz \<Longrightarrow>
   next_bit_spec (bm_bit addr) (32 * p + sz) (32 * p) (find_next_words addr p (32 * p) sz)"
proof (induction sz arbitrary: p rule: less_induct)
  case (less sz)
  show ?case
  proof (cases "32 \<le> sz")
    case big: True
    show ?thesis
    proof (cases "addr ! p = 0")
      case True
      have "next_bit_spec (bm_bit addr) (32 * (p + 1) + (sz - 32)) (32 * (p + 1))
              (find_next_words addr (p + 1) (32 * (p + 1)) (sz - 32))"
        using less.IH [of "sz - 32" "p + 1"] less.prems big by (simp add: dvd_diff_nat)
      then have "next_bit_spec (bm_bit addr) (32 * p + sz) (32 * p)
              (find_next_words addr (p + 1) (32 * p + 32) (sz - 32))"
        using big zero_word_no_bit [OF True]
        by - (rule next_bit_spec_skip [where b = "32 * p + 32"], simp_all add: add.commute)
      then show ?thesis using True big by (subst find_next_words.simps) simp
    next
      case False
      then have "next_bit_spec (bm_bit addr) (32 * p + sz) (32 * p)
              (found_middle (32 * p) (ucast (addr ! p)))"
        using big by (intro found_middle_spec) (simp_all add: bm_bit_in_word)
      then show ?thesis using False big by (subst find_next_words.simps) simp
    qed
  next
    case False
    then have "sz = 0" using less.prems by (auto dest: dvd_imp_le)
    then show ?thesis by (subst find_next_words.simps) (auto simp: next_bit_spec_def)
  qed
qed

lemma find_next_quads_spec:
  "32 dvd sz \<Longrightarrow>
   next_bit_spec (bm_bit addr) (32 * p + sz) (32 * p) (find_next_quads addr p (32 * p) sz)"
proof (induction sz arbitrary: p rule: less_induct)
  case (less sz)
  show ?case
  proof (cases "128 \<le> sz \<and> addr ! p = 0 \<and> addr ! (p + 1) OR addr ! (p + 2) OR addr ! (p + 3) = 0")
    case True
    then have z: "addr ! p = 0" "addr ! (p + 1) = 0" "addr ! (p + 2) = 0" "addr ! (p + 3) = 0"
      by (simp_all add: or_eq_0_iff)
    have none: "\<not> bm_bit addr i" if i: "32 * p \<le> i" "i < 32 * p + 128" for i
    proof -
      have "p \<le> i div 32" and "i div 32 < p + 4"
        using i by (simp_all add: less_eq_div_iff_mult_less_eq div_less_iff_less_mult)
      then have "i div 32 \<in> {p, p + 1, p + 2, p + 3}" by auto
      then show ?thesis using z by (auto simp: bm_bit_def)
    qed
    have "next_bit_spec (bm_bit addr) (32 * (p + 4) + (sz - 128)) (32 * (p + 4))
            (find_next_quads addr (p + 4) (32 * (p + 4)) (sz - 128))"
      using True less.prems by (intro less.IH) (simp_all add: dvd_diff_nat)
    then have "next_bit_spec (bm_bit addr) (32 * p + sz) (32 * p)
            (find_next_quads addr (p + 4) (32 * p + 128) (sz - 128))"
      using True none
      by - (rule next_bit_spec_skip [where b = "32 * p + 128"], simp_all add: add.commute)
    then show ?thesis using True z by (subst find_next_quads.simps) simp
  next
    case False
    then have "find_next_quads addr p (32 * p) sz = find_next_words addr p (32 * p) sz"
      by (auto simp: find_next_quads.simps [of addr p] find_next_words.simps [of addr p "32 * p" sz])
    then show ?thesis using find_next_words_spec [OF less.prems] by simp
  qed
qed

lemma find_next_bit32_spec:
  assumes "32 dvd sz"
  shows "next_bit_spec (bm_bit addr) sz a (find_next_bit32 addr sz a)"
proof (cases "sz \<le> a")
  case True
  then show ?thesis by (auto simp: next_bit_spec_def find_next_bit32_def)
next
  case False
  define p where "p = a div 32"
  define m where "m = a mod 32"
  have a: "a = 32 * p + m" and m: "m < 32" by (simp_all add: p_def m_def)
  from assms obtain q where q: "sz = 32 * q" by blast
  have "32 * p < 32 * q" using False a q by linarith
  then have sz: "32 * p + 32 \<le> sz" using q by simp
  show ?thesis
  proof (cases "m = 0")
    case True
    then have "find_next_bit32 addr sz a = find_next_quads addr p (32 * p) (sz - 32 * p)"
      using False by (simp add: find_next_bit32_def Let_def p_def m_def)
    moreover have "32 dvd sz - 32 * p" using assms by (simp add: dvd_diff_nat)
    ultimately show ?thesis
      using find_next_quads_spec [of "sz - 32 * p" addr p] sz True a by simp
  next
    case pos: False
    define w where "w = addr ! p AND push_bit m (NOT 0)"
    have bw: "bit w j \<longleftrightarrow> m \<le> j \<and> bm_bit addr (32 * p + j)" if "j < 32" for j
      using that by (auto simp: w_def bit_logic bit_mask_iff bm_bit_in_word)
    have tmp: "(ucast (addr ! p) :: u64) AND push_bit m (NOT 0) = ucast w"
      using bit_imp_le_length [of "addr ! p"]
      by (auto intro!: bit_word_eqI simp: w_def bit_logic bit_ucast_iff bit_mask_iff)
    have nlt: "\<not> sz - 32 * p < 32" using sz by simp
    have eq: "find_next_bit32 addr sz a =
        (if w \<noteq> 0 then found_middle (32 * p) (ucast w)
         else find_next_quads addr (p + 1) (32 * (p + 1)) (sz - 32 * (p + 1)))"
      using False pos tmp nlt by (simp add: find_next_bit32_def Let_def p_def [symmetric]
          m_def [symmetric] add.commute)
    show ?thesis
    proof (cases "w = 0")
      case True
      have "\<not> bm_bit addr i" if "a \<le> i" "i < 32 * (p + 1)" for i
        using bw [of "i - 32 * p"] that True a by auto
      moreover have "32 dvd sz - 32 * (p + 1)" using assms by (intro dvd_diff_nat) simp_all
      ultimately show ?thesis
        using find_next_quads_spec [of "sz - 32 * (p + 1)" addr "p + 1"] sz True a m eq
        by - (rule next_bit_spec_skip [where b = "32 * (p + 1)"], simp_all)
    next
      case w: False
      have "m \<le> ctz32 w" using bw m by (intro ctz32_ge) auto
      then show ?thesis
        using w sz a bw eq by (simp, intro found_middle_spec) auto
    qed
  qed
qed

lemma find_next_bit32_eq: "32 dvd sz \<Longrightarrow> find_next_bit32 addr sz a = next_set_bit addr sz a"
  by (rule next_bit_spec_unique [OF find_next_bit32_spec next_set_bit_spec])

text \<open>For every size, the search makes progress: its result is not before the start.\<close>

lemma found_first_ge: "result \<le> found_first result sz tmp"
  by (simp add: found_first_def found_middle_def Let_def)

lemma find_next_words_ge: "result \<le> find_next_words addr p result sz"
  by (induction addr p result sz rule: find_next_words.induct)
    (subst find_next_words.simps, auto simp: found_first_ge found_middle_def)

lemma find_next_quads_ge: "result \<le> find_next_quads addr p result sz"
  by (induction addr p result sz rule: find_next_quads.induct)
    (subst find_next_quads.simps, auto simp: find_next_words_ge found_middle_def)

lemma ctz32_masked_ge:
  "m < 32 \<Longrightarrow> m \<le> ctz32 (ucast (tmp AND push_bit m (NOT 0) AND x :: u64))"
  by (rule ctz32_ge) (auto simp: bit_ucast_iff bit_logic bit_mask_iff)

lemma find_next_bit32_ge: "a < sz \<Longrightarrow> a \<le> find_next_bit32 addr sz a"
proof -
  assume a: "a < sz"
  define p where "p = a div 32"
  define m where "m = a mod 32"
  have am: "a = 32 * p + m" and m: "m < 32" by (simp_all add: p_def m_def)
  define t where "t = (ucast (addr ! p) :: u64) AND push_bit m (NOT 0)"
  have middle: "a \<le> found_middle (32 * p) (t AND x)" for x
    using ctz32_masked_ge [OF m, of "ucast (addr ! p)" x] am
    by (simp add: found_middle_def t_def and.assoc)
  have "a \<le> found_first (32 * p) (sz - 32 * p) t"
    using middle a am by (simp add: found_first_def Let_def)
  moreover have "a \<le> find_next_quads addr (p + 1) (32 * p + 32) (sz - 32 * p - 32)"
    using find_next_quads_ge [of "32 * p + 32"] am m by (meson add_le_cancel_left le_trans less_imp_le)
  moreover have "m = 0 \<Longrightarrow> a \<le> find_next_quads addr p (32 * p) (sz - 32 * p)"
    using find_next_quads_ge [of "32 * p"] am by simp
  moreover have "a \<le> found_middle (32 * p) t" using middle [of "NOT 0"] by simp
  ultimately show ?thesis
    using a by (simp add: find_next_bit32_def Let_def p_def [symmetric] m_def [symmetric] t_def)
qed

lemma find_next_bit32_progress:
  "find_next_bit32 addr sz a < sz \<Longrightarrow> a < sz \<and> a \<le> find_next_bit32 addr sz a"
proof (cases "a < sz")
  case False
  then have "find_next_bit32 addr sz a = sz" by (simp add: find_next_bit32_def)
  then show "find_next_bit32 addr sz a < sz \<Longrightarrow> ?thesis" by simp
qed (simp add: find_next_bit32_ge)

lemma find_first_bit32_loop_spec:
  "next_bit_spec (bm_bit addr) sz (32 * p) (find_first_bit32_loop addr sz (32 * p))"
proof (induction "sz - 32 * p" arbitrary: p rule: less_induct)
  case less
  show ?case
  proof (cases "32 * p < sz \<and> addr ! p = 0")
    case True
    have "next_bit_spec (bm_bit addr) sz (32 * (p + 1)) (find_first_bit32_loop addr sz (32 * (p + 1)))"
      using True by (intro less.hyps) auto
    then have "next_bit_spec (bm_bit addr) sz (32 * p) (find_first_bit32_loop addr sz (32 * p + 32))"
      using zero_word_no_bit [of addr p] True
      by - (rule next_bit_spec_skip [where b = "32 * p + 32"], simp_all add: add.commute)
    then show ?thesis using True by (subst find_first_bit32_loop.simps) simp
  next
    case False
    show ?thesis
    proof (cases "32 * p < sz")
      case lt: True
      with False have nz: "addr ! p \<noteq> 0" by simp
      have c: "ctz32 (addr ! p) < 32" using nz by (rule ctz32_less_32)
      have "\<not> bm_bit addr i" if "32 * p \<le> i" "i < 32 * p + ctz32 (addr ! p)" for i
        using that c ctz32_below [of "i - 32 * p" "addr ! p"] bm_bit_in_word [of "i - 32 * p" addr p]
        by simp
      then show ?thesis
        using lt nz c ctz32_bit [OF c] bm_bit_in_word [OF c, of addr p]
        by (subst find_first_bit32_loop.simps)
          (auto simp: next_bit_spec_def find_first_bit32_word_def Let_def)
    next
      case False
      then show ?thesis
        by (subst find_first_bit32_loop.simps) (auto simp: next_bit_spec_def)
    qed
  qed
qed

lemma find_first_bit32_spec: "next_bit_spec (bm_bit addr) sz 0 (find_first_bit32 addr sz)"
  using find_first_bit32_loop_spec [of addr sz 0] by (simp add: find_first_bit32_def)

subsection \<open>The interface to the scanning loops\<close>

text \<open>
  A device scans a bit array with \<open>while ((i = find_next(i + 1)) < n) body(i);\<close>. All such a loop
  needs is the specification of the search; from it follows that the loop visits exactly the set
  bits, in ascending order.
\<close>

locale bitmap_scan =
  fixes nxt :: "nat \<Rightarrow> nat" and f :: "nat \<Rightarrow> bool" and n :: nat
  assumes nxt_spec: "next_bit_spec f n a (nxt a)"
begin

lemma nxt_le: "nxt a \<le> n"
  using nxt_spec [of a] by (simp add: next_bit_spec_def)

lemma nxt_hit: "nxt a < n \<Longrightarrow> a \<le> nxt a \<and> f (nxt a)"
  using nxt_spec [of a] by (simp add: next_bit_spec_def)

lemma nxt_skips: "a \<le> i \<Longrightarrow> i < nxt a \<Longrightarrow> \<not> f i"
  using nxt_spec [of a] by (simp add: next_bit_spec_def)

lemma scan_filter:
  "filter f [a..<n] = (if nxt a < n then nxt a # filter f [Suc (nxt a)..<n] else [])"
proof (cases "nxt a < n")
  case True
  then have "[a..<n] = [a..<nxt a] @ nxt a # [Suc (nxt a)..<n]"
    using nxt_hit [of a] by (intro upt_split_at) simp_all
  moreover have "filter f [a..<nxt a] = []"
    using nxt_skips by (auto simp: filter_empty_conv)
  ultimately show ?thesis using True nxt_hit [of a] by simp
next
  case False
  then have "nxt a = n" using nxt_le [of a] by simp
  then show ?thesis using nxt_skips [of a] by (auto simp: filter_empty_conv)
qed

end

interpretation fnb: bitmap_scan "find_next_bit32 addr (32 * n)" "bm_bit addr" "32 * n" for addr n
  by unfold_locales (rule find_next_bit32_spec, simp)

interpretation nsb: bitmap_scan "next_set_bit addr sz" "bm_bit addr" sz for addr sz
  by unfold_locales (rule next_set_bit_spec)

subsection \<open>Bit fields\<close>

lemma bit_extract32 [simp]:
  "s + l \<le> 32 \<Longrightarrow> bit (extract32 v s l) i \<longleftrightarrow> i < l \<and> bit v (s + i)"
  using bit_imp_le_length [of v "s + i"]
  by (auto simp: extract32_def bit_logic)

lemma bit_extract64 [simp]:
  "s + l \<le> 64 \<Longrightarrow> bit (extract64 v s l) i \<longleftrightarrow> i < l \<and> bit v (s + i)"
  using bit_imp_le_length [of v "s + i"]
  by (auto simp: extract64_def bit_logic)

lemma bit_deposit32 [simp]:
  "s + l \<le> 32 \<Longrightarrow> bit (deposit32 v s l x) i \<longleftrightarrow>
     (if s \<le> i \<and> i < s + l then bit x (i - s) else bit v i)"
  using bit_imp_le_length [of v i]
  by (auto simp: deposit32_def Let_def bit_logic)

lemma bit_deposit64 [simp]:
  "s + l \<le> 64 \<Longrightarrow> bit (deposit64 v s l x) i \<longleftrightarrow>
     (if s \<le> i \<and> i < s + l then bit x (i - s) else bit v i)"
  using bit_imp_le_length [of v i]
  by (auto simp: deposit64_def Let_def bit_logic)

subsection \<open>Properties\<close>

text \<open>
  Property C35 (equivalence). On a bit array that is a whole number of 32-bit words, the
  word-at-a-time search \<open>find_next_bit32\<close> (with its masked first word, its four-word strides and
  its trailing-zero count) returns what a bit-by-bit scan returns: the least set bit at or after
  the start, or the size.
\<close>

theorem find_next_bit32_correct:
  assumes "32 dvd sz"
  shows "find_next_bit32 addr sz a = next_set_bit addr sz a"
  using assms by (rule find_next_bit32_eq)

theorem find_next_bit32_correct_witness:
  "find_next_bit32 [0, 0, 256] 96 5 = 72 \<and> (32::nat) dvd 96"
proof -
  have "(32::nat) dvd 96" by simp
  moreover have "next_set_bit [0, 0, 256] 96 5 = 72" by code_simp
  ultimately show ?thesis
    using find_next_bit32_correct [of 96 "[0, 0, 256]" 5] by simp
qed

text \<open>
  When the size is not a multiple of 32 the search can return a position past
  the size it was given: the mask of the last partial word is built in a 64-bit \<open>unsigned long\<close> and
  shifted by \<open>32 - size\<close>, so it keeps the bits of that word that lie at or above the size.
\<close>

theorem find_next_bit32_past_size:
  "\<exists>addr sz a. a < sz \<and> sz \<le> 32 * length addr \<and> sz < find_next_bit32 addr sz a"
proof -
  have "find_next_bit32 [32] 3 1 = 5" by code_simp
  then show ?thesis by (intro exI [of _ "[32]"] exI [of _ 3] exI [of _ 1]) simp
qed

text \<open>
  \<open>find_first_bit32\<close> returns the least set bit below the size, or the
  size when there is none, for every size.
\<close>

theorem find_first_bit32_correct: "find_first_bit32 addr sz = next_set_bit addr sz 0"
  by (rule next_bit_spec_unique [OF find_first_bit32_spec next_set_bit_spec])

text \<open>
  A field written with \<open>deposit32\<close> is read back by \<open>extract32\<close>, truncated
  to its length, and every field that does not overlap it keeps its contents.
\<close>

theorem deposit32_extract32:
  assumes "s + l \<le> 32"
  shows "extract32 (deposit32 v s l x) s l = take_bit l x \<and>
    (\<forall>s' l'. s' + l' \<le> 32 \<and> (s' + l' \<le> s \<or> s + l \<le> s') \<longrightarrow>
       extract32 (deposit32 v s l x) s' l' = extract32 v s' l')"
  using assms by (auto intro!: bit_word_eqI simp: bit_take_bit_iff)

theorem deposit32_extract32_witness:
  "extract32 (deposit32 0xFFFFFFFF 20 12 0x1ABC) 20 12 = 0xABC \<and>
   extract32 (deposit32 0xFFFFFFFF 20 12 0x1ABC) 2 1 = 1"
proof -
  have "take_bit 12 (0x1ABC :: u32) = 0xABC" and "extract32 0xFFFFFFFF 2 1 = 1" by code_simp+
  then show ?thesis
    using deposit32_extract32 [of 20 12 "0xFFFFFFFF" "0x1ABC"] by simp
qed

end
