(* ===== verification/Interfaces.thy ===== *)
theory Interfaces
  imports Prelude
begin

text \<open>
  The contracts several devices share, as locales. A component's theory interprets them on its own
  definitions; what the clients need is proved here once.
\<close>

subsection \<open>Runs of a device\<close>

text \<open>
  A device takes operations one after the other. An invariant kept by every operation holds after
  every sequence of operations.
\<close>

definition run_ops :: "('op \<Rightarrow> 's \<Rightarrow> 's) \<Rightarrow> 'op list \<Rightarrow> 's \<Rightarrow> 's" where
  "run_ops step ops s = fold step ops s"

lemma run_ops_simps [simp]:
  "run_ops step [] s = s"
  "run_ops step (x # xs) s = run_ops step xs (step x s)"
  by (simp_all add: run_ops_def)

lemma run_ops_append: "run_ops step (xs @ ys) s = run_ops step ys (run_ops step xs s)"
  by (simp add: run_ops_def)

locale device_invariant =
  fixes step :: "'op \<Rightarrow> 's \<Rightarrow> 's" and ok :: "'op \<Rightarrow> bool" and inv :: "'s \<Rightarrow> bool"
  assumes step_inv: "ok x \<Longrightarrow> inv s \<Longrightarrow> inv (step x s)"
begin

lemma run_inv: "list_all ok xs \<Longrightarrow> inv s \<Longrightarrow> inv (run_ops step xs s)"
  by (induction xs arbitrary: s) (auto intro: step_inv)

end

text \<open>
  A device whose operations may fault. When every permitted operation succeeds from a state with the
  invariant and keeps it, no sequence of permitted operations faults.
\<close>

primrec run_res :: "('op \<Rightarrow> 's \<Rightarrow> 's res) \<Rightarrow> 'op list \<Rightarrow> 's \<Rightarrow> 's res" where
  "run_res step [] s = Inr s"
| "run_res step (x # xs) s = rbind (step x s) (run_res step xs)"

locale safe_device =
  fixes step :: "'op \<Rightarrow> 's \<Rightarrow> 's res" and ok :: "'op \<Rightarrow> bool" and inv :: "'s \<Rightarrow> bool"
  assumes step_safe: "ok x \<Longrightarrow> inv s \<Longrightarrow> \<exists>t. step x s = Inr t \<and> inv t"
begin

lemma run_safe: "list_all ok xs \<Longrightarrow> inv s \<Longrightarrow> \<exists>t. run_res step xs s = Inr t \<and> inv t"
proof (induction xs arbitrary: s)
  case (Cons x xs)
  then show ?case using step_safe [of x s] by auto
qed simp

end

subsection \<open>A register with a set port and a clear port\<close>

text \<open>
  Many registers are written through two addresses, one that sets the bits written as 1 and one
  that clears them.
\<close>

locale mask_register =
  fixes get :: "'s \<Rightarrow> u32" and set_port :: "u32 \<Rightarrow> 's \<Rightarrow> 's" and clr_port :: "u32 \<Rightarrow> 's \<Rightarrow> 's"
    and wf :: "'s \<Rightarrow> bool"
  assumes get_set: "wf s \<Longrightarrow> get (set_port v s) = get s OR v"
    and get_clr: "wf s \<Longrightarrow> get (clr_port v s) = get s AND NOT v"
    and wf_set: "wf s \<Longrightarrow> wf (set_port v s)"
    and wf_clr: "wf s \<Longrightarrow> wf (clr_port v s)"
begin

lemma bit_set: "wf s \<Longrightarrow> bit (get (set_port v s)) i \<longleftrightarrow> bit (get s) i \<or> bit v i"
  by (simp add: get_set bit_or_iff)

lemma bit_clr: "wf s \<Longrightarrow> bit (get (clr_port v s)) i \<longleftrightarrow> bit (get s) i \<and> \<not> bit v i"
  using bit_imp_le_length [of "get s" i] by (auto simp: get_clr bit_and_iff bit_not_iff)

lemma set_clr: "wf s \<Longrightarrow> get (clr_port v (set_port v s)) = get s AND NOT v"
  by (rule bit_word_eqI) (auto simp: bit_set bit_clr wf_set bit_and_iff bit_not_iff)

lemma clr_set: "wf s \<Longrightarrow> get (set_port v (clr_port v s)) = get s OR v"
  by (rule bit_word_eqI) (auto simp: bit_set bit_clr wf_clr bit_or_iff)

lemma clr_absorbs: "wf s \<Longrightarrow> get (clr_port w (clr_port v s)) = get (clr_port (v OR w) s)"
  by (rule bit_word_eqI) (auto simp: bit_clr wf_clr bit_or_iff)

end

subsection \<open>A first-in first-out channel\<close>

text \<open>
  A sender appends to a queue and a receiver takes from its front. The receiver may stamp a message
  with the number of messages that were queued.
\<close>

fun drain :: "('s \<Rightarrow> 'm option \<times> 's) \<Rightarrow> nat \<Rightarrow> 's \<Rightarrow> 'm list \<times> 's" where
  "drain recv 0 s = ([], s)"
| "drain recv (Suc n) s =
     (case recv s of (None, s') \<Rightarrow> ([], s')
      | (Some m, s') \<Rightarrow> let (ms, t) = drain recv n s' in (m # ms, t))"

fun stamped :: "(nat \<Rightarrow> 'm \<Rightarrow> 'm) \<Rightarrow> 'm list \<Rightarrow> 'm list" where
  "stamped stamp [] = []"
| "stamped stamp (m # ms) = stamp (Suc (length ms)) m # stamped stamp ms"

locale fifo_channel =
  fixes send :: "'m \<Rightarrow> 's \<Rightarrow> 's" and recv :: "'s \<Rightarrow> 'm option \<times> 's" and queue :: "'s \<Rightarrow> 'm list"
    and up :: "'s \<Rightarrow> bool" and stamp :: "nat \<Rightarrow> 'm \<Rightarrow> 'm"
  assumes queue_send: "up s \<Longrightarrow> queue (send m s) = queue s @ [m]"
    and up_send: "up s \<Longrightarrow> up (send m s)"
    and recv_Cons: "up s \<Longrightarrow> queue s = m # ms \<Longrightarrow> fst (recv s) = Some (stamp (Suc (length ms)) m)"
    and queue_recv: "up s \<Longrightarrow> queue s = m # ms \<Longrightarrow> queue (snd (recv s)) = ms"
    and up_recv: "up s \<Longrightarrow> queue s \<noteq> [] \<Longrightarrow> up (snd (recv s))"
    and recv_Nil: "up s \<Longrightarrow> queue s = [] \<Longrightarrow> fst (recv s) = None"
begin

lemma sends: "up s \<Longrightarrow> up (fold send ms s) \<and> queue (fold send ms s) = queue s @ ms"
  by (induction ms arbitrary: s) (simp_all add: up_send queue_send)

lemma drain_queue: "up s \<Longrightarrow> length (queue s) \<le> n \<Longrightarrow> fst (drain recv n s) = stamped stamp (queue s)"
proof (induction n arbitrary: s)
  case (Suc n)
  show ?case
  proof (cases "queue s")
    case Nil
    then show ?thesis using recv_Nil [of s] Suc.prems by (auto split: prod.split option.split)
  next
    case (Cons m ms)
    obtain s' where r: "recv s = (Some (stamp (Suc (length ms)) m), s')"
      using recv_Cons [OF Suc.prems(1) Cons] by (cases "recv s") simp
    then have "up s'" "queue s' = ms"
      using up_recv [of s] queue_recv [OF Suc.prems(1) Cons] Suc.prems Cons by simp_all
    then show ?thesis using Suc.IH [of s'] Suc.prems Cons r by (auto split: prod.split)
  qed
qed simp

lemma send_drain:
  "up s \<Longrightarrow> length (queue s) + length ms \<le> n \<Longrightarrow>
   fst (drain recv n (fold send ms s)) = stamped stamp (queue s @ ms)"
  using sends [of s ms] drain_queue [of "fold send ms s" n] by simp

end

subsection \<open>A bounded queue\<close>

text \<open>
  A queue of limited size whose operations assert that there is room, or a message: the client has
  to check before it calls.
\<close>

primrec push_each :: "('m \<Rightarrow> 's \<Rightarrow> 's res) \<Rightarrow> 'm list \<Rightarrow> 's \<Rightarrow> 's res" where
  "push_each push [] s = Inr s"
| "push_each push (m # ms) s = rbind (push m s) (push_each push ms)"

primrec pop_each :: "('s \<Rightarrow> ('m \<times> 's) res) \<Rightarrow> nat \<Rightarrow> 's \<Rightarrow> ('m list \<times> 's) res" where
  "pop_each pop 0 s = Inr ([], s)"
| "pop_each pop (Suc n) s =
     rbind (pop s) (\<lambda>(m, s). rbind (pop_each pop n s) (\<lambda>(ms, s). Inr (m # ms, s)))"

locale bounded_queue =
  fixes push :: "'m \<Rightarrow> 's \<Rightarrow> 's res" and pop :: "'s \<Rightarrow> ('m \<times> 's) res" and queue :: "'s \<Rightarrow> 'm list"
    and size :: "'s \<Rightarrow> nat" and wf :: "'s \<Rightarrow> bool"
  assumes push_room: "wf s \<Longrightarrow> length (queue s) < size s \<Longrightarrow>
      \<exists>t. push m s = Inr t \<and> wf t \<and> queue t = queue s @ [m] \<and> size t = size s"
    and push_full: "wf s \<Longrightarrow> length (queue s) = size s \<Longrightarrow> push m s = Inl AssertFailed"
    and pop_Cons: "wf s \<Longrightarrow> queue s = m # ms \<Longrightarrow> \<exists>t. pop s = Inr (m, t) \<and> wf t \<and> queue t = ms \<and> size t = size s"
    and pop_Nil: "wf s \<Longrightarrow> queue s = [] \<Longrightarrow> pop s = Inl AssertFailed"
    and queue_size: "wf s \<Longrightarrow> length (queue s) \<le> size s"
begin

lemma push_each_room:
  "wf s \<Longrightarrow> length (queue s) + length ms \<le> size s \<Longrightarrow>
   \<exists>t. push_each push ms s = Inr t \<and> wf t \<and> queue t = queue s @ ms \<and> size t = size s"
proof (induction ms arbitrary: s)
  case (Cons m ms)
  obtain u where u: "push m s = Inr u" "wf u" "queue u = queue s @ [m]" "size u = size s"
    using push_room [OF Cons.prems(1), of m] Cons.prems(2) by auto
  then show ?case using Cons.IH [of u] Cons.prems(2) by simp
qed simp

lemma push_each_overflow:
  "wf s \<Longrightarrow> size s < length (queue s) + length ms \<Longrightarrow> push_each push ms s = Inl AssertFailed"
proof (induction ms arbitrary: s)
  case Nil
  then show ?case using queue_size [of s] by simp
next
  case (Cons m ms)
  show ?case
  proof (cases "length (queue s) < size s")
    case True
    then obtain u where "push m s = Inr u" "wf u" "queue u = queue s @ [m]" "size u = size s"
      using push_room [OF Cons.prems(1), of m] by auto
    then show ?thesis using Cons.IH [of u] Cons.prems(2) by simp
  next
    case False
    then show ?thesis using push_full [of s m] queue_size [of s] Cons.prems(1) by simp
  qed
qed

lemma pop_each_take:
  "wf s \<Longrightarrow> n \<le> length (queue s) \<Longrightarrow>
   \<exists>t. pop_each pop n s = Inr (take n (queue s), t) \<and> wf t \<and> queue t = drop n (queue s) \<and> size t = size s"
proof (induction n arbitrary: s)
  case (Suc n)
  then obtain m ms where q: "queue s = m # ms" by (cases "queue s") auto
  obtain u where u: "pop s = Inr (m, u)" "wf u" "queue u = ms" "size u = size s"
    using pop_Cons [OF Suc.prems(1) q] by blast
  then show ?case using Suc.IH [of u] Suc.prems(2) q by auto
qed simp

lemma pop_each_underflow:
  "wf s \<Longrightarrow> length (queue s) < n \<Longrightarrow> pop_each pop n s = Inl AssertFailed"
proof (induction n arbitrary: s)
  case (Suc n)
  show ?case
  proof (cases "queue s")
    case Nil
    then show ?thesis using pop_Nil [OF Suc.prems(1)] by simp
  next
    case (Cons m ms)
    then obtain u where "pop s = Inr (m, u)" "wf u" "queue u = ms"
      using pop_Cons [OF Suc.prems(1)] by blast
    then show ?thesis using Suc.IH [of u] Suc.prems(2) Cons by simp
  qed
qed simp

end

subsection \<open>A keyed store\<close>

text \<open>A table with entries that are set, replaced and removed by key.\<close>

locale keyed_store =
  fixes get :: "'s \<Rightarrow> 'k \<Rightarrow> 'v option" and put :: "'k \<Rightarrow> 'v \<Rightarrow> 's \<Rightarrow> 's" and del :: "'k \<Rightarrow> 's \<Rightarrow> 's"
    and ok :: "'k \<Rightarrow> 'v \<Rightarrow> bool" and wf :: "'s \<Rightarrow> bool"
  assumes get_put: "wf s \<Longrightarrow> ok k v \<Longrightarrow> get (put k v s) = (get s)(k \<mapsto> v)"
    and get_del: "wf s \<Longrightarrow> get (del k s) = (get s)(k := None)"
    and wf_put: "wf s \<Longrightarrow> ok k v \<Longrightarrow> wf (put k v s)"
    and wf_del: "wf s \<Longrightarrow> wf (del k s)"
begin

lemma get_puts:
  "wf s \<Longrightarrow> list_all (\<lambda>(k, v). ok k v) kvs \<Longrightarrow>
   get (fold (\<lambda>(k, v). put k v) kvs s) = get s ++ map_of (rev kvs)"
proof (induction kvs arbitrary: s)
  case (Cons kv kvs)
  then show ?case by (cases kv) (simp add: wf_put get_put map_add_upd_left)
qed simp

lemma get_put_del: "wf s \<Longrightarrow> ok k v \<Longrightarrow> get (del k (put k v s)) = (get s)(k := None)"
  by (simp add: get_del get_put wf_put)

end

end
