(* ===== verification/Bytes.thy ===== *)
theory Bytes
  imports Prelude
begin

text \<open>
  Memory as byte lists: little-endian loads and stores (\<open>stl_le_p\<close>, \<open>ldl_le_p\<close>, \<open>ldq_le_p\<close> and
  \<open>memcpy\<close> of an integer on a little-endian host) and \<open>memcpy\<close> into a buffer. They are proved to be
  inverse to each other.
\<close>

type_synonym bytes = "u8 list"

fun to_le :: "nat \<Rightarrow> 'a::len word \<Rightarrow> bytes" where
  "to_le 0 w = []"
| "to_le (Suc n) w = ucast w # to_le n (drop_bit 8 w)"

fun of_le :: "bytes \<Rightarrow> 'a::len word" where
  "of_le [] = 0"
| "of_le (b # bs) = ucast b OR push_bit 8 (of_le bs)"

text \<open>\<open>memcpy(dst + off, src, len)\<close> with the bytes \<open>bs\<close> of the source.\<close>

definition blit :: "nat \<Rightarrow> bytes \<Rightarrow> bytes \<Rightarrow> bytes" where
  "blit off bs dst = take off dst @ bs @ drop (off + length bs) dst"

text \<open>The \<open>len\<close> bytes at \<open>off\<close>.\<close>

definition bslice :: "nat \<Rightarrow> nat \<Rightarrow> 'a list \<Rightarrow> 'a list" where
  "bslice off len xs = take len (drop off xs)"

lemma length_to_le [simp]: "length (to_le n w) = n"
  by (induction n arbitrary: w) auto

lemma bit_of_le:
  "bit (of_le bs :: 'a::len word) i \<longleftrightarrow> i < LENGTH('a) \<and> i div 8 < length bs \<and> bit (bs ! (i div 8)) (i mod 8)"
proof (induction bs arbitrary: i)
  case (Cons b bs)
  show ?case
  proof (cases "i < 8")
    case True
    then show ?thesis by (auto simp: bit_logic bit_ucast_iff)
  next
    case False
    then obtain j where j: "i = 8 + j" using le_Suc_ex not_less by blast
    have "\<not> bit b (8 + j)" using bit_imp_le_length [of b "8 + j"] by auto
    moreover have "(8 + j) div 8 = Suc (j div 8)" by simp
    ultimately show ?thesis by (auto simp: j bit_logic bit_ucast_iff Cons)
  qed
qed simp

lemma nth_to_le: "k < n \<Longrightarrow> to_le n w ! k = ucast (drop_bit (8 * k) w)"
proof (induction n arbitrary: w k)
  case (Suc n)
  then show ?case by (cases k) (simp_all add: drop_bit_drop_bit ac_simps)
qed simp

lemma of_le_to_le: "of_le (to_le n w) = take_bit (8 * n) w"
proof (rule bit_word_eqI)
  fix i
  assume i: "i < LENGTH('a)"
  have "bit (to_le n w ! (i div 8)) (i mod 8) \<longleftrightarrow> bit w i" if "i div 8 < n"
    using that i by (auto simp: nth_to_le bit_ucast_iff bit_drop_bit_eq)
  moreover have "i div 8 < n \<longleftrightarrow> i < 8 * n" by (simp add: div_less_iff_less_mult mult.commute)
  ultimately show "bit (of_le (to_le n w) :: 'a word) i \<longleftrightarrow> bit (take_bit (8 * n) w) i"
    using i by (auto simp: bit_of_le bit_take_bit_iff)
qed

lemma of_le_to_le_full [simp]: "LENGTH('a) \<le> 8 * n \<Longrightarrow> of_le (to_le n (w :: 'a::len word)) = w"
  by (simp add: of_le_to_le take_bit_word_eq_self)

lemma to_le_of_le [simp]:
  assumes "length bs = n" "8 * n \<le> LENGTH('a)"
  shows "to_le n (of_le bs :: 'a::len word) = bs"
proof (rule nth_equalityI)
  fix k
  assume "k < length (to_le n (of_le bs :: 'a word))"
  then have k: "k < n" by simp
  show "to_le n (of_le bs :: 'a word) ! k = bs ! k"
  proof (rule bit_word_eqI)
    fix j
    assume "j < LENGTH(8)"
    then have "j < 8" "(8 * k + j) div 8 = k" "(8 * k + j) mod 8 = j" by simp_all
    then show "bit (to_le n (of_le bs :: 'a word) ! k) j \<longleftrightarrow> bit (bs ! k) j"
      using k assms by (auto simp: nth_to_le bit_ucast_iff bit_drop_bit_eq bit_of_le)
  qed
qed (simp add: assms)

lemma length_blit [simp]: "off + length bs \<le> length dst \<Longrightarrow> length (blit off bs dst) = length dst"
  by (simp add: blit_def)

lemma length_bslice [simp]: "length (bslice off len xs) = min len (length xs - off)"
  by (simp add: bslice_def)

lemma bslice_blit [simp]: "off + length bs \<le> length dst \<Longrightarrow> len = length bs \<Longrightarrow> bslice off len (blit off bs dst) = bs"
  by (simp add: bslice_def blit_def)

lemma nth_blit:
  "off + length bs \<le> length dst \<Longrightarrow> i < length dst \<Longrightarrow>
   blit off bs dst ! i = (if off \<le> i \<and> i < off + length bs then bs ! (i - off) else dst ! i)"
  by (auto simp: blit_def nth_append)

lemma bslice_blit_other:
  assumes "off + length bs \<le> length dst" "a + len \<le> off \<or> off + length bs \<le> a" "a + len \<le> length dst"
  shows "bslice a len (blit off bs dst) = bslice a len dst"
  using assms by (intro nth_equalityI) (auto simp: bslice_def nth_blit)

lemma blit_self: "off + length bs = length dst \<Longrightarrow> off = 0 \<Longrightarrow> blit off bs dst = bs"
  by (simp add: blit_def)

lemma of_le_to_le_ucast: "(of_le (to_le n (w :: 'a::len word)) :: 'b::len word) = ucast (take_bit (8 * n) w)"
proof (rule bit_word_eqI)
  fix i
  assume i: "i < LENGTH('b)"
  have "bit (to_le n w ! (i div 8)) (i mod 8) \<longleftrightarrow> bit w i" if "i div 8 < n"
    using that by (auto simp: nth_to_le bit_ucast_iff bit_drop_bit_eq)
  moreover have "i div 8 < n \<longleftrightarrow> i < 8 * n" by (simp add: div_less_iff_less_mult mult.commute)
  ultimately show "bit (of_le (to_le n w) :: 'b word) i \<longleftrightarrow> bit (ucast (take_bit (8 * n) w) :: 'b word) i"
    using i by (auto simp: bit_of_le bit_take_bit_iff bit_ucast_iff)
qed

lemma of_le_append: "of_le (xs @ ys) = of_le xs OR push_bit (8 * length xs) (of_le ys)"
  by (induction xs) (simp_all add: push_bit_or or.assoc)

lemma to_le_append: "to_le (m + n) w = to_le m w @ to_le n (drop_bit (8 * m) w)"
  by (induction m arbitrary: w) (simp_all add: drop_bit_drop_bit ac_simps)

lemma blit_blit:
  "off + length xs + length ys \<le> length dst \<Longrightarrow>
   blit (off + length xs) ys (blit off xs dst) = blit off (xs @ ys) dst"
  by (cases xs) (simp_all add: blit_def min_def ac_simps)

end
