(* ===== verification/Cstrings.thy ===== *)
theory Cstrings
  imports Bytes
begin

text \<open>
  C strings in byte memory: string literals, the copying and comparing functions of the C library the
  sources use, and the tokeniser \<open>qemu_strsep\<close> of \<open>util/cutils.c\<close>.
\<close>

subsection \<open>Definitions\<close>

text \<open>The characters of a literal, without the terminator.\<close>

definition cs :: "string \<Rightarrow> bytes" where
  "cs = map of_char"

text \<open>The string a pointer to \<open>mem\<close> denotes.\<close>

definition c_string :: "bytes \<Rightarrow> bytes" where
  "c_string mem = takeWhile (\<lambda>b. b \<noteq> 0) mem"

definition strnlen :: "bytes \<Rightarrow> nat \<Rightarrow> nat" where
  "strnlen mem n = length (takeWhile (\<lambda>b. b \<noteq> 0) (take n mem))"

text \<open>The \<open>n\<close> bytes \<open>strncpy\<close> stores: it fills up with zeros and does not terminate a long string.\<close>

definition strncpy :: "nat \<Rightarrow> bytes \<Rightarrow> bytes" where
  "strncpy n src = take n (c_string src @ replicate n 0)"

text \<open>Whether \<open>strncmp\<close> gives 0.\<close>

fun strncmp_eq :: "nat \<Rightarrow> bytes \<Rightarrow> bytes \<Rightarrow> bool" where
  "strncmp_eq 0 _ _ = True"
| "strncmp_eq (Suc n) (a # as) (b # bs) = (a = b \<and> (a = 0 \<or> strncmp_eq n as bs))"
| "strncmp_eq (Suc n) _ _ = False"

text \<open>
  \<open>qemu_strsep\<close> with a single delimiter: the token and, if the delimiter ended it, what follows.
  \<open>None\<close> when the memory ends before the string does.
\<close>

definition qemu_strsep :: "u8 \<Rightarrow> bytes \<Rightarrow> (bytes \<times> bytes option) option" where
  "qemu_strsep d mem =
     (let tok = takeWhile (\<lambda>b. b \<noteq> 0 \<and> b \<noteq> d) mem
      in case drop (length tok) mem of [] \<Rightarrow> None
         | b # rest \<Rightarrow> Some (tok, if b = 0 then None else Some rest))"

subsection \<open>Lemmas\<close>

lemma qemu_strsep_shorter [termination_simp]:
  "qemu_strsep d mem = Some (tok, Some rest) \<Longrightarrow> length rest < length mem"
proof -
  assume "qemu_strsep d mem = Some (tok, Some rest)"
  then obtain b where "drop (length tok) mem = b # rest"
    by (auto simp: qemu_strsep_def Let_def split: list.splits if_splits)
  then have "length (drop (length tok) mem) = Suc (length rest)" by simp
  then show ?thesis by simp
qed

lemma qemu_strsep_append:
  "0 \<notin> set s \<Longrightarrow> d \<notin> set s \<Longrightarrow> b = 0 \<or> b = d \<Longrightarrow>
   qemu_strsep d (s @ b # rest) = Some (s, if b = 0 then None else Some rest)"
proof -
  assume s: "0 \<notin> set s" "d \<notin> set s" "b = 0 \<or> b = d"
  have "takeWhile (\<lambda>x. x \<noteq> 0 \<and> x \<noteq> d) (s @ b # rest) = s"
    using s by (subst takeWhile_append2) auto
  then show ?thesis using s by (simp add: qemu_strsep_def)
qed

lemma c_string_nul [simp]: "0 \<notin> set s \<Longrightarrow> c_string (s @ 0 # rest) = s"
  unfolding c_string_def by (subst takeWhile_append2) auto

lemma c_string_self [simp]: "0 \<notin> set s \<Longrightarrow> c_string s = s"
  by (auto simp: c_string_def takeWhile_eq_all_conv)

lemma zero_notin_c_string [simp]: "0 \<notin> set (c_string mem)"
  by (auto simp: c_string_def dest: set_takeWhileD)

lemma length_strncpy [simp]: "length (strncpy n src) = n"
  by (simp add: strncpy_def)

lemma strncpy_short: "0 \<notin> set s \<Longrightarrow> length s \<le> n \<Longrightarrow> strncpy n s = s @ replicate (n - length s) 0"
  by (simp add: strncpy_def)

lemma strnlen_le: "strnlen mem n \<le> n"
  using length_takeWhile_le [of "\<lambda>b. b \<noteq> 0" "take n mem"] by (simp add: strnlen_def)

lemma strncmp_eq_iff:
  "0 \<notin> set s \<Longrightarrow> 0 \<notin> set t \<Longrightarrow> strncmp_eq (Suc (length s)) (s @ [0]) (t @ [0]) \<longleftrightarrow> s = t"
proof (induction s arbitrary: t)
  case Nil
  then show ?case by (cases t) auto
next
  case (Cons a s)
  then show ?case by (cases t) auto
qed

end
