(* ===== verification/Dt.thy ===== *)
theory Dt
  imports Cstrings Interfaces "HOL-Library.AList" "HOL-Library.Multiset"
begin

text \<open>
  The device tree, \<open>hw/arm/apple-silicon/dt.c\<close>: properties and nodes, lookup by path, the flat format
  the boot loader hands over and the guest reads. A property table is an association list with
  distinct keys. The order in which the hash table is iterated is the function \<open>ord\<close>, and the number
  parser of GLib is the function \<open>stl\<close>; both are arguments. A node pointer is the list of child
  positions that leads to the node. Buffers are byte lists with an offset; an access past their end is
  a fault.
\<close>

subsection \<open>Data\<close>

abbreviation (input) "APPLE_DT_PROP_NAME_LEN \<equiv> 32 :: nat"
abbreviation (input) "APPLE_DT_PROP_PLACEHOLDER \<equiv> BIT 31 :: u32"

record AppleDTProp =
  p_len :: u32
  placeholder :: bool
  p_data :: bytes

type_synonym dt_props = "(bytes \<times> AppleDTProp) list"

datatype AppleDTNode = DTNode (props: dt_props) (children: "AppleDTNode list") (finalised: bool)

text \<open>\<open>Error **\<close> arguments: none, the two global ones, or one of the caller.\<close>

datatype errp = ErrNull | ErrFatal | ErrWarn | ErrLocal

text \<open>\<open>error_setg\<close>: whether the caller's error is set.\<close>

definition error_setg :: "errp \<Rightarrow> bool res" where
  "error_setg e = (case e of ErrFatal \<Rightarrow> Inl FatalError | ErrLocal \<Rightarrow> Inr True | _ \<Rightarrow> Inr False)"

definition ROUND_UP4 :: "u32 \<Rightarrow> u32" where
  "ROUND_UP4 n = (n + 4 - 1) AND - 4"

fun set_props :: "dt_props \<Rightarrow> AppleDTNode \<Rightarrow> AppleDTNode" where
  "set_props ps (DTNode _ ks f) = DTNode ps ks f"

fun set_children :: "AppleDTNode list \<Rightarrow> AppleDTNode \<Rightarrow> AppleDTNode" where
  "set_children ks (DTNode ps _ f) = DTNode ps ks f"

subsection \<open>Properties\<close>

definition apple_dt_new_node :: AppleDTNode where
  "apple_dt_new_node = DTNode [] [] False"

definition apple_dt_get_prop :: "AppleDTNode \<Rightarrow> bytes \<Rightarrow> AppleDTProp option" where
  "apple_dt_get_prop node name = map_of (props node) name"

definition apple_dt_del_prop_named :: "AppleDTNode \<Rightarrow> bytes \<Rightarrow> bool \<times> AppleDTNode" where
  "apple_dt_del_prop_named node name =
     (apple_dt_get_prop node name \<noteq> None, set_props (AList.delete name (props node)) node)"

text \<open>\<open>val\<close> is \<open>None\<close> for a null pointer, else the memory it points to.\<close>

definition apple_dt_set_prop :: "AppleDTNode \<Rightarrow> bytes \<Rightarrow> u32 \<Rightarrow> bytes option \<Rightarrow> AppleDTNode res" where
  "apple_dt_set_prop node name len val =
     (if \<not> length name < APPLE_DT_PROP_NAME_LEN then Inl AssertFailed
      else if (case apple_dt_get_prop node name of None \<Rightarrow> finalised node
               | Some prop \<Rightarrow> finalised node \<and> p_len prop \<noteq> len) then Inl AssertFailed
      else case val of
          None \<Rightarrow> Inr (set_props (AList.update name
                    \<lparr>p_len = len, placeholder = False, p_data = replicate (unat len) 0\<rparr> (props node)) node)
        | Some mem \<Rightarrow>
            if length mem < unat len then Inl OutOfBounds
            else Inr (set_props (AList.update name
                   \<lparr>p_len = len, placeholder = False, p_data = take (unat len) mem\<rparr> (props node)) node))"

definition apple_dt_set_prop_null :: "AppleDTNode \<Rightarrow> bytes \<Rightarrow> AppleDTNode res" where
  "apple_dt_set_prop_null node name = apple_dt_set_prop node name 0 None"

definition apple_dt_set_prop_u32 :: "AppleDTNode \<Rightarrow> bytes \<Rightarrow> u32 \<Rightarrow> AppleDTNode res" where
  "apple_dt_set_prop_u32 node name val = apple_dt_set_prop node name 4 (Some (to_le 4 val))"

definition apple_dt_set_prop_u64 :: "AppleDTNode \<Rightarrow> bytes \<Rightarrow> u64 \<Rightarrow> AppleDTNode res" where
  "apple_dt_set_prop_u64 node name val = apple_dt_set_prop node name 8 (Some (to_le 8 val))"

definition apple_dt_set_prop_str :: "AppleDTNode \<Rightarrow> bytes \<Rightarrow> bytes \<Rightarrow> AppleDTNode res" where
  "apple_dt_set_prop_str node name val =
     apple_dt_set_prop node name (of_nat (length val + 1)) (Some (val @ [0]))"

definition apple_dt_set_prop_strn :: "AppleDTNode \<Rightarrow> bytes \<Rightarrow> u32 \<Rightarrow> bytes \<Rightarrow> AppleDTNode res" where
  "apple_dt_set_prop_strn node name max_len val =
     apple_dt_set_prop node name max_len (Some (strncpy (unat max_len) val))"

subsection \<open>Reading properties\<close>

definition apple_dt_get_prop_str_full ::
  "AppleDTNode \<Rightarrow> bytes \<Rightarrow> bytes option \<Rightarrow> errp \<Rightarrow> errp \<Rightarrow> (bytes option \<times> bool) res" where
  "apple_dt_get_prop_str_full node name default_s missing_errp invalid_errp =
     (case apple_dt_get_prop node name of
        None \<Rightarrow> rbind (error_setg missing_errp) (\<lambda>e. Inr (default_s, e))
      | Some prop \<Rightarrow>
          if p_len prop = 0 \<or> p_data prop ! (unat (p_len prop) - 1) \<noteq> 0
          then rbind (error_setg invalid_errp) (\<lambda>e. Inr (default_s, e))
          else Inr (Some (c_string (p_data prop)), False))"

text \<open>\<open>g_strdup\<close> copies the string.\<close>

definition apple_dt_get_prop_strdup_full ::
  "AppleDTNode \<Rightarrow> bytes \<Rightarrow> bytes option \<Rightarrow> errp \<Rightarrow> errp \<Rightarrow> (bytes option \<times> bool) res" where
  "apple_dt_get_prop_strdup_full node name default_s missing_errp invalid_errp =
     apple_dt_get_prop_str_full node name default_s missing_errp invalid_errp"

definition apple_dt_missing_errp_from_errp :: "errp \<Rightarrow> errp" where
  "apple_dt_missing_errp_from_errp errp = (if errp = ErrNull \<or> errp = ErrWarn then ErrFatal else errp)"

definition apple_dt_get_prop_str :: "AppleDTNode \<Rightarrow> bytes \<Rightarrow> errp \<Rightarrow> (bytes option \<times> bool) res" where
  "apple_dt_get_prop_str node name errp =
     apple_dt_get_prop_str_full node name None (apple_dt_missing_errp_from_errp errp) errp"

definition apple_dt_get_prop_strdup :: "AppleDTNode \<Rightarrow> bytes \<Rightarrow> errp \<Rightarrow> (bytes option \<times> bool) res" where
  "apple_dt_get_prop_strdup node name errp =
     apple_dt_get_prop_strdup_full node name None (apple_dt_missing_errp_from_errp errp) errp"

definition apple_dt_get_prop_str_or ::
  "AppleDTNode \<Rightarrow> bytes \<Rightarrow> bytes option \<Rightarrow> errp \<Rightarrow> (bytes option \<times> bool) res" where
  "apple_dt_get_prop_str_or node name default_s errp =
     apple_dt_get_prop_str_full node name default_s ErrNull errp"

definition apple_dt_get_prop_strdup_or ::
  "AppleDTNode \<Rightarrow> bytes \<Rightarrow> bytes option \<Rightarrow> errp \<Rightarrow> (bytes option \<times> bool) res" where
  "apple_dt_get_prop_strdup_or node name default_s errp =
     apple_dt_get_prop_strdup_full node name default_s ErrNull errp"

text \<open>\<open>DEFINE_GET_PROP_INT\<close>: a property of \<open>n\<close> bytes as an unsigned integer.\<close>

definition get_prop_int ::
  "nat \<Rightarrow> AppleDTNode \<Rightarrow> bytes \<Rightarrow> 'a::len word \<Rightarrow> errp \<Rightarrow> errp \<Rightarrow> ('a word \<times> bool) res" where
  "get_prop_int n node name default_val missing_errp invalid_errp =
     (case apple_dt_get_prop node name of
        None \<Rightarrow> rbind (error_setg missing_errp) (\<lambda>e. Inr (default_val, e))
      | Some prop \<Rightarrow>
          rbind (if unat (p_len prop) = n then Inr False
                 else if unat (p_len prop) < n then error_setg ErrFatal
                 else error_setg invalid_errp)
            (\<lambda>e. Inr (of_le (take n (p_data prop)), e)))"

definition apple_dt_get_prop_u8_or :: "AppleDTNode \<Rightarrow> bytes \<Rightarrow> u8 \<Rightarrow> errp \<Rightarrow> (u8 \<times> bool) res" where
  "apple_dt_get_prop_u8_or node name default_val invalid_errp =
     get_prop_int 1 node name default_val ErrNull invalid_errp"

definition apple_dt_get_prop_u16_or :: "AppleDTNode \<Rightarrow> bytes \<Rightarrow> u16 \<Rightarrow> errp \<Rightarrow> (u16 \<times> bool) res" where
  "apple_dt_get_prop_u16_or node name default_val invalid_errp =
     get_prop_int 2 node name default_val ErrNull invalid_errp"

definition apple_dt_get_prop_u32_or :: "AppleDTNode \<Rightarrow> bytes \<Rightarrow> u32 \<Rightarrow> errp \<Rightarrow> (u32 \<times> bool) res" where
  "apple_dt_get_prop_u32_or node name default_val invalid_errp =
     get_prop_int 4 node name default_val ErrNull invalid_errp"

definition apple_dt_get_prop_u64_or :: "AppleDTNode \<Rightarrow> bytes \<Rightarrow> u64 \<Rightarrow> errp \<Rightarrow> (u64 \<times> bool) res" where
  "apple_dt_get_prop_u64_or node name default_val invalid_errp =
     get_prop_int 8 node name default_val ErrNull invalid_errp"

definition apple_dt_get_prop_u8 :: "AppleDTNode \<Rightarrow> bytes \<Rightarrow> errp \<Rightarrow> (u8 \<times> bool) res" where
  "apple_dt_get_prop_u8 node name errp =
     get_prop_int 1 node name 0 (apple_dt_missing_errp_from_errp errp) errp"

definition apple_dt_get_prop_u16 :: "AppleDTNode \<Rightarrow> bytes \<Rightarrow> errp \<Rightarrow> (u16 \<times> bool) res" where
  "apple_dt_get_prop_u16 node name errp =
     get_prop_int 2 node name 0 (apple_dt_missing_errp_from_errp errp) errp"

definition apple_dt_get_prop_u32 :: "AppleDTNode \<Rightarrow> bytes \<Rightarrow> errp \<Rightarrow> (u32 \<times> bool) res" where
  "apple_dt_get_prop_u32 node name errp =
     get_prop_int 4 node name 0 (apple_dt_missing_errp_from_errp errp) errp"

definition apple_dt_get_prop_u64 :: "AppleDTNode \<Rightarrow> bytes \<Rightarrow> errp \<Rightarrow> (u64 \<times> bool) res" where
  "apple_dt_get_prop_u64 node name errp =
     get_prop_int 8 node name 0 (apple_dt_missing_errp_from_errp errp) errp"

subsection \<open>Nodes\<close>

definition child_matches :: "bytes \<Rightarrow> AppleDTNode \<Rightarrow> bool" where
  "child_matches token child =
     (case apple_dt_get_prop child (cs ''name'') of None \<Rightarrow> False
      | Some prop \<Rightarrow> strncmp_eq (unat (p_len prop)) (p_data prop) (token @ [0]))"

fun find_index :: "('a \<Rightarrow> bool) \<Rightarrow> 'a list \<Rightarrow> nat option" where
  "find_index P [] = None"
| "find_index P (x # xs) = (if P x then Some 0 else map_option Suc (find_index P xs))"

text \<open>The loop of \<open>apple_dt_get_node\<close>: \<open>next\<close> is the rest of the path; the slash is character 47.\<close>

function get_node_loop :: "AppleDTNode \<Rightarrow> bytes option \<Rightarrow> nat list option" where
  "get_node_loop node None = Some []"
| "get_node_loop node (Some mem) =
     (case qemu_strsep 47 mem of None \<Rightarrow> None
      | Some (token, next) \<Rightarrow>
          if token = [] then get_node_loop node next
          else case find_index (child_matches token) (children node) of None \<Rightarrow> None
               | Some i \<Rightarrow> map_option (Cons i) (get_node_loop (children node ! i) next))"
  by pat_completeness auto
termination
  by (relation "measure (\<lambda>(_, next). case next of None \<Rightarrow> 0 | Some mem \<Rightarrow> Suc (length mem))")
    (auto split: option.splits dest: qemu_strsep_shorter)

definition apple_dt_get_node :: "AppleDTNode \<Rightarrow> bytes \<Rightarrow> nat list option" where
  "apple_dt_get_node node path = get_node_loop node (Some (path @ [0]))"

fun node_at :: "AppleDTNode \<Rightarrow> nat list \<Rightarrow> AppleDTNode" where
  "node_at node [] = node"
| "node_at node (i # is) = node_at (children node ! i) is"

text \<open>The tree after the node at a position was changed in place.\<close>

fun put_node_at :: "AppleDTNode \<Rightarrow> nat list \<Rightarrow> AppleDTNode \<Rightarrow> AppleDTNode" where
  "put_node_at node [] new = new"
| "put_node_at node (i # is) new =
     set_children ((children node)[i := put_node_at (children node ! i) is new]) node"

text \<open>
  A new root, or a new child: the parent and the position of the child, or no child when the name is
  missing or taken.
\<close>

definition dt_node_named :: "bytes option \<Rightarrow> AppleDTNode res" where
  "dt_node_named name =
     (case name of None \<Rightarrow> Inr apple_dt_new_node
      | Some nm \<Rightarrow> apple_dt_set_prop_str apple_dt_new_node (cs ''name'') nm)"

definition apple_dt_node_new ::
  "AppleDTNode option \<Rightarrow> bytes option \<Rightarrow> (AppleDTNode option \<times> AppleDTNode option) res" where
  "apple_dt_node_new parent name =
     (case parent of
        None \<Rightarrow> rbind (dt_node_named name) (\<lambda>node. Inr (None, Some node))
      | Some p \<Rightarrow>
          if finalised p then Inl AssertFailed
          else if name = None \<or> apple_dt_get_node p (the name) \<noteq> None then Inr (Some p, None)
          else rbind (dt_node_named name)
            (\<lambda>node. Inr (Some (set_children (children p @ [node]) p), Some node)))"

text \<open>
  \<open>g_list_remove\<close> finds only a direct child; a node further down is freed while its parent keeps the
  pointer.
\<close>

definition apple_dt_del_node :: "AppleDTNode \<Rightarrow> nat list \<Rightarrow> AppleDTNode res" where
  "apple_dt_del_node parent node =
     (if node = [] then Inl AssertFailed
      else if finalised parent then Inl AssertFailed
      else if finalised (node_at parent node) then Inl AssertFailed
      else case node of
          [i] \<Rightarrow> Inr (set_children (take i (children parent) @ drop (Suc i) (children parent)) parent)
        | _ \<Rightarrow> Inl UseAfterFree)"

definition apple_dt_del_node_named :: "AppleDTNode \<Rightarrow> bytes \<Rightarrow> (bool \<times> AppleDTNode) res" where
  "apple_dt_del_node_named parent name =
     (case apple_dt_get_node parent name of
        None \<Rightarrow> Inr (False, parent)
      | Some node \<Rightarrow> rbind (apple_dt_del_node parent node) (\<lambda>p. Inr (True, p)))"

subsection \<open>Reading the flat format\<close>

definition apple_dt_deserialise_prop :: "bytes \<Rightarrow> (bytes \<times> AppleDTProp \<times> bytes) res" where
  "apple_dt_deserialise_prop blob =
     (if length blob < APPLE_DT_PROP_NAME_LEN + 4 then Inl OutOfBounds
      else let name = take (strnlen blob (APPLE_DT_PROP_NAME_LEN - 1)) blob;
               len = of_le (bslice APPLE_DT_PROP_NAME_LEN 4 blob) :: u32;
               ph = len AND APPLE_DT_PROP_PLACEHOLDER \<noteq> 0;
               len = (if ph then len AND NOT APPLE_DT_PROP_PLACEHOLDER else len);
               blob = drop (APPLE_DT_PROP_NAME_LEN + 4) blob
        in if len = 0 then Inr (name, \<lparr>p_len = len, placeholder = ph, p_data = []\<rparr>, blob)
           else if length blob < unat len then Inl OutOfBounds
           else Inr (name, \<lparr>p_len = len, placeholder = ph, p_data = take (unat len) blob\<rparr>,
                     drop (unat (ROUND_UP4 len)) blob))"

fun deserialise_props :: "nat \<Rightarrow> bytes \<Rightarrow> dt_props \<Rightarrow> (dt_props \<times> bytes) res" where
  "deserialise_props 0 blob ps = Inr (ps, blob)"
| "deserialise_props (Suc n) blob ps =
     rbind (apple_dt_deserialise_prop blob)
       (\<lambda>(key, prop, blob). deserialise_props n blob (AList.update key prop ps))"

text \<open>
  The recursion of \<open>apple_dt_deserialise_node\<close>, with fuel for its depth: \<open>None\<close> is fuel that did not
  suffice.
\<close>

function apple_dt_deserialise_node :: "nat \<Rightarrow> bytes \<Rightarrow> (AppleDTNode \<times> bytes) res option"
  and deserialise_children :: "nat \<Rightarrow> nat \<Rightarrow> bytes \<Rightarrow> (AppleDTNode list \<times> bytes) res option" where
  "apple_dt_deserialise_node 0 blob = None"
| "apple_dt_deserialise_node (Suc fuel) blob =
     (if length blob < 8 then Some (Inl OutOfBounds)
      else case deserialise_props (unat (of_le (bslice 0 4 blob) :: u32)) (drop 8 blob) [] of
          Inl e \<Rightarrow> Some (Inl e)
        | Inr (ps, blob') \<Rightarrow>
            map_option (map_sum id (\<lambda>(ks, blob''). (DTNode ps ks False, blob'')))
              (deserialise_children fuel (unat (of_le (bslice 4 4 blob) :: u32)) blob'))"
| "deserialise_children fuel 0 blob = Some (Inr ([], blob))"
| "deserialise_children fuel (Suc n) blob =
     (case apple_dt_deserialise_node fuel blob of
        None \<Rightarrow> None
      | Some (Inl e) \<Rightarrow> Some (Inl e)
      | Some (Inr (child, blob')) \<Rightarrow>
          map_option (map_sum id (\<lambda>(ks, blob''). (child # ks, blob''))) (deserialise_children fuel n blob'))"
  by pat_completeness auto
termination
  by (relation "measures [case_sum (\<lambda>(f, _). f) (\<lambda>(f, _, _). f), case_sum (\<lambda>_. 0) (\<lambda>(_, n, _). Suc n)]") auto

definition apple_dt_deserialise :: "bytes \<Rightarrow> AppleDTNode res option" where
  "apple_dt_deserialise blob = map_option (map_sum id fst) (apple_dt_deserialise_node (Suc (length blob)) blob)"

subsection \<open>Writing the flat format\<close>

text \<open>
  The tokens of a placeholder, separated by commas (character 44). The scan runs on when the data
  holds no terminator.
\<close>

definition syscfg_len :: "(bytes \<Rightarrow> u64) \<Rightarrow> bytes \<Rightarrow> u32" where
  "syscfg_len stl token = (if length token < 12 \<or> token ! 11 \<noteq> 47 then 0 else ucast (stl (drop 12 token)))"

function placeholder_scan :: "(bytes \<Rightarrow> u64) \<Rightarrow> bytes option \<Rightarrow> u32 res" where
  "placeholder_scan stl None = Inr 0"
| "placeholder_scan stl (Some mem) =
     (case qemu_strsep 44 mem of None \<Rightarrow> Inl OutOfBounds
      | Some (token, next) \<Rightarrow>
          if token = [] then placeholder_scan stl next
          else if take 8 token = cs ''macaddr/'' then Inr 6
          else if take 7 token = cs ''syscfg/'' then
            if syscfg_len stl token = 0 then placeholder_scan stl next else Inr (syscfg_len stl token)
          else if take 7 token = cs ''zeroes/'' then
            if (ucast (stl (drop 7 token)) :: u32) = 0 then placeholder_scan stl next
            else Inr (ucast (stl (drop 7 token)))
          else placeholder_scan stl next)"
  by pat_completeness auto
termination
  by (relation "measure (\<lambda>(_, next). case next of None \<Rightarrow> 0 | Some mem \<Rightarrow> Suc (length mem))")
    (auto split: option.splits dest: qemu_strsep_shorter)

definition apple_dt_prop_placeholder_len :: "(bytes \<Rightarrow> u64) \<Rightarrow> AppleDTProp \<Rightarrow> u32 res" where
  "apple_dt_prop_placeholder_len stl prop =
     (if p_len prop = 0 then Inr 0 else placeholder_scan stl (Some (take (unat (p_len prop)) (p_data prop))))"

text \<open>Storing at the current position, and stepping over bytes that keep what they hold.\<close>

definition dt_put :: "bytes \<Rightarrow> nat \<times> bytes \<Rightarrow> (nat \<times> bytes) res" where
  "dt_put bs = (\<lambda>(off, buf).
     if off + length bs \<le> length buf then Inr (off + length bs, blit off bs buf) else Inl OutOfBounds)"

definition dt_put_data :: "bytes \<Rightarrow> u32 \<Rightarrow> nat \<times> bytes \<Rightarrow> (nat \<times> bytes) res" where
  "dt_put_data data len = (\<lambda>(off, buf).
     if length data < unat len then Inl OutOfBounds
     else rbind (dt_put (take (unat len) data) (off, buf))
       (\<lambda>(_, buf). Inr (off + unat (ROUND_UP4 len), buf)))"

text \<open>One property; the number of properties written (none for a placeholder that is removed).\<close>

definition serialise_prop ::
  "(bytes \<Rightarrow> u64) \<Rightarrow> bytes \<times> AppleDTProp \<Rightarrow> nat \<times> bytes \<Rightarrow> (nat \<times> nat \<times> bytes) res" where
  "serialise_prop stl = (\<lambda>(key, prop) st.
     if placeholder prop then
       rbind (apple_dt_prop_placeholder_len stl prop) (\<lambda>len.
         if len = 0 then Inr (0, st)
         else rbind (dt_put (strncpy APPLE_DT_PROP_NAME_LEN key) st) (\<lambda>st.
           rbind (dt_put (to_le 4 len) st) (\<lambda>st.
             rbind (dt_put_data (replicate (unat len) 0) len st) (\<lambda>st. Inr (1, st)))))
     else
       rbind (dt_put (strncpy APPLE_DT_PROP_NAME_LEN key) st) (\<lambda>st.
         rbind (dt_put (to_le 4 (p_len prop)) st) (\<lambda>st.
           if p_len prop = 0 then Inr (1, st)
           else rbind (dt_put_data (p_data prop) (p_len prop) st) (\<lambda>st. Inr (1, st)))))"

fun serialise_props ::
  "(bytes \<Rightarrow> u64) \<Rightarrow> dt_props \<Rightarrow> u32 \<Rightarrow> nat \<times> bytes \<Rightarrow> (u32 \<times> nat \<times> bytes) res" where
  "serialise_props stl [] prop_count st = Inr (prop_count, st)"
| "serialise_props stl (kp # kps) prop_count st =
     rbind (serialise_prop stl kp st) (\<lambda>(n, st). serialise_props stl kps (prop_count + of_nat n) st)"

fun apple_dt_serialise_node ::
  "(dt_props \<Rightarrow> dt_props) \<Rightarrow> (bytes \<Rightarrow> u64) \<Rightarrow> AppleDTNode \<Rightarrow> nat \<times> bytes \<Rightarrow> (nat \<times> bytes) res"
  and serialise_children ::
  "(dt_props \<Rightarrow> dt_props) \<Rightarrow> (bytes \<Rightarrow> u64) \<Rightarrow> AppleDTNode list \<Rightarrow> nat \<times> bytes \<Rightarrow> (nat \<times> bytes) res" where
  "apple_dt_serialise_node ord stl (DTNode ps ks fin) (prop_count_buf, buf) =
     (if \<not> fin then Inl AssertFailed
      else rbind (dt_put (to_le 4 (of_nat (length ks) :: u32)) (prop_count_buf + 4, buf)) (\<lambda>st.
        rbind (serialise_props stl (ord ps) 0 st) (\<lambda>(prop_count, off, buf).
          rbind (dt_put (to_le 4 prop_count) (prop_count_buf, buf)) (\<lambda>(_, buf).
            serialise_children ord stl ks (off, buf)))))"
| "serialise_children ord stl [] st = Inr st"
| "serialise_children ord stl (k # ks) st =
     rbind (apple_dt_serialise_node ord stl k st) (serialise_children ord stl ks)"

definition apple_dt_serialise ::
  "(dt_props \<Rightarrow> dt_props) \<Rightarrow> (bytes \<Rightarrow> u64) \<Rightarrow> AppleDTNode \<Rightarrow> bytes \<Rightarrow> bytes res" where
  "apple_dt_serialise ord stl root buf =
     rbind (apple_dt_serialise_node ord stl root (0, buf)) (\<lambda>(_, buf). Inr buf)"

definition apple_dt_prop_serialised_len :: "(bytes \<Rightarrow> u64) \<Rightarrow> AppleDTProp \<Rightarrow> u64 res" where
  "apple_dt_prop_serialised_len stl prop =
     (if placeholder prop then
        rbind (apple_dt_prop_placeholder_len stl prop) (\<lambda>len.
          if len = 0 then Inr 0 else Inr (of_nat APPLE_DT_PROP_NAME_LEN + 4 + ucast (ROUND_UP4 len)))
      else Inr (of_nat APPLE_DT_PROP_NAME_LEN + 4 + ucast (ROUND_UP4 (p_len prop))))"

fun props_serialised_len :: "(bytes \<Rightarrow> u64) \<Rightarrow> dt_props \<Rightarrow> u64 \<Rightarrow> u64 res" where
  "props_serialised_len stl [] len = Inr len"
| "props_serialised_len stl ((_, prop) # kps) len =
     rbind (apple_dt_prop_serialised_len stl prop) (\<lambda>l. props_serialised_len stl kps (len + l))"

fun apple_dt_finalise ::
  "(dt_props \<Rightarrow> dt_props) \<Rightarrow> (bytes \<Rightarrow> u64) \<Rightarrow> AppleDTNode \<Rightarrow> (u64 \<times> AppleDTNode) res"
  and finalise_children ::
  "(dt_props \<Rightarrow> dt_props) \<Rightarrow> (bytes \<Rightarrow> u64) \<Rightarrow> AppleDTNode list \<Rightarrow> u64 \<Rightarrow> (u64 \<times> AppleDTNode list) res" where
  "apple_dt_finalise ord stl (DTNode ps ks fin) =
     (if fin then Inl AssertFailed
      else rbind (props_serialised_len stl (ord ps) (4 + 4)) (\<lambda>len.
        rbind (finalise_children ord stl ks len) (\<lambda>(len, ks). Inr (len, DTNode ps ks True))))"
| "finalise_children ord stl [] len = Inr (len, [])"
| "finalise_children ord stl (k # ks) len =
     rbind (apple_dt_finalise ord stl k) (\<lambda>(l, k).
       rbind (finalise_children ord stl ks (len + l)) (\<lambda>(len, ks). Inr (len, k # ks)))"

fun apple_dt_unfinalise :: "AppleDTNode \<Rightarrow> AppleDTNode" where
  "apple_dt_unfinalise (DTNode ps ks _) = DTNode ps (map apple_dt_unfinalise ks) False"

subsection \<open>What a tree looks like to the guest\<close>

text \<open>
  The data of a property in the flat format: a placeholder becomes zero bytes, or is removed. The
  expanded tree is what a reader of the flat format gets.
\<close>

definition prop_image :: "(bytes \<Rightarrow> u64) \<Rightarrow> AppleDTProp \<Rightarrow> bytes option" where
  "prop_image stl p =
     (if placeholder p then
        case apple_dt_prop_placeholder_len stl p of Inl _ \<Rightarrow> None
          | Inr l \<Rightarrow> if l = 0 then None else Some (replicate (unat l) 0)
      else Some (p_data p))"

definition plain_prop :: "bytes \<Rightarrow> AppleDTProp" where
  "plain_prop d = \<lparr>p_len = of_nat (length d), placeholder = False, p_data = d\<rparr>"

fun expand_props :: "(bytes \<Rightarrow> u64) \<Rightarrow> dt_props \<Rightarrow> dt_props" where
  "expand_props stl [] = []"
| "expand_props stl ((k, p) # kps) =
     (case prop_image stl p of None \<Rightarrow> expand_props stl kps | Some d \<Rightarrow> (k, plain_prop d) # expand_props stl kps)"

fun dt_expand :: "(dt_props \<Rightarrow> dt_props) \<Rightarrow> (bytes \<Rightarrow> u64) \<Rightarrow> AppleDTNode \<Rightarrow> AppleDTNode" where
  "dt_expand ord stl (DTNode ps ks _) = DTNode (expand_props stl (ord ps)) (map (dt_expand ord stl) ks) False"

text \<open>Sizes in the flat format: data is padded to a multiple of four.\<close>

definition rup :: "nat \<Rightarrow> nat" where
  "rup n = (n + 3) div 4 * 4"

definition image_len :: "(bytes \<Rightarrow> u64) \<Rightarrow> AppleDTProp \<Rightarrow> nat" where
  "image_len stl p = (case prop_image stl p of None \<Rightarrow> 0 | Some d \<Rightarrow> 36 + rup (length d))"

fun node_len :: "(bytes \<Rightarrow> u64) \<Rightarrow> AppleDTNode \<Rightarrow> nat" where
  "node_len stl (DTNode ps ks _) =
     8 + sum_list (map (\<lambda>kp. image_len stl (snd kp)) ps) + sum_list (map (node_len stl) ks)"

text \<open>
  Well-formed trees: property names are C strings of less than 32 characters and occur once, the data
  has the stated length, which leaves the placeholder bit free, and placeholders are terminated.
\<close>

definition dt_prop_ok :: "(bytes \<Rightarrow> u64) \<Rightarrow> bytes \<times> AppleDTProp \<Rightarrow> bool" where
  "dt_prop_ok stl kp \<longleftrightarrow> 0 \<notin> set (fst kp) \<and> length (fst kp) < 32 \<and>
     length (p_data (snd kp)) = unat (p_len (snd kp)) \<and> unat (p_len (snd kp)) < 2 ^ 31 \<and>
     (placeholder (snd kp) \<longrightarrow>
        (case apple_dt_prop_placeholder_len stl (snd kp) of Inl _ \<Rightarrow> False | Inr l \<Rightarrow> unat l < 2 ^ 31))"

fun dt_wf :: "(bytes \<Rightarrow> u64) \<Rightarrow> AppleDTNode \<Rightarrow> bool" where
  "dt_wf stl (DTNode ps ks _) \<longleftrightarrow> list_all (dt_prop_ok stl) ps \<and> distinct (map fst ps) \<and>
     length ps < 2 ^ 32 \<and> length ks < 2 ^ 32 \<and> list_all (dt_wf stl) ks"

fun all_finalised :: "bool \<Rightarrow> AppleDTNode \<Rightarrow> bool" where
  "all_finalised b (DTNode ps ks f) \<longleftrightarrow> f = b \<and> list_all (all_finalised b) ks"

lemma rup_ge [simp]: "n \<le> rup n"
  unfolding rup_def by presburger

lemma rup_0 [simp]: "rup 0 = 0"
  by (simp add: rup_def)

lemma unat_ROUND_UP4: "unat w \<le> 2 ^ 32 - 4 \<Longrightarrow> unat (ROUND_UP4 w) = rup (unat w)"
proof -
  assume w: "unat w \<le> 2 ^ 32 - 4"
  have "(- 4 :: u32) = NOT (mask 2)" by (simp add: mask_eq_exp_minus_1 not_eq_complement)
  then have "ROUND_UP4 w = push_bit 2 (drop_bit 2 (w + 3))"
    unfolding ROUND_UP4_def by (simp only: and_not_mask_eq) (simp add: add.commute)
  moreover have "unat (w + 3) = unat w + 3" using w by (simp add: unat_word_ariths)
  ultimately have "unat (ROUND_UP4 w) = take_bit 32 (push_bit 2 (drop_bit 2 (unat w + 3)))"
    using w by (simp only: unsigned_push_bit_eq unsigned_drop_bit_eq) (simp add: take_bit_nat_eq_self)
  moreover have "(unat w + 3) div 4 * 4 < 2 ^ 32" using w by simp
  ultimately show ?thesis
    by (simp add: rup_def push_bit_eq_mult drop_bit_eq_div take_bit_nat_eq_self)
qed

lemma image_data:
  "dt_prop_ok stl (k, p) \<Longrightarrow> prop_image stl p = Some d \<Longrightarrow> length d < 2 ^ 31"
  by (auto simp: dt_prop_ok_def prop_image_def split: if_splits sum.splits)

subsection \<open>Writing\<close>

lemma blit_front:
  "off + length a + length b \<le> length buf \<Longrightarrow> blit off a (blit (off + length a) b buf) = blit off (a @ b) buf"
  by (simp add: blit_def min_def ac_simps)

lemma blit_keep:
  "off + length a + k \<le> length buf \<Longrightarrow> blit off (a @ bslice (off + length a) k buf) buf = blit off a buf"
  by (simp add: blit_def bslice_def min_def)
    (metis (no_types, lifting) add.assoc append_take_drop_id drop_drop add.commute)

definition entry_bytes :: "bytes \<Rightarrow> bytes \<Rightarrow> bytes \<Rightarrow> bytes" where
  "entry_bytes k d pad = strncpy 32 k @ to_le 4 (of_nat (length d) :: u32) @ d @ pad"

lemma length_entry: "length pad = rup (length d) - length d \<Longrightarrow> length (entry_bytes k d pad) = 36 + rup (length d)"
  using rup_ge [of "length d"] by (simp add: entry_bytes_def)

lemma dt_put_eq: "off + length bs \<le> length buf \<Longrightarrow> dt_put bs (off, buf) = Inr (off + length bs, blit off bs buf)"
  by (simp add: dt_put_def)

lemma put_header:
  assumes "off + 36 \<le> length buf"
  shows "rbind (dt_put (strncpy 32 k) (off, buf)) (\<lambda>st. rbind (dt_put (to_le 4 (len :: u32)) st) f) =
     f (off + 36, blit off (strncpy 32 k @ to_le 4 len) buf)"
  using assms blit_blit [of off "strncpy 32 k" "to_le 4 len" buf] by (simp add: dt_put_eq) (simp add: add.commute)

lemma put_entry:
  assumes "length d = unat len" "unat len \<le> 2 ^ 32 - 4" "off + 36 + rup (length d) \<le> length buf"
  shows "\<exists>pad. length pad = rup (length d) - length d \<and>
     rbind (dt_put (strncpy 32 k) (off, buf)) (\<lambda>st. rbind (dt_put (to_le 4 len) st) (dt_put_data d len)) =
     Inr (off + 36 + rup (length d), blit off (entry_bytes k d pad) buf)"
proof -
  let ?h = "strncpy 32 k @ to_le 4 len"
  let ?pad = "bslice (off + 36 + length d) (rup (length d) - length d) buf"
  have le: "length d \<le> rup (length d)" by simp
  then have fit: "off + 36 + length d \<le> length buf" using assms(3) by linarith
  then have "dt_put d (off + 36, blit off ?h buf) = Inr (off + 36 + length d, blit off (?h @ d) buf)"
    using blit_blit [of off ?h d buf] by (simp add: dt_put_eq)
  then have "dt_put_data d len (off + 36, blit off ?h buf) =
      Inr (off + 36 + rup (length d), blit off (?h @ d) buf)"
    using assms unat_ROUND_UP4 [of len] by (simp add: dt_put_data_def del: rbind_eq_Inr)
  moreover have "blit off (entry_bytes k d ?pad) buf = blit off (?h @ d) buf"
    using blit_keep [of off "?h @ d" "rup (length d) - length d" buf] assms le
    by (simp add: entry_bytes_def add.assoc)
  moreover have "length ?pad = rup (length d) - length d" using assms le by simp
  ultimately show ?thesis using put_header [of off buf k len "dt_put_data d len"] assms by (intro exI [of _ ?pad]) simp
qed

text \<open>The bytes of properties and of trees, with any padding.\<close>

fun props_img :: "(bytes \<Rightarrow> u64) \<Rightarrow> dt_props \<Rightarrow> bytes \<Rightarrow> bool" where
  "props_img stl [] bs \<longleftrightarrow> bs = []"
| "props_img stl ((k, p) # kps) bs \<longleftrightarrow>
     (case prop_image stl p of None \<Rightarrow> props_img stl kps bs
      | Some d \<Rightarrow> \<exists>pad rest. bs = entry_bytes k d pad @ rest \<and> length pad = rup (length d) - length d \<and>
                    props_img stl kps rest)"

definition props_len :: "(bytes \<Rightarrow> u64) \<Rightarrow> dt_props \<Rightarrow> nat" where
  "props_len stl kps = sum_list (map (\<lambda>kp. image_len stl (snd kp)) kps)"

lemma props_len_simps [simp]:
  "props_len stl [] = 0" "props_len stl (kp # kps) = image_len stl (snd kp) + props_len stl kps"
  by (simp_all add: props_len_def)

lemma serialise_prop_image:
  assumes "dt_prop_ok stl (k, p)" "off + image_len stl p \<le> length buf"
  shows "case prop_image stl p of None \<Rightarrow> serialise_prop stl (k, p) (off, buf) = Inr (0, off, buf)
         | Some d \<Rightarrow> \<exists>pad. length pad = rup (length d) - length d \<and>
             serialise_prop stl (k, p) (off, buf) =
               Inr (1, off + image_len stl p, blit off (entry_bytes k d pad) buf)"
proof (cases "placeholder p")
  case True
  then obtain l where l: "apple_dt_prop_placeholder_len stl p = Inr l" "unat l < 2 ^ 31"
    using assms(1) by (auto simp: dt_prop_ok_def split: sum.splits)
  show ?thesis
  proof (cases "l = 0")
    case False
    let ?d = "replicate (unat l) (0 :: u8)"
    have i: "prop_image stl p = Some ?d" using True l False by (simp add: prop_image_def)
    then obtain pad where "length pad = rup (length ?d) - length ?d"
      "rbind (dt_put (strncpy 32 k) (off, buf)) (\<lambda>st. rbind (dt_put (to_le 4 l) st) (dt_put_data ?d l)) =
       Inr (off + 36 + rup (length ?d), blit off (entry_bytes k ?d pad) buf)"
      using put_entry [of ?d l off buf k] l assms(2) by (auto simp: image_len_def)
    then show ?thesis using True l False i
      by (auto simp: serialise_prop_def image_len_def rbind_assoc [symmetric] intro!: exI [of _ pad])
  qed (use True l in \<open>simp add: serialise_prop_def prop_image_def\<close>)
next
  case False
  then have i: "prop_image stl p = Some (p_data p)" by (simp add: prop_image_def)
  have d: "length (p_data p) = unat (p_len p)" "unat (p_len p) < 2 ^ 31" using assms(1) by (simp_all add: dt_prop_ok_def)
  show ?thesis
  proof (cases "p_len p = 0")
    case True
    then show ?thesis using False i d put_header [of off buf k 0] assms(2)
      by (simp add: serialise_prop_def image_len_def entry_bytes_def del: rbind_eq_Inr)
  next
    case nz: False
    obtain pad where "length pad = rup (length (p_data p)) - length (p_data p)"
      "rbind (dt_put (strncpy 32 k) (off, buf)) (\<lambda>st. rbind (dt_put (to_le 4 (p_len p)) st) (dt_put_data (p_data p) (p_len p))) =
       Inr (off + 36 + rup (length (p_data p)), blit off (entry_bytes k (p_data p) pad) buf)"
      using put_entry [of "p_data p" "p_len p" off buf k] d assms(2) i by (auto simp: image_len_def)
    then show ?thesis using False nz i
      by (auto simp: serialise_prop_def image_len_def rbind_assoc [symmetric] intro!: exI [of _ pad])
  qed
qed

lemma props_img_len:
  "props_img stl kps bs \<Longrightarrow> length bs = props_len stl kps"
proof (induction kps arbitrary: bs)
  case (Cons kp kps)
  then show ?case by (cases kp) (auto simp: image_len_def length_entry split: option.splits)
qed simp

lemma serialise_props_img:
  assumes "list_all (dt_prop_ok stl) kps" "off + props_len stl kps \<le> length buf"
  shows "\<exists>bs. props_img stl kps bs \<and>
     serialise_props stl kps c (off, buf) =
       Inr (c + of_nat (length (expand_props stl kps)), off + props_len stl kps, blit off bs buf)"
  using assms
proof (induction kps arbitrary: c off buf)
  case Nil
  then show ?case by (simp add: blit_def)
next
  case (Cons kp kps)
  obtain k p where kp: "kp = (k, p)" by (cases kp)
  have ok: "dt_prop_ok stl (k, p)" "off + image_len stl p \<le> length buf" using Cons.prems kp by simp_all
  note sp = serialise_prop_image [OF ok]
  show ?case
  proof (cases "prop_image stl p")
    case None
    then show ?thesis using sp Cons.IH [of off buf c] Cons.prems kp by (simp add: image_len_def)
  next
    case (Some d)
    then obtain pad where pad: "length pad = rup (length d) - length d"
      "serialise_prop stl (k, p) (off, buf) = Inr (1, off + image_len stl p, blit off (entry_bytes k d pad) buf)"
      using sp by auto
    let ?e = "entry_bytes k d pad"
    have len: "length ?e = image_len stl p" using pad Some by (simp add: image_len_def length_entry)
    obtain bs where bs: "props_img stl kps bs"
      "serialise_props stl kps (c + 1) (off + image_len stl p, blit off ?e buf) =
       Inr (c + 1 + of_nat (length (expand_props stl kps)), off + image_len stl p + props_len stl kps,
            blit (off + image_len stl p) bs (blit off ?e buf))"
      using Cons.IH [of "off + image_len stl p" "blit off ?e buf" "c + 1"] Cons.prems kp len by auto
    have "blit (off + image_len stl p) bs (blit off ?e buf) = blit off (?e @ bs) buf"
      using blit_blit [of off ?e bs buf] len props_img_len [OF bs(1)] Cons.prems kp by simp
    then show ?thesis using bs pad Some kp by (intro exI [of _ "?e @ bs"]) (auto simp: ac_simps)
  qed
qed

fun node_img :: "(dt_props \<Rightarrow> dt_props) \<Rightarrow> (bytes \<Rightarrow> u64) \<Rightarrow> AppleDTNode \<Rightarrow> bytes \<Rightarrow> bool"
  and nodes_img :: "(dt_props \<Rightarrow> dt_props) \<Rightarrow> (bytes \<Rightarrow> u64) \<Rightarrow> AppleDTNode list \<Rightarrow> bytes \<Rightarrow> bool" where
  "node_img ord stl (DTNode ps ks _) bs \<longleftrightarrow>
     (\<exists>pbs cbs. bs = to_le 4 (of_nat (length (expand_props stl (ord ps))) :: u32) @
                     to_le 4 (of_nat (length ks) :: u32) @ pbs @ cbs \<and>
        props_img stl (ord ps) pbs \<and> nodes_img ord stl ks cbs)"
| "nodes_img ord stl [] bs \<longleftrightarrow> bs = []"
| "nodes_img ord stl (k # ks) bs \<longleftrightarrow>
     (\<exists>a b. bs = a @ b \<and> node_img ord stl k a \<and> nodes_img ord stl ks b)"

text \<open>The order of iteration only permutes the table.\<close>

definition perm_order :: "(dt_props \<Rightarrow> dt_props) \<Rightarrow> bool" where
  "perm_order ord \<longleftrightarrow> (\<forall>ps. mset (ord ps) = mset ps)"

lemma perm_order_props:
  assumes "perm_order ord"
  shows "props_len stl (ord ps) = props_len stl ps" "set (ord ps) = set ps" "length (ord ps) = length ps"
    "list_all P (ord ps) = list_all P ps" "distinct (map fst (ord ps)) = distinct (map fst ps)"
proof -
  have m: "mset (ord ps) = mset ps" using assms by (simp add: perm_order_def)
  show "set (ord ps) = set ps" "length (ord ps) = length ps" using m mset_eq_setD mset_eq_length by blast+
  then show "list_all P (ord ps) = list_all P ps" by (simp add: list_all_iff)
  have "mset (map (\<lambda>kp. image_len stl (snd kp)) (ord ps)) = mset (map (\<lambda>kp. image_len stl (snd kp)) ps)"
    using m by simp
  then show "props_len stl (ord ps) = props_len stl ps" unfolding props_len_def by (metis sum_mset_sum_list)
  have "mset (map fst (ord ps)) = mset (map fst ps)" using m by simp
  then show "distinct (map fst (ord ps)) = distinct (map fst ps)" by (metis mset_eq_imp_distinct_iff)
qed

lemma nodes_img_len:
  "(\<And>k bs. k \<in> set ks \<Longrightarrow> node_img ord stl k bs \<Longrightarrow> length bs = node_len stl k) \<Longrightarrow>
   nodes_img ord stl ks cbs \<Longrightarrow> length cbs = sum_list (map (node_len stl) ks)"
  by (induction ks arbitrary: cbs) fastforce+

lemma node_img_len:
  assumes "perm_order ord"
  shows "node_img ord stl n bs \<Longrightarrow> length bs = node_len stl n"
proof (induction n arbitrary: bs)
  case (DTNode ps ks f)
  then obtain pbs cbs where "length bs = 8 + length pbs + length cbs" "props_img stl (ord ps) pbs" "nodes_img ord stl ks cbs"
    by auto
  then show ?case using nodes_img_len [of ks ord stl cbs] DTNode.IH props_img_len perm_order_props(1) [OF assms]
    by (simp add: props_len_def)
qed

text \<open>
  A finalised tree is written as its image, of exactly the computed size, wherever it fits; nothing
  else of the buffer changes.
\<close>

definition writes :: "(dt_props \<Rightarrow> dt_props) \<Rightarrow> (bytes \<Rightarrow> u64) \<Rightarrow> AppleDTNode \<Rightarrow> bool" where
  "writes ord stl n \<longleftrightarrow> (\<forall>off buf. off + node_len stl n \<le> length buf \<longrightarrow>
     (\<exists>bs. node_img ord stl n bs \<and> length bs = node_len stl n \<and>
        apple_dt_serialise_node ord stl n (off, buf) = Inr (off + node_len stl n, blit off bs buf)))"

lemma writesD:
  "writes ord stl n \<Longrightarrow> off + node_len stl n \<le> length buf \<Longrightarrow>
   \<exists>bs. node_img ord stl n bs \<and> length bs = node_len stl n \<and>
     apple_dt_serialise_node ord stl n (off, buf) = Inr (off + node_len stl n, blit off bs buf)"
  by (simp add: writes_def)

lemma serialise_children_img:
  assumes "\<And>k. k \<in> set ks \<Longrightarrow> writes ord stl k" "off + sum_list (map (node_len stl) ks) \<le> length buf"
  shows "\<exists>bs. nodes_img ord stl ks bs \<and> length bs = sum_list (map (node_len stl) ks) \<and>
     serialise_children ord stl ks (off, buf) = Inr (off + sum_list (map (node_len stl) ks), blit off bs buf)"
  using assms
proof (induction ks arbitrary: off buf)
  case Nil
  then show ?case by (simp add: blit_def)
next
  case (Cons k ks)
  have "off + node_len stl k \<le> length buf" using Cons.prems(2) by simp
  then obtain a where a: "node_img ord stl k a" "length a = node_len stl k"
      "apple_dt_serialise_node ord stl k (off, buf) = Inr (off + node_len stl k, blit off a buf)"
    using Cons.prems(1) [of k] unfolding writes_def by auto
  obtain b where b: "nodes_img ord stl ks b" "length b = sum_list (map (node_len stl) ks)"
      "serialise_children ord stl ks (off + node_len stl k, blit off a buf) =
       Inr (off + node_len stl k + sum_list (map (node_len stl) ks), blit (off + node_len stl k) b (blit off a buf))"
    using Cons.IH [of "off + node_len stl k" "blit off a buf"] Cons.prems a(2) by auto
  have "blit (off + node_len stl k) b (blit off a buf) = blit off (a @ b) buf"
    using blit_blit [of off a b buf] a(2) b(2) Cons.prems(2) by simp
  then show ?case using a b by (intro exI [of _ "a @ b"]) (auto simp: ac_simps)
qed

lemma serialise_node_img:
  assumes "perm_order ord" "dt_wf stl n" "all_finalised True n"
  shows "writes ord stl n"
  using assms(2,3)
proof (induction n)
  case (DTNode ps ks f)
  have kids: "writes ord stl k" if "k \<in> set ks" for k
    using DTNode.IH [OF that] DTNode.prems that by (auto simp: list_all_iff)
  have f: "f" and ok: "list_all (dt_prop_ok stl) (ord ps)"
    using DTNode.prems perm_order_props(4) [OF assms(1)] by simp_all
  let ?c = "of_nat (length (expand_props stl (ord ps))) :: u32" and ?h = "to_le 4 (of_nat (length ks) :: u32)"
  let ?p = "props_len stl ps" and ?k = "sum_list (map (node_len stl) ks)"
  show ?case unfolding writes_def
  proof (intro allI impI)
    fix off and buf :: bytes
    assume "off + node_len stl (DTNode ps ks f) \<le> length buf"
    then have fit: "off + 8 + ?p + ?k \<le> length buf" by (simp add: props_len_def)
    let ?b1 = "blit (off + 4) ?h buf"
    have h: "dt_put ?h (off + 4, buf) = Inr (off + 8, ?b1)" using fit by (simp add: dt_put_eq)
    obtain pbs where p: "props_img stl (ord ps) pbs"
        "serialise_props stl (ord ps) 0 (off + 8, ?b1) = Inr (?c, off + 8 + ?p, blit (off + 8) pbs ?b1)"
      using serialise_props_img [OF ok, of "off + 8" ?b1 0] fit perm_order_props(1) [OF assms(1)] by auto
    have lp: "length pbs = ?p" using props_img_len [OF p(1)] perm_order_props(1) [OF assms(1)] by simp
    let ?b2 = "blit (off + 4) (?h @ pbs) buf"
    have b2: "blit (off + 8) pbs ?b1 = ?b2" using blit_blit [of "off + 4" ?h pbs buf] lp fit by (simp add: add.commute)
    let ?b3 = "blit off (to_le 4 ?c @ ?h @ pbs) buf"
    have b3: "dt_put (to_le 4 ?c) (off, ?b2) = Inr (off + 4, ?b3)"
      using blit_front [of off "to_le 4 ?c" "?h @ pbs" buf] lp fit by (simp add: dt_put_eq)
    obtain cbs where c: "nodes_img ord stl ks cbs" "length cbs = ?k"
        "serialise_children ord stl ks (off + 8 + ?p, ?b3) = Inr (off + 8 + ?p + ?k, blit (off + 8 + ?p) cbs ?b3)"
      using serialise_children_img [of ks ord stl "off + 8 + ?p" ?b3] kids lp fit by auto
    have "blit (off + 8 + ?p) cbs ?b3 = blit off ((to_le 4 ?c @ ?h @ pbs) @ cbs) buf"
      using blit_blit [of off "to_le 4 ?c @ ?h @ pbs" cbs buf] lp c(2) fit by (simp add: ac_simps)
    then show "\<exists>bs. node_img ord stl (DTNode ps ks f) bs \<and> length bs = node_len stl (DTNode ps ks f) \<and>
        apple_dt_serialise_node ord stl (DTNode ps ks f) (off, buf) =
          Inr (off + node_len stl (DTNode ps ks f), blit off bs buf)"
      using f h p b2 b3 c lp
      by (intro exI [of _ "(to_le 4 ?c @ ?h @ pbs) @ cbs"]) (auto simp: props_len_def ac_simps)
  qed
qed

subsection \<open>Sizes\<close>

fun dt_mark :: "AppleDTNode \<Rightarrow> AppleDTNode" where
  "dt_mark (DTNode ps ks _) = DTNode ps (map dt_mark ks) True"

lemma prop_serialised_len:
  assumes "dt_prop_ok stl (k, p)"
  shows "apple_dt_prop_serialised_len stl p = Inr (of_nat (image_len stl p))"
proof -
  have u: "(ucast (ROUND_UP4 l) :: u64) = of_nat (rup (unat l))" if "unat l < 2 ^ 31" for l
  proof -
    have "unat (ROUND_UP4 l) = rup (unat l)" using that by (intro unat_ROUND_UP4) simp
    then show ?thesis by (metis of_nat_unat)
  qed
  show ?thesis
  proof (cases "placeholder p")
    case True
    then obtain l where "apple_dt_prop_placeholder_len stl p = Inr l" "unat l < 2 ^ 31"
      using assms by (auto simp: dt_prop_ok_def split: sum.splits)
    then show ?thesis using True u [of l] by (simp add: apple_dt_prop_serialised_len_def image_len_def prop_image_def)
  next
    case False
    then show ?thesis using assms u [of "p_len p"]
      by (simp add: apple_dt_prop_serialised_len_def image_len_def prop_image_def dt_prop_ok_def)
  qed
qed

lemma props_serialised_len:
  "list_all (dt_prop_ok stl) kps \<Longrightarrow> props_serialised_len stl kps len = Inr (len + of_nat (props_len stl kps))"
proof (induction kps arbitrary: len)
  case (Cons kp kps)
  then show ?case using prop_serialised_len [of stl "fst kp" "snd kp"] by (cases kp) (simp add: ac_simps del: rbind_eq_Inr)
qed simp

lemma finalise_children_len:
  "(\<And>k. k \<in> set ks \<Longrightarrow> apple_dt_finalise ord stl k = Inr (of_nat (node_len stl k), dt_mark k)) \<Longrightarrow>
   finalise_children ord stl ks len = Inr (len + of_nat (sum_list (map (node_len stl) ks)), map dt_mark ks)"
  by (induction ks arbitrary: len) (auto simp: ac_simps)

lemma finalise_len:
  assumes "perm_order ord" "dt_wf stl n" "all_finalised False n"
  shows "apple_dt_finalise ord stl n = Inr (of_nat (node_len stl n), dt_mark n)"
  using assms(2,3)
proof (induction n)
  case (DTNode ps ks f)
  have "list_all (dt_prop_ok stl) (ord ps)" using DTNode.prems perm_order_props(4) [OF assms(1)] by simp
  then have "props_serialised_len stl (ord ps) 8 = Inr (8 + of_nat (props_len stl ps))"
    by (simp add: props_serialised_len perm_order_props(1) [OF assms(1)])
  moreover have "finalise_children ord stl ks len = Inr (len + of_nat (sum_list (map (node_len stl) ks)), map dt_mark ks)" for len
    using DTNode.IH DTNode.prems by (intro finalise_children_len) (auto simp: list_all_iff)
  ultimately show ?case using DTNode.prems(2) by (simp add: props_len_def ac_simps)
qed

lemma dt_mark_simps [simp]:
  "node_len stl (dt_mark n) = node_len stl n" "dt_wf stl (dt_mark n) = dt_wf stl n"
  "all_finalised True (dt_mark n)" "dt_expand ord stl (dt_mark n) = dt_expand ord stl n"
proof (induction n)
  case (DTNode ps ks f)
  {
    case 1
    show ?case using DTNode(1) by (simp add: comp_def cong: map_cong)
  next
    case 2
    show ?case using DTNode(2) by (auto simp: list_all_iff)
  next
    case 3
    show ?case using DTNode(3) by (auto simp: list_all_iff)
  next
    case 4
    show ?case using DTNode(4) by simp
  }
qed

subsection \<open>Reading back\<close>

lemma update_new: "k \<notin> fst ` set ps \<Longrightarrow> AList.update k v ps = ps @ [(k, v)]"
  by (induction ps) auto

lemma fst_expand: "fst ` set (expand_props stl kps) \<subseteq> fst ` set kps"
  by (induction stl kps rule: expand_props.induct) (auto split: option.splits)

lemma length_expand: "length (expand_props stl kps) \<le> length kps"
  by (induction stl kps rule: expand_props.induct) (auto split: option.splits)

lemma no_bit31: "n < 2 ^ 31 \<Longrightarrow> (of_nat n :: u32) AND BIT 31 = 0"
proof -
  assume "n < 2 ^ 31"
  then have "\<not> bit n 31" by (simp add: bit_iff_odd)
  then show ?thesis by (simp add: and_BIT_eq_0 bit_of_nat_iff)
qed

lemma take_entry_name:
  assumes "0 \<notin> set k" "length k < 32"
  shows "take (strnlen (strncpy 32 k @ rest) 31) (strncpy 32 k @ rest) = k"
proof -
  have e: "take 31 (strncpy 32 k @ rest) = k @ replicate (31 - length k) 0"
    using assms by (simp add: strncpy_short min_def)
  have "takeWhile (\<lambda>b. b \<noteq> 0) (k @ replicate (31 - length k) 0) = k"
    using assms(1) by (subst takeWhile_append2) (auto simp: takeWhile_eq_Nil_iff)
  then have "strnlen (strncpy 32 k @ rest) 31 = length k" unfolding strnlen_def e by simp
  then show ?thesis using assms by (simp add: strncpy_short)
qed

lemma deserialise_entry:
  assumes "0 \<notin> set k" "length k < 32" "length d < 2 ^ 31" "length pad = rup (length d) - length d"
  shows "apple_dt_deserialise_prop (entry_bytes k d pad @ rest) = Inr (k, plain_prop d, rest)"
proof -
  let ?n = "of_nat (length d) :: u32"
  have n: "unat ?n = length d" using assms(3) by (simp add: unsigned_of_nat take_bit_nat_eq_self)
  then have z: "?n = 0 \<longleftrightarrow> d = []" by (metis length_0_conv unsigned_eq_0_iff)
  have "unat (ROUND_UP4 ?n) = length d + length pad"
    using unat_ROUND_UP4 [of ?n] n assms(3,4) by simp
  moreover have "bslice 32 4 (entry_bytes k d pad @ rest) = to_le 4 ?n"
    by (simp add: bslice_def entry_bytes_def)
  moreover have "take (strnlen (entry_bytes k d pad @ rest) 31) (entry_bytes k d pad @ rest) = k"
    unfolding entry_bytes_def append_assoc by (rule take_entry_name [OF assms(1,2)])
  moreover have "drop 36 (entry_bytes k d pad @ rest) = d @ pad @ rest" by (simp add: entry_bytes_def)
  ultimately show ?thesis using assms n z no_bit31 [OF assms(3)]
    by (auto simp: apple_dt_deserialise_prop_def Let_def plain_prop_def entry_bytes_def)
qed

lemma deserialise_props_img:
  assumes "list_all (dt_prop_ok stl) kps" "distinct (map fst kps)" "fst ` set ps \<inter> fst ` set kps = {}"
    and "props_img stl kps bs"
  shows "deserialise_props (length (expand_props stl kps)) (bs @ rest) ps = Inr (ps @ expand_props stl kps, rest)"
  using assms
proof (induction kps arbitrary: ps bs)
  case (Cons kp kps)
  obtain k p where kp: "kp = (k, p)" by (cases kp)
  show ?case
  proof (cases "prop_image stl p")
    case None
    then show ?thesis using Cons.IH [of ps bs] Cons.prems kp by auto
  next
    case (Some d)
    then obtain pad tl where b: "bs = entry_bytes k d pad @ tl" "length pad = rup (length d) - length d" "props_img stl kps tl"
      using Cons.prems(4) kp by auto
    have ok: "dt_prop_ok stl (k, p)" using Cons.prems(1) kp by simp
    have "apple_dt_deserialise_prop (entry_bytes k d pad @ tl @ rest) = Inr (k, plain_prop d, tl @ rest)"
      using ok image_data [OF ok Some] b(2) by (intro deserialise_entry) (simp_all add: dt_prop_ok_def)
    moreover have "AList.update k (plain_prop d) ps = ps @ [(k, plain_prop d)]"
      using Cons.prems(3) kp by (intro update_new) auto
    moreover have "fst ` set (ps @ [(k, plain_prop d)]) \<inter> fst ` set kps = {}"
      using Cons.prems(2,3) kp by auto
    ultimately show ?thesis using Cons.IH [of "ps @ [(k, plain_prop d)]" tl] Cons.prems Some b kp
      by (simp del: rbind_eq_Inr)
  qed
qed simp

definition reads :: "(dt_props \<Rightarrow> dt_props) \<Rightarrow> (bytes \<Rightarrow> u64) \<Rightarrow> AppleDTNode \<Rightarrow> bool" where
  "reads ord stl n \<longleftrightarrow> (\<forall>fuel bs rest. node_img ord stl n bs \<longrightarrow> length bs \<le> fuel \<longrightarrow>
     apple_dt_deserialise_node fuel (bs @ rest) = Some (Inr (dt_expand ord stl n, rest)))"

lemma deserialise_children_img:
  "(\<And>k. k \<in> set ks \<Longrightarrow> reads ord stl k) \<Longrightarrow> nodes_img ord stl ks bs \<Longrightarrow> length bs \<le> fuel \<Longrightarrow>
   deserialise_children fuel (length ks) (bs @ rest) = Some (Inr (map (dt_expand ord stl) ks, rest))"
proof (induction ks arbitrary: bs)
  case (Cons k ks)
  then obtain a b where ab: "bs = a @ b" "node_img ord stl k a" "nodes_img ord stl ks b" by auto
  then have "apple_dt_deserialise_node fuel (a @ b @ rest) = Some (Inr (dt_expand ord stl k, b @ rest))"
    using Cons.prems unfolding reads_def by simp
  then show ?case using Cons.IH [of b] Cons.prems ab by simp
qed simp

lemma deserialise_node_img:
  assumes "perm_order ord" "dt_wf stl n"
  shows "reads ord stl n"
  using assms(2)
proof (induction n)
  case (DTNode ps ks f)
  have kids: "reads ord stl k" if "k \<in> set ks" for k
    using DTNode.IH [OF that] DTNode.prems that by (auto simp: list_all_iff)
  note o = perm_order_props [OF assms(1)]
  have ok: "list_all (dt_prop_ok stl) (ord ps)" "distinct (map fst (ord ps))" using DTNode.prems o(4,5) by simp_all
  have le: "length (expand_props stl (ord ps)) < 2 ^ 32" "length ks < 2 ^ 32"
    using DTNode.prems length_expand [of stl "ord ps"] o(3) [of ps] by simp_all
  let ?c = "of_nat (length (expand_props stl (ord ps))) :: u32" and ?k = "of_nat (length ks) :: u32"
  have n: "unat ?c = length (expand_props stl (ord ps))" "unat ?k = length ks"
    using le by (simp_all add: unsigned_of_nat take_bit_nat_eq_self)
  show ?case unfolding reads_def
  proof (intro allI impI)
    fix fuel bs rest
    assume "node_img ord stl (DTNode ps ks f) bs" and fuel: "length bs \<le> fuel"
    then obtain pbs cbs where b: "bs = to_le 4 ?c @ to_le 4 ?k @ pbs @ cbs" "props_img stl (ord ps) pbs" "nodes_img ord stl ks cbs"
      by auto
    then obtain fu where fu: "fuel = Suc fu" "length cbs \<le> fu" using fuel by (cases fuel) auto
    have "deserialise_props (length (expand_props stl (ord ps))) (pbs @ cbs @ rest) [] = Inr (expand_props stl (ord ps), cbs @ rest)"
      using deserialise_props_img [OF ok _ b(2), of "[]" "cbs @ rest"] by simp
    then show "apple_dt_deserialise_node fuel (bs @ rest) = Some (Inr (dt_expand ord stl (DTNode ps ks f), rest))"
      using deserialise_children_img [OF kids b(3) fu(2), of rest] b(1) fu(1) n
      by (simp add: bslice_def)
  qed
qed

subsection \<open>Reading ends\<close>

lemma deserialise_prop_shorter:
  "apple_dt_deserialise_prop blob = Inr (k, p, rest) \<Longrightarrow> length rest < length blob"
  by (auto simp: apple_dt_deserialise_prop_def Let_def split: if_splits)

lemma deserialise_props_shorter:
  "deserialise_props n blob ps = Inr (ps', rest) \<Longrightarrow> length rest \<le> length blob"
proof (induction n arbitrary: blob ps)
  case (Suc n)
  then show ?case by (fastforce dest: deserialise_prop_shorter)
qed simp

lemma deserialise_returns:
  "length blob < fuel \<Longrightarrow> \<exists>r. apple_dt_deserialise_node fuel blob = Some r \<and>
     (\<forall>n rest. r = Inr (n, rest) \<longrightarrow> length rest < length blob)"
  "length blob < fuel \<Longrightarrow> \<exists>r. deserialise_children fuel n blob = Some r \<and>
     (\<forall>ks rest. r = Inr (ks, rest) \<longrightarrow> length rest \<le> length blob)"
proof (induction fuel blob and fuel n blob rule: apple_dt_deserialise_node_deserialise_children.induct)
  case (2 fuel blob)
  show ?case
  proof (cases "length blob < 8")
    case True
    then show ?thesis by simp
  next
    case False
    let ?p = "deserialise_props (unat (of_le (bslice 0 4 blob) :: u32)) (drop 8 blob) []"
    show ?thesis
    proof (cases ?p)
      case (Inl e)
      then show ?thesis using False by simp
    next
      case (Inr r)
      obtain ps blob' where r: "r = (ps, blob')" by (cases r)
      then have len: "length blob' < fuel" "length blob' < length blob"
        using deserialise_props_shorter [of _ "drop 8 blob" "[]" ps blob'] Inr False 2(2) by fastforce+
      then obtain q where q: "deserialise_children fuel (unat (of_le (bslice 4 4 blob) :: u32)) blob' = Some q"
          "\<forall>ks rest. q = Inr (ks, rest) \<longrightarrow> length rest \<le> length blob'"
        using 2(1) [OF False Inr r [symmetric]] by blast
      then show ?thesis using False Inr r len(2) by (cases q) auto
    qed
  qed
next
  case (4 fuel n blob)
  then obtain r where r: "apple_dt_deserialise_node fuel blob = Some r"
      "\<forall>m rest. r = Inr (m, rest) \<longrightarrow> length rest < length blob" by blast
  show ?case
  proof (cases r)
    case (Inl e)
    then show ?thesis using r by simp
  next
    case (Inr c)
    obtain child blob' where c: "c = (child, blob')" by (cases c)
    then have "length blob' < fuel" "length blob' < length blob" using r(2) Inr 4(3) by auto
    then obtain q where "deserialise_children fuel n blob' = Some q" "\<forall>ks rest. q = Inr (ks, rest) \<longrightarrow> length rest \<le> length blob'"
      using 4(2) [OF r(1) Inr c [symmetric]] by blast
    then show ?thesis using r Inr c \<open>length blob' < length blob\<close> by (cases q) auto
  qed
qed auto

text \<open>
  What a reader gets from any blob: open nodes, property names that are short C strings and occur
  once, and data of the stated length, which leaves the placeholder bit free.
\<close>

definition read_prop_ok :: "bytes \<times> AppleDTProp \<Rightarrow> bool" where
  "read_prop_ok kp \<longleftrightarrow> 0 \<notin> set (fst kp) \<and> length (fst kp) < 32 \<and>
     length (p_data (snd kp)) = unat (p_len (snd kp)) \<and> unat (p_len (snd kp)) < 2 ^ 31"

fun dt_read_ok :: "AppleDTNode \<Rightarrow> bool" where
  "dt_read_ok (DTNode ps ks f) \<longleftrightarrow> \<not> f \<and> list_all read_prop_ok ps \<and> distinct (map fst ps) \<and> list_all dt_read_ok ks"

lemma strnlen_name: "0 \<notin> set (take (strnlen blob n) blob) \<and> length (take (strnlen blob n) blob) \<le> n"
proof -
  have "take (length (takeWhile P (take n xs))) xs = takeWhile P (take n xs)" for P and xs :: bytes
    using takeWhile_eq_take [of P "take n xs"] length_takeWhile_le [of P "take n xs"] by (metis length_take min.bounded_iff min_absorb1 take_take)
  then show ?thesis using strnlen_le [of blob n] by (auto simp: strnlen_def dest: set_takeWhileD)
qed

lemma placeholder_free: "\<not> bit (w :: u32) 31 \<Longrightarrow> unat w < 2 ^ 31"
proof -
  assume "\<not> bit w 31"
  then have "take_bit 31 w = w" by (intro bit_word_eqI) (auto simp: bit_simps less_Suc_eq numeral_eq_Suc)
  moreover have "unat (take_bit 31 w) < 2 ^ 31" unfolding unsigned_take_bit_eq by (rule take_bit_nat_less_exp)
  ultimately show ?thesis by simp
qed

lemma deserialise_prop_ok:
  "apple_dt_deserialise_prop blob = Inr (k, p, rest) \<Longrightarrow> read_prop_ok (k, p)"
  "apple_dt_deserialise_prop blob = Inl e \<Longrightarrow> e = OutOfBounds"
proof -
  have a: "unat (w AND NOT (BIT 31)) < 2 ^ 31" for w :: u32 by (rule placeholder_free) (simp add: bit_simps)
  have b: "w AND BIT 31 = 0 \<Longrightarrow> unat w < 2 ^ 31" for w :: u32 by (rule placeholder_free) (simp add: and_BIT_eq_0)
  show "apple_dt_deserialise_prop blob = Inr (k, p, rest) \<Longrightarrow> read_prop_ok (k, p)"
    using strnlen_name [of blob 31] a b unfolding apple_dt_deserialise_prop_def read_prop_ok_def Let_def
    by (auto split: if_splits)
  show "apple_dt_deserialise_prop blob = Inl e \<Longrightarrow> e = OutOfBounds"
    by (auto simp: apple_dt_deserialise_prop_def Let_def split: if_splits)
qed

lemma list_all_update: "list_all P ps \<Longrightarrow> P (k, v) \<Longrightarrow> list_all P (AList.update k v ps)"
  by (induction ps) auto

lemma deserialise_props_ok:
  assumes "list_all read_prop_ok ps" "distinct (map fst ps)"
  shows "case deserialise_props n blob ps of Inl e \<Rightarrow> e = OutOfBounds
    | Inr (ps', _) \<Rightarrow> list_all read_prop_ok ps' \<and> distinct (map fst ps')"
  using assms
proof (induction n arbitrary: blob ps)
  case (Suc n)
  show ?case
  proof (cases "apple_dt_deserialise_prop blob")
    case (Inl e)
    then show ?thesis using deserialise_prop_ok(2) by simp
  next
    case (Inr r)
    obtain k p rest where r: "r = (k, p, rest)" by (cases r)
    have "list_all read_prop_ok (AList.update k p ps)"
      using list_all_update [OF Suc.prems(1)] deserialise_prop_ok(1) Inr r by blast
    then show ?thesis using Suc.IH [of "AList.update k p ps" rest] distinct_update [OF Suc.prems(2)] Inr r by simp
  qed
qed simp

lemma deserialise_ok:
  "apple_dt_deserialise_node fuel blob = Some r \<Longrightarrow> case r of Inl e \<Rightarrow> e = OutOfBounds | Inr (n, _) \<Rightarrow> dt_read_ok n"
  "deserialise_children fuel m blob = Some q \<Longrightarrow> case q of Inl e \<Rightarrow> e = OutOfBounds | Inr (ks, _) \<Rightarrow> list_all dt_read_ok ks"
proof (induction fuel blob and fuel m blob arbitrary: r and q rule: apple_dt_deserialise_node_deserialise_children.induct)
  case (2 fuel blob)
  let ?p = "deserialise_props (unat (of_le (bslice 0 4 blob) :: u32)) (drop 8 blob) []"
  have p: "case ?p of Inl e \<Rightarrow> e = OutOfBounds | Inr (ps', _) \<Rightarrow> list_all read_prop_ok ps' \<and> distinct (map fst ps')"
    by (rule deserialise_props_ok) simp_all
  show ?case
  proof (cases "length blob < 8 \<or> (\<exists>e. ?p = Inl e)")
    case True
    then show ?thesis using 2(2) p by (auto split: if_splits)
  next
    case False
    then obtain ps blob' where i: "?p = Inr (ps, blob')" by (cases ?p) auto
    then obtain q where q: "deserialise_children fuel (unat (of_le (bslice 4 4 blob) :: u32)) blob' = Some q"
        "r = map_sum id (\<lambda>(ks, blob''). (DTNode ps ks False, blob'')) q"
      using 2(2) False by auto
    then have "case q of Inl e \<Rightarrow> e = OutOfBounds | Inr (ks, _) \<Rightarrow> list_all dt_read_ok ks"
      using 2(1) [OF _ i refl] False by blast
    then show ?thesis using q(2) i p by (cases q) auto
  qed
next
  case (4 fuel n blob)
  obtain c where c: "apple_dt_deserialise_node fuel blob = Some c" using 4(3) by (auto split: option.splits)
  have ok: "case c of Inl e \<Rightarrow> e = OutOfBounds | Inr (k, _) \<Rightarrow> dt_read_ok k" using 4(1) [OF c] .
  show ?case
  proof (cases c)
    case (Inl e)
    then show ?thesis using 4(3) c ok by auto
  next
    case (Inr d)
    obtain child blob' where d: "d = (child, blob')" by (cases d)
    then obtain q' where q: "deserialise_children fuel n blob' = Some q'" "q = map_sum id (\<lambda>(ks, blob''). (child # ks, blob'')) q'"
      using 4(3) c Inr by auto
    then have "case q' of Inl e \<Rightarrow> e = OutOfBounds | Inr (ks, _) \<Rightarrow> list_all dt_read_ok ks"
      using 4(2) [OF c Inr d [symmetric]] by blast
    then show ?thesis using q(2) ok Inr d by (cases q') auto
  qed
qed auto

subsection \<open>Properties\<close>

text \<open>The property table of an open node is a keyed store.\<close>

definition dt_get :: "AppleDTNode \<Rightarrow> bytes \<Rightarrow> bytes option" where
  "dt_get n k = map_option p_data (apple_dt_get_prop n k)"

definition dt_set :: "bytes \<Rightarrow> bytes \<Rightarrow> AppleDTNode \<Rightarrow> AppleDTNode" where
  "dt_set k v n = projr (apple_dt_set_prop n k (of_nat (length v)) (Some v))"

definition dt_entry_ok :: "bytes \<Rightarrow> bytes \<Rightarrow> bool" where
  "dt_entry_ok k v \<longleftrightarrow> length k < 32 \<and> length v < 2 ^ 32"

lemma set_props_simps [simp]:
  "props (set_props ps n) = ps" "children (set_props ps n) = children n" "finalised (set_props ps n) = finalised n"
  by (cases n; simp)+

lemma set_children_simps [simp]:
  "props (set_children ks n) = props n" "children (set_children ks n) = ks" "finalised (set_children ks n) = finalised n"
  by (cases n; simp)+

lemma set_prop_eq:
  assumes "length k < 32" "length v < 2 ^ 32" "\<not> finalised n"
  shows "apple_dt_set_prop n k (of_nat (length v)) (Some v) = Inr (set_props (AList.update k (plain_prop v) (props n)) n)"
  using assms by (simp add: apple_dt_set_prop_def plain_prop_def unsigned_of_nat take_bit_nat_eq_self split: option.splits)

lemma dt_set_eq:
  "dt_entry_ok k v \<Longrightarrow> \<not> finalised n \<Longrightarrow> dt_set k v n = set_props (AList.update k (plain_prop v) (props n)) n"
  by (simp add: dt_set_def dt_entry_ok_def set_prop_eq)

interpretation dtp: keyed_store dt_get dt_set "\<lambda>k n. snd (apple_dt_del_prop_named n k)" dt_entry_ok "\<lambda>n. \<not> finalised n"
proof
  fix n k v
  assume "\<not> finalised n" "dt_entry_ok k v"
  then show "dt_get (dt_set k v n) = (dt_get n)(k \<mapsto> v)" "\<not> finalised (dt_set k v n)"
    by (auto simp: dt_get_def apple_dt_get_prop_def dt_set_eq fun_eq_iff update_conv plain_prop_def)
next
  fix n k
  assume "\<not> finalised n"
  then show "dt_get (snd (apple_dt_del_prop_named n k)) = (dt_get n)(k := None)"
    "\<not> finalised (snd (apple_dt_del_prop_named n k))"
    by (auto simp: dt_get_def apple_dt_del_prop_named_def apple_dt_get_prop_def fun_eq_iff delete_conv)
qed

lemma set_prop_u32_get:
  assumes "\<not> finalised n" "length name < 32"
  shows "\<exists>m. apple_dt_set_prop_u32 n name x = Inr m \<and> \<not> finalised m \<and> apple_dt_get_prop_u32 m name ErrFatal = Inr (x, False) \<and>
    (\<forall>k. k \<noteq> name \<longrightarrow> apple_dt_get_prop m k = apple_dt_get_prop n k)"
proof -
  have "apple_dt_set_prop_u32 n name x = Inr (set_props (AList.update name (plain_prop (to_le 4 x)) (props n)) n)"
    using set_prop_eq [of name "to_le 4 x" n] assms by (simp add: apple_dt_set_prop_u32_def)
  moreover have "get_prop_int 4 (set_props (AList.update name (plain_prop (to_le 4 x)) (props n)) n) name 0 ErrFatal ErrFatal =
      Inr (x, False)"
    by (simp add: get_prop_int_def apple_dt_get_prop_def update_conv plain_prop_def)
  ultimately show ?thesis using assms(1)
    by (simp add: apple_dt_get_prop_u32_def apple_dt_missing_errp_from_errp_def apple_dt_get_prop_def update_conv)
qed

text \<open>
  Properties set on an open node are a table: after any sequence of sets
  with names below 32 characters, a read returns the value set last under its name, and what was there
  before for the others; a 32-bit value set is the 32-bit value read.
\<close>

theorem dt_set_get:
  assumes "\<not> finalised n" "list_all (\<lambda>(k, v). dt_entry_ok k v) kvs" "length name < 32"
  shows "dt_get (fold (\<lambda>(k, v). dt_set k v) kvs n) = dt_get n ++ map_of (rev kvs) \<and>
         (\<exists>m. apple_dt_set_prop_u32 n name x = Inr m \<and> apple_dt_get_prop_u32 m name ErrFatal = Inr (x, False))"
  using dtp.get_puts [OF assms(1,2)] set_prop_u32_get [OF assms(1,3)] by blast

theorem dt_set_get_witness:
  "dt_get (fold (\<lambda>(k, v). dt_set k v) [([97], [1]), ([98], [2]), ([97], [3])] apple_dt_new_node) [97] = Some [3]"
  using dt_set_get [of apple_dt_new_node "[([97], [1]), ([98], [2]), ([97], [3])]" "[97]" 7]
  by (simp add: apple_dt_new_node_def dt_entry_ok_def)

text \<open>
  Property C28 (bounds). The size \<open>apple_dt_finalise\<close> returns is exactly the size of what is written:
  in any buffer of at least that size \<open>apple_dt_serialise\<close> succeeds, without an access outside the
  buffer; the writer starts at the front and stops exactly at that offset, neither short of it nor past
  it, and what lies behind keeps its contents.
\<close>

theorem dt_finalise_size:
  assumes order: "perm_order ord" and tree: "dt_wf stl n" "all_finalised False n" "node_len stl n < 2 ^ 64"
  shows "\<exists>len m. apple_dt_finalise ord stl n = Inr (len, m) \<and>
     (\<forall>buf. unat len \<le> length buf \<longrightarrow>
        (\<exists>out. apple_dt_serialise ord stl m buf = Inr out \<and> length out = length buf \<and>
               drop (unat len) out = drop (unat len) buf \<and>
               apple_dt_serialise_node ord stl m (0, buf) = Inr (unat len, out)))"
proof -
  let ?len = "of_nat (node_len stl n) :: u64"
  have len: "unat ?len = node_len stl n" using tree(3) by (simp add: unsigned_of_nat take_bit_nat_eq_self)
  have w: "writes ord stl (dt_mark n)" using order tree(1) by (intro serialise_node_img) simp_all
  have "\<exists>out. apple_dt_serialise ord stl (dt_mark n) buf = Inr out \<and> length out = length buf \<and>
      drop (node_len stl n) out = drop (node_len stl n) buf \<and>
      apple_dt_serialise_node ord stl (dt_mark n) (0, buf) = Inr (node_len stl n, out)"
    if fit: "node_len stl n \<le> length buf" for buf
  proof -
    obtain bs where "length bs = node_len stl n"
        "apple_dt_serialise_node ord stl (dt_mark n) (0, buf) = Inr (node_len stl n, blit 0 bs buf)"
      using writesD [OF w, of 0 buf] fit by auto
    then show ?thesis using fit by (simp add: apple_dt_serialise_def blit_def)
  qed
  then show ?thesis using finalise_len [OF order tree(1,2)] len by auto
qed

definition dt_demo :: AppleDTNode where
  "dt_demo = DTNode [([97], plain_prop [1, 2, 3])] [DTNode [] [] False] False"

lemma dt_demo_ok: "dt_wf stl dt_demo" "all_finalised False dt_demo" "node_len stl dt_demo = 56"
  by (simp_all add: dt_demo_def dt_prop_ok_def plain_prop_def image_len_def prop_image_def rup_def)

lemma perm_order_rev: "perm_order rev"
  by (simp add: perm_order_def)

theorem dt_finalise_size_witness:
  "\<exists>len m. apple_dt_finalise rev (\<lambda>_. 0) dt_demo = Inr (len, m) \<and>
     (unat len \<le> 64 \<longrightarrow> (\<exists>out. apple_dt_serialise_node rev (\<lambda>_. 0) m (0, replicate 64 9) = Inr (unat len, out)))"
proof -
  obtain len m where "apple_dt_finalise rev (\<lambda>_. 0) dt_demo = Inr (len, m)"
      "\<forall>buf. unat len \<le> length buf \<longrightarrow> (\<exists>out. apple_dt_serialise_node rev (\<lambda>_. 0) m (0, buf) = Inr (unat len, out))"
    using dt_finalise_size [OF perm_order_rev dt_demo_ok(1,2)] dt_demo_ok(3) [of "\<lambda>_. 0"] by force
  then show ?thesis by (intro exI [of _ len] exI [of _ m]) simp
qed

text \<open>
  Property C3 (roundtrip). Reading the flat format back gives the tree that was written, with the
  properties in the order of iteration, placeholders expanded or removed and the nodes open, whatever
  the padding bytes hold.
\<close>

theorem dt_roundtrip:
  assumes order: "perm_order ord" and tree: "dt_wf stl n" "all_finalised True n" "node_len stl n \<le> length buf"
  shows "\<exists>out. apple_dt_serialise ord stl n buf = Inr out \<and>
     apple_dt_deserialise out = Some (Inr (dt_expand ord stl n))"
proof -
  obtain bs where bs: "node_img ord stl n bs" "length bs = node_len stl n"
      "apple_dt_serialise_node ord stl n (0, buf) = Inr (node_len stl n, blit 0 bs buf)"
    using writesD [OF serialise_node_img [OF order tree(1,2)], of 0 buf] tree(3) by auto
  have "blit 0 bs buf = bs @ drop (length bs) buf" by (simp add: blit_def)
  moreover have "apple_dt_deserialise_node fuel (bs @ rest) = Some (Inr (dt_expand ord stl n, rest))"
    if "length bs \<le> fuel" for fuel rest
    using deserialise_node_img [OF order tree(1)] bs(1) that unfolding reads_def by blast
  ultimately show ?thesis using bs(3)
    by (simp add: apple_dt_serialise_def apple_dt_deserialise_def del: apple_dt_deserialise_node.simps)
qed

theorem dt_roundtrip_witness:
  "\<exists>out. apple_dt_serialise rev (\<lambda>_. 0) (dt_mark dt_demo) (replicate 60 9) = Inr out \<and>
     apple_dt_deserialise out = Some (Inr dt_demo)"
  using dt_roundtrip [where ord = rev and stl = "\<lambda>_. 0" and n = "dt_mark dt_demo" and buf = "replicate 60 9"]
    perm_order_rev dt_demo_ok(1,3) [of "\<lambda>_. 0"]
  by (simp add: dt_demo_def prop_image_def plain_prop_def)

text \<open>
  Property C29 (termination). Reading ends for every blob, well-formed or not: it gives a tree or
  stops at an access past the blob, and no other fault is possible. The nodes of the tree are open,
  their property names are C strings of less than 32 characters that occur once, and every property
  has data of its stated length.
\<close>

theorem dt_deserialise_returns:
  "apple_dt_deserialise blob = Some (Inl OutOfBounds) \<or> (\<exists>n. apple_dt_deserialise blob = Some (Inr n) \<and> dt_read_ok n)"
proof -
  obtain r where r: "apple_dt_deserialise_node (Suc (length blob)) blob = Some r"
    using deserialise_returns(1) [of blob "Suc (length blob)"] by blast
  show ?thesis using deserialise_ok(1) [OF r]
    unfolding apple_dt_deserialise_def r by (cases r) auto
qed




definition dt_placeholder_demo :: AppleDTNode where
  "dt_placeholder_demo =
     DTNode [([97], \<lparr>p_len = 10, placeholder = True, p_data = cs ''macaddr/x'' @ [0]\<rparr>)] [] False"

text \<open>
  For a placeholder the guard is not enough: it compares the length of the
  placeholder text, while the size counted the expanded value. Setting such a property after the size
  was computed makes the tree larger than its buffer, and writing it leaves the buffer.
\<close>

theorem dt_placeholder_set_overflows:
  "case apple_dt_finalise rev (\<lambda>_. 0) dt_placeholder_demo of Inl _ \<Rightarrow> False
   | Inr (len, m) \<Rightarrow>
       case apple_dt_set_prop m [97] 10 (Some (replicate 10 1)) of Inl _ \<Rightarrow> False
       | Inr m' \<Rightarrow> len = 52 \<and> apple_dt_serialise rev (\<lambda>_. 0) m' (replicate 52 0) = Inl OutOfBounds"
  by code_simp

lemma find_index_append: "find_index P (xs @ ys) =
   (case find_index P xs of None \<Rightarrow> map_option (\<lambda>i. length xs + i) (find_index P ys) | Some i \<Rightarrow> Some i)"
proof (induction xs)
  case Nil
  then show ?case by (cases "find_index P ys") auto
next
  case (Cons x xs)
  then show ?case by (cases "find_index P xs"; cases "find_index P ys") auto
qed

lemma find_index_less: "find_index P xs = Some i \<Longrightarrow> i < length xs"
  by (induction xs arbitrary: i) (auto split: if_splits)

text \<open>A node that was found is the one changed in place.\<close>

lemma get_node_loop_put: "get_node_loop node nxt = Some is \<Longrightarrow> node_at (put_node_at node is new) is = new"
proof (induction node nxt arbitrary: "is" rule: get_node_loop.induct)
  case (2 node mem)
  obtain tok nxt' where t: "qemu_strsep 47 mem = Some (tok, nxt')" using "2.prems" by (auto split: option.splits)
  show ?case
  proof (cases "tok = []")
    case True
    then show ?thesis using "2.IH"(1) [OF t refl] "2.prems" t by simp
  next
    case False
    then obtain i js where i: "find_index (child_matches tok) (children node) = Some i" "is = i # js"
        "get_node_loop (children node ! i) nxt' = Some js"
      using "2.prems" t by (auto split: option.splits)
    then show ?thesis using "2.IH"(2) [OF t refl False i(1)] find_index_less [OF i(1)] by simp
  qed
qed simp

lemma put_node_at_found: "apple_dt_get_node node path = Some is \<Longrightarrow> node_at (put_node_at node is new) is = new"
  unfolding apple_dt_get_node_def by (rule get_node_loop_put)

lemma get_node_loop_mono:
  assumes "children q = children p @ [c]"
  shows "get_node_loop p nxt = Some is \<Longrightarrow> get_node_loop q nxt = Some is"
proof (induction "case nxt of None \<Rightarrow> 0 | Some mem \<Rightarrow> Suc (length mem)" arbitrary: nxt rule: less_induct)
  case less
  show ?case
  proof (cases nxt)
    case (Some mem)
    obtain tok next' where t: "qemu_strsep 47 mem = Some (tok, next')"
      using less.prems Some by (auto split: option.splits)
    show ?thesis
    proof (cases "tok = []")
      case True
      have "(case next' of None \<Rightarrow> 0 | Some mem \<Rightarrow> Suc (length mem)) < Suc (length mem)"
        using qemu_strsep_shorter t by (cases next') auto
      then show ?thesis using less.hyps [of next'] less.prems Some t True by simp
    next
      case False
      then obtain i where i: "find_index (child_matches tok) (children p) = Some i"
        using less.prems Some t by (auto split: option.splits)
      then show ?thesis using less.prems Some t False assms find_index_less [OF i]
        by (simp add: find_index_append nth_append)
    qed
  qed (use less.prems in simp)
qed

text \<open>
  A child created under an open node is found under its name, at the end of
  the children, and every path that led to a node before still leads to it; a name that is taken
  creates nothing.
\<close>

theorem dt_node_new_found:
  assumes "\<not> finalised p" "nm \<noteq> []" "0 \<notin> set nm" "47 \<notin> set nm" "length nm < 2 ^ 32 - 1"
  shows "if apple_dt_get_node p nm = None
     then \<exists>q c. apple_dt_node_new (Some p) (Some nm) = Inr (Some q, Some c) \<and>
            apple_dt_get_node q nm = Some [length (children p)] \<and> node_at q [length (children p)] = c \<and>
            (\<forall>path is. apple_dt_get_node p path = Some is \<longrightarrow> apple_dt_get_node q path = Some is)
     else apple_dt_node_new (Some p) (Some nm) = Inr (Some p, None)"
proof (cases "apple_dt_get_node p nm = None")
  case True
  let ?len = "of_nat (length nm + 1) :: u32"
  let ?c = "DTNode [(cs ''name'', \<lparr>p_len = ?len, placeholder = False, p_data = nm @ [0]\<rparr>)] [] False"
  let ?q = "set_children (children p @ [?c]) p"
  have len: "unat ?len = Suc (length nm)" using assms(5) by (simp add: unat_word_ariths unsigned_of_nat take_bit_nat_eq_self)
  have "dt_node_named (Some nm) = Inr ?c"
    using len by (simp add: dt_node_named_def apple_dt_set_prop_str_def apple_dt_set_prop_def apple_dt_new_node_def
        apple_dt_get_prop_def cs_def)
  then have new: "apple_dt_node_new (Some p) (Some nm) = Inr (Some ?q, Some ?c)"
    using True assms(1) by (simp add: apple_dt_node_new_def)
  have sep: "qemu_strsep 47 (nm @ [0]) = Some (nm, None)" using qemu_strsep_append [of nm 47 0 "[]"] assms(3,4) by simp
  have "find_index (child_matches nm) (children p) = None"
    using True assms(2) sep by (auto simp: apple_dt_get_node_def split: option.splits)
  moreover have "child_matches nm ?c"
    using len strncmp_eq_iff [OF assms(3) assms(3)] by (simp add: child_matches_def apple_dt_get_prop_def)
  ultimately have "apple_dt_get_node ?q nm = Some [length (children p)]"
    using assms(2) sep by (simp add: apple_dt_get_node_def find_index_append)
  moreover have "\<forall>path is. apple_dt_get_node p path = Some is \<longrightarrow> apple_dt_get_node ?q path = Some is"
    using get_node_loop_mono [of ?q p ?c] unfolding apple_dt_get_node_def by (simp del: get_node_loop.simps)
  ultimately show ?thesis using True new by (auto simp del: get_node_loop.simps)
next
  case False
  then show ?thesis using assms(1) by (simp only: if_False) (simp add: apple_dt_node_new_def)
qed

theorem dt_node_new_found_witness:
  "\<exists>q c. apple_dt_node_new (Some apple_dt_new_node) (Some [99, 112, 117]) = Inr (Some q, Some c) \<and>
     apple_dt_get_node q [99, 112, 117] = Some [0]"
  using dt_node_new_found [of apple_dt_new_node "[99, 112, 117]"]
  by (simp add: apple_dt_new_node_def apple_dt_get_node_def qemu_strsep_def) blast

end
