(* ===== verification/Aic.thy ===== *)
theory Aic
  imports Bitops Interfaces Dt
begin

text \<open>
  The Apple interrupt controller, \<open>hw/intc/apple_aic.c\<close>. The state is the part of
  \<open>AppleAICState\<close> and \<open>AppleAICCPU\<close> the handlers read and write; a \<open>qemu_irq\<close> line is its level. A handler runs on
  behalf of one CPU, whose index in \<open>cpus\<close> is an argument, as \<open>opaque\<close> is in the code. The mutex is
  held across each handler, so a handler is one atomic step.
\<close>

subsection \<open>Registers and constants\<close>

abbreviation (input) "AIC_INT_COUNT \<equiv> 576 :: nat"
abbreviation (input) "AIC_CPU_COUNT \<equiv> 6 :: nat"
abbreviation (input) "AIC_VERSION \<equiv> 2 :: u64"
abbreviation (input) "REG_AIC_REV \<equiv> 0x0000 :: hwaddr"
abbreviation (input) "REG_AIC_CAP0 \<equiv> 0x0004 :: hwaddr"
abbreviation (input) "REG_AIC_RST \<equiv> 0x000C :: hwaddr"
abbreviation (input) "REG_AIC_GLB_CFG \<equiv> 0x0010 :: hwaddr"
abbreviation (input) "REG_AIC_WHOAMI \<equiv> 0x2000 :: hwaddr"
abbreviation (input) "REG_AIC_IACK \<equiv> 0x2004 :: hwaddr"
abbreviation (input) "REG_AIC_IPI_SET \<equiv> 0x2008 :: hwaddr"
abbreviation (input) "REG_AIC_IPI_CLR \<equiv> 0x200C :: hwaddr"
abbreviation (input) "AIC_IPI_NORMAL \<equiv> BIT 0 :: u32"
abbreviation (input) "AIC_IPI_SELF \<equiv> BIT 31 :: u32"
abbreviation (input) "REG_AIC_IPI_MASK_SET \<equiv> 0x2024 :: hwaddr"
abbreviation (input) "REG_AIC_IPI_MASK_CLR \<equiv> 0x2028 :: hwaddr"
abbreviation (input) "REG_AIC_IPI_DEFER_SET \<equiv> 0x202C :: hwaddr"
abbreviation (input) "REG_AIC_IPI_DEFER_CLR \<equiv> 0x2030 :: hwaddr"
abbreviation (input) "REG_AIC_EIR_DEST n \<equiv> 0x3000 + n * 4 :: hwaddr"
abbreviation (input) "REG_AIC_EIR_SW_SET n \<equiv> 0x4000 + n * 4 :: hwaddr"
abbreviation (input) "REG_AIC_EIR_SW_CLR n \<equiv> 0x4080 + n * 4 :: hwaddr"
abbreviation (input) "REG_AIC_EIR_MASK_SET n \<equiv> 0x4100 + n * 4 :: hwaddr"
abbreviation (input) "REG_AIC_EIR_MASK_CLR n \<equiv> 0x4180 + n * 4 :: hwaddr"
abbreviation (input) "REG_AIC_EIR_INT_RO n \<equiv> 0x4200 + n * 4 :: hwaddr"
abbreviation (input) "REG_AIC_WHOAMI_Pn n \<equiv> 0x5000 + n * 0x80 :: hwaddr"
abbreviation (input) "kAIC_INT_SPURIOUS \<equiv> 0x00000 :: u64"
abbreviation (input) "kAIC_INT_EXT \<equiv> 0x10000 :: u64"
abbreviation (input) "kAIC_INT_IPI \<equiv> 0x40000 :: u64"
abbreviation (input) "kAIC_INT_IPI_NORM \<equiv> 0x40001 :: u64"
abbreviation (input) "kAIC_INT_IPI_SELF \<equiv> 0x40002 :: u64"
abbreviation (input) "AIC_INT_EXTID v \<equiv> v AND 0x3FF"
abbreviation (input) "kAIC_NUM_EIRS \<equiv> AIC_INT_COUNT div 32"
abbreviation (input) "kAICWT \<equiv> 64000 :: nat"
abbreviation (input) "kCNTFRQ \<equiv> 24000000 :: nat"
abbreviation (input) "NANOSECONDS_PER_SECOND \<equiv> 1000000000 :: nat"

subsection \<open>State\<close>

record AppleAICCPU =
  irq :: bool
  cpu_id :: nat
  pendingIPI :: u32
  deferredIPI :: u32
  ipi_mask :: u32

record AppleAICState =
  phandle :: u32
  base_size :: u32
  timer :: nat
  numEIR :: nat
  numIRQ :: nat
  numCPU :: nat
  global_cfg :: u32
  time_base :: u32
  eir_mask :: "u32 list"
  eir_dest :: "u32 list"
  cpus :: "AppleAICCPU list"
  eir_state :: "u32 list"

definition upd_cpu :: "nat \<Rightarrow> (AppleAICCPU \<Rightarrow> AppleAICCPU) \<Rightarrow> AppleAICState \<Rightarrow> AppleAICState" where
  "upd_cpu k f s = s\<lparr>cpus := (cpus s)[k := f (cpus s ! k)]\<rparr>"

definition upd_cpus :: "(nat \<Rightarrow> AppleAICCPU \<Rightarrow> AppleAICCPU) \<Rightarrow> AppleAICState \<Rightarrow> AppleAICState" where
  "upd_cpus f s = s\<lparr>cpus := for_upd (numCPU s) f (cpus s)\<rparr>"

subsection \<open>Interrupt update\<close>

text \<open>\<open>now\<close> is \<open>qemu_clock_get_ns(QEMU_CLOCK_VIRTUAL)\<close>.\<close>

definition apple_aic_emulate_timer :: "nat \<Rightarrow> u64" where
  "apple_aic_emulate_timer now =
     (let period_ns = (if NANOSECONDS_PER_SECOND > kCNTFRQ
                       then NANOSECONDS_PER_SECOND div kCNTFRQ else 1)
      in of_nat (now div period_ns))"

definition aic_ipi_intr :: "AppleAICState \<Rightarrow> u32" where
  "aic_ipi_intr s = fold (\<lambda>i intr.
     let c = cpus s ! i;
         intr = (if (pendingIPI c AND AIC_IPI_SELF) AND NOT (ipi_mask c) \<noteq> 0
                 then intr OR BIT i else intr)
     in if NOT (ipi_mask c) AND AIC_IPI_NORMAL \<noteq> 0 \<and> pendingIPI c AND (BIT (numCPU s) - 1) \<noteq> 0
        then intr OR BIT i else intr) [0..<numCPU s] 0"

definition aic_eir_step :: "AppleAICState \<Rightarrow> nat \<Rightarrow> u32 \<times> u32 \<Rightarrow> u32 \<times> u32" where
  "aic_eir_step s i = (\<lambda>(intr, potential).
     let dest = eir_dest s ! i
     in if test_bit32 i (eir_mask s) = 0 \<and> dest \<noteq> 0
        then if intr AND dest = 0
             then let cpu = find_first_bit32 [dest] (numCPU s)
               in (intr OR BIT cpu, potential OR dest)
             else case find (\<lambda>k. intr AND BIT k = 0 \<and> potential AND BIT k \<noteq> 0) [0..<numCPU s] of
                    Some k \<Rightarrow> (intr OR BIT k, potential)
                  | None \<Rightarrow> (intr, potential)
        else (intr, potential))"

function aic_eir_scan :: "AppleAICState \<Rightarrow> nat \<Rightarrow> u32 \<times> u32 \<Rightarrow> u32 \<times> u32" where
  "aic_eir_scan s a acc =
     (let i = find_next_bit32 (eir_state s) (numIRQ s) a
      in if i < numIRQ s then aic_eir_scan s (i + 1) (aic_eir_step s i acc) else acc)"
  by pat_completeness auto
termination
proof (relation "measure (\<lambda>(s, a, acc). numIRQ s - a)", goal_cases)
  case (2 s a acc i)
  then show ?case using find_next_bit32_progress [of "eir_state s" "numIRQ s" a] by auto
qed simp

declare aic_eir_scan.simps [simp del]

definition apple_aic_update :: "AppleAICState \<Rightarrow> AppleAICState" where
  "apple_aic_update s =
     (let s = upd_cpus (\<lambda>i c. c\<lparr>pendingIPI := pendingIPI c OR deferredIPI c, deferredIPI := 0\<rparr>) s;
          intr = fst (aic_eir_scan s 0 (aic_ipi_intr s, 0))
      in upd_cpus (\<lambda>i c. if intr AND BIT i \<noteq> 0 then c\<lparr>irq := True\<rparr> else c) s)"

definition apple_aic_set_irq :: "nat \<Rightarrow> bool \<Rightarrow> AppleAICState \<Rightarrow> AppleAICState" where
  "apple_aic_set_irq n level s =
     (if level then s\<lparr>eir_state := set_bit32 n (eir_state s)\<rparr>
      else s\<lparr>eir_state := clear_bit32 n (eir_state s)\<rparr>)"

definition apple_aic_tick :: "nat \<Rightarrow> AppleAICState \<Rightarrow> AppleAICState" where
  "apple_aic_tick now s = (apple_aic_update s)\<lparr>timer := now + kAICWT\<rparr>"

definition apple_aic_reset :: "AppleAICState \<Rightarrow> AppleAICState" where
  "apple_aic_reset s =
     upd_cpus (\<lambda>i c. c\<lparr>ipi_mask := AIC_IPI_NORMAL OR AIC_IPI_SELF, pendingIPI := 0, deferredIPI := 0\<rparr>)
       (s\<lparr>eir_mask := replicate (numEIR s) 0xFFFFFFFF, eir_dest := replicate (numIRQ s) 0\<rparr>)"

subsection \<open>Register writes\<close>

definition aic_ipi_set :: "nat \<Rightarrow> u32 \<Rightarrow> AppleAICState \<Rightarrow> AppleAICState" where
  "aic_ipi_set k val s =
     (let me = cpu_id (cpus s ! k);
          s = upd_cpus (\<lambda>i c. if val AND BIT i \<noteq> 0
                then let c = c\<lparr>pendingIPI := pendingIPI c OR BIT me\<rparr>
                  in if NOT (ipi_mask c) AND AIC_IPI_NORMAL \<noteq> 0 then c\<lparr>irq := True\<rparr> else c
                else c) s
      in if val AND AIC_IPI_SELF \<noteq> 0
         then upd_cpu k (\<lambda>c. let c = c\<lparr>pendingIPI := pendingIPI c OR AIC_IPI_SELF\<rparr>
                in if NOT (ipi_mask c) AND AIC_IPI_SELF \<noteq> 0 then c\<lparr>irq := True\<rparr> else c) s
         else s)"

definition aic_ipi_clr :: "nat \<Rightarrow> u32 \<Rightarrow> AppleAICState \<Rightarrow> AppleAICState" where
  "aic_ipi_clr k val s =
     (let me = cpu_id (cpus s ! k);
          s = upd_cpus (\<lambda>i c. if val AND BIT i \<noteq> 0
                then c\<lparr>pendingIPI := pendingIPI c AND NOT (BIT me)\<rparr> else c) s
      in if val AND AIC_IPI_SELF \<noteq> 0
         then upd_cpu k (\<lambda>c. c\<lparr>pendingIPI := pendingIPI c AND NOT AIC_IPI_SELF\<rparr>) s
         else s)"

definition aic_ipi_defer_set :: "nat \<Rightarrow> u32 \<Rightarrow> AppleAICState \<Rightarrow> AppleAICState" where
  "aic_ipi_defer_set k val s =
     (let me = cpu_id (cpus s ! k);
          s = upd_cpus (\<lambda>i c. if val AND BIT i \<noteq> 0
                then c\<lparr>deferredIPI := deferredIPI c OR BIT me\<rparr> else c) s
      in if val AND AIC_IPI_SELF \<noteq> 0
         then upd_cpu k (\<lambda>c. c\<lparr>deferredIPI := deferredIPI c OR AIC_IPI_SELF\<rparr>) s
         else s)"

definition aic_ipi_defer_clr :: "nat \<Rightarrow> u32 \<Rightarrow> AppleAICState \<Rightarrow> AppleAICState" where
  "aic_ipi_defer_clr k val s =
     (let me = cpu_id (cpus s ! k);
          s = upd_cpus (\<lambda>i c. if val AND BIT i \<noteq> 0
                then c\<lparr>deferredIPI := deferredIPI c AND NOT (BIT me)\<rparr> else c) s
      in if val AND AIC_IPI_SELF \<noteq> 0
         then upd_cpu k (\<lambda>c. c\<lparr>deferredIPI := deferredIPI c AND NOT AIC_IPI_SELF\<rparr>) s
         else s)"

text \<open>
  The cases of the switch of \<open>apple_aic_write\<close>, without the per-CPU window, whose case calls
  the handler again with a translated address that lies outside the window.
\<close>

definition aic_write_reg :: "nat \<Rightarrow> hwaddr \<Rightarrow> u64 \<Rightarrow> AppleAICState \<Rightarrow> AppleAICState" where
  "aic_write_reg k addr data s =
     (let val = ucast data :: u32
      in if addr = REG_AIC_RST then apple_aic_reset s
         else if addr = REG_AIC_GLB_CFG then s\<lparr>global_cfg := ucast data\<rparr>
         else if addr = REG_AIC_IPI_SET then aic_ipi_set k val s
         else if addr = REG_AIC_IPI_CLR then aic_ipi_clr k val s
         else if addr = REG_AIC_IPI_MASK_SET then
           upd_cpu k (\<lambda>c. c\<lparr>ipi_mask := ipi_mask c OR (val AND (AIC_IPI_NORMAL OR AIC_IPI_SELF))\<rparr>) s
         else if addr = REG_AIC_IPI_MASK_CLR then
           upd_cpu k (\<lambda>c. c\<lparr>ipi_mask := ipi_mask c AND NOT (val AND (AIC_IPI_NORMAL OR AIC_IPI_SELF))\<rparr>) s
         else if addr = REG_AIC_IPI_DEFER_SET then aic_ipi_defer_set k val s
         else if addr = REG_AIC_IPI_DEFER_CLR then aic_ipi_defer_clr k val s
         else if addr \<in> {REG_AIC_EIR_DEST 0..REG_AIC_EIR_DEST AIC_INT_COUNT} then
           let vector = (addr - REG_AIC_EIR_DEST 0) div 4
           in if vector \<ge> numIRQ s then s else s\<lparr>eir_dest := (eir_dest s)[vector := val]\<rparr>
         else if addr \<in> {REG_AIC_EIR_SW_SET 0..REG_AIC_EIR_SW_SET kAIC_NUM_EIRS} then
           let eir = (addr - REG_AIC_EIR_SW_SET 0) div 4
           in if eir \<ge> numEIR s then s
              else s\<lparr>eir_state := (eir_state s)[eir := eir_state s ! eir OR val]\<rparr>
         else if addr \<in> {REG_AIC_EIR_SW_CLR 0..REG_AIC_EIR_SW_CLR kAIC_NUM_EIRS} then
           let eir = (addr - REG_AIC_EIR_SW_CLR 0) div 4
           in if eir \<ge> numEIR s then s
              else s\<lparr>eir_state := (eir_state s)[eir := eir_state s ! eir AND NOT val]\<rparr>
         else if addr \<in> {REG_AIC_EIR_MASK_SET 0..REG_AIC_EIR_MASK_SET kAIC_NUM_EIRS} then
           let eir = (addr - REG_AIC_EIR_MASK_SET 0) div 4
           in if eir \<ge> numEIR s then s
              else s\<lparr>eir_mask := (eir_mask s)[eir := eir_mask s ! eir OR val]\<rparr>
         else if addr \<in> {REG_AIC_EIR_MASK_CLR 0..REG_AIC_EIR_MASK_CLR kAIC_NUM_EIRS} then
           let eir = (addr - REG_AIC_EIR_MASK_CLR 0) div 4
           in if eir \<ge> numEIR s then s
              else s\<lparr>eir_mask := (eir_mask s)[eir := eir_mask s ! eir AND NOT val]\<rparr>
         else s)"

definition apple_aic_write :: "nat \<Rightarrow> hwaddr \<Rightarrow> u64 \<Rightarrow> AppleAICState \<Rightarrow> AppleAICState" where
  "apple_aic_write k addr data s =
     (if addr \<in> {REG_AIC_WHOAMI_Pn 0..REG_AIC_WHOAMI_Pn AIC_CPU_COUNT - 4} then
        let cpu = (addr - 0x5000) div 0x80
        in if cpu \<ge> numCPU s then s
           else aic_write_reg cpu (addr - 0x5000 + 0x2000 - 0x80 * cpu) data s
      else aic_write_reg k addr data s)"

subsection \<open>Register reads\<close>

function aic_iack_scan :: "AppleAICState \<Rightarrow> nat \<Rightarrow> nat \<Rightarrow> nat option" where
  "aic_iack_scan s me a =
     (let i = find_next_bit32 (eir_state s) (numIRQ s) a
      in if i < numIRQ s
         then if test_bit32 i (eir_mask s) = 0 \<and> eir_dest s ! i AND BIT me \<noteq> 0 then Some i
              else aic_iack_scan s me (i + 1)
         else None)"
  by pat_completeness auto
termination
proof (relation "measure (\<lambda>(s, me, a). numIRQ s - a)", goal_cases)
  case (2 s me a i)
  then show ?case using find_next_bit32_progress [of "eir_state s" "numIRQ s" a] by auto
qed simp

declare aic_iack_scan.simps [simp del]

definition aic_iack :: "nat \<Rightarrow> AppleAICState \<Rightarrow> u64 \<times> AppleAICState" where
  "aic_iack k s =
     (let s = upd_cpu k (\<lambda>c. c\<lparr>irq := False\<rparr>) s; c = cpus s ! k
      in if (pendingIPI c AND AIC_IPI_SELF) AND NOT (ipi_mask c) \<noteq> 0
         then (kAIC_INT_IPI OR kAIC_INT_IPI_SELF,
               upd_cpu k (\<lambda>c. c\<lparr>ipi_mask := ipi_mask c OR AIC_IPI_SELF\<rparr>) s)
         else if NOT (ipi_mask c) AND AIC_IPI_NORMAL \<noteq> 0 \<and> pendingIPI c AND (BIT (numCPU s) - 1) \<noteq> 0
         then (kAIC_INT_IPI OR kAIC_INT_IPI_NORM,
               upd_cpu k (\<lambda>c. c\<lparr>ipi_mask := ipi_mask c OR AIC_IPI_NORMAL\<rparr>) s)
         else case aic_iack_scan s (cpu_id c) 0 of
                Some i \<Rightarrow> (kAIC_INT_EXT OR AIC_INT_EXTID (of_nat i),
                            s\<lparr>eir_mask := set_bit32 i (eir_mask s)\<rparr>)
              | None \<Rightarrow> (kAIC_INT_SPURIOUS, s))"

definition aic_read_reg :: "nat \<Rightarrow> nat \<Rightarrow> hwaddr \<Rightarrow> AppleAICState \<Rightarrow> u64 \<times> AppleAICState" where
  "aic_read_reg now k addr s =
     (if addr = REG_AIC_REV then (AIC_VERSION, s)
      else if addr = REG_AIC_CAP0 then (push_bit 16 (of_nat (numCPU s) - 1) OR of_nat (numIRQ s), s)
      else if addr = REG_AIC_GLB_CFG then (ucast (global_cfg s), s)
      else if addr = REG_AIC_WHOAMI then (of_nat (cpu_id (cpus s ! k)), s)
      else if addr = REG_AIC_IACK then aic_iack k s
      else if addr = REG_AIC_IPI_MASK_SET \<or> addr = REG_AIC_IPI_MASK_CLR
      then (ucast (ipi_mask (cpus s ! k)), s)
      else if addr \<in> {REG_AIC_EIR_DEST 0..REG_AIC_EIR_DEST AIC_INT_COUNT} then
        let vector = (addr - REG_AIC_EIR_DEST 0) div 4
        in if vector \<ge> numIRQ s then (- 1, s) else (ucast (eir_dest s ! vector), s)
      else if addr \<in> {REG_AIC_EIR_MASK_SET 0..REG_AIC_EIR_MASK_SET kAIC_NUM_EIRS} then
        let eir = (addr - REG_AIC_EIR_MASK_SET 0) div 4
        in if eir \<ge> numEIR s then (- 1, s) else (ucast (eir_mask s ! eir), s)
      else if addr \<in> {REG_AIC_EIR_MASK_CLR 0..REG_AIC_EIR_MASK_CLR kAIC_NUM_EIRS} then
        let eir = (addr - REG_AIC_EIR_MASK_CLR 0) div 4
        in if eir \<ge> numEIR s then (- 1, s) else (ucast (eir_mask s ! eir), s)
      else if addr \<in> {REG_AIC_EIR_INT_RO 0..REG_AIC_EIR_INT_RO kAIC_NUM_EIRS} then
        let eir = (addr - REG_AIC_EIR_INT_RO 0) div 4
        in if eir \<ge> numEIR s then (- 1, s) else (ucast (eir_state s ! eir), s)
      else if addr = unat (time_base s + 0x20) then (apple_aic_emulate_timer now AND 0xFFFFFFFF, s)
      else if addr = unat (time_base s + 0x28)
      then (drop_bit 32 (apple_aic_emulate_timer now) AND 0xFFFFFFFF, s)
      else (- 1, s))"

definition apple_aic_read :: "nat \<Rightarrow> nat \<Rightarrow> hwaddr \<Rightarrow> AppleAICState \<Rightarrow> u64 \<times> AppleAICState" where
  "apple_aic_read now k addr s =
     (if addr \<in> {REG_AIC_WHOAMI_Pn 0..REG_AIC_WHOAMI_Pn AIC_CPU_COUNT - 4} then
        let cpu = (addr - 0x5000) div 0x80
        in if cpu \<ge> numCPU s then (- 1, s)
           else aic_read_reg now cpu (addr - 0x5000 + 0x2000 - 0x80 * cpu) s
      else aic_read_reg now k addr s)"

text \<open>
  \<open>apple_aic_create\<close>: the counts come from the length of the device tree's \<open>ipid-mask\<close> property, the
  device's memory is zeroed, and the node is told the number of CPUs. \<open>timebase_node\<close> is another node.
\<close>

definition apple_aic_create :: "nat \<Rightarrow> AppleDTNode \<Rightarrow> AppleDTNode \<Rightarrow> (AppleAICState \<times> AppleDTNode) res" where
  "apple_aic_create ncpu node timebase_node =
     rbind (apple_dt_get_prop_u32 node (cs ''AAPL,phandle'') ErrFatal) (\<lambda>(ph, _).
       case apple_dt_get_prop node (cs ''reg'') of
         None \<Rightarrow> Inl AssertFailed
       | Some reg \<Rightarrow>
           if length (p_data reg) < 16 then Inl OutOfBounds
           else (case apple_dt_get_prop node (cs ''ipid-mask'') of
               None \<Rightarrow> Inl AssertFailed
             | Some ipid \<Rightarrow>
                 rbind (apple_dt_get_prop_u64 timebase_node (cs ''reg'') ErrWarn) (\<lambda>(tb, _).
                 rbind (apple_dt_get_prop_u64 node (cs ''reg'') ErrWarn) (\<lambda>(base, _).
                 rbind (apple_dt_set_prop_u32 node (cs ''#main-cpus'') (of_nat ncpu)) (\<lambda>node.
                 rbind (apple_dt_set_prop_u32 node (cs ''#shared-timestamps'') 0) (\<lambda>node.
                   Inr (\<lparr>phandle = ph, base_size = ucast (of_le (bslice 8 8 (p_data reg)) :: u64), timer = 0,
                          numEIR = unat (p_len ipid div 4), numIRQ = unat (p_len ipid div 4 * 32), numCPU = ncpu,
                          global_cfg = 0, time_base = ucast (tb - base), eir_mask = [], eir_dest = [], cpus = [],
                          eir_state = []\<rparr>, node)))))))"

text \<open>\<open>apple_aic_realize\<close>: all arrays are allocated zeroed, and the timer is armed.\<close>

definition apple_aic_realize :: "AppleAICState \<Rightarrow> AppleAICState res" where
  "apple_aic_realize s =
     (let s = s\<lparr>cpus := map (\<lambda>i. \<lparr>irq = False, cpu_id = i, pendingIPI = 0, deferredIPI = 0, ipi_mask = 0\<rparr>) [0..<numCPU s]\<rparr>
      in if numCPU s = 0 then Inl AssertFailed
         else Inr (s\<lparr>eir_mask := replicate (numEIR s) 0, eir_dest := replicate (numIRQ s) 0,
                     eir_state := replicate (numEIR s) 0, timer := kAICWT\<rparr>))"

subsection \<open>Well-formed states\<close>

text \<open>
  The array sizes agree with the counts, the CPU records are numbered, and no CPU number collides
  with the bit of a self IPI. Interrupt numbers fit the ten bits an acknowledge returns.
\<close>

definition aic_wf :: "AppleAICState \<Rightarrow> bool" where
  "aic_wf s \<longleftrightarrow> numIRQ s = 32 * numEIR s \<and> numIRQ s \<le> 1024 \<and> 0 < numCPU s \<and> numCPU s < 31 \<and>
     length (eir_mask s) = numEIR s \<and> length (eir_state s) = numEIR s \<and>
     length (eir_dest s) = numIRQ s \<and> length (cpus s) = numCPU s \<and>
     (\<forall>i < numCPU s. cpu_id (cpus s ! i) = i)"

lemma upd_cpu_simps [simp]:
  "timer (upd_cpu k f s) = timer s" "numEIR (upd_cpu k f s) = numEIR s"
  "numIRQ (upd_cpu k f s) = numIRQ s" "numCPU (upd_cpu k f s) = numCPU s"
  "eir_mask (upd_cpu k f s) = eir_mask s" "eir_dest (upd_cpu k f s) = eir_dest s"
  "eir_state (upd_cpu k f s) = eir_state s" "length (cpus (upd_cpu k f s)) = length (cpus s)"
  by (simp_all add: upd_cpu_def)

lemma cpus_upd_cpu [simp]:
  "k < length (cpus s) \<Longrightarrow> cpus (upd_cpu k f s) ! i = (if i = k then f (cpus s ! k) else cpus s ! i)"
  by (simp add: upd_cpu_def nth_list_update)

lemma upd_cpus_simps [simp]:
  "timer (upd_cpus g s) = timer s" "numEIR (upd_cpus g s) = numEIR s"
  "numIRQ (upd_cpus g s) = numIRQ s" "numCPU (upd_cpus g s) = numCPU s"
  "eir_mask (upd_cpus g s) = eir_mask s" "eir_dest (upd_cpus g s) = eir_dest s"
  "eir_state (upd_cpus g s) = eir_state s" "length (cpus (upd_cpus g s)) = length (cpus s)"
  by (simp_all add: upd_cpus_def)

lemma cpus_upd_cpus [simp]:
  "i < length (cpus s) \<Longrightarrow> cpus (upd_cpus g s) ! i = (if i < numCPU s then g i (cpus s ! i) else cpus s ! i)"
  by (simp add: upd_cpus_def)

lemma aic_wf_upd_cpu:
  "aic_wf s \<Longrightarrow> k < numCPU s \<Longrightarrow> (\<And>c. cpu_id (f c) = cpu_id c) \<Longrightarrow> aic_wf (upd_cpu k f s)"
  by (auto simp: aic_wf_def)

lemma aic_wf_upd_cpus:
  "aic_wf s \<Longrightarrow> (\<And>i c. cpu_id (g i c) = cpu_id c) \<Longrightarrow> aic_wf (upd_cpus g s)"
  by (auto simp: aic_wf_def)

lemma aic_wf_arrays:
  "aic_wf s \<Longrightarrow> length em = numEIR s \<Longrightarrow> aic_wf (s\<lparr>eir_mask := em\<rparr>)"
  "aic_wf s \<Longrightarrow> length es = numEIR s \<Longrightarrow> aic_wf (s\<lparr>eir_state := es\<rparr>)"
  "aic_wf s \<Longrightarrow> length ed = numIRQ s \<Longrightarrow> aic_wf (s\<lparr>eir_dest := ed\<rparr>)"
  "aic_wf s \<Longrightarrow> aic_wf (s\<lparr>global_cfg := g\<rparr>)"
  "aic_wf s \<Longrightarrow> aic_wf (s\<lparr>timer := t\<rparr>)"
  by (simp_all add: aic_wf_def)

lemma aic_wf_lengths:
  "aic_wf s \<Longrightarrow> length (eir_mask s) = numEIR s" "aic_wf s \<Longrightarrow> length (eir_state s) = numEIR s"
  "aic_wf s \<Longrightarrow> length (eir_dest s) = numIRQ s" "aic_wf s \<Longrightarrow> length (cpus s) = numCPU s"
  "aic_wf s \<Longrightarrow> numIRQ s = 32 * numEIR s"
  by (simp_all add: aic_wf_def)

lemmas aic_wf_intros = aic_wf_upd_cpu aic_wf_upd_cpus aic_wf_arrays

subsection \<open>Every operation keeps the state well-formed\<close>

datatype aic_op = SetIrq nat bool | Tick nat | Reset | Write nat hwaddr u64 | Read nat nat hwaddr

fun aic_step :: "aic_op \<Rightarrow> AppleAICState \<Rightarrow> AppleAICState" where
  "aic_step (SetIrq n level) s = apple_aic_set_irq n level s"
| "aic_step (Tick now) s = apple_aic_tick now s"
| "aic_step Reset s = apple_aic_reset s"
| "aic_step (Write k addr data) s = apple_aic_write k addr data s"
| "aic_step (Read now k addr) s = snd (apple_aic_read now k addr s)"

text \<open>An input line and a CPU window of the device itself.\<close>

fun aic_op_ok :: "nat \<Rightarrow> nat \<Rightarrow> aic_op \<Rightarrow> bool" where
  "aic_op_ok nc ni (SetIrq n level) = (n < ni)"
| "aic_op_ok nc ni (Write k addr data) = (k < nc)"
| "aic_op_ok nc ni (Read now k addr) = (k < nc)"
| "aic_op_ok nc ni _ = True"

definition aic_inv :: "nat \<Rightarrow> nat \<Rightarrow> AppleAICState \<Rightarrow> bool" where
  "aic_inv nc ni s \<longleftrightarrow> aic_wf s \<and> numCPU s = nc \<and> numIRQ s = ni"

lemma counts_update [simp]:
  "numCPU (apple_aic_update s) = numCPU s" "numIRQ (apple_aic_update s) = numIRQ s"
  "numEIR (apple_aic_update s) = numEIR s"
  by (simp_all add: apple_aic_update_def Let_def)

lemma counts_reset [simp]:
  "numCPU (apple_aic_reset s) = numCPU s" "numIRQ (apple_aic_reset s) = numIRQ s"
  "numEIR (apple_aic_reset s) = numEIR s"
  by (simp_all add: apple_aic_reset_def)

lemma aic_wf_update: "aic_wf s \<Longrightarrow> aic_wf (apple_aic_update s)"
  by (simp add: apple_aic_update_def Let_def aic_wf_intros)

lemma aic_wf_reset: "aic_wf s \<Longrightarrow> aic_wf (apple_aic_reset s)"
  by (simp add: apple_aic_reset_def aic_wf_intros)

lemma aic_wf_ipi:
  assumes "aic_wf s" "k < numCPU s"
  shows "aic_wf (aic_ipi_set k v s)" "aic_wf (aic_ipi_clr k v s)"
    "aic_wf (aic_ipi_defer_set k v s)" "aic_wf (aic_ipi_defer_clr k v s)"
  using assms
  by (simp_all add: aic_ipi_set_def aic_ipi_clr_def aic_ipi_defer_set_def aic_ipi_defer_clr_def
      Let_def aic_wf_intros)

lemma counts_ipi [simp]:
  "numCPU (aic_ipi_set k v s) = numCPU s" "numIRQ (aic_ipi_set k v s) = numIRQ s"
  "numEIR (aic_ipi_set k v s) = numEIR s" "numEIR (aic_ipi_clr k v s) = numEIR s"
  "numEIR (aic_ipi_defer_set k v s) = numEIR s" "numEIR (aic_ipi_defer_clr k v s) = numEIR s"
  "numCPU (aic_ipi_clr k v s) = numCPU s" "numIRQ (aic_ipi_clr k v s) = numIRQ s"
  "numCPU (aic_ipi_defer_set k v s) = numCPU s" "numIRQ (aic_ipi_defer_set k v s) = numIRQ s"
  "numCPU (aic_ipi_defer_clr k v s) = numCPU s" "numIRQ (aic_ipi_defer_clr k v s) = numIRQ s"
  by (simp_all add: aic_ipi_set_def aic_ipi_clr_def aic_ipi_defer_set_def aic_ipi_defer_clr_def Let_def)

lemma aic_inv_write_reg: "aic_inv nc ni s \<Longrightarrow> k < nc \<Longrightarrow> aic_inv nc ni (aic_write_reg k addr data s)"
  by (auto simp: aic_inv_def aic_write_reg_def Let_def aic_wf_reset aic_wf_ipi aic_wf_intros
      aic_wf_lengths)

lemma aic_inv_write: "aic_inv nc ni s \<Longrightarrow> k < nc \<Longrightarrow> aic_inv nc ni (apple_aic_write k addr data s)"
  using aic_inv_write_reg by (auto simp: apple_aic_write_def Let_def aic_inv_def)

lemma aic_inv_iack: "aic_inv nc ni s \<Longrightarrow> k < nc \<Longrightarrow> aic_inv nc ni (snd (aic_iack k s))"
  by (auto simp: aic_inv_def aic_iack_def Let_def aic_wf_intros aic_wf_lengths split: option.splits)

lemma snd_aic_read_reg:
  "snd (aic_read_reg now k addr s) = (if addr = REG_AIC_IACK then snd (aic_iack k s) else s)"
  by (simp add: aic_read_reg_def Let_def)

lemma aic_inv_read: "aic_inv nc ni s \<Longrightarrow> k < nc \<Longrightarrow> aic_inv nc ni (snd (apple_aic_read now k addr s))"
  using aic_inv_iack by (auto simp: apple_aic_read_def Let_def aic_inv_def snd_aic_read_reg)

interpretation aic: device_invariant aic_step "aic_op_ok nc ni" "aic_inv nc ni" for nc ni
proof
  fix x s
  assume "aic_op_ok nc ni x" "aic_inv nc ni s"
  then show "aic_inv nc ni (aic_step x s)"
    by (cases x) (simp_all add: aic_inv_write aic_inv_read, auto simp: aic_inv_def apple_aic_set_irq_def
        apple_aic_tick_def aic_wf_reset aic_wf_update aic_wf_intros aic_wf_lengths)
qed

subsection \<open>What an acknowledge returns\<close>

text \<open>
  The specification of an acknowledge: an unmasked self IPI wins over an unmasked IPI of another
  CPU, which wins over the lowest-numbered external interrupt that is pending, unmasked and routed
  to the CPU. The event returned is masked and the CPU's line is lowered.
\<close>

datatype aic_event = EvSelf | EvNorm | EvExt nat | EvNone

definition self_ready :: "AppleAICCPU \<Rightarrow> bool" where
  "self_ready c \<longleftrightarrow> bit (pendingIPI c) 31 \<and> \<not> bit (ipi_mask c) 31"

definition norm_ready :: "nat \<Rightarrow> AppleAICCPU \<Rightarrow> bool" where
  "norm_ready n c \<longleftrightarrow> \<not> bit (ipi_mask c) 0 \<and> (\<exists>i < n. bit (pendingIPI c) i)"

definition ext_ready :: "AppleAICState \<Rightarrow> nat \<Rightarrow> nat \<Rightarrow> bool" where
  "ext_ready s k i \<longleftrightarrow> bm_bit (eir_state s) i \<and> \<not> bm_bit (eir_mask s) i \<and> bit (eir_dest s ! i) k"

definition aic_next_event :: "nat \<Rightarrow> AppleAICState \<Rightarrow> aic_event" where
  "aic_next_event k s =
     (if self_ready (cpus s ! k) then EvSelf
      else if norm_ready (numCPU s) (cpus s ! k) then EvNorm
      else case find (ext_ready s k) [0..<numIRQ s] of Some i \<Rightarrow> EvExt i | None \<Rightarrow> EvNone)"

fun event_code :: "aic_event \<Rightarrow> u64" where
  "event_code EvSelf = 0x40002"
| "event_code EvNorm = 0x40001"
| "event_code (EvExt i) = 0x10000 + of_nat i"
| "event_code EvNone = 0"

fun mask_event :: "nat \<Rightarrow> aic_event \<Rightarrow> AppleAICState \<Rightarrow> AppleAICState" where
  "mask_event k EvSelf s = upd_cpu k (\<lambda>c. c\<lparr>ipi_mask := set_bit 31 (ipi_mask c)\<rparr>) s"
| "mask_event k EvNorm s = upd_cpu k (\<lambda>c. c\<lparr>ipi_mask := set_bit 0 (ipi_mask c)\<rparr>) s"
| "mask_event k (EvExt i) s = s\<lparr>eir_mask := set_bit32 i (eir_mask s)\<rparr>"
| "mask_event k EvNone s = s"

lemma find_filter: "find g (filter f xs) = find (\<lambda>x. f x \<and> g x) xs"
  by (induction xs) auto

lemma find_upt_SomeD: "find P [a..<n] = Some i \<Longrightarrow> P i \<and> a \<le> i \<and> i < n"
  by (auto simp: find_Some_iff)

lemma aic_iack_scan_find:
  "numIRQ s = 32 * n \<Longrightarrow> aic_iack_scan s me a = find (ext_ready s me) [a..<numIRQ s]"
proof (induction s me a rule: aic_iack_scan.induct)
  case (1 s me a)
  let ?i = "find_next_bit32 (eir_state s) (numIRQ s) a"
  have "find (ext_ready s me) [a..<numIRQ s] =
      find (\<lambda>i. \<not> bm_bit (eir_mask s) i \<and> bit (eir_dest s ! i) me)
        (filter (bm_bit (eir_state s)) [a..<numIRQ s])"
    by (simp add: find_filter ext_ready_def [abs_def])
  also have "\<dots> = (if ?i < numIRQ s
      then if \<not> bm_bit (eir_mask s) ?i \<and> bit (eir_dest s ! ?i) me then Some ?i
           else find (ext_ready s me) [Suc ?i..<numIRQ s] else None)"
    using 1(2) fnb.scan_filter [of "eir_state s" a n]
    by (simp add: find_filter ext_ready_def [abs_def])
  finally show ?case
    using 1 by (simp add: aic_iack_scan.simps [of s me a] Let_def and_BIT_eq_0)
qed

lemma ext_code: "i < 1024 \<Longrightarrow> kAIC_INT_EXT OR AIC_INT_EXTID (of_nat i) = 0x10000 + of_nat i"
proof -
  assume i: "i < 1024"
  have m: "(0x3FF :: u64) = mask 10" by (simp add: mask_eq_exp_minus_1)
  have "take_bit 10 i = i" using i by (simp add: take_bit_eq_mod)
  then have "take_bit 10 (of_nat i :: u64) = of_nat i"
    by (simp only: take_bit_of_nat)
  then have "AIC_INT_EXTID (of_nat i :: u64) = of_nat i"
    by (simp add: m flip: take_bit_eq_mask)
  moreover have "(0x10000 :: u64) AND of_nat i = 0"
  proof (rule bit_word_eqI)
    fix n
    have e: "(0x10000 :: u64) = BIT 16" by (simp add: BIT_def)
    have "\<not> bit i 16" using i by (simp add: bit_iff_odd)
    then show "bit ((0x10000 :: u64) AND of_nat i) n \<longleftrightarrow> bit (0 :: u64) n"
      unfolding e by (auto simp: bit_and_iff bit_of_nat_iff)
  qed
  ultimately show ?thesis by (simp add: disjunctive_add_eq_or)
qed

lemma self_ready_code: "(pendingIPI c AND AIC_IPI_SELF) AND NOT (ipi_mask c) \<noteq> 0 \<longleftrightarrow> self_ready c"
  by (auto simp: self_ready_def word_eq_0_bits bit_logic)

lemma norm_ready_code:
  "n < 32 \<Longrightarrow> (NOT (ipi_mask c) AND AIC_IPI_NORMAL \<noteq> 0 \<and> pendingIPI c AND (BIT n - 1) \<noteq> 0) \<longleftrightarrow> norm_ready n c"
  by (auto simp: norm_ready_def and_BIT_eq_0 word_eq_0_bits bit_logic bit_BIT_minus_1
      intro: less_trans)

lemma or_BIT: "w OR BIT n = set_bit n (w :: 'a::len word)"
  by (rule bit_word_eqI) (auto simp: bit_logic bit_set_bit_iff)

lemma ready_lower [simp]:
  "self_ready (c\<lparr>irq := b\<rparr>) = self_ready c" "norm_ready n (c\<lparr>irq := b\<rparr>) = norm_ready n c"
  "ext_ready (upd_cpu k f s) = ext_ready s" "ext_ready (upd_cpus g s) = ext_ready s"
  by (auto simp: self_ready_def norm_ready_def ext_ready_def fun_eq_iff)

lemma aic_iack_event:
  assumes "aic_wf s" "k < numCPU s"
  shows "aic_iack k s = (event_code (aic_next_event k s),
           mask_event k (aic_next_event k s) (upd_cpu k (\<lambda>c. c\<lparr>irq := False\<rparr>) s))"
proof -
  let ?s = "upd_cpu k (\<lambda>c. c\<lparr>irq := False\<rparr>) s"
  have w: "k < length (cpus s)" "cpu_id (cpus s ! k) = k" "numCPU s < 32" "numIRQ s \<le> 1024"
    and n: "numIRQ ?s = 32 * numEIR s"
    using assms by (simp_all add: aic_wf_def)
  have "i < 1024" if "find (ext_ready s k) [0..<numIRQ s] = Some i" for i
    using find_upt_SomeD [OF that] w(4) by simp
  then show ?thesis
    unfolding aic_iack_def Let_def self_ready_code aic_iack_scan_find [OF n]
    using w by (auto simp: norm_ready_code aic_next_event_def or_BIT ext_code split: option.split)
qed

lemma unat_event_code:
  "(\<And>j. e = EvExt j \<Longrightarrow> j < 1024) \<Longrightarrow>
   unat (event_code e) = (case e of EvSelf \<Rightarrow> 0x40002 | EvNorm \<Rightarrow> 0x40001 | EvExt i \<Rightarrow> 0x10000 + i | EvNone \<Rightarrow> 0)"
proof (cases e)
  case (EvExt j)
  assume "\<And>j. e = EvExt j \<Longrightarrow> j < 1024"
  then have "j < 1024" using EvExt by simp
  then have "unat (of_nat (0x10000 + j) :: u64) = 0x10000 + j" by (subst unat_of_nat) simp
  then show ?thesis using EvExt by simp
qed simp_all

lemma event_code_ext:
  assumes "i < 1024" "event_code e = event_code (EvExt i)" "\<And>j. e = EvExt j \<Longrightarrow> j < 1024"
  shows "e = EvExt i"
proof -
  have "unat (event_code e) = unat (event_code (EvExt i))" by (simp add: assms(2))
  then have "unat (event_code e) = 0x10000 + i" by (subst (asm) unat_event_code [of "EvExt i"]) (simp_all add: assms(1))
  then show ?thesis using assms(1,3) by (cases e) (auto simp: unat_event_code simp del: event_code.simps)
qed

lemma aic_next_event_ext:
  "aic_next_event k s = EvExt i \<Longrightarrow> ext_ready s k i \<and> i < numIRQ s"
  by (auto simp: aic_next_event_def split: if_splits option.splits dest: find_upt_SomeD)

lemma aic_next_event_none:
  "ext_ready s k i \<Longrightarrow> i < numIRQ s \<Longrightarrow> aic_next_event k s \<noteq> EvNone"
  by (auto simp: aic_next_event_def find_None_iff split: option.splits)

lemma iack_ext_iff:
  assumes "aic_wf s" "k < numCPU s" "i < 1024"
  shows "fst (aic_iack k s) = event_code (EvExt i) \<longleftrightarrow> aic_next_event k s = EvExt i"
proof
  assume "fst (aic_iack k s) = event_code (EvExt i)"
  then have "event_code (aic_next_event k s) = event_code (EvExt i)" by (simp add: aic_iack_event assms)
  moreover have "j < 1024" if "aic_next_event k s = EvExt j" for j
    using aic_next_event_ext [OF that] assms(1) by (simp add: aic_wf_def)
  ultimately show "aic_next_event k s = EvExt i" using assms(3) by (intro event_code_ext)
qed (simp add: aic_iack_event assms)

lemma iack_none_iff:
  assumes "aic_wf s" "k < numCPU s"
  shows "fst (aic_iack k s) = kAIC_INT_SPURIOUS \<longleftrightarrow> aic_next_event k s = EvNone"
proof -
  have "i < 1024" if "aic_next_event k s = EvExt i" for i
    using aic_next_event_ext [OF that] assms(1) by (simp add: aic_wf_def)
  then have "unat (event_code (aic_next_event k s)) = 0 \<longleftrightarrow> aic_next_event k s = EvNone"
    by (subst unat_event_code) (auto split: aic_event.split)
  then show ?thesis using assms by (simp add: aic_iack_event unat_eq_0)
qed

subsection \<open>What an update raises\<close>

lemma bit_fold_or_BIT:
  "k < LENGTH('a) \<Longrightarrow>
   bit (fold (\<lambda>i x. if P i then x OR BIT i else x) xs (x0 :: 'a::len word)) k \<longleftrightarrow> bit x0 k \<or> k \<in> set xs \<and> P k"
  by (induction xs arbitrary: x0) (auto simp: bit_or_iff)

lemma bit_aic_ipi_intr:
  assumes "numCPU s < 32"
  shows "bit (aic_ipi_intr s) k \<longleftrightarrow>
    k < numCPU s \<and> (self_ready (cpus s ! k) \<or> norm_ready (numCPU s) (cpus s ! k))"
proof (cases "k < 32")
  case True
  have "aic_ipi_intr s = fold (\<lambda>i x. if self_ready (cpus s ! i) \<or> norm_ready (numCPU s) (cpus s ! i)
      then x OR BIT i else x) [0..<numCPU s] 0"
    unfolding aic_ipi_intr_def Let_def self_ready_code norm_ready_code [OF assms]
    by (intro fold_cong refl) auto
  then show ?thesis using True by (simp add: bit_fold_or_BIT)
next
  case False
  then show ?thesis using assms by (auto dest: bit_imp_le_length)
qed

lemma aic_eir_scan_fold:
  "numIRQ s = 32 * n \<Longrightarrow>
   aic_eir_scan s a acc = fold (aic_eir_step s) (filter (bm_bit (eir_state s)) [a..<numIRQ s]) acc"
proof (induction s a acc rule: aic_eir_scan.induct)
  case (1 s a acc)
  then show ?case
    using fnb.scan_filter [of "eir_state s" a n] by (simp add: aic_eir_scan.simps [of s a acc] Let_def)
qed

text \<open>One step never drops a CPU, and picks one of the interrupt's own CPUs if none is picked yet.\<close>

lemma aic_eir_step_mono: "bit (fst acc) k \<Longrightarrow> bit (fst (aic_eir_step s i acc)) k"
  by (auto simp: aic_eir_step_def Let_def bit_or_iff split: prod.splits option.splits)

lemma aic_eir_steps_mono: "bit (fst acc) k \<Longrightarrow> bit (fst (fold (aic_eir_step s) is acc)) k"
  by (induction "is" arbitrary: acc) (simp_all only: fold_simps aic_eir_step_mono)

lemma find_first_dest:
  assumes "dest \<noteq> 0" "\<forall>k \<ge> n. \<not> bit dest k"
  shows "find_first_bit32 [dest] n < n \<and> bit dest (find_first_bit32 [dest] n)"
proof -
  have "next_bit_spec (bm_bit [dest]) n 0 (find_first_bit32 [dest] n)" by (rule find_first_bit32_spec)
  moreover obtain k where k: "bit dest k" using assms(1) word_neq_0_bit by blast
  moreover have "k < n" using assms(2) k not_less by blast
  moreover have "k < 32" using bit_imp_le_length [OF k] by simp
  ultimately have "find_first_bit32 [dest] n \<le> k \<and> bm_bit [dest] (find_first_bit32 [dest] n)"
    unfolding next_bit_spec_def using bm_bit_in_word [of k "[dest]" 0]
    by (metis add_0 le_less_linear less_le_trans mult_0_right nth_Cons_0 not_less zero_le)
  moreover have "find_first_bit32 [dest] n < 32" using calculation \<open>k < 32\<close> by simp
  ultimately show ?thesis using \<open>k < n\<close> by (simp add: bm_bit_def)
qed

lemma aic_eir_step_picks:
  assumes "\<not> bm_bit (eir_mask s) i" "eir_dest s ! i \<noteq> 0" "\<forall>k \<ge> numCPU s. \<not> bit (eir_dest s ! i) k"
  shows "\<exists>k. bit (fst (aic_eir_step s i acc)) k \<and> bit (eir_dest s ! i) k"
proof (cases "fst acc AND eir_dest s ! i = 0")
  case True
  let ?k = "find_first_bit32 [eir_dest s ! i] (numCPU s)"
  have "bit (eir_dest s ! i) ?k" using find_first_dest [OF assms(2,3)] by simp
  moreover have "fst (aic_eir_step s i acc) = fst acc OR BIT ?k"
    using True assms by (cases acc) (simp add: aic_eir_step_def Let_def)
  ultimately show ?thesis
    using bit_imp_le_length [of "eir_dest s ! i" ?k] by (intro exI [of _ ?k]) (simp add: bit_or_iff)
next
  case False
  then obtain k where "bit (fst acc AND eir_dest s ! i) k" using word_neq_0_bit by blast
  then have "bit (fst acc) k" "bit (eir_dest s ! i) k" by (simp_all add: bit_and_iff)
  then show ?thesis using aic_eir_step_mono by blast
qed

lemma aic_eir_scan_picks:
  assumes "aic_wf s" "i < numIRQ s" "bm_bit (eir_state s) i" "\<not> bm_bit (eir_mask s) i"
    "eir_dest s ! i \<noteq> 0" "\<forall>k \<ge> numCPU s. \<not> bit (eir_dest s ! i) k"
  shows "\<exists>k < numCPU s. bit (fst (aic_eir_scan s 0 acc)) k \<and> bit (eir_dest s ! i) k"
proof -
  have "i \<in> set (filter (bm_bit (eir_state s)) [0..<numIRQ s])" using assms by simp
  then obtain xs ys where "filter (bm_bit (eir_state s)) [0..<numIRQ s] = xs @ i # ys"
    by (blast dest: split_list)
  then have scan: "aic_eir_scan s 0 acc =
      fold (aic_eir_step s) ys (aic_eir_step s i (fold (aic_eir_step s) xs acc))"
    by (simp add: aic_eir_scan_fold [OF aic_wf_lengths(5) [OF assms(1)]])
  obtain k where k: "bit (fst (aic_eir_step s i (fold (aic_eir_step s) xs acc))) k" "bit (eir_dest s ! i) k"
    using aic_eir_step_picks [OF assms(4-6)] by blast
  have "k < numCPU s" using assms(6) k(2) not_less by blast
  with k show ?thesis unfolding scan by (blast intro: aic_eir_steps_mono)
qed

lemma update_eir [simp]:
  "eir_mask (apple_aic_update s) = eir_mask s" "eir_dest (apple_aic_update s) = eir_dest s"
  "eir_state (apple_aic_update s) = eir_state s" "ext_ready (apple_aic_update s) = ext_ready s"
  by (simp_all add: apple_aic_update_def Let_def)

definition merge_deferred :: "AppleAICState \<Rightarrow> AppleAICState" where
  "merge_deferred s = upd_cpus (\<lambda>i c. c\<lparr>pendingIPI := pendingIPI c OR deferredIPI c, deferredIPI := 0\<rparr>) s"

lemma update_cpu:
  assumes "aic_wf s" "k < numCPU s"
  defines "c \<equiv> cpus s ! k"
  shows "cpus (apple_aic_update s) ! k =
    c\<lparr>pendingIPI := pendingIPI c OR deferredIPI c, deferredIPI := 0,
      irq := irq c \<or> bit (fst (aic_eir_scan (merge_deferred s) 0 (aic_ipi_intr (merge_deferred s), 0))) k\<rparr>"
  using assms by (simp add: apple_aic_update_def Let_def merge_deferred_def and_BIT_eq_0 aic_wf_lengths)

subsection \<open>The mask ports\<close>

text \<open>The word of \<open>eir_mask\<close> behind a pair of mask ports exists.\<close>

definition eir_port_ok :: "nat \<Rightarrow> nat \<Rightarrow> AppleAICState \<Rightarrow> bool" where
  "eir_port_ok k e s \<longleftrightarrow> aic_wf s \<and> k < numCPU s \<and> e < numEIR s \<and> e \<le> kAIC_NUM_EIRS"

lemma write_eir_mask:
  assumes "eir_port_ok k e s"
  shows "apple_aic_write k (REG_AIC_EIR_MASK_SET e) (ucast v) s =
      s\<lparr>eir_mask := (eir_mask s)[e := eir_mask s ! e OR v]\<rparr>"
    "apple_aic_write k (REG_AIC_EIR_MASK_CLR e) (ucast v) s =
      s\<lparr>eir_mask := (eir_mask s)[e := eir_mask s ! e AND NOT v]\<rparr>"
  using assms by (simp_all add: eir_port_ok_def apple_aic_write_def aic_write_reg_def Let_def)

interpretation eir_mask_port: mask_register "\<lambda>s. eir_mask s ! e"
    "\<lambda>v. apple_aic_write k (REG_AIC_EIR_MASK_SET e) (ucast v)"
    "\<lambda>v. apple_aic_write k (REG_AIC_EIR_MASK_CLR e) (ucast v)" "eir_port_ok k e" for k e
  by unfold_locales
    (simp_all add: write_eir_mask, simp_all add: eir_port_ok_def aic_wf_arrays aic_wf_lengths)

subsection \<open>A masked interrupt stays masked\<close>

text \<open>Only a write of its bit to its mask clear port unmasks an interrupt.\<close>

fun aic_unmasks :: "nat \<Rightarrow> aic_op \<Rightarrow> bool" where
  "aic_unmasks i (Write k addr data) =
     (addr \<in> {REG_AIC_EIR_MASK_CLR 0..REG_AIC_EIR_MASK_CLR kAIC_NUM_EIRS} \<and>
      (addr - REG_AIC_EIR_MASK_CLR 0) div 4 = i div 32 \<and> bit data (i mod 32))"
| "aic_unmasks i _ = False"

lemma eir_mask_ipi [simp]:
  "eir_mask (aic_ipi_set k v s) = eir_mask s" "eir_mask (aic_ipi_clr k v s) = eir_mask s"
  "eir_mask (aic_ipi_defer_set k v s) = eir_mask s" "eir_mask (aic_ipi_defer_clr k v s) = eir_mask s"
  by (simp_all add: aic_ipi_set_def aic_ipi_clr_def aic_ipi_defer_set_def aic_ipi_defer_clr_def Let_def)

lemma bm_bit_replicate_ones: "i < 32 * n \<Longrightarrow> bm_bit (replicate n 0xFFFFFFFF) i"
proof -
  assume "i < 32 * n"
  then have "i div 32 < n" by (simp add: less_mult_imp_div_less mult.commute)
  moreover have "(0xFFFFFFFF :: u32) = mask 32" by (simp add: mask_eq_exp_minus_1)
  then have "bit (0xFFFFFFFF :: u32) (i mod 32)" by (simp only: bit_mask_iff) simp
  ultimately show ?thesis by (simp add: bm_bit_def)
qed

lemma masked_write_reg:
  assumes "aic_wf s" "i < numIRQ s" "bm_bit (eir_mask s) i" "\<not> aic_unmasks i (Write k addr data)"
  shows "bm_bit (eir_mask (aic_write_reg k addr data s)) i"
proof -
  have len: "length (eir_mask s) = numEIR s" "i < 32 * numEIR s"
    using assms(1,2) by (simp_all add: aic_wf_def)
  have "bit (ucast data :: u32) (i mod 32) \<longleftrightarrow> bit data (i mod 32)" by (simp add: bit_ucast_iff)
  then show ?thesis
    using assms(3,4) len
    by (auto simp: aic_write_reg_def Let_def apple_aic_reset_def bm_bit_replicate_ones
        bm_bit_word_or bm_bit_word_andnot)
qed

lemma masked_write:
  assumes "aic_wf s" "i < numIRQ s" "bm_bit (eir_mask s) i" "\<not> aic_unmasks i (Write k addr data)"
  shows "bm_bit (eir_mask (apple_aic_write k addr data s)) i"
proof (cases "addr \<in> {REG_AIC_WHOAMI_Pn 0..REG_AIC_WHOAMI_Pn AIC_CPU_COUNT - 4}")
  case True
  let ?cpu = "(addr - 0x5000) div 0x80"
  have "addr - 0x5000 + 0x2000 - 0x80 * ?cpu < REG_AIC_EIR_MASK_CLR 0"
    using minus_mult_div_eq_mod [of "addr - 0x5000" "0x80"] mod_less_divisor [of "0x80" "addr - 0x5000"]
    by simp
  then have "\<not> aic_unmasks i (Write ?cpu (addr - 0x5000 + 0x2000 - 0x80 * ?cpu) data)" by simp
  from masked_write_reg [OF assms(1-3) this] True assms(3) show ?thesis
    by (simp add: apple_aic_write_def Let_def)
next
  case False
  then show ?thesis using masked_write_reg [OF assms] by (simp only: apple_aic_write_def if_False)
qed

lemma masked_iack:
  assumes "aic_wf s" "k < numCPU s" "i < numIRQ s" "bm_bit (eir_mask s) i"
  shows "bm_bit (eir_mask (snd (aic_iack k s))) i"
proof -
  have "bm_bit (set_bit32 j (eir_mask s)) i" if "aic_next_event k s = EvExt j" for j
    using aic_next_event_ext [OF that] assms by (simp add: bm_bit_set_bit32 aic_wf_lengths)
  then show ?thesis using assms by (cases "aic_next_event k s") (simp_all add: aic_iack_event)
qed

lemma masked_read:
  "aic_wf s \<Longrightarrow> k < numCPU s \<Longrightarrow> i < numIRQ s \<Longrightarrow> bm_bit (eir_mask s) i \<Longrightarrow>
   bm_bit (eir_mask (snd (apple_aic_read now k addr s))) i"
  by (simp add: apple_aic_read_def Let_def snd_aic_read_reg masked_iack)

interpretation aic_masked: device_invariant aic_step
    "\<lambda>x. aic_op_ok nc ni x \<and> \<not> aic_unmasks i x"
    "\<lambda>s. aic_inv nc ni s \<and> i < ni \<and> bm_bit (eir_mask s) i" for nc ni i
proof
  fix x s
  assume x: "aic_op_ok nc ni x \<and> \<not> aic_unmasks i x"
    and s: "aic_inv nc ni s \<and> i < ni \<and> bm_bit (eir_mask s) i"
  then have w: "aic_wf s" "numCPU s = nc" "numIRQ s = ni" by (simp_all add: aic_inv_def)
  have "bm_bit (eir_mask (aic_step x s)) i"
  proof (cases x)
    case (Write k addr data)
    then show ?thesis using masked_write [of s i k addr data] x s w by (simp del: aic_unmasks.simps)
  qed (use x s w in \<open>auto simp: masked_read apple_aic_set_irq_def apple_aic_tick_def
        apple_aic_reset_def bm_bit_replicate_ones aic_wf_lengths\<close>)
  then show "aic_inv nc ni (aic_step x s) \<and> i < ni \<and> bm_bit (eir_mask (aic_step x s)) i"
    using aic.step_inv x s by blast
qed

lemma aic_create_counts:
  assumes "apple_aic_create nc node tb = Inr (s, node')"
  shows "\<exists>ipid. apple_dt_get_prop node (cs ''ipid-mask'') = Some ipid \<and> numCPU s = nc \<and>
    numEIR s = unat (p_len ipid div 4) \<and> numIRQ s = unat (p_len ipid div 4 * 32)"
proof (cases "apple_dt_get_prop node (cs ''reg'')")
  case reg: (Some reg)
  show ?thesis
  proof (cases "apple_dt_get_prop node (cs ''ipid-mask'')")
    case None
    then show ?thesis using assms reg by (cases "length (p_data reg) < 16") (auto simp: apple_aic_create_def)
  next
    case (Some ipid)
    then show ?thesis using assms reg by (cases "length (p_data reg) < 16") (auto simp: apple_aic_create_def)
  qed
qed (use assms in \<open>auto simp: apple_aic_create_def\<close>)

lemma aic_realize_inv:
  assumes "apple_aic_create nc node tb = Inr (s0, node')" "apple_aic_realize s0 = Inr s" "nc < 31" "numEIR s0 \<le> 32"
  shows "aic_inv nc (numIRQ s) s" "numIRQ s = 32 * numEIR s0"
proof -
  obtain w :: u32 where w: "numEIR s0 = unat w" "numIRQ s0 = unat (w * 32)" "numCPU s0 = nc"
    using aic_create_counts [OF assms(1)] by auto
  have "numIRQ s0 = 32 * numEIR s0" using assms(4) unfolding w by (simp add: unat_word_ariths)
  then show "numIRQ s = 32 * numEIR s0" "aic_inv nc (numIRQ s) s"
    using assms(2-4) w(3) by (auto simp: apple_aic_realize_def Let_def aic_inv_def aic_wf_def split: if_splits)
qed

subsection \<open>Properties\<close>

text \<open>
  From the created and realised device, every sequence of line changes, ticks, resets
  and register accesses keeps the arrays at the sizes their indices rely on and the CPU records
  numbered.
\<close>

theorem aic_reachable_wf:
  assumes "apple_aic_create nc node tb = Inr (s0, node')" "apple_aic_realize s0 = Inr s" "nc < 31" "numEIR s0 \<le> 32"
    and "list_all (aic_op_ok nc (numIRQ s)) ops"
  shows "aic_wf (run_ops aic_step ops s) \<and> numIRQ (run_ops aic_step ops s) = 32 * numEIR s0"
  using aic.run_inv [OF assms(5) aic_realize_inv(1) [OF assms(1-4)]] aic_realize_inv(2) [OF assms(1-4)] by (simp add: aic_inv_def)

definition aic_demo_node :: AppleDTNode where
  "aic_demo_node = DTNode [(cs ''AAPL,phandle'', plain_prop [7, 0, 0, 0]), (cs ''reg'', plain_prop (replicate 16 0)),
     (cs ''ipid-mask'', plain_prop [0, 0, 0, 0])] [] False"

definition aic_demo_created :: "AppleAICState \<times> AppleDTNode" where
  "aic_demo_created = projr (apple_aic_create 2 aic_demo_node aic_demo_node)"

theorem aic_reachable_wf_witness:
  "aic_wf (run_ops aic_step [SetIrq 5 True, Write 0 (REG_AIC_EIR_DEST 5) 3, Tick 9, Read 9 1 REG_AIC_IACK]
     (projr (apple_aic_realize (fst aic_demo_created))))"
proof -
  have c: "apple_aic_create 2 aic_demo_node aic_demo_node = Inr (fst aic_demo_created, snd aic_demo_created)" by code_simp
  have r: "apple_aic_realize (fst aic_demo_created) = Inr (projr (apple_aic_realize (fst aic_demo_created)))" by code_simp
  have n: "numEIR (fst aic_demo_created) \<le> 32" "numIRQ (projr (apple_aic_realize (fst aic_demo_created))) = 32" by code_simp+
  show ?thesis by (rule conjunct1 [OF aic_reachable_wf [OF c r]]) (simp_all add: n)
qed

text \<open>
  Property C1 (refinement). Reading the acknowledge register, through the CPU's own page or through
  its window, returns the event the specification picks, masks exactly that event and lowers the
  line of that CPU; nothing else changes.
\<close>

theorem aic_iack_correct:
  assumes "aic_wf s" "j < numCPU s"
  defines "r \<equiv> (event_code (aic_next_event j s),
      mask_event j (aic_next_event j s) (upd_cpu j (\<lambda>c. c\<lparr>irq := False\<rparr>) s))"
  shows "apple_aic_read now j REG_AIC_IACK s = r \<and>
    (j < AIC_CPU_COUNT \<longrightarrow> apple_aic_read now k (REG_AIC_WHOAMI_Pn j + 4) s = r)"
  using assms by (simp add: apple_aic_read_def aic_read_reg_def aic_iack_event)

definition aic_demo_cpu :: "nat \<Rightarrow> AppleAICCPU" where
  "aic_demo_cpu n = \<lparr>irq = False, cpu_id = n, pendingIPI = 0, deferredIPI = 0, ipi_mask = 0\<rparr>"

definition aic_demo :: AppleAICState where
  "aic_demo = \<lparr>phandle = 0, base_size = 0, timer = 0, numEIR = 1, numIRQ = 32, numCPU = 2, global_cfg = 0, time_base = 0,
     eir_mask = [0], eir_dest = (replicate 32 0)[5 := 3], cpus = [aic_demo_cpu 0, aic_demo_cpu 1],
     eir_state = [0x20]\<rparr>"

lemma less_2_cases_nat: "(i :: nat) < 2 \<longleftrightarrow> i = 0 \<or> i = 1"
  by auto

lemma aic_demo_facts:
  "aic_wf aic_demo" "numCPU aic_demo = 2" "numIRQ aic_demo = 32" "bm_bit (eir_state aic_demo) 5"
  "\<not> bm_bit (eir_mask aic_demo) 5" "eir_dest aic_demo ! 5 = 3"
  by (auto simp: aic_demo_def aic_wf_def aic_demo_cpu_def bm_bit_def less_2_cases_nat)

lemma aic_demo_event: "aic_next_event (Suc 0) aic_demo = EvExt 5"
  by (simp add: aic_next_event_def self_ready_def norm_ready_def aic_demo_def aic_demo_cpu_def
      ext_ready_def bm_bit_def upt_conv_Cons nth_list_update)

theorem aic_iack_correct_witness:
  "fst (apple_aic_read 0 0 (REG_AIC_WHOAMI_Pn 1 + 4) aic_demo) = 0x10005"
  using aic_iack_correct [of aic_demo 1 0 0] by (simp add: aic_demo_facts aic_demo_event)

text \<open>
  Property C8 (safety). An external interrupt that one CPU acknowledged is delivered to no CPU
  again, whatever the devices and the CPUs do, until its bit is written to its mask clear port.
\<close>

theorem aic_ack_exclusive:
  assumes "aic_wf s" "k < numCPU s" "i < numIRQ s"
    and "fst (apple_aic_read now k REG_AIC_IACK s) = kAIC_INT_EXT + of_nat i"
    and "list_all (\<lambda>x. aic_op_ok (numCPU s) (numIRQ s) x \<and> \<not> aic_unmasks i x) ops"
    and "j < numCPU s"
  defines "t \<equiv> run_ops aic_step ops (snd (apple_aic_read now k REG_AIC_IACK s))"
  shows "fst (apple_aic_read now' j REG_AIC_IACK t) \<noteq> kAIC_INT_EXT + of_nat i"
proof -
  have read: "apple_aic_read now k REG_AIC_IACK s = aic_iack k s" for now k s
    by (simp add: apple_aic_read_def aic_read_reg_def)
  have i: "i < 1024" and inv: "aic_inv (numCPU s) (numIRQ s) s"
    using assms(1,3) by (simp_all add: aic_wf_def aic_inv_def)
  have "aic_next_event k s = EvExt i" using assms(1-4) i by (simp add: read iack_ext_iff [symmetric])
  then have "bm_bit (eir_mask (snd (aic_iack k s))) i"
    using assms(1-3) by (simp add: aic_iack_event bm_bit_set_bit32 aic_wf_lengths)
  then have "aic_inv (numCPU s) (numIRQ s) t \<and> bm_bit (eir_mask t) i"
    using aic_masked.run_inv [OF assms(5)] aic_inv_iack [OF inv assms(2)] assms(3)
    by (simp add: t_def read)
  then have t: "aic_wf t" "j < numCPU t" "\<not> ext_ready t j i"
    using assms(6) by (simp_all add: aic_inv_def ext_ready_def)
  then have "aic_next_event j t \<noteq> EvExt i" using aic_next_event_ext by blast
  then show ?thesis using t i by (simp add: read iack_ext_iff [symmetric])
qed

theorem aic_ack_exclusive_witness:
  "fst (apple_aic_read 0 1 REG_AIC_IACK (run_ops aic_step [Tick 0, SetIrq 5 False, SetIrq 5 True]
     (snd (apple_aic_read 0 1 REG_AIC_IACK aic_demo)))) \<noteq> 0x10005"
proof -
  have "fst (apple_aic_read 0 1 REG_AIC_IACK aic_demo) = kAIC_INT_EXT + of_nat 5"
    by (simp add: apple_aic_read_def aic_read_reg_def aic_iack_event aic_demo_facts aic_demo_event)
  from aic_ack_exclusive [OF _ _ _ this, of "[Tick 0, SetIrq 5 False, SetIrq 5 True]" 1]
  show ?thesis by (simp add: aic_demo_facts)
qed

text \<open>
  Property C9 (liveness). After an update, an external interrupt that is pending, unmasked and
  routed to existing CPUs has raised the line of one of the CPUs it is routed to, and that CPU's
  acknowledge is not spurious.
\<close>

theorem aic_update_delivers:
  assumes "aic_wf s" "i < numIRQ s" "bm_bit (eir_state s) i" "\<not> bm_bit (eir_mask s) i"
    "eir_dest s ! i \<noteq> 0" "\<forall>k \<ge> numCPU s. \<not> bit (eir_dest s ! i) k"
  shows "\<exists>k < numCPU s. bit (eir_dest s ! i) k \<and> irq (cpus (apple_aic_update s) ! k) \<and>
           fst (apple_aic_read now k REG_AIC_IACK (apple_aic_update s)) \<noteq> kAIC_INT_SPURIOUS"
proof -
  have "aic_wf (merge_deferred s)" using assms(1) by (simp add: merge_deferred_def aic_wf_intros)
  from aic_eir_scan_picks [OF this, of i "(aic_ipi_intr (merge_deferred s), 0)"] assms
  obtain k where k: "k < numCPU s" "bit (eir_dest s ! i) k"
    "bit (fst (aic_eir_scan (merge_deferred s) 0 (aic_ipi_intr (merge_deferred s), 0))) k"
    by (auto simp: merge_deferred_def)
  then have "irq (cpus (apple_aic_update s) ! k)" using assms(1) by (simp add: update_cpu)
  moreover have "aic_next_event k (apple_aic_update s) \<noteq> EvNone"
    using assms k by (intro aic_next_event_none [of _ _ i]) (simp_all add: ext_ready_def)
  then have "fst (aic_iack k (apple_aic_update s)) \<noteq> kAIC_INT_SPURIOUS"
    using assms(1) k(1) by (simp add: iack_none_iff aic_wf_update)
  ultimately show ?thesis
    using k by (intro exI [of _ k]) (simp add: apple_aic_read_def aic_read_reg_def)
qed

theorem aic_update_delivers_witness:
  "\<exists>k < 2. bit (3 :: u32) k \<and> irq (cpus (apple_aic_update aic_demo) ! k) \<and>
     fst (apple_aic_read 0 k REG_AIC_IACK (apple_aic_update aic_demo)) \<noteq> kAIC_INT_SPURIOUS"
proof -
  have "(3 :: u32) = mask 2" by (simp add: mask_eq_exp_minus_1)
  then have "\<not> bit (3 :: u32) k" if "2 \<le> k" for k using that by (simp only: bit_mask_iff) simp
  then show ?thesis using aic_update_delivers [of aic_demo 5] by (simp add: aic_demo_facts)
qed

subsection \<open>Inter-processor interrupts\<close>

lemma write_ipi:
  "apple_aic_write k REG_AIC_IPI_SET (ucast v) s = aic_ipi_set k v s"
  "apple_aic_write k REG_AIC_IPI_CLR (ucast v) s = aic_ipi_clr k v s"
  "apple_aic_write k REG_AIC_IPI_DEFER_SET (ucast v) s = aic_ipi_defer_set k v s"
  "apple_aic_write k REG_AIC_IPI_DEFER_CLR (ucast v) s = aic_ipi_defer_clr k v s"
  by (simp_all add: apple_aic_write_def aic_write_reg_def Let_def)

lemma ipi_set_cpu:
  assumes "aic_wf s" "k < numCPU s" "j < numCPU s" "bit v j"
  defines "c \<equiv> cpus (aic_ipi_set k v s) ! j"
  shows "bit (pendingIPI c) k" "ipi_mask c = ipi_mask (cpus s ! j)"
    "\<not> bit (ipi_mask (cpus s ! j)) 0 \<Longrightarrow> irq c"
  using assms by (auto simp: aic_wf_def aic_ipi_set_def Let_def and_BIT_eq_0 bit_logic)

lemma ipi_defer_set_cpu:
  assumes "aic_wf s" "k < numCPU s" "j < numCPU s" "bit v j"
  defines "c \<equiv> cpus (aic_ipi_defer_set k v s) ! j"
  shows "bit (deferredIPI c) k" "ipi_mask c = ipi_mask (cpus s ! j)"
  using assms by (auto simp: aic_wf_def aic_ipi_defer_set_def Let_def and_BIT_eq_0 bit_logic)

lemma norm_ready_event:
  "norm_ready (numCPU s) (cpus s ! j) \<Longrightarrow> aic_next_event j s = EvSelf \<or> aic_next_event j s = EvNorm"
  by (simp add: aic_next_event_def)

text \<open>
  A CPU that writes another CPU's bit to the IPI set register marks
  itself pending there; if the target has normal IPIs unmasked, its line goes up and its
  acknowledge returns an IPI, the self IPI only if that one is ready as well.
\<close>

theorem aic_ipi_delivers:
  assumes "aic_wf s" "k < numCPU s" "j < numCPU s" "bit v j" "\<not> bit (ipi_mask (cpus s ! j)) 0"
  defines "t \<equiv> apple_aic_write k REG_AIC_IPI_SET (ucast (v :: u32)) s"
  shows "bit (pendingIPI (cpus t ! j)) k \<and> irq (cpus t ! j) \<and>
    fst (apple_aic_read now j REG_AIC_IACK t) =
      (if self_ready (cpus t ! j) then kAIC_INT_IPI OR kAIC_INT_IPI_SELF
       else kAIC_INT_IPI OR kAIC_INT_IPI_NORM)"
proof -
  have t_eq: "t = aic_ipi_set k v s" by (simp add: t_def write_ipi)
  note c = ipi_set_cpu [OF assms(1-4), folded t_eq]
  have t: "aic_wf t" "numCPU t = numCPU s" using assms(1,2) by (simp_all add: t_eq aic_wf_ipi)
  have "norm_ready (numCPU s) (cpus t ! j)" using c assms(2,5) by (auto simp: norm_ready_def)
  then have "aic_next_event j t = (if self_ready (cpus t ! j) then EvSelf else EvNorm)"
    by (simp add: aic_next_event_def t)
  then show ?thesis using c assms(3,5) t
    by (simp add: apple_aic_read_def aic_read_reg_def aic_iack_event)
qed

theorem aic_ipi_delivers_witness:
  "irq (cpus (apple_aic_write 0 REG_AIC_IPI_SET (ucast (2 :: u32)) aic_demo) ! Suc 0)"
  using aic_ipi_delivers [of aic_demo 0 "Suc 0" 2]
  by (simp add: aic_demo_facts) (simp add: aic_demo_def aic_demo_cpu_def)

text \<open>
  A deferred IPI is merged at the next tick: the sender becomes pending
  at the target, nothing stays deferred, and the target's line goes up if normal IPIs are unmasked.
\<close>

theorem aic_deferred_ipi_delivers:
  fixes now :: nat
  assumes "aic_wf s" "k < numCPU s" "j < numCPU s" "bit v j"
  defines "t \<equiv> apple_aic_tick now (apple_aic_write k REG_AIC_IPI_DEFER_SET (ucast (v :: u32)) s)"
  shows "bit (pendingIPI (cpus t ! j)) k \<and> deferredIPI (cpus t ! j) = 0 \<and>
    (\<not> bit (ipi_mask (cpus s ! j)) 0 \<longrightarrow> irq (cpus t ! j))"
proof -
  define u where "u = aic_ipi_defer_set k v s"
  have u: "aic_wf u" "numCPU u = numCPU s" using assms(1,2) by (simp_all add: u_def aic_wf_ipi)
  note c = ipi_defer_set_cpu [OF assms(1-4), folded u_def]
  have t: "cpus t = cpus (apple_aic_update u)" by (simp add: t_def write_ipi u_def apple_aic_tick_def)
  have "bit (aic_ipi_intr (merge_deferred u)) j" if "\<not> bit (ipi_mask (cpus s ! j)) 0"
    using that u c assms(2,3)
    by (subst bit_aic_ipi_intr)
      (auto simp: merge_deferred_def aic_wf_def norm_ready_def bit_or_iff)
  then show ?thesis using u c assms(3) aic_eir_steps_mono
    by (auto simp: t update_cpu bit_or_iff merge_deferred_def aic_wf_lengths
        aic_eir_scan_fold [OF aic_wf_lengths(5) [OF aic_wf_upd_cpus]])
qed

theorem aic_deferred_ipi_delivers_witness:
  "irq (cpus (apple_aic_tick 7 (apple_aic_write 0 REG_AIC_IPI_DEFER_SET (ucast (2 :: u32)) aic_demo)) ! Suc 0)"
  using aic_deferred_ipi_delivers [of aic_demo 0 "Suc 0" 2 7]
  by (simp add: aic_demo_facts) (simp add: aic_demo_def aic_demo_cpu_def)

text \<open>
  The two mask ports of a word act on the same register: reading either
  port after writing to both gives the old mask with the bits of the set port added and then the
  bits of the clear port removed.
\<close>

theorem aic_mask_ports:
  fixes v w :: u32
  assumes "aic_wf s" "k < numCPU s" "e < numEIR s" "e \<le> kAIC_NUM_EIRS"
  defines "t \<equiv> apple_aic_write k (REG_AIC_EIR_MASK_CLR e) (ucast (w :: u32))
                 (apple_aic_write k (REG_AIC_EIR_MASK_SET e) (ucast (v :: u32)) s)"
  shows "fst (apple_aic_read now k (REG_AIC_EIR_MASK_SET e) t) = ucast ((eir_mask s ! e OR v) AND NOT w) \<and>
         fst (apple_aic_read now k (REG_AIC_EIR_MASK_CLR e) t) = ucast ((eir_mask s ! e OR v) AND NOT w)"
proof -
  have ok: "eir_port_ok k e s" using assms by (simp add: eir_port_ok_def)
  then have t: "eir_port_ok k e t" unfolding t_def
    by (intro eir_mask_port.wf_clr eir_mask_port.wf_set)
  have "eir_mask t ! e = (eir_mask s ! e OR v) AND NOT w"
    using ok by (simp only: t_def eir_mask_port.get_clr eir_mask_port.get_set eir_mask_port.wf_set)
  then show ?thesis using t by (simp add: apple_aic_read_def aic_read_reg_def Let_def eir_port_ok_def)
qed

theorem aic_mask_ports_witness:
  "fst (apple_aic_read 0 0 (REG_AIC_EIR_MASK_SET 0) (apple_aic_write 0 (REG_AIC_EIR_MASK_CLR 0)
     (ucast (1 :: u32)) (apple_aic_write 0 (REG_AIC_EIR_MASK_SET 0) (ucast (5 :: u32)) aic_demo))) = 4"
  using aic_mask_ports [of aic_demo 0 0 0 1 5]
  by (simp add: aic_demo_facts) (simp add: aic_demo_def)

end
