(* ===== verification/Mailbox.thy ===== *)
theory Mailbox
  imports Bytes Interfaces Bitops
begin

text \<open>
  The mailbox pair of an Apple A7IOP co-processor, \<open>hw/misc/apple-silicon/a7iop/mailbox\<close>. A pair
  is two mailboxes that point at each other: the mailbox the I/O processor receives from (\<open>IOP\<close>) and
  the one the application processor receives from (\<open>AP\<close>). Both have \<open>iop_mailbox\<close> pointing at the
  first and \<open>ap_mailbox\<close> pointing at the second, so the pointers are the two constructors of
  \<open>mbox_id\<close> and the heap is a function from them. A \<open>qemu_irq\<close> is its level; scheduling a bottom half
  sets a flag. The lock is held across each handler, which is one step.
\<close>

subsection \<open>Constants\<close>

abbreviation (input) "MAX_MESSAGE_COUNT \<equiv> 15 :: u32"
abbreviation (input) "CTRL_ENABLE \<equiv> BIT 0 :: u32"
abbreviation (input) "CTRL_FULL \<equiv> BIT 16 :: u32"
abbreviation (input) "CTRL_EMPTY \<equiv> BIT 17 :: u32"
abbreviation (input) "CTRL_UNDERFLOW \<equiv> BIT 19 :: u32"
abbreviation (input) "CTRL_COUNT_SHIFT \<equiv> 20 :: nat"
abbreviation (input) "CTRL_COUNT_MASK \<equiv> push_bit CTRL_COUNT_SHIFT MAX_MESSAGE_COUNT"
abbreviation (input) "CTRL_COUNT v \<equiv> push_bit CTRL_COUNT_SHIFT v AND CTRL_COUNT_MASK"
abbreviation (input) "IOP_EMPTY \<equiv> BIT 0 :: u32"
abbreviation (input) "IOP_NONEMPTY \<equiv> BIT 4 :: u32"
abbreviation (input) "AP_EMPTY \<equiv> BIT 8 :: u32"
abbreviation (input) "AP_NONEMPTY \<equiv> BIT 12 :: u32"
abbreviation (input) "MAILBOX_MASKBIT_UNKN0_EMPTY \<equiv> BIT 16 :: u32"
abbreviation (input) "MAILBOX_MASKBIT_UNKN0_NONEMPTY \<equiv> BIT 18 :: u32"
abbreviation (input) "MAILBOX_MASKBIT_UNKN1_EMPTY \<equiv> BIT 20 :: u32"
abbreviation (input) "MAILBOX_MASKBIT_UNKN1_NONEMPTY \<equiv> BIT 22 :: u32"
abbreviation (input) "MAILBOX_MASKBIT_UNKN2_EMPTY \<equiv> BIT 24 :: u32"
abbreviation (input) "MAILBOX_MASKBIT_UNKN2_NONEMPTY \<equiv> BIT 26 :: u32"
abbreviation (input) "MAILBOX_MASKBIT_UNKN3_EMPTY \<equiv> BIT 28 :: u32"
abbreviation (input) "MAILBOX_MASKBIT_UNKN3_NONEMPTY \<equiv> BIT 30 :: u32"
abbreviation (input) "IRQ_IOP_NONEMPTY \<equiv> 0x40000 :: u32"
abbreviation (input) "IRQ_IOP_EMPTY \<equiv> 0x40001 :: u32"
abbreviation (input) "IRQ_AP_NONEMPTY \<equiv> 0x40002 :: u32"
abbreviation (input) "IRQ_AP_EMPTY \<equiv> 0x40003 :: u32"
abbreviation (input) "IRQ_MAILBOX_UNKN0_NONEMPTY \<equiv> 0x40004 :: u32"
abbreviation (input) "IRQ_MAILBOX_UNKN0_EMPTY \<equiv> 0x40005 :: u32"
abbreviation (input) "IRQ_MAILBOX_UNKN1_NONEMPTY \<equiv> 0x40006 :: u32"
abbreviation (input) "IRQ_MAILBOX_UNKN1_EMPTY \<equiv> 0x40007 :: u32"
abbreviation (input) "IRQ_MAILBOX_UNKN2_NONEMPTY \<equiv> 0x40008 :: u32"
abbreviation (input) "IRQ_MAILBOX_UNKN2_EMPTY \<equiv> 0x40009 :: u32"
abbreviation (input) "IRQ_MAILBOX_UNKN3_NONEMPTY \<equiv> 0x4000A :: u32"
abbreviation (input) "IRQ_MAILBOX_UNKN3_EMPTY \<equiv> 0x4000B :: u32"
abbreviation (input) "IRQ_SEP_TIMER0 \<equiv> 0x70001 :: u32"
abbreviation (input) "IRQ_SEP_TIMER1 \<equiv> 0x70009 :: u32"
abbreviation (input) "KIC_GLB_CFG_EXT_INT_EN \<equiv> BIT 0 :: u32"
abbreviation (input) "REG_KIC_TMR_EN_MASK \<equiv> (BIT 3 OR BIT 2 OR BIT 1) :: u32"
abbreviation (input) "REG_KIC_TMR_INT_MASK_MASK \<equiv> BIT 1 :: u32"

subsection \<open>State\<close>

datatype mbox_id = IOP | AP

text \<open>\<open>data[16]\<close> of \<open>AppleA7IOPMessage\<close>.\<close>

type_synonym message = bytes

record AppleA7IOPMailbox =
  role :: string
  handle_messages_bh :: bool
  bh_scheduled :: bool
  inbox :: "message list"
  interrupt_status :: "u32 list"
  count :: u32
  irqs :: "bool list"
  sep_cpu_irq :: bool
  iop_dir_en :: bool
  ap_dir_en :: bool
  underflow :: bool
  int_mask :: u32
  iop_recv_reg :: bytes
  ap_recv_reg :: bytes
  iop_send_reg :: bytes
  ap_send_reg :: bytes
  interrupts_enabled :: "u32 list"
  iop_nonempty :: bool
  iop_empty :: bool
  ap_nonempty :: bool
  ap_empty :: bool
  glb_cfg :: u32
  timer0_enabled :: u32
  timer1_enabled :: u32
  timer0_masked :: u32
  timer1_masked :: u32
  sepd_enabled :: u32

type_synonym mboxes = "mbox_id \<Rightarrow> AppleA7IOPMailbox"

definition upd_mbox :: "mbox_id \<Rightarrow> (AppleA7IOPMailbox \<Rightarrow> AppleA7IOPMailbox) \<Rightarrow> mboxes \<Rightarrow> mboxes" where
  "upd_mbox i f st = st(i := f (st i))"

subsection \<open>Interrupt lines\<close>

definition is_interrupt_enabled :: "AppleA7IOPMailbox \<Rightarrow> u32 \<Rightarrow> bool" where
  "is_interrupt_enabled s status =
     (if sepd_enabled s = 0 then False
      else if status AND 0xF0000 = 0x10000 \<and> glb_cfg s AND KIC_GLB_CFG_EXT_INT_EN \<noteq> 0 then
        let interrupt = unat (status AND 0x7F)
        in interrupts_enabled s ! (interrupt div 32) AND BIT (interrupt mod 32) \<noteq> 0
      else if status = IRQ_IOP_NONEMPTY then iop_nonempty s
      else if status = IRQ_IOP_EMPTY then iop_empty s
      else if status = IRQ_AP_NONEMPTY then ap_nonempty s
      else if status = IRQ_AP_EMPTY then ap_empty s
      else if status = IRQ_SEP_TIMER0 then
        timer0_enabled s AND REG_KIC_TMR_EN_MASK = REG_KIC_TMR_EN_MASK \<and>
        timer0_masked s AND REG_KIC_TMR_INT_MASK_MASK = 0
      else if status = IRQ_SEP_TIMER1 then
        timer1_enabled s AND REG_KIC_TMR_EN_MASK = REG_KIC_TMR_EN_MASK \<and>
        timer1_masked s AND REG_KIC_TMR_INT_MASK_MASK = 0
      else True)"

definition apple_mbox_interrupt_status_empty :: "AppleA7IOPMailbox \<Rightarrow> bool" where
  "apple_mbox_interrupt_status_empty s = (\<not> list_ex (is_interrupt_enabled s) (interrupt_status s))"

definition iop_empty_is_unmasked :: "u32 \<Rightarrow> bool" where
  "iop_empty_is_unmasked m \<longleftrightarrow> m AND IOP_EMPTY = 0"

definition iop_nonempty_is_unmasked :: "u32 \<Rightarrow> bool" where
  "iop_nonempty_is_unmasked m \<longleftrightarrow> m AND IOP_NONEMPTY = 0"

definition ap_empty_is_unmasked :: "u32 \<Rightarrow> bool" where
  "ap_empty_is_unmasked m \<longleftrightarrow> m AND AP_EMPTY = 0"

definition ap_nonempty_is_unmasked :: "u32 \<Rightarrow> bool" where
  "ap_nonempty_is_unmasked m \<longleftrightarrow> m AND AP_NONEMPTY = 0"

text \<open>The lines are \<open>irqs\<close> at \<open>APPLE_A7IOP_IRQ_IOP_NONEMPTY\<close>, \<open>..._IOP_EMPTY\<close>, \<open>..._AP_NONEMPTY\<close>,
  \<open>..._AP_EMPTY\<close>, in the order of the enumeration.\<close>

definition apple_a7iop_mailbox_update_irq_status :: "mbox_id \<Rightarrow> mboxes \<Rightarrow> mboxes" where
  "apple_a7iop_mailbox_update_irq_status i st =
     (let mask = int_mask (st i);
          iop_ne = iop_nonempty_is_unmasked mask \<and> inbox (st IOP) \<noteq> [] \<or> underflow (st IOP);
          iop_e = iop_empty_is_unmasked mask \<and> inbox (st IOP) = [];
          ap_ne = ap_nonempty_is_unmasked mask \<and> inbox (st AP) \<noteq> [] \<or> underflow (st AP);
          ap_e = ap_empty_is_unmasked mask \<and> inbox (st AP) = []
      in upd_mbox i (\<lambda>s. s\<lparr>irqs := [iop_ne, iop_e, ap_ne, ap_e], iop_nonempty := iop_ne,
           iop_empty := iop_e, ap_nonempty := ap_ne, ap_empty := ap_e\<rparr>) st)"

definition update_sep_cpu_irq :: "AppleA7IOPMailbox \<Rightarrow> AppleA7IOPMailbox" where
  "update_sep_cpu_irq s =
     (if role s = ''SEP-iop''
      then s\<lparr>sep_cpu_irq := iop_nonempty s \<or> iop_empty s \<or> ap_nonempty s \<or> ap_empty s \<or>
                            \<not> apple_mbox_interrupt_status_empty s\<rparr>
      else s)"

text \<open>
  The recursive call updates the other mailbox of the SEP. Its own recursive call is not taken: its
  role is \<open>SEP-iop\<close>, as \<open>apple_a7iop_init\<close> names the two mailboxes.
\<close>

definition update_irq_one :: "mbox_id \<Rightarrow> mboxes \<Rightarrow> mboxes" where
  "update_irq_one i st = upd_mbox i update_sep_cpu_irq (apple_a7iop_mailbox_update_irq_status i st)"

definition apple_a7iop_mailbox_update_irq :: "mbox_id \<Rightarrow> mboxes \<Rightarrow> mboxes" where
  "apple_a7iop_mailbox_update_irq i st =
     (let st = update_irq_one i st
      in if role (st i) = ''SEP-ap'' then update_irq_one IOP st else st)"

subsection \<open>Sending and receiving\<close>

definition apple_a7iop_mailbox_is_empty :: "mbox_id \<Rightarrow> mboxes \<Rightarrow> bool" where
  "apple_a7iop_mailbox_is_empty i st \<longleftrightarrow> underflow (st i) \<or> inbox (st i) = []"

definition apple_a7iop_mailbox_send :: "mbox_id \<Rightarrow> message \<Rightarrow> mboxes \<Rightarrow> mboxes" where
  "apple_a7iop_mailbox_send i msg st =
     (let st = upd_mbox i (\<lambda>s. s\<lparr>inbox := inbox s @ [msg], count := count s + 1\<rparr>) st;
          st = apple_a7iop_mailbox_update_irq i st
      in if handle_messages_bh (st i) then upd_mbox i (\<lambda>s. s\<lparr>bh_scheduled := True\<rparr>) st else st)"

definition apple_a7iop_mailbox_send_ap :: "mbox_id \<Rightarrow> message \<Rightarrow> mboxes \<Rightarrow> mboxes" where
  "apple_a7iop_mailbox_send_ap i msg st =
     (if \<not> ap_dir_en (st i) then st else apple_a7iop_mailbox_send AP msg st)"

definition apple_a7iop_mailbox_send_iop :: "mbox_id \<Rightarrow> message \<Rightarrow> mboxes \<Rightarrow> mboxes" where
  "apple_a7iop_mailbox_send_iop i msg st =
     (if \<not> iop_dir_en (st i) then st else apple_a7iop_mailbox_send IOP msg st)"

definition apple_a7iop_inbox_peek :: "mbox_id \<Rightarrow> mboxes \<Rightarrow> message option" where
  "apple_a7iop_inbox_peek i st = (case inbox (st i) of [] \<Rightarrow> None | m # _ \<Rightarrow> Some m)"

definition stamp_count :: "u32 \<Rightarrow> message \<Rightarrow> message" where
  "stamp_count c msg = blit 12 (to_le 4 (CTRL_COUNT c)) msg"

definition apple_a7iop_mailbox_recv :: "mbox_id \<Rightarrow> mboxes \<Rightarrow> message option \<times> mboxes" where
  "apple_a7iop_mailbox_recv i st =
     (if underflow (st i) then (None, st)
      else case inbox (st i) of
        [] \<Rightarrow> (None, apple_a7iop_mailbox_update_irq i (upd_mbox i (\<lambda>s. s\<lparr>underflow := True\<rparr>) st))
      | msg # rest \<Rightarrow>
          (Some (stamp_count (count (st i)) msg),
           apple_a7iop_mailbox_update_irq i
             (upd_mbox i (\<lambda>s. s\<lparr>inbox := rest, count := count s - 1\<rparr>) st)))"

definition apple_a7iop_mailbox_recv_iop :: "mbox_id \<Rightarrow> mboxes \<Rightarrow> message option \<times> mboxes" where
  "apple_a7iop_mailbox_recv_iop i st =
     (if \<not> iop_dir_en (st i) then (None, st) else apple_a7iop_mailbox_recv IOP st)"

definition apple_a7iop_mailbox_recv_ap :: "mbox_id \<Rightarrow> mboxes \<Rightarrow> message option \<times> mboxes" where
  "apple_a7iop_mailbox_recv_ap i st =
     (if \<not> ap_dir_en (st i) then (None, st) else apple_a7iop_mailbox_recv AP st)"

subsection \<open>Masks and control registers\<close>

definition apple_a7iop_mailbox_get_int_mask :: "mbox_id \<Rightarrow> mboxes \<Rightarrow> u32" where
  "apple_a7iop_mailbox_get_int_mask i st = int_mask (st i)"

definition apple_a7iop_mailbox_set_int_mask :: "mbox_id \<Rightarrow> u32 \<Rightarrow> mboxes \<Rightarrow> mboxes" where
  "apple_a7iop_mailbox_set_int_mask i v st =
     apple_a7iop_mailbox_update_irq i (upd_mbox i (\<lambda>s. s\<lparr>int_mask := int_mask s OR v\<rparr>) st)"

definition apple_a7iop_mailbox_clear_int_mask :: "mbox_id \<Rightarrow> u32 \<Rightarrow> mboxes \<Rightarrow> mboxes" where
  "apple_a7iop_mailbox_clear_int_mask i v st =
     apple_a7iop_mailbox_update_irq i (upd_mbox i (\<lambda>s. s\<lparr>int_mask := int_mask s AND NOT v\<rparr>) st)"

definition apple_a7iop_mailbox_ctrl :: "AppleA7IOPMailbox \<Rightarrow> u32" where
  "apple_a7iop_mailbox_ctrl s =
     (if underflow s then CTRL_UNDERFLOW
      else (if count s \<ge> MAX_MESSAGE_COUNT then CTRL_FULL else 0) OR
           (if inbox s = [] then CTRL_EMPTY else 0) OR
           CTRL_COUNT (min (count s) MAX_MESSAGE_COUNT))"

definition apple_a7iop_mailbox_get_iop_ctrl :: "mbox_id \<Rightarrow> mboxes \<Rightarrow> u32" where
  "apple_a7iop_mailbox_get_iop_ctrl i st =
     (if iop_dir_en (st i) then CTRL_ENABLE else 0) OR apple_a7iop_mailbox_ctrl (st IOP)"

definition apple_a7iop_mailbox_set_iop_ctrl :: "mbox_id \<Rightarrow> u32 \<Rightarrow> mboxes \<Rightarrow> mboxes" where
  "apple_a7iop_mailbox_set_iop_ctrl i v st =
     upd_mbox i (\<lambda>s. s\<lparr>iop_dir_en := v AND CTRL_ENABLE \<noteq> 0\<rparr>) st"

definition apple_a7iop_mailbox_get_ap_ctrl :: "mbox_id \<Rightarrow> mboxes \<Rightarrow> u32" where
  "apple_a7iop_mailbox_get_ap_ctrl i st =
     (if ap_dir_en (st i) then CTRL_ENABLE else 0) OR apple_a7iop_mailbox_ctrl (st AP)"

definition apple_a7iop_mailbox_set_ap_ctrl :: "mbox_id \<Rightarrow> u32 \<Rightarrow> mboxes \<Rightarrow> mboxes" where
  "apple_a7iop_mailbox_set_ap_ctrl i v st =
     upd_mbox i (\<lambda>s. s\<lparr>ap_dir_en := v AND CTRL_ENABLE \<noteq> 0\<rparr>) st"

subsection \<open>Interrupt status queue\<close>

definition apple_a7iop_interrupt_status_push :: "mbox_id \<Rightarrow> u32 \<Rightarrow> mboxes \<Rightarrow> mboxes" where
  "apple_a7iop_interrupt_status_push i status st =
     (if status \<in> set (interrupt_status (st i)) then apple_a7iop_mailbox_update_irq i st
      else apple_a7iop_mailbox_update_irq i
        (upd_mbox i (\<lambda>s. s\<lparr>interrupt_status := interrupt_status s @ [status]\<rparr>) st))"

definition interrupt_group :: "u32 \<Rightarrow> u32" where
  "interrupt_group status = drop_bit 16 status AND 0x7"

definition prefer_status :: "AppleA7IOPMailbox \<Rightarrow> u32 \<Rightarrow> u32 option \<Rightarrow> u32 option" where
  "prefer_status s status preferred =
     (if is_interrupt_enabled s status then
        case preferred of
          None \<Rightarrow> Some status
        | Some p \<Rightarrow>
            if interrupt_group status = interrupt_group p \<and> status < p \<or>
               interrupt_group status \<noteq> interrupt_group p \<and> interrupt_group status = 0x7
            then Some status else preferred
      else preferred)"

definition apple_a7iop_interrupt_status_pop :: "mbox_id \<Rightarrow> mboxes \<Rightarrow> u32 \<times> mboxes" where
  "apple_a7iop_interrupt_status_pop i st =
     (case fold (prefer_status (st i)) (interrupt_status (st i)) None of
        Some p \<Rightarrow> (p, apple_a7iop_mailbox_update_irq i
                        (upd_mbox i (\<lambda>s. s\<lparr>interrupt_status := remove1 p (interrupt_status s)\<rparr>) st))
      | None \<Rightarrow> (0, apple_a7iop_mailbox_update_irq i st))"

text \<open>The effect of acknowledging a popped status on the mailbox that masks it.\<close>

definition mask_status :: "u32 \<Rightarrow> AppleA7IOPMailbox \<Rightarrow> AppleA7IOPMailbox" where
  "mask_status status s =
     (if status AND 0xF0000 = 0x10000 then
        let interrupt = unat (status AND 0x7F); g = interrupt div 32
        in s\<lparr>interrupts_enabled := (interrupts_enabled s)
               [g := interrupts_enabled s ! g AND NOT (BIT (interrupt mod 32))]\<rparr>
      else if status = IRQ_IOP_NONEMPTY then s\<lparr>int_mask := int_mask s OR IOP_NONEMPTY\<rparr>
      else if status = IRQ_IOP_EMPTY then s\<lparr>int_mask := int_mask s OR IOP_EMPTY\<rparr>
      else if status = IRQ_AP_NONEMPTY then s\<lparr>int_mask := int_mask s OR AP_NONEMPTY\<rparr>
      else if status = IRQ_AP_EMPTY then s\<lparr>int_mask := int_mask s OR AP_EMPTY\<rparr>
      else if status = IRQ_MAILBOX_UNKN0_NONEMPTY then s\<lparr>int_mask := int_mask s OR MAILBOX_MASKBIT_UNKN0_NONEMPTY\<rparr>
      else if status = IRQ_MAILBOX_UNKN0_EMPTY then s\<lparr>int_mask := int_mask s OR MAILBOX_MASKBIT_UNKN0_EMPTY\<rparr>
      else if status = IRQ_MAILBOX_UNKN1_NONEMPTY then s\<lparr>int_mask := int_mask s OR MAILBOX_MASKBIT_UNKN1_NONEMPTY\<rparr>
      else if status = IRQ_MAILBOX_UNKN1_EMPTY then s\<lparr>int_mask := int_mask s OR MAILBOX_MASKBIT_UNKN1_EMPTY\<rparr>
      else if status = IRQ_MAILBOX_UNKN2_NONEMPTY then s\<lparr>int_mask := int_mask s OR MAILBOX_MASKBIT_UNKN2_NONEMPTY\<rparr>
      else if status = IRQ_MAILBOX_UNKN2_EMPTY then s\<lparr>int_mask := int_mask s OR MAILBOX_MASKBIT_UNKN2_EMPTY\<rparr>
      else if status = IRQ_MAILBOX_UNKN3_NONEMPTY then s\<lparr>int_mask := int_mask s OR MAILBOX_MASKBIT_UNKN3_NONEMPTY\<rparr>
      else if status = IRQ_MAILBOX_UNKN3_EMPTY then s\<lparr>int_mask := int_mask s OR MAILBOX_MASKBIT_UNKN3_EMPTY\<rparr>
      else if status = IRQ_SEP_TIMER0 then s\<lparr>timer0_masked := timer0_masked s OR REG_KIC_TMR_INT_MASK_MASK\<rparr>
      else if status = IRQ_SEP_TIMER1 then s\<lparr>timer1_masked := timer1_masked s OR REG_KIC_TMR_INT_MASK_MASK\<rparr>
      else s)"

definition apple_a7iop_mailbox_read_interrupt_status :: "mbox_id \<Rightarrow> mboxes \<Rightarrow> u32 \<times> mboxes" where
  "apple_a7iop_mailbox_read_interrupt_status i st =
     (let (status, st) =
        (if iop_nonempty (st IOP) then
           (IRQ_IOP_NONEMPTY, upd_mbox IOP (\<lambda>s. s\<lparr>int_mask := int_mask s OR IOP_NONEMPTY\<rparr>) st)
         else if iop_empty (st IOP) then
           (IRQ_IOP_EMPTY, upd_mbox IOP (\<lambda>s. s\<lparr>int_mask := int_mask s OR IOP_EMPTY\<rparr>) st)
         else if ap_nonempty (st IOP) then
           (IRQ_AP_NONEMPTY, upd_mbox IOP (\<lambda>s. s\<lparr>int_mask := int_mask s OR AP_NONEMPTY\<rparr>) st)
         else if ap_empty (st IOP) then
           (IRQ_AP_EMPTY, upd_mbox IOP (\<lambda>s. s\<lparr>int_mask := int_mask s OR AP_EMPTY\<rparr>) st)
         else let (status, st) = apple_a7iop_interrupt_status_pop i st
           in if status \<noteq> 0 then (status, upd_mbox IOP (mask_status status) st) else (status, st))
      in (status, apple_a7iop_mailbox_update_irq i st))"

text \<open>\<open>apple_a7iop_gpio_timer0\<close> and \<open>apple_a7iop_gpio_timer1\<close>; \<open>assert(n == 0)\<close> holds, each input has one line.\<close>

definition apple_a7iop_gpio_timer0 :: "mbox_id \<Rightarrow> bool \<Rightarrow> mboxes \<Rightarrow> mboxes" where
  "apple_a7iop_gpio_timer0 i level st =
     (if \<not> level then st else apple_a7iop_interrupt_status_push i IRQ_SEP_TIMER0 st)"

definition apple_a7iop_gpio_timer1 :: "mbox_id \<Rightarrow> bool \<Rightarrow> mboxes \<Rightarrow> mboxes" where
  "apple_a7iop_gpio_timer1 i level st =
     (if \<not> level then st else apple_a7iop_interrupt_status_push i IRQ_SEP_TIMER1 st)"

subsection \<open>Creation and reset\<close>

definition apple_a7iop_mailbox_new :: "string \<Rightarrow> bool \<Rightarrow> AppleA7IOPMailbox" where
  "apple_a7iop_mailbox_new r bh =
     \<lparr>role = r, handle_messages_bh = bh, bh_scheduled = False, inbox = [], interrupt_status = [],
      count = 0, irqs = replicate 4 False, sep_cpu_irq = False, iop_dir_en = False, ap_dir_en = False,
      underflow = False, int_mask = 0, iop_recv_reg = replicate 16 0, ap_recv_reg = replicate 16 0,
      iop_send_reg = replicate 16 0, ap_send_reg = replicate 16 0, interrupts_enabled = replicate 4 0,
      iop_nonempty = False, iop_empty = False, ap_nonempty = False, ap_empty = False, glb_cfg = 0,
      timer0_enabled = 0, timer1_enabled = 0, timer0_masked = 0, timer1_masked = 0, sepd_enabled = 0\<rparr>"

text \<open>\<open>assert_false(s->iop_mailbox == s->ap_mailbox)\<close> holds for a pair.\<close>

definition apple_a7iop_mailbox_reset :: "mbox_id \<Rightarrow> mboxes \<Rightarrow> mboxes" where
  "apple_a7iop_mailbox_reset i st =
     apple_a7iop_mailbox_update_irq_status i
       (upd_mbox i (\<lambda>s. s\<lparr>count := 0, iop_dir_en := True, ap_dir_en := True, underflow := False,
          iop_recv_reg := replicate 16 0, ap_recv_reg := replicate 16 0,
          iop_send_reg := replicate 16 0, ap_send_reg := replicate 16 0,
          inbox := [], interrupt_status := [], interrupts_enabled := replicate 4 0,
          iop_nonempty := False, iop_empty := False, ap_nonempty := False, ap_empty := False,
          glb_cfg := 0, timer0_enabled := 0, timer1_enabled := 0, timer0_masked := 0,
          timer1_masked := 0, sepd_enabled := 0\<rparr>) st)"

subsection \<open>What an update of the lines changes\<close>

lemma upd_mbox_same [simp]: "upd_mbox i f st i = f (st i)"
  by (simp add: upd_mbox_def)

lemma upd_mbox_other [simp]: "j \<noteq> i \<Longrightarrow> upd_mbox i f st j = st j"
  by (simp add: upd_mbox_def)

lemma upd_mbox_apply: "upd_mbox i f st j = (if j = i then f (st i) else st j)"
  by (simp add: upd_mbox_def)

text \<open>The four levels a mailbox should show.\<close>

definition mbox_lines :: "mboxes \<Rightarrow> mbox_id \<Rightarrow> bool list" where
  "mbox_lines st i =
     [iop_nonempty_is_unmasked (int_mask (st i)) \<and> inbox (st IOP) \<noteq> [] \<or> underflow (st IOP),
      iop_empty_is_unmasked (int_mask (st i)) \<and> inbox (st IOP) = [],
      ap_nonempty_is_unmasked (int_mask (st i)) \<and> inbox (st AP) \<noteq> [] \<or> underflow (st AP),
      ap_empty_is_unmasked (int_mask (st i)) \<and> inbox (st AP) = []]"

definition with_lines :: "bool list \<Rightarrow> AppleA7IOPMailbox \<Rightarrow> AppleA7IOPMailbox" where
  "with_lines l s = s\<lparr>irqs := l, iop_nonempty := l ! 0, iop_empty := l ! 1, ap_nonempty := l ! 2,
     ap_empty := l ! 3\<rparr>"

lemma update_irq_status_lines:
  "apple_a7iop_mailbox_update_irq_status i st = upd_mbox i (with_lines (mbox_lines st i)) st"
  by (simp add: apple_a7iop_mailbox_update_irq_status_def with_lines_def [abs_def] mbox_lines_def
      Let_def)

lemma with_lines_simps [simp]:
  "role (with_lines l s) = role s" "handle_messages_bh (with_lines l s) = handle_messages_bh s"
  "bh_scheduled (with_lines l s) = bh_scheduled s" "inbox (with_lines l s) = inbox s"
  "interrupt_status (with_lines l s) = interrupt_status s" "count (with_lines l s) = count s"
  "iop_dir_en (with_lines l s) = iop_dir_en s" "ap_dir_en (with_lines l s) = ap_dir_en s"
  "underflow (with_lines l s) = underflow s" "int_mask (with_lines l s) = int_mask s"
  "interrupts_enabled (with_lines l s) = interrupts_enabled s" "irqs (with_lines l s) = l"
  "iop_recv_reg (with_lines l s) = iop_recv_reg s" "ap_recv_reg (with_lines l s) = ap_recv_reg s"
  "iop_send_reg (with_lines l s) = iop_send_reg s" "ap_send_reg (with_lines l s) = ap_send_reg s"
  "iop_nonempty (with_lines l s) = l ! 0" "iop_empty (with_lines l s) = l ! 1"
  "ap_nonempty (with_lines l s) = l ! 2" "ap_empty (with_lines l s) = l ! 3"
  by (simp_all add: with_lines_def)

lemma update_sep_cpu_irq_simps [simp]:
  "role (update_sep_cpu_irq s) = role s" "handle_messages_bh (update_sep_cpu_irq s) = handle_messages_bh s"
  "bh_scheduled (update_sep_cpu_irq s) = bh_scheduled s" "inbox (update_sep_cpu_irq s) = inbox s"
  "interrupt_status (update_sep_cpu_irq s) = interrupt_status s" "count (update_sep_cpu_irq s) = count s"
  "iop_dir_en (update_sep_cpu_irq s) = iop_dir_en s" "ap_dir_en (update_sep_cpu_irq s) = ap_dir_en s"
  "underflow (update_sep_cpu_irq s) = underflow s" "int_mask (update_sep_cpu_irq s) = int_mask s"
  "interrupts_enabled (update_sep_cpu_irq s) = interrupts_enabled s"
  "irqs (update_sep_cpu_irq s) = irqs s"
  "iop_recv_reg (update_sep_cpu_irq s) = iop_recv_reg s" "ap_recv_reg (update_sep_cpu_irq s) = ap_recv_reg s"
  "iop_send_reg (update_sep_cpu_irq s) = iop_send_reg s" "ap_send_reg (update_sep_cpu_irq s) = ap_send_reg s"
  "iop_nonempty (update_sep_cpu_irq s) = iop_nonempty s" "iop_empty (update_sep_cpu_irq s) = iop_empty s"
  "ap_nonempty (update_sep_cpu_irq s) = ap_nonempty s" "ap_empty (update_sep_cpu_irq s) = ap_empty s"
  by (simp_all add: update_sep_cpu_irq_def)

text \<open>An update leaves every field but the lines alone.\<close>

lemma update_irq_simps [simp]:
  fixes i j st
  defines "t \<equiv> apple_a7iop_mailbox_update_irq i st"
  shows "role (t j) = role (st j)" "handle_messages_bh (t j) = handle_messages_bh (st j)"
  "bh_scheduled (t j) = bh_scheduled (st j)" "inbox (t j) = inbox (st j)"
  "interrupt_status (t j) = interrupt_status (st j)" "count (t j) = count (st j)"
  "iop_dir_en (t j) = iop_dir_en (st j)" "ap_dir_en (t j) = ap_dir_en (st j)"
  "underflow (t j) = underflow (st j)" "int_mask (t j) = int_mask (st j)"
  "interrupts_enabled (t j) = interrupts_enabled (st j)"
  "iop_recv_reg (t j) = iop_recv_reg (st j)" "ap_recv_reg (t j) = ap_recv_reg (st j)"
  "iop_send_reg (t j) = iop_send_reg (st j)" "ap_send_reg (t j) = ap_send_reg (st j)"
  by (simp_all add: t_def apple_a7iop_mailbox_update_irq_def update_irq_one_def update_irq_status_lines
      Let_def upd_mbox_apply)

lemma mbox_lines_cong:
  "(\<And>k. inbox (st k) = inbox (st' k)) \<Longrightarrow> (\<And>k. underflow (st k) = underflow (st' k)) \<Longrightarrow>
   int_mask (st j) = int_mask (st' j) \<Longrightarrow> mbox_lines st j = mbox_lines st' j"
  by (simp add: mbox_lines_def)

lemma mbox_lines_update_irq [simp]:
  "mbox_lines (apple_a7iop_mailbox_update_irq i st) j = mbox_lines st j"
  by (rule mbox_lines_cong) simp_all

lemma irqs_update_irq_one: "irqs (update_irq_one i st j) = (if j = i then mbox_lines st i else irqs (st j))"
  by (simp add: update_irq_one_def update_irq_status_lines upd_mbox_apply)

lemma mbox_lines_update_irq_one [simp]: "mbox_lines (update_irq_one i st) j = mbox_lines st j"
  by (rule mbox_lines_cong) (simp_all add: update_irq_one_def update_irq_status_lines upd_mbox_apply)

lemma irqs_update_irq:
  "irqs (apple_a7iop_mailbox_update_irq i st j) =
     (if j = i \<or> role (st i) = ''SEP-ap'' \<and> j = IOP then mbox_lines st j else irqs (st j))"
proof -
  have "role (update_irq_one i st i) = role (st i)"
    by (simp add: update_irq_one_def update_irq_status_lines)
  then show ?thesis by (auto simp: apple_a7iop_mailbox_update_irq_def Let_def irqs_update_irq_one)
qed

subsection \<open>Channels\<close>

text \<open>
  Mailbox \<open>i\<close> sends and mailbox \<open>j\<close> receives through the inbox of \<open>t\<close>, which has not underflowed and
  whose count is right.
\<close>

definition inbox_ok :: "mbox_id \<Rightarrow> mboxes \<Rightarrow> bool" where
  "inbox_ok t st \<longleftrightarrow> \<not> underflow (st t) \<and> count (st t) = of_nat (length (inbox (st t)))"

lemma send_fields [simp]:
  fixes i j st msg
  defines "t \<equiv> apple_a7iop_mailbox_send i msg st"
  shows "inbox (t j) = (if j = i then inbox (st i) @ [msg] else inbox (st j))"
  "count (t j) = (if j = i then count (st i) + 1 else count (st j))"
  "underflow (t j) = underflow (st j)" "iop_dir_en (t j) = iop_dir_en (st j)"
  "ap_dir_en (t j) = ap_dir_en (st j)" "role (t j) = role (st j)" "int_mask (t j) = int_mask (st j)"
  "handle_messages_bh (t j) = handle_messages_bh (st j)"
  "interrupt_status (t j) = interrupt_status (st j)" "interrupts_enabled (t j) = interrupts_enabled (st j)"
  "iop_recv_reg (t j) = iop_recv_reg (st j)" "ap_recv_reg (t j) = ap_recv_reg (st j)"
  "iop_send_reg (t j) = iop_send_reg (st j)" "ap_send_reg (t j) = ap_send_reg (st j)"
  by (simp_all add: t_def apple_a7iop_mailbox_send_def Let_def upd_mbox_apply)

lemma recv_fields [simp]:
  fixes i j st
  defines "t \<equiv> snd (apple_a7iop_mailbox_recv i st)"
  shows "inbox (t j) = (if j = i \<and> \<not> underflow (st i) then tl (inbox (st i)) else inbox (st j))"
  "count (t j) = (if j = i \<and> \<not> underflow (st i) \<and> inbox (st i) \<noteq> [] then count (st i) - 1 else count (st j))"
  "underflow (t j) = (underflow (st j) \<or> j = i \<and> inbox (st i) = [])"
  "iop_dir_en (t j) = iop_dir_en (st j)" "bh_scheduled (t j) = bh_scheduled (st j)"
  "ap_dir_en (t j) = ap_dir_en (st j)" "role (t j) = role (st j)" "int_mask (t j) = int_mask (st j)"
  "handle_messages_bh (t j) = handle_messages_bh (st j)"
  "interrupt_status (t j) = interrupt_status (st j)" "interrupts_enabled (t j) = interrupts_enabled (st j)"
  "iop_recv_reg (t j) = iop_recv_reg (st j)" "ap_recv_reg (t j) = ap_recv_reg (st j)"
  "iop_send_reg (t j) = iop_send_reg (st j)" "ap_send_reg (t j) = ap_send_reg (st j)"
  by (auto simp: t_def apple_a7iop_mailbox_recv_def upd_mbox_apply split: list.split)

lemma fst_recv:
  "fst (apple_a7iop_mailbox_recv i st) =
     (if underflow (st i) \<or> inbox (st i) = [] then None
      else Some (stamp_count (count (st i)) (hd (inbox (st i)))))"
  by (auto simp: apple_a7iop_mailbox_recv_def split: list.split)

lemma inbox_ok_send: "inbox_ok t st \<Longrightarrow> inbox_ok t (apple_a7iop_mailbox_send i msg st)"
  by (auto simp: inbox_ok_def)

lemma inbox_ok_recv:
  "inbox_ok t st \<Longrightarrow> inbox (st t) \<noteq> [] \<Longrightarrow> inbox_ok t (snd (apple_a7iop_mailbox_recv t st))"
  by (cases "inbox (st t)") (simp_all add: inbox_ok_def)

interpretation iop_chan: fifo_channel "apple_a7iop_mailbox_send_iop i" "apple_a7iop_mailbox_recv_iop j"
    "\<lambda>st. inbox (st IOP)" "\<lambda>st. inbox_ok IOP st \<and> iop_dir_en (st i) \<and> iop_dir_en (st j)"
    "\<lambda>n. stamp_count (of_nat n)" for i j
  by unfold_locales
    (simp_all add: apple_a7iop_mailbox_send_iop_def apple_a7iop_mailbox_recv_iop_def fst_recv
      inbox_ok_send inbox_ok_recv, simp_all add: inbox_ok_def)

interpretation ap_chan: fifo_channel "apple_a7iop_mailbox_send_ap i" "apple_a7iop_mailbox_recv_ap j"
    "\<lambda>st. inbox (st AP)" "\<lambda>st. inbox_ok AP st \<and> ap_dir_en (st i) \<and> ap_dir_en (st j)"
    "\<lambda>n. stamp_count (of_nat n)" for i j
  by unfold_locales
    (simp_all add: apple_a7iop_mailbox_send_ap_def apple_a7iop_mailbox_recv_ap_def fst_recv
      inbox_ok_send inbox_ok_recv, simp_all add: inbox_ok_def)

subsection \<open>Runs of a mailbox pair\<close>

datatype mbox_op = SendAp mbox_id message | SendIop mbox_id message | RecvAp mbox_id | RecvIop mbox_id
  | SetIntMask mbox_id u32 | ClearIntMask mbox_id u32 | SetIopCtrl mbox_id u32 | SetApCtrl mbox_id u32
  | StatusPush mbox_id u32 | ReadStatus mbox_id | Timer0 mbox_id bool | Timer1 mbox_id bool | MboxReset mbox_id

fun mbox_step :: "mbox_op \<Rightarrow> mboxes \<Rightarrow> mboxes" where
  "mbox_step (SendAp i m) st = apple_a7iop_mailbox_send_ap i m st"
| "mbox_step (SendIop i m) st = apple_a7iop_mailbox_send_iop i m st"
| "mbox_step (RecvAp i) st = snd (apple_a7iop_mailbox_recv_ap i st)"
| "mbox_step (RecvIop i) st = snd (apple_a7iop_mailbox_recv_iop i st)"
| "mbox_step (SetIntMask i v) st = apple_a7iop_mailbox_set_int_mask i v st"
| "mbox_step (ClearIntMask i v) st = apple_a7iop_mailbox_clear_int_mask i v st"
| "mbox_step (SetIopCtrl i v) st = apple_a7iop_mailbox_set_iop_ctrl i v st"
| "mbox_step (SetApCtrl i v) st = apple_a7iop_mailbox_set_ap_ctrl i v st"
| "mbox_step (StatusPush i v) st = apple_a7iop_interrupt_status_push i v st"
| "mbox_step (ReadStatus i) st = snd (apple_a7iop_mailbox_read_interrupt_status i st)"
| "mbox_step (Timer0 i b) st = apple_a7iop_gpio_timer0 i b st"
| "mbox_step (Timer1 i b) st = apple_a7iop_gpio_timer1 i b st"
| "mbox_step (MboxReset i) st = apple_a7iop_mailbox_reset i st"

text \<open>
  The count is the length of the inbox, messages are 16 bytes, a status is queued at most once, and
  the interrupt enable words are there.
\<close>

definition mbox_ok :: "AppleA7IOPMailbox \<Rightarrow> bool" where
  "mbox_ok s \<longleftrightarrow> count s = of_nat (length (inbox s)) \<and> (\<forall>m \<in> set (inbox s). length m = 16) \<and>
     distinct (interrupt_status s) \<and> length (interrupts_enabled s) = 4"

definition mbox_wf :: "mboxes \<Rightarrow> bool" where
  "mbox_wf st \<longleftrightarrow> (\<forall>i. mbox_ok (st i))"

fun mbox_op_ok :: "mbox_op \<Rightarrow> bool" where
  "mbox_op_ok (SendAp i m) = (length m = 16)"
| "mbox_op_ok (SendIop i m) = (length m = 16)"
| "mbox_op_ok _ = True"

lemma mbox_wf_update [simp]: "mbox_wf (apple_a7iop_mailbox_update_irq i st) = mbox_wf st"
  by (simp add: mbox_wf_def mbox_ok_def)

lemma mbox_wf_upd: "mbox_wf st \<Longrightarrow> (\<And>s. mbox_ok s \<Longrightarrow> mbox_ok (f s)) \<Longrightarrow> mbox_wf (upd_mbox i f st)"
  by (simp add: mbox_wf_def upd_mbox_apply)

lemma mbox_wf_send: "mbox_wf st \<Longrightarrow> length m = 16 \<Longrightarrow> mbox_wf (apple_a7iop_mailbox_send i m st)"
  by (auto simp: mbox_wf_def mbox_ok_def)

lemma mbox_wf_recv: "mbox_wf st \<Longrightarrow> mbox_wf (snd (apple_a7iop_mailbox_recv i st))"
proof -
  assume wf: "mbox_wf st"
  have "mbox_ok (snd (apple_a7iop_mailbox_recv i st) j)" for j
  proof -
    have "mbox_ok (st i)" "mbox_ok (st j)" using wf by (simp_all add: mbox_wf_def)
    then show ?thesis by (cases "inbox (st i)") (auto simp: mbox_ok_def)
  qed
  then show ?thesis by (simp add: mbox_wf_def)
qed

lemma mbox_ok_mask_status: "mbox_ok s \<Longrightarrow> mbox_ok (mask_status v s)"
  by (simp add: mask_status_def mbox_ok_def Let_def)

lemma mbox_wf_pop: "mbox_wf st \<Longrightarrow> mbox_wf (snd (apple_a7iop_interrupt_status_pop i st))"
  by (auto simp: apple_a7iop_interrupt_status_pop_def mbox_ok_def intro!: mbox_wf_upd split: option.split)

lemma mbox_wf_push: "mbox_wf st \<Longrightarrow> mbox_wf (apple_a7iop_interrupt_status_push i v st)"
  by (auto simp: apple_a7iop_interrupt_status_push_def mbox_wf_def upd_mbox_apply mbox_ok_def)

lemma mbox_wf_read_status: "mbox_wf st \<Longrightarrow> mbox_wf (snd (apple_a7iop_mailbox_read_interrupt_status i st))"
  using mbox_wf_pop [of st i]
  by (auto simp: apple_a7iop_mailbox_read_interrupt_status_def Let_def mbox_ok_mask_status
      split: prod.split intro!: mbox_wf_upd) (simp_all add: mbox_ok_def)

lemma mbox_wf_reset: "mbox_wf st \<Longrightarrow> mbox_wf (apple_a7iop_mailbox_reset i st)"
  by (auto simp: apple_a7iop_mailbox_reset_def update_irq_status_lines mbox_ok_def intro!: mbox_wf_upd)

interpretation mbox: device_invariant mbox_step mbox_op_ok mbox_wf
proof
  fix x st
  assume "mbox_op_ok x" "mbox_wf st"
  then show "mbox_wf (mbox_step x st)"
    by (cases x) (auto simp: apple_a7iop_mailbox_send_ap_def apple_a7iop_mailbox_send_iop_def
        apple_a7iop_mailbox_recv_ap_def apple_a7iop_mailbox_recv_iop_def mbox_wf_send mbox_wf_recv
        apple_a7iop_mailbox_set_int_mask_def apple_a7iop_mailbox_clear_int_mask_def
        apple_a7iop_mailbox_set_iop_ctrl_def apple_a7iop_mailbox_set_ap_ctrl_def
        apple_a7iop_gpio_timer0_def apple_a7iop_gpio_timer1_def mbox_wf_push mbox_wf_read_status
        mbox_wf_reset mbox_ok_def intro!: mbox_wf_upd)
qed

text \<open>The message registers have 16 bytes, and a mailbox has four lines.\<close>

definition regs_sized :: "AppleA7IOPMailbox \<Rightarrow> bool" where
  "regs_sized s \<longleftrightarrow> length (iop_recv_reg s) = 16 \<and> length (ap_recv_reg s) = 16 \<and>
     length (iop_send_reg s) = 16 \<and> length (ap_send_reg s) = 16 \<and> length (irqs s) = 4"

lemma length_mbox_lines [simp]: "length (mbox_lines st i) = 4"
  by (simp add: mbox_lines_def)

lemma regs_sized_update: "\<forall>j. regs_sized (st j) \<Longrightarrow> regs_sized (apple_a7iop_mailbox_update_irq i st j)"
  by (simp add: regs_sized_def irqs_update_irq)

lemma regs_sized_upd: "\<forall>j. regs_sized (st j) \<Longrightarrow> (\<And>s. regs_sized s \<Longrightarrow> regs_sized (f s)) \<Longrightarrow> regs_sized (upd_mbox i f st j)"
  by (simp add: upd_mbox_apply)

lemma regs_sized_push: "\<forall>j. regs_sized (st j) \<Longrightarrow> regs_sized (apple_a7iop_interrupt_status_push i v st j)"
  by (auto simp: apple_a7iop_interrupt_status_push_def intro!: regs_sized_update regs_sized_upd) (simp add: regs_sized_def)

lemma regs_sized_pop: "\<forall>j. regs_sized (st j) \<Longrightarrow> regs_sized (snd (apple_a7iop_interrupt_status_pop i st) j)"
  by (auto simp: apple_a7iop_interrupt_status_pop_def intro!: regs_sized_update regs_sized_upd split: option.split)
    (simp add: regs_sized_def)

lemma regs_sized_read_status:
  "\<forall>j. regs_sized (st j) \<Longrightarrow> regs_sized (snd (apple_a7iop_mailbox_read_interrupt_status i st) j)"
proof -
  assume r: "\<forall>j. regs_sized (st j)"
  have "regs_sized s \<Longrightarrow> regs_sized (mask_status v s)" for v s by (simp add: mask_status_def regs_sized_def Let_def)
  moreover have "\<forall>j. regs_sized (snd (apple_a7iop_interrupt_status_pop i st) j)" using regs_sized_pop [OF r] by blast
  ultimately show ?thesis using r
    by (auto simp: apple_a7iop_mailbox_read_interrupt_status_def Let_def split: prod.split
        intro!: regs_sized_update regs_sized_upd) (simp_all add: regs_sized_def)
qed

interpretation mbox_regs: device_invariant mbox_step mbox_op_ok "\<lambda>st. \<forall>j. regs_sized (st j)"
proof
  fix x and st :: mboxes
  assume "mbox_op_ok x" and r: "\<forall>j. regs_sized (st j)"
  have s: "regs_sized (apple_a7iop_mailbox_send i m st j)" "regs_sized (snd (apple_a7iop_mailbox_recv i st) j)" for i j m
    using r by (auto simp: apple_a7iop_mailbox_send_def apple_a7iop_mailbox_recv_def Let_def split: list.split
        intro!: regs_sized_update regs_sized_upd) (simp_all add: regs_sized_def)
  have m: "regs_sized (apple_a7iop_mailbox_set_int_mask i v st j)" "regs_sized (apple_a7iop_mailbox_clear_int_mask i v st j)" for i j v
    using r by (auto simp: apple_a7iop_mailbox_set_int_mask_def apple_a7iop_mailbox_clear_int_mask_def
        intro!: regs_sized_update regs_sized_upd) (simp_all add: regs_sized_def)
  have c: "regs_sized (apple_a7iop_mailbox_set_iop_ctrl i v st j)" "regs_sized (apple_a7iop_mailbox_set_ap_ctrl i v st j)" for i j v
    using r by (auto simp: apple_a7iop_mailbox_set_iop_ctrl_def apple_a7iop_mailbox_set_ap_ctrl_def intro!: regs_sized_upd)
      (simp_all add: regs_sized_def)
  have z: "regs_sized (apple_a7iop_mailbox_reset i st j)" for i j
    using r by (simp add: apple_a7iop_mailbox_reset_def update_irq_status_lines upd_mbox_apply regs_sized_def)
  show "\<forall>j. regs_sized (mbox_step x st j)"
    using r s m c z by (cases x) (auto simp: apple_a7iop_mailbox_send_ap_def apple_a7iop_mailbox_send_iop_def
        apple_a7iop_mailbox_recv_ap_def apple_a7iop_mailbox_recv_iop_def apple_a7iop_gpio_timer0_def
        apple_a7iop_gpio_timer1_def regs_sized_push regs_sized_read_status)
qed

text \<open>Each mailbox shows the state of its own inbox on its own lines.\<close>

definition mbox_sync :: "mboxes \<Rightarrow> bool" where
  "mbox_sync st \<longleftrightarrow> take 2 (irqs (st IOP)) = take 2 (mbox_lines st IOP) \<and>
                   drop 2 (irqs (st AP)) = drop 2 (mbox_lines st AP)"

text \<open>The status register is the co-processor's own.\<close>

fun mbox_sync_op :: "mbox_op \<Rightarrow> bool" where
  "mbox_sync_op (ReadStatus i) = (i = IOP)"
| "mbox_sync_op _ = True"

lemma mbox_sync_update_irq:
  assumes "mbox_sync st" "\<And>k. k \<noteq> t \<Longrightarrow> st1 k = st k"
  shows "mbox_sync (apple_a7iop_mailbox_update_irq t st1)"
  using assms by (cases t) (auto simp: mbox_sync_def irqs_update_irq mbox_lines_def)

lemma mbox_sync_update: "mbox_sync st \<Longrightarrow> mbox_sync (apple_a7iop_mailbox_update_irq t (upd_mbox t f st))"
  by (rule mbox_sync_update_irq) auto

lemma mbox_sync_upd:
  assumes "mbox_sync st" "\<And>s. inbox (f s) = inbox s" "\<And>s. underflow (f s) = underflow s"
    "\<And>s. int_mask (f s) = int_mask s" "\<And>s. irqs (f s) = irqs s"
  shows "mbox_sync (upd_mbox i f st)"
proof -
  have "mbox_lines (upd_mbox i f st) j = mbox_lines st j" for j
    by (rule mbox_lines_cong) (simp_all add: upd_mbox_apply assms)
  then show ?thesis using assms by (simp add: mbox_sync_def upd_mbox_apply)
qed

lemma mbox_sync_reset:
  "mbox_sync st \<Longrightarrow> mbox_sync (apple_a7iop_mailbox_reset i st)"
  "mbox_sync (apple_a7iop_mailbox_reset AP (apple_a7iop_mailbox_reset IOP st))"
  by (cases i) (simp_all add: mbox_sync_def apple_a7iop_mailbox_reset_def update_irq_status_lines
      mbox_lines_def upd_mbox_apply)

lemma mbox_sync_send: "mbox_sync st \<Longrightarrow> mbox_sync (apple_a7iop_mailbox_send i m st)"
  by (auto simp: apple_a7iop_mailbox_send_def Let_def intro!: mbox_sync_upd mbox_sync_update)

lemma mbox_sync_recv: "mbox_sync st \<Longrightarrow> mbox_sync (snd (apple_a7iop_mailbox_recv i st))"
  by (auto simp: apple_a7iop_mailbox_recv_def intro!: mbox_sync_update split: list.split)

lemma mbox_sync_push: "mbox_sync st \<Longrightarrow> mbox_sync (apple_a7iop_interrupt_status_push i v st)"
  by (auto simp: apple_a7iop_interrupt_status_push_def intro: mbox_sync_update_irq mbox_sync_update)

lemma mbox_sync_pop: "mbox_sync st \<Longrightarrow> mbox_sync (snd (apple_a7iop_interrupt_status_pop i st))"
  by (auto simp: apple_a7iop_interrupt_status_pop_def intro: mbox_sync_update_irq mbox_sync_update
      split: option.split)

lemma mbox_sync_read_status:
  "mbox_sync st \<Longrightarrow> mbox_sync (snd (apple_a7iop_mailbox_read_interrupt_status IOP st))"
  using mbox_sync_pop [of st IOP]
  by (auto simp: apple_a7iop_mailbox_read_interrupt_status_def Let_def split: prod.split
      intro: mbox_sync_update_irq mbox_sync_update)

interpretation mbox_lines: device_invariant mbox_step mbox_sync_op mbox_sync
proof
  fix x st
  assume "mbox_sync_op x" "mbox_sync st"
  then show "mbox_sync (mbox_step x st)"
    by (cases x) (auto simp: apple_a7iop_mailbox_send_ap_def apple_a7iop_mailbox_send_iop_def
        apple_a7iop_mailbox_recv_ap_def apple_a7iop_mailbox_recv_iop_def mbox_sync_send mbox_sync_recv
        apple_a7iop_mailbox_set_int_mask_def apple_a7iop_mailbox_clear_int_mask_def
        apple_a7iop_mailbox_set_iop_ctrl_def apple_a7iop_mailbox_set_ap_ctrl_def
        apple_a7iop_gpio_timer0_def apple_a7iop_gpio_timer1_def mbox_sync_push mbox_sync_read_status
        mbox_sync_reset intro!: mbox_sync_upd mbox_sync_update)
qed

text \<open>
  An operation sets all four lines of a mailbox to the present state of both inboxes, or leaves all
  four alone.
\<close>

definition lines_set :: "mboxes \<Rightarrow> mboxes \<Rightarrow> bool" where
  "lines_set st t \<longleftrightarrow> (\<forall>i. irqs (t i) = irqs (st i) \<or> irqs (t i) = mbox_lines t i)"

lemma lines_set_update:
  assumes "\<And>k. irqs (st1 k) = irqs (st k)"
  shows "lines_set st (apple_a7iop_mailbox_update_irq i st1)"
  using assms by (auto simp: lines_set_def irqs_update_irq)

lemma lines_set_refl [simp]: "lines_set st st"
  by (simp add: lines_set_def)

lemma irqs_upd: "(\<And>s. irqs (f s) = irqs s) \<Longrightarrow> irqs (upd_mbox i f st k) = irqs (st k)"
  by (simp add: upd_mbox_apply)

lemma lines_set_upd: "(\<And>s. irqs (f s) = irqs s) \<Longrightarrow> lines_set st (upd_mbox i f st)"
  by (simp add: lines_set_def irqs_upd)

lemma lines_set_send: "lines_set st (apple_a7iop_mailbox_send i m st)"
proof -
  let ?u = "apple_a7iop_mailbox_update_irq i (upd_mbox i (\<lambda>s. s\<lparr>inbox := inbox s @ [m], count := count s + 1\<rparr>) st)"
  have u: "lines_set st ?u" by (rule lines_set_update) (simp add: irqs_upd)
  have "mbox_lines (upd_mbox i (\<lambda>s. s\<lparr>bh_scheduled := True\<rparr>) ?u) k = mbox_lines ?u k" for k
    by (rule mbox_lines_cong) (simp_all add: upd_mbox_apply)
  then have "lines_set st (upd_mbox i (\<lambda>s. s\<lparr>bh_scheduled := True\<rparr>) ?u)"
    using u by (simp add: lines_set_def irqs_upd)
  then show ?thesis using u by (simp add: apple_a7iop_mailbox_send_def Let_def)
qed

lemma lines_set_recv: "lines_set st (snd (apple_a7iop_mailbox_recv i st))"
  by (auto simp: apple_a7iop_mailbox_recv_def irqs_upd intro!: lines_set_update split: list.split)

lemma lines_set_push: "lines_set st (apple_a7iop_interrupt_status_push i v st)"
  by (auto simp: apple_a7iop_interrupt_status_push_def irqs_upd intro!: lines_set_update)

lemma lines_set_read_status: "lines_set st (snd (apple_a7iop_mailbox_read_interrupt_status IOP st))"
proof -
  obtain v u where p: "apple_a7iop_interrupt_status_pop IOP st = (v, u)" by fastforce
  have "irqs (snd (apple_a7iop_interrupt_status_pop IOP st) AP) = irqs (st AP)"
    by (simp add: apple_a7iop_interrupt_status_pop_def irqs_update_irq split: option.split)
  then have u: "irqs (u AP) = irqs (st AP)" by (simp add: p)
  have "\<exists>t. snd (apple_a7iop_mailbox_read_interrupt_status IOP st) = apple_a7iop_mailbox_update_irq IOP t \<and>
      irqs (t AP) = irqs (st AP)"
    unfolding apple_a7iop_mailbox_read_interrupt_status_def p Let_def split_beta snd_conv
    by (intro exI conjI, rule refl) (simp add: u)
  then obtain t where t: "snd (apple_a7iop_mailbox_read_interrupt_status IOP st) = apple_a7iop_mailbox_update_irq IOP t"
      "irqs (t AP) = irqs (st AP)" by blast
  have "irqs (apple_a7iop_mailbox_update_irq IOP t i) = irqs (st i) \<or>
      irqs (apple_a7iop_mailbox_update_irq IOP t i) = mbox_lines t i" for i using t(2) by (cases i) (simp_all add: irqs_update_irq)
  then show ?thesis by (simp add: lines_set_def t(1))
qed

lemma irqs_reset: "irqs (apple_a7iop_mailbox_reset i st i) = mbox_lines (apple_a7iop_mailbox_reset i st) i"
  by (cases i) (simp_all add: apple_a7iop_mailbox_reset_def update_irq_status_lines mbox_lines_def upd_mbox_apply)

lemma lines_set_reset: "lines_set st (apple_a7iop_mailbox_reset i st)"
proof -
  have "k \<noteq> i \<Longrightarrow> irqs (apple_a7iop_mailbox_reset i st k) = irqs (st k)" for k
    by (simp add: apple_a7iop_mailbox_reset_def update_irq_status_lines upd_mbox_apply)
  then show ?thesis using irqs_reset [of i st] unfolding lines_set_def by metis
qed

lemma lines_set_step: "mbox_sync_op x \<Longrightarrow> lines_set st (mbox_step x st)"
  by (cases x) (auto simp: apple_a7iop_mailbox_send_ap_def apple_a7iop_mailbox_send_iop_def
      apple_a7iop_mailbox_recv_ap_def apple_a7iop_mailbox_recv_iop_def lines_set_send lines_set_recv
      apple_a7iop_mailbox_set_int_mask_def apple_a7iop_mailbox_clear_int_mask_def
      apple_a7iop_mailbox_set_iop_ctrl_def apple_a7iop_mailbox_set_ap_ctrl_def irqs_upd
      apple_a7iop_gpio_timer0_def apple_a7iop_gpio_timer1_def lines_set_push lines_set_read_status
      lines_set_reset intro!: lines_set_update lines_set_upd)

text \<open>Over a run, the four lines of a mailbox are those of one moment since lines were last right.\<close>

lemma lines_of_a_moment:
  assumes "list_all mbox_sync_op ops" "irqs (st i) = mbox_lines st i"
  shows "\<exists>k \<le> length ops. irqs (run_ops mbox_step ops st i) = mbox_lines (run_ops mbox_step (take k ops) st) i"
  using assms
proof (induction ops rule: rev_induct)
  case (snoc x ops)
  let ?t = "run_ops mbox_step ops st"
  have s: "lines_set ?t (mbox_step x ?t)" using snoc.prems(1) by (intro lines_set_step) simp
  obtain k where k: "k \<le> length ops" "irqs (?t i) = mbox_lines (run_ops mbox_step (take k ops) st) i"
    using snoc by auto
  have r: "run_ops mbox_step (ops @ [x]) st = mbox_step x ?t" by (simp add: run_ops_def)
  consider "irqs (mbox_step x ?t i) = irqs (?t i)" | "irqs (mbox_step x ?t i) = mbox_lines (mbox_step x ?t) i"
    using s by (auto simp: lines_set_def)
  then show ?case
  proof cases
    case 1
    then show ?thesis using k r by (intro exI [of _ k]) simp
  next
    case 2
    then show ?thesis using r by (intro exI [of _ "Suc (length ops)"]) simp
  qed
qed simp

interpretation int_mask_port: mask_register "\<lambda>st. int_mask (st i)" "apple_a7iop_mailbox_set_int_mask i"
    "apple_a7iop_mailbox_clear_int_mask i" "\<lambda>st. True" for i
  by unfold_locales
    (simp_all add: apple_a7iop_mailbox_set_int_mask_def apple_a7iop_mailbox_clear_int_mask_def)

subsection \<open>Which status a pop returns\<close>

text \<open>
  Among the enabled statuses, those of group 7 (the timers) win if there are any, otherwise those
  of the group of the first one; within the group the smallest status wins.
\<close>

definition pop_choice :: "u32 list \<Rightarrow> u32 option" where
  "pop_choice ys =
     (if ys = [] then None
      else let g = (if 7 \<in> interrupt_group ` set ys then 7 else interrupt_group (hd ys))
        in Some (Min {y \<in> set ys. interrupt_group y = g}))"

lemma pop_choice_snoc:
  "pop_choice (ys @ [y]) =
     (case pop_choice ys of None \<Rightarrow> Some y
      | Some p \<Rightarrow> if interrupt_group y = interrupt_group p \<and> y < p \<or>
                     interrupt_group y \<noteq> interrupt_group p \<and> interrupt_group y = 7
                  then Some y else Some p)"
proof (cases "ys = []")
  case True
  have one: "interrupt_group y = g \<Longrightarrow> {z. z = y \<and> interrupt_group z = g} = {y}" for g by auto
  show ?thesis using True by (simp add: pop_choice_def one)
next
  case False
  define g where "g = (if 7 \<in> interrupt_group ` set ys then 7 else interrupt_group (hd ys))"
  define S where "S = {z \<in> set ys. interrupt_group z = g}"
  have "\<exists>z \<in> set ys. interrupt_group z = g"
    using False by (cases "7 \<in> interrupt_group ` set ys") (auto simp: g_def intro: bexI [of _ "hd ys"])
  then have S: "finite S" "S \<noteq> {}" "pop_choice ys = Some (Min S)"
    using False by (auto simp: S_def g_def pop_choice_def)
  have g: "interrupt_group (Min S) = g" using Min_in [OF S(1,2)] by (simp add: S_def)
  have new: "pop_choice (ys @ [y]) =
      Some (Min {z \<in> set (ys @ [y]). interrupt_group z = (if interrupt_group y = 7 then 7 else g)})"
    using False by (auto simp: pop_choice_def g_def Let_def)
  consider (same) "interrupt_group y = g" | (seven) "interrupt_group y \<noteq> g" "interrupt_group y = 7"
    | (other) "interrupt_group y \<noteq> g" "interrupt_group y \<noteq> 7" by blast
  then show ?thesis
  proof cases
    case same
    then have "{z \<in> set (ys @ [y]). interrupt_group z = g} = insert y S" by (auto simp: S_def)
    then have "pop_choice (ys @ [y]) = Some (min y (Min S))"
      using same S new by (simp only: Min_insert) auto
    then show ?thesis using same S(3) g by (auto simp: min_def not_le)
  next
    case seven
    then have "{z \<in> set (ys @ [y]). interrupt_group z = 7} = {y}" by (auto simp: g_def split: if_splits)
    then show ?thesis using seven S g new by simp
  next
    case other
    then have "{z \<in> set (ys @ [y]). interrupt_group z = g} = S" by (auto simp: S_def)
    then show ?thesis using other S g new by simp
  qed
qed

lemma fold_prefer_status:
  "fold (prefer_status s) xs None = pop_choice (filter (is_interrupt_enabled s) xs)"
  by (induction xs rule: rev_induct)
    (auto simp: pop_choice_snoc prefer_status_def pop_choice_def [of "[]"] split: option.split)

subsection \<open>Properties\<close>

lemma length_stamp_count [simp]: "length m = 16 \<Longrightarrow> length (stamp_count c m) = 16"
  by (simp add: stamp_count_def)

lemma take_stamp_count [simp]: "length m = 16 \<Longrightarrow> take 12 (stamp_count c m) = take 12 m"
  by (simp add: stamp_count_def blit_def)

lemma stamped_payload:
  "\<forall>m \<in> set ms. length m = 16 \<Longrightarrow> map (take 12) (stamped (\<lambda>n. stamp_count (of_nat n)) ms) = map (take 12) ms"
  by (induction ms) auto

lemma mbox_wf_inbox:
  "mbox_wf st \<Longrightarrow> \<not> underflow (st t) \<Longrightarrow> inbox_ok t st" "mbox_wf st \<Longrightarrow> m \<in> set (inbox (st t)) \<Longrightarrow> length m = 16"
  by (simp_all add: mbox_wf_def mbox_ok_def inbox_ok_def)

text \<open>
  Property C4 (refinement). In each direction the mailbox is a queue: what a sender sends is what a
  receiver gets, in order, after what was queued already. The first twelve bytes of a message are
  delivered unchanged; the last four carry the number of messages that were queued.
\<close>

theorem mailbox_fifo:
  assumes "mbox_wf st" "\<forall>m \<in> set ms. length m = 16"
    and "\<not> underflow (st IOP)" "iop_dir_en (st i)" "iop_dir_en (st j)"
    and "length (inbox (st IOP)) + length ms \<le> n"
  defines "got \<equiv> fst (drain (apple_a7iop_mailbox_recv_iop j) n (fold (apple_a7iop_mailbox_send_iop i) ms st))"
  shows "got = stamped (\<lambda>n. stamp_count (of_nat n)) (inbox (st IOP) @ ms) \<and>
         map (take 12) got = map (take 12) (inbox (st IOP) @ ms)"
proof -
  have "got = stamped (\<lambda>n. stamp_count (of_nat n)) (inbox (st IOP) @ ms)"
    unfolding got_def using assms by (intro iop_chan.send_drain) (simp_all add: mbox_wf_inbox)
  moreover have "\<forall>m \<in> set (inbox (st IOP) @ ms). length m = 16"
    using assms(1,2) by (auto dest: mbox_wf_inbox(2))
  ultimately show ?thesis by (simp only: stamped_payload)
qed

definition mbox_demo :: mboxes where
  "mbox_demo = apple_a7iop_mailbox_reset AP (apple_a7iop_mailbox_reset IOP
     (\<lambda>i. apple_a7iop_mailbox_new (case i of IOP \<Rightarrow> ''SMC-iop'' | AP \<Rightarrow> ''SMC-ap'') True))"

lemma mbox_demo_fields:
  "inbox (mbox_demo i) = []" "underflow (mbox_demo i) = False" "iop_dir_en (mbox_demo i)"
  "ap_dir_en (mbox_demo i)" "count (mbox_demo i) = 0" "int_mask (mbox_demo i) = 0" "mbox_wf mbox_demo"
  "interrupt_status (mbox_demo i) = []" "iop_send_reg (mbox_demo i) = replicate 16 0"
  by (cases i; simp add: mbox_demo_def apple_a7iop_mailbox_reset_def update_irq_status_lines
      upd_mbox_apply apple_a7iop_mailbox_new_def mbox_wf_def mbox_ok_def)+

theorem mailbox_fifo_witness:
  "map (take 12) (fst (drain (apple_a7iop_mailbox_recv_iop AP) 2
     (fold (apple_a7iop_mailbox_send_iop AP) [replicate 16 1, replicate 16 2] mbox_demo))) =
   [replicate 12 1, replicate 12 2]"
  using mailbox_fifo [of mbox_demo "[replicate 16 1, replicate 16 2]" AP AP 2]
  by (simp add: mbox_demo_fields)

text \<open>
  Property C32 (invariant). Over any sequence of operations of the mailbox pair the count register
  is the length of the inbox, every queued message has 16 bytes, no status is queued twice, and the
  registers keep their sizes: 16 bytes for each message register, four interrupt enable words and four
  lines.
\<close>

theorem mailbox_run_wf:
  fixes name :: "mbox_id \<Rightarrow> string" and bh :: "mbox_id \<Rightarrow> bool"
  assumes "list_all mbox_op_ok ops"
  defines "st \<equiv> run_ops mbox_step ops (\<lambda>i. apple_a7iop_mailbox_new (name i) (bh i))"
  shows "count (st i) = of_nat (length (inbox (st i))) \<and> (\<forall>m \<in> set (inbox (st i)). length m = 16) \<and>
         distinct (interrupt_status (st i)) \<and> length (interrupts_enabled (st i)) = 4 \<and> length (irqs (st i)) = 4 \<and>
         length (iop_recv_reg (st i)) = 16 \<and> length (ap_recv_reg (st i)) = 16 \<and>
         length (iop_send_reg (st i)) = 16 \<and> length (ap_send_reg (st i)) = 16"
proof -
  have "mbox_wf (\<lambda>i. apple_a7iop_mailbox_new (name i) (bh i))" "\<forall>i. regs_sized (apple_a7iop_mailbox_new (name i) (bh i))"
    by (simp_all add: mbox_wf_def mbox_ok_def apple_a7iop_mailbox_new_def regs_sized_def)
  then have "mbox_wf st" "\<forall>i. regs_sized (st i)"
    unfolding st_def using mbox.run_inv [OF assms(1)] mbox_regs.run_inv [OF assms(1)] by simp_all
  then show ?thesis by (simp add: mbox_wf_def mbox_ok_def regs_sized_def)
qed

theorem mailbox_run_wf_witness:
  "distinct (interrupt_status (run_ops mbox_step [StatusPush IOP 1, StatusPush IOP 1, ReadStatus IOP]
     (\<lambda>i. apple_a7iop_mailbox_new [] False) IOP))"
  using mailbox_run_wf [of "[StatusPush IOP 1, StatusPush IOP 1, ReadStatus IOP]" "\<lambda>_. []" "\<lambda>_. False" IOP]
  by (simp del: run_ops_simps)

text \<open>
  Property C33 (invariant). Once both mailboxes have been reset, after every sequence of operations
  in which the status register is read at the co-processor's mailbox, the two lines of each mailbox for
  its own inbox show that inbox as it is: not empty (or underflowed) and empty, each gated by its mask
  bit. The other two lines of a mailbox, for the inbox of the other one, may be out of date: all four
  lines of a mailbox are those that the masks and both inboxes called for at one moment since its
  reset.
\<close>

theorem mailbox_lines_follow_inbox:
  fixes st0 :: mboxes
  assumes "list_all mbox_sync_op ops"
  defines "xs \<equiv> MboxReset IOP # MboxReset AP # ops"
  defines "st \<equiv> run_ops mbox_step xs st0"
  shows "take 2 (irqs (st IOP)) =
           [\<not> bit (int_mask (st IOP)) 4 \<and> inbox (st IOP) \<noteq> [] \<or> underflow (st IOP),
            \<not> bit (int_mask (st IOP)) 0 \<and> inbox (st IOP) = []] \<and>
         drop 2 (irqs (st AP)) =
           [\<not> bit (int_mask (st AP)) 12 \<and> inbox (st AP) \<noteq> [] \<or> underflow (st AP),
            \<not> bit (int_mask (st AP)) 8 \<and> inbox (st AP) = []] \<and>
         (\<forall>i. \<exists>k. 1 \<le> k \<and> k \<le> length xs \<and> irqs (st i) =
           (let m = run_ops mbox_step (take k xs) st0; mask = int_mask (m i)
            in [\<not> bit mask 4 \<and> inbox (m IOP) \<noteq> [] \<or> underflow (m IOP), \<not> bit mask 0 \<and> inbox (m IOP) = [],
                \<not> bit mask 12 \<and> inbox (m AP) \<noteq> [] \<or> underflow (m AP), \<not> bit mask 8 \<and> inbox (m AP) = []]))"
proof -
  note bits = iop_nonempty_is_unmasked_def iop_empty_is_unmasked_def ap_nonempty_is_unmasked_def
    ap_empty_is_unmasked_def and_BIT_eq_0
  have "mbox_sync st"
    unfolding st_def xs_def using assms(1) by (simp add: mbox_lines.run_inv mbox_sync_reset(2))
  then have own: "take 2 (irqs (st IOP)) = take 2 (mbox_lines st IOP)" "drop 2 (irqs (st AP)) = drop 2 (mbox_lines st AP)"
    by (simp_all add: mbox_sync_def)
  have moment: "\<exists>k. 1 \<le> k \<and> k \<le> length xs \<and> irqs (st i) = mbox_lines (run_ops mbox_step (take k xs) st0) i" for i
  proof (cases i)
    case IOP
    let ?s = "apple_a7iop_mailbox_reset IOP st0"
    have "irqs (?s IOP) = mbox_lines ?s IOP" by (rule irqs_reset)
    then obtain k where "k \<le> length (MboxReset AP # ops)"
        "irqs (run_ops mbox_step (MboxReset AP # ops) ?s IOP) = mbox_lines (run_ops mbox_step (take k (MboxReset AP # ops)) ?s) IOP"
      using lines_of_a_moment [of "MboxReset AP # ops" ?s IOP] assms(1) by auto
    then show ?thesis unfolding st_def xs_def IOP by (intro exI [of _ "Suc k"]) simp
  next
    case AP
    let ?s = "apple_a7iop_mailbox_reset AP (apple_a7iop_mailbox_reset IOP st0)"
    have "irqs (?s AP) = mbox_lines ?s AP" by (rule irqs_reset)
    then obtain k where "k \<le> length ops" "irqs (run_ops mbox_step ops ?s AP) = mbox_lines (run_ops mbox_step (take k ops) ?s) AP"
      using lines_of_a_moment [of ops ?s AP] assms(1) by auto
    then show ?thesis unfolding st_def xs_def AP by (intro exI [of _ "Suc (Suc k)"]) simp
  qed
  show ?thesis using own moment by (simp add: mbox_lines_def bits Let_def)
qed

theorem mailbox_lines_follow_inbox_witness:
  "take 2 (irqs (run_ops mbox_step [SendIop AP (replicate 16 0)] mbox_demo IOP)) = [True, False]"
  using mailbox_lines_follow_inbox [of "[SendIop AP (replicate 16 0)]"
      "\<lambda>i. apple_a7iop_mailbox_new (case i of IOP \<Rightarrow> ''SMC-iop'' | AP \<Rightarrow> ''SMC-ap'') True"]
  by (simp add: mbox_demo_def [symmetric] apple_a7iop_mailbox_send_iop_def mbox_demo_fields)

text \<open>
  The lines for the other inbox do lag behind: after a message was sent to the co-processor, the
  application processor's mailbox still shows the empty inbox it saw when it was reset.
\<close>

lemma mailbox_lines_lag:
  "irqs (run_ops mbox_step [SendIop AP (replicate 16 0)] mbox_demo AP) = [False, True, False, True] \<and>
   inbox (run_ops mbox_step [SendIop AP (replicate 16 0)] mbox_demo IOP) \<noteq> []"
  by code_simp

lemma underflow_upd:
  "(\<And>s. underflow (f s) = underflow s) \<Longrightarrow> underflow (upd_mbox i f st j) = underflow (st j)"
  by (simp add: upd_mbox_apply)

lemma underflow_push [simp]: "underflow (apple_a7iop_interrupt_status_push i v st j) = underflow (st j)"
  by (simp add: apple_a7iop_interrupt_status_push_def underflow_upd)

lemma underflow_pop [simp]: "underflow (snd (apple_a7iop_interrupt_status_pop i st) j) = underflow (st j)"
  by (simp add: apple_a7iop_interrupt_status_pop_def underflow_upd split: option.split)

lemma underflow_read_status [simp]:
  "underflow (snd (apple_a7iop_mailbox_read_interrupt_status i st) j) = underflow (st j)"
proof -
  obtain v u where p: "apple_a7iop_interrupt_status_pop i st = (v, u)" by fastforce
  then have "underflow (u j) = underflow (st j)" using underflow_pop [of i st j] by simp
  moreover have "underflow (mask_status v s) = underflow s" for v s
    by (simp add: mask_status_def Let_def)
  ultimately show ?thesis
    by (simp add: apple_a7iop_mailbox_read_interrupt_status_def Let_def p underflow_upd)
qed

interpretation mbox_underflow: device_invariant mbox_step "\<lambda>x. x \<noteq> MboxReset t" "\<lambda>st. underflow (st t)" for t
proof
  fix x and st :: mboxes
  assume "x \<noteq> MboxReset t" "underflow (st t)"
  then show "underflow (mbox_step x st t)"
    by (cases x) (auto simp: apple_a7iop_mailbox_send_ap_def apple_a7iop_mailbox_send_iop_def
        apple_a7iop_mailbox_recv_ap_def apple_a7iop_mailbox_recv_iop_def
        apple_a7iop_mailbox_set_int_mask_def apple_a7iop_mailbox_clear_int_mask_def
        apple_a7iop_mailbox_set_iop_ctrl_def apple_a7iop_mailbox_set_ap_ctrl_def
        apple_a7iop_gpio_timer0_def apple_a7iop_gpio_timer1_def apple_a7iop_mailbox_reset_def
        update_irq_status_lines upd_mbox_apply)
qed

text \<open>
  Receiving from an empty inbox underflows it, and the underflow is sticky:
  whatever is sent afterwards, every receive returns nothing and the control register reports the
  underflow, until that mailbox is reset.
\<close>

theorem mailbox_underflow_sticky:
  assumes "inbox (st IOP) = []" "iop_dir_en (st j)" "list_all (\<lambda>x. x \<noteq> MboxReset IOP) ops"
  defines "t \<equiv> run_ops mbox_step ops (snd (apple_a7iop_mailbox_recv_iop j st))"
  shows "fst (apple_a7iop_mailbox_recv_iop k t) = None \<and> bit (apple_a7iop_mailbox_get_iop_ctrl k t) 19"
proof -
  have "underflow (snd (apple_a7iop_mailbox_recv_iop j st) IOP)"
    using assms(1,2) by (simp add: apple_a7iop_mailbox_recv_iop_def)
  then have "underflow (t IOP)" unfolding t_def using assms(3) by (intro mbox_underflow.run_inv)
  then show ?thesis
    by (simp add: apple_a7iop_mailbox_recv_iop_def fst_recv apple_a7iop_mailbox_get_iop_ctrl_def
        apple_a7iop_mailbox_ctrl_def bit_or_iff)
qed

theorem mailbox_underflow_sticky_witness:
  "fst (apple_a7iop_mailbox_recv_iop AP (run_ops mbox_step [SendIop AP (replicate 16 1)]
     (snd (apple_a7iop_mailbox_recv_iop AP mbox_demo)))) = None"
  using mailbox_underflow_sticky [of mbox_demo AP "[SendIop AP (replicate 16 1)]" AP]
  by (simp add: mbox_demo_fields del: run_ops_simps)

text \<open>
  The control register of a mailbox that has not underflowed reports the
  direction enable, full from fifteen messages on, empty exactly when there is no message, and the
  number of messages, saturated at fifteen.
\<close>

theorem mailbox_ctrl_fields:
  fixes i :: mbox_id
  assumes "mbox_wf st" "\<not> underflow (st IOP)" "length (inbox (st IOP)) < 2 ^ 32"
  defines "r \<equiv> apple_a7iop_mailbox_get_iop_ctrl i st" and "n \<equiv> length (inbox (st IOP))"
  shows "(bit r 0 \<longleftrightarrow> iop_dir_en (st i)) \<and> (bit r 16 \<longleftrightarrow> 15 \<le> n) \<and> (bit r 17 \<longleftrightarrow> n = 0) \<and>
         \<not> bit r 18 \<and> \<not> bit r 19 \<and> unat (extract32 r 20 4) = min 15 n"
proof -
  define c where "c = min (count (st IOP)) 15"
  have n: "unat (count (st IOP)) = n" using assms by (simp add: mbox_wf_def mbox_ok_def unat_of_nat n_def)
  then have c: "unat c = min 15 n" by (simp add: c_def min_def word_le_nat_alt)
  have full: "15 \<le> count (st IOP) \<longleftrightarrow> 15 \<le> n" by (simp add: word_le_nat_alt n)
  have m: "(15 :: u32) = mask 4" by (simp add: mask_eq_exp_minus_1)
  have "unat (take_bit 4 c) = unat c" by (simp only: unsigned_take_bit_eq c) (simp add: take_bit_eq_mod)
  then have "take_bit 4 c = c" by (rule unsigned_word_eqI)
  then have hi: "bit c k \<Longrightarrow> k < 4" for k by (metis bit_take_bit_iff)
  have r: "r = (if iop_dir_en (st i) then BIT 0 else 0) OR (if 15 \<le> n then BIT 16 else 0) OR
      (if n = 0 then BIT 17 else 0) OR (push_bit 20 c AND push_bit 20 (mask 4))"
    using assms(2) full unfolding r_def apple_a7iop_mailbox_get_iop_ctrl_def apple_a7iop_mailbox_ctrl_def
      c_def n_def m by (simp add: or.assoc)
  have "extract32 r 20 4 = c"
    by (rule bit_word_eqI) (auto simp: r bit_logic dest: hi)
  then show ?thesis using c by (auto simp: r bit_logic)
qed

theorem mailbox_ctrl_fields_witness:
  "bit (apple_a7iop_mailbox_get_iop_ctrl AP mbox_demo) 17 \<and>
   unat (extract32 (apple_a7iop_mailbox_get_iop_ctrl AP mbox_demo) 20 4) = 0"
  using mailbox_ctrl_fields [of mbox_demo AP] by (simp add: mbox_demo_fields)

text \<open>
  Popping the status queue returns the preferred enabled status (0 when
  none is enabled), removes exactly that entry and leaves the rest in order.
\<close>

theorem interrupt_status_pop_correct:
  fixes st i
  defines "r \<equiv> apple_a7iop_interrupt_status_pop i st"
    and "c \<equiv> pop_choice (filter (is_interrupt_enabled (st i)) (interrupt_status (st i)))"
  shows "fst r = (case c of None \<Rightarrow> 0 | Some p \<Rightarrow> p) \<and>
         interrupt_status (snd r i) =
           (case c of None \<Rightarrow> interrupt_status (st i) | Some p \<Rightarrow> remove1 p (interrupt_status (st i))) \<and>
         (\<forall>j. inbox (snd r j) = inbox (st j))"
  by (auto simp: r_def c_def apple_a7iop_interrupt_status_pop_def fold_prefer_status upd_mbox_apply
      split: option.split)

text \<open>
  With the external interrupts switched off in the global configuration,
  an external interrupt status counts as enabled whatever its own enable bit is.
\<close>

theorem ext_interrupt_enabled_when_switched_off:
  assumes "sepd_enabled s \<noteq> 0" "\<not> bit (glb_cfg s) 0" "status AND 0xF0000 = 0x10000"
  shows "is_interrupt_enabled s status"
proof -
  have "status \<noteq> IRQ_IOP_NONEMPTY" "status \<noteq> IRQ_IOP_EMPTY" "status \<noteq> IRQ_AP_NONEMPTY"
    "status \<noteq> IRQ_AP_EMPTY" "status \<noteq> IRQ_SEP_TIMER0" "status \<noteq> IRQ_SEP_TIMER1"
    using assms(3) by auto
  then show ?thesis using assms by (simp add: is_interrupt_enabled_def and_BIT_eq_0)
qed

theorem ext_interrupt_enabled_when_switched_off_witness:
  "is_interrupt_enabled ((mbox_demo IOP)\<lparr>sepd_enabled := 1, glb_cfg := 0\<rparr>) 0x10008"
  by (rule ext_interrupt_enabled_when_switched_off) simp_all

end
