(* ===== verification/Mailbox_Regs.thy ===== *)
theory Mailbox_Regs
  imports Mailbox
begin

text \<open>
  The two register layouts of a mailbox, \<open>mailbox/regs-v4.c\<close> and \<open>mailbox/regs-v2.c\<close>. Accesses are 4
  or 8 bytes and aligned; \<open>sz\<close> is the width. A message is sent when the last word of a send register
  is written and received when the first word of a receive register is read.
\<close>

subsection \<open>Version 4\<close>

abbreviation (input) "V4_REG_INT_MASK_SET \<equiv> 0x0 :: hwaddr"
abbreviation (input) "V4_REG_INT_MASK_CLR \<equiv> 0x4 :: hwaddr"
abbreviation (input) "V4_REG_IOP_CTRL \<equiv> 0x8 :: hwaddr"
abbreviation (input) "V4_REG_AP_CTRL \<equiv> 0xC :: hwaddr"
abbreviation (input) "V4_REG_IOP_SEND0 \<equiv> 0x700 :: hwaddr"
abbreviation (input) "V4_REG_IOP_SEND1 \<equiv> 0x704 :: hwaddr"
abbreviation (input) "V4_REG_IOP_SEND2 \<equiv> 0x708 :: hwaddr"
abbreviation (input) "V4_REG_IOP_SEND3 \<equiv> 0x70c :: hwaddr"
abbreviation (input) "V4_REG_IOP_RECV0 \<equiv> 0x710 :: hwaddr"
abbreviation (input) "V4_REG_IOP_RECV1 \<equiv> 0x714 :: hwaddr"
abbreviation (input) "V4_REG_IOP_RECV2 \<equiv> 0x718 :: hwaddr"
abbreviation (input) "V4_REG_IOP_RECV3 \<equiv> 0x71c :: hwaddr"
abbreviation (input) "V4_REG_AP_SEND0 \<equiv> 0x720 :: hwaddr"
abbreviation (input) "V4_REG_AP_SEND1 \<equiv> 0x724 :: hwaddr"
abbreviation (input) "V4_REG_AP_SEND2 \<equiv> 0x728 :: hwaddr"
abbreviation (input) "V4_REG_AP_SEND3 \<equiv> 0x72c :: hwaddr"
abbreviation (input) "V4_REG_AP_RECV0 \<equiv> 0x730 :: hwaddr"
abbreviation (input) "V4_REG_AP_RECV1 \<equiv> 0x734 :: hwaddr"
abbreviation (input) "V4_REG_AP_RECV2 \<equiv> 0x738 :: hwaddr"
abbreviation (input) "V4_REG_AP_RECV3 \<equiv> 0x73c :: hwaddr"

definition apple_a7iop_v4_mailbox_reg_write :: "mbox_id \<Rightarrow> hwaddr \<Rightarrow> u64 \<Rightarrow> nat \<Rightarrow> mboxes \<Rightarrow> mboxes" where
  "apple_a7iop_v4_mailbox_reg_write i addr data sz st =
     (if addr = V4_REG_INT_MASK_SET then apple_a7iop_mailbox_set_int_mask i (ucast data) st
      else if addr = V4_REG_INT_MASK_CLR then apple_a7iop_mailbox_clear_int_mask i (ucast data) st
      else if addr = V4_REG_IOP_CTRL then apple_a7iop_mailbox_set_iop_ctrl i (ucast data) st
      else if addr = V4_REG_AP_CTRL then apple_a7iop_mailbox_set_ap_ctrl i (ucast data) st
      else if addr \<in> {V4_REG_IOP_SEND0, V4_REG_IOP_SEND1, V4_REG_IOP_SEND2, V4_REG_IOP_SEND3} then
        let st = upd_mbox i (\<lambda>s. s\<lparr>iop_send_reg :=
                   blit (addr - V4_REG_IOP_SEND0) (to_le sz data) (iop_send_reg s)\<rparr>) st
        in if addr + sz - 4 = V4_REG_IOP_SEND3
           then apple_a7iop_mailbox_send_iop i (iop_send_reg (st i)) st else st
      else if addr \<in> {V4_REG_AP_SEND0, V4_REG_AP_SEND1, V4_REG_AP_SEND2, V4_REG_AP_SEND3} then
        let st = upd_mbox i (\<lambda>s. s\<lparr>ap_send_reg :=
                   blit (addr - V4_REG_AP_SEND0) (to_le sz data) (ap_send_reg s)\<rparr>) st
        in if addr + sz - 4 = V4_REG_AP_SEND3
           then apple_a7iop_mailbox_send_ap i (ap_send_reg (st i)) st else st
      else st)"


subsection \<open>Version 2\<close>

abbreviation (input) "V2_REG_INT_MASK_SET \<equiv> 0x00 :: hwaddr"
abbreviation (input) "V2_REG_INT_MASK_CLR \<equiv> 0x04 :: hwaddr"
abbreviation (input) "V2_REG_IOP_CTRL \<equiv> 0x08 :: hwaddr"
abbreviation (input) "V2_REG_IOP_SEND0 \<equiv> 0x10 :: hwaddr"
abbreviation (input) "V2_REG_IOP_SEND1 \<equiv> 0x14 :: hwaddr"
abbreviation (input) "V2_REG_IOP_RECV0 \<equiv> 0x18 :: hwaddr"
abbreviation (input) "V2_REG_IOP_RECV1 \<equiv> 0x1c :: hwaddr"
abbreviation (input) "V2_REG_AP_CTRL \<equiv> 0x20 :: hwaddr"
abbreviation (input) "V2_REG_AP_SEND0 \<equiv> 0x30 :: hwaddr"
abbreviation (input) "V2_REG_AP_SEND1 \<equiv> 0x34 :: hwaddr"
abbreviation (input) "V2_REG_AP_RECV0 \<equiv> 0x38 :: hwaddr"
abbreviation (input) "V2_REG_AP_RECV1 \<equiv> 0x3c :: hwaddr"

definition apple_a7iop_v2_mailbox_reg_write :: "mbox_id \<Rightarrow> hwaddr \<Rightarrow> u64 \<Rightarrow> nat \<Rightarrow> mboxes \<Rightarrow> mboxes" where
  "apple_a7iop_v2_mailbox_reg_write i addr data sz st =
     (if addr = V2_REG_INT_MASK_SET then apple_a7iop_mailbox_set_int_mask i (ucast data) st
      else if addr = V2_REG_INT_MASK_CLR then apple_a7iop_mailbox_clear_int_mask i (ucast data) st
      else if addr = V2_REG_IOP_CTRL then apple_a7iop_mailbox_set_iop_ctrl i (ucast data) st
      else if addr = V2_REG_AP_CTRL then apple_a7iop_mailbox_set_ap_ctrl i (ucast data) st
      else if addr \<in> {V2_REG_IOP_SEND0, V2_REG_IOP_SEND1} then
        let st = upd_mbox i (\<lambda>s. s\<lparr>iop_send_reg :=
                   blit (addr - V2_REG_IOP_SEND0) (to_le sz data) (iop_send_reg s)\<rparr>) st
        in if addr + sz - 4 = V2_REG_IOP_SEND1
           then apple_a7iop_mailbox_send_iop i (iop_send_reg (st i)) st else st
      else if addr \<in> {V2_REG_AP_SEND0, V2_REG_AP_SEND1} then
        let st = upd_mbox i (\<lambda>s. s\<lparr>ap_send_reg :=
                   blit (addr - V2_REG_AP_SEND0) (to_le sz data) (ap_send_reg s)\<rparr>) st
        in if addr + sz - 4 = V2_REG_AP_SEND1
           then apple_a7iop_mailbox_send_ap i (ap_send_reg (st i)) st else st
      else st)"

definition apple_a7iop_v2_mailbox_reg_read :: "mbox_id \<Rightarrow> hwaddr \<Rightarrow> nat \<Rightarrow> mboxes \<Rightarrow> u64 \<times> mboxes" where
  "apple_a7iop_v2_mailbox_reg_read i addr sz st =
     (if addr = V2_REG_INT_MASK_SET \<or> addr = V2_REG_INT_MASK_CLR
      then (ucast (apple_a7iop_mailbox_get_int_mask i st), st)
      else if addr = V2_REG_IOP_CTRL then (ucast (apple_a7iop_mailbox_get_iop_ctrl i st), st)
      else if addr = V2_REG_AP_CTRL then (ucast (apple_a7iop_mailbox_get_ap_ctrl i st), st)
      else if addr = V2_REG_IOP_RECV0 then
        let (msg, st) = apple_a7iop_mailbox_recv_iop i st;
            st = upd_mbox i (\<lambda>s. s\<lparr>iop_recv_reg :=
                   (case msg of None \<Rightarrow> replicate 16 0 | Some m \<Rightarrow> m)\<rparr>) st
        in (of_le (bslice (addr - V2_REG_IOP_RECV0) sz (iop_recv_reg (st i))), st)
      else if addr \<in> {V2_REG_IOP_RECV1} then
        (of_le (bslice (addr - V2_REG_IOP_RECV0) sz (iop_recv_reg (st i))), st)
      else if addr = V2_REG_AP_RECV0 then
        let (msg, st) = apple_a7iop_mailbox_recv_ap i st;
            st = upd_mbox i (\<lambda>s. s\<lparr>ap_recv_reg :=
                   (case msg of None \<Rightarrow> replicate 16 0 | Some m \<Rightarrow> m)\<rparr>) st
        in (of_le (bslice (addr - V2_REG_AP_RECV0) sz (ap_recv_reg (st i))), st)
      else if addr \<in> {V2_REG_AP_RECV1} then
        (of_le (bslice (addr - V2_REG_AP_RECV0) sz (ap_recv_reg (st i))), st)
      else (0, st))"

subsection \<open>Properties\<close>


lemma to_le_8: "to_le 8 (d :: u64) = to_le 4 d @ to_le 4 (drop_bit 32 d)"
  using to_le_append [of 4 4 d] by simp

text \<open>
  On the version 4 registers, writing a pair of words of the send
  register with two 4-byte accesses, low word first, does what one 8-byte access does, for both
  pairs; the second pair sends the message.
\<close>

theorem v4_send_width:
  fixes d :: u64
  assumes "length (iop_send_reg (st i)) = 16" "k = 0 \<or> k = 8"
  shows "apple_a7iop_v4_mailbox_reg_write i (V4_REG_IOP_SEND0 + k + 4) (drop_bit 32 d) 4
           (apple_a7iop_v4_mailbox_reg_write i (V4_REG_IOP_SEND0 + k) d 4 st) =
         apple_a7iop_v4_mailbox_reg_write i (V4_REG_IOP_SEND0 + k) d 8 st"
proof -
  have "blit (k + 4) (to_le 4 (drop_bit 32 d)) (blit k (to_le 4 d) (iop_send_reg (st i))) =
      blit k (to_le 8 d) (iop_send_reg (st i))"
    using assms blit_blit [of k "to_le 4 d" "to_le 4 (drop_bit 32 d)" "iop_send_reg (st i)"]
    by (auto simp: to_le_8)
  then show ?thesis using assms(2)
    by (auto simp: apple_a7iop_v4_mailbox_reg_write_def Let_def upd_mbox_def)
qed

theorem v4_send_width_witness:
  "apple_a7iop_v4_mailbox_reg_write AP 0x70C 2 4 (apple_a7iop_v4_mailbox_reg_write AP 0x708 0x200000001 4 mbox_demo) =
   apple_a7iop_v4_mailbox_reg_write AP 0x708 0x200000001 8 mbox_demo"
  using v4_send_width [of mbox_demo AP 8 "0x200000001"] by (simp add: mbox_demo_fields drop_bit_eq_div)



end
