(* ===== verification/A7iop.thy ===== *)
theory A7iop
  imports Mailbox_Regs
begin

text \<open>
  The A7IOP co-processor wrapper, \<open>hw/misc/apple-silicon/a7iop/core.c\<close>, \<open>regs-v4.c\<close> and
  \<open>regs-v2.c\<close>: a mailbox pair, the CPU control and status registers, and the interrupt controller
  registers of version 4. Devices embed \<open>AppleA7IOP\<close> as their first field; here they extend the
  record, and the operations work on every extension. The device's \<open>start\<close> and \<open>wakeup\<close> callbacks
  are arguments.
\<close>

subsection \<open>State\<close>

abbreviation (input) "CPU_STATUS_IDLE \<equiv> 0x1 :: u32"
abbreviation (input) "CPU_CTRL_RUN \<equiv> BIT 4 :: u32"
abbreviation (input) "SEP_BOOT_MONITOR_RUN \<equiv> BIT 16 :: u32"

datatype AppleA7IOPVersion = APPLE_A7IOP_V2 | APPLE_A7IOP_V4

record AppleA7IOP =
  iop_role :: string
  mbox :: mboxes
  cpu_status :: u32
  cpu_ctrl :: u32

text \<open>A missing table and a missing callback are null pointers.\<close>

record 's AppleA7IOPOps =
  start :: "('s \<Rightarrow> 's) option"
  wakeup :: "('s \<Rightarrow> 's) option"

subsection \<open>Messages\<close>

definition apple_a7iop_send_ap :: "message \<Rightarrow> 'x AppleA7IOP_scheme \<Rightarrow> 'x AppleA7IOP_scheme" where
  "apple_a7iop_send_ap msg s = s\<lparr>mbox := apple_a7iop_mailbox_send_ap IOP msg (mbox s)\<rparr>"

definition apple_a7iop_recv_ap :: "'x AppleA7IOP_scheme \<Rightarrow> message option \<times> 'x AppleA7IOP_scheme" where
  "apple_a7iop_recv_ap s = (let (m, b) = apple_a7iop_mailbox_recv_ap IOP (mbox s) in (m, s\<lparr>mbox := b\<rparr>))"

definition apple_a7iop_send_iop :: "message \<Rightarrow> 'x AppleA7IOP_scheme \<Rightarrow> 'x AppleA7IOP_scheme" where
  "apple_a7iop_send_iop msg s = s\<lparr>mbox := apple_a7iop_mailbox_send_iop AP msg (mbox s)\<rparr>"

definition apple_a7iop_recv_iop :: "'x AppleA7IOP_scheme \<Rightarrow> message option \<times> 'x AppleA7IOP_scheme" where
  "apple_a7iop_recv_iop s = (let (m, b) = apple_a7iop_mailbox_recv_iop AP (mbox s) in (m, s\<lparr>mbox := b\<rparr>))"

subsection \<open>CPU control\<close>

definition apple_a7iop_get_cpu_status :: "'x AppleA7IOP_scheme \<Rightarrow> u32" where
  "apple_a7iop_get_cpu_status s = cpu_status s"

definition apple_a7iop_set_cpu_status :: "u32 \<Rightarrow> 'x AppleA7IOP_scheme \<Rightarrow> 'x AppleA7IOP_scheme" where
  "apple_a7iop_set_cpu_status v s = s\<lparr>cpu_status := v\<rparr>"

definition apple_a7iop_get_cpu_ctrl :: "'x AppleA7IOP_scheme \<Rightarrow> u32" where
  "apple_a7iop_get_cpu_ctrl s = cpu_ctrl s"

definition call_op :: "('s \<Rightarrow> 's) option \<Rightarrow> 's \<Rightarrow> 's" where
  "call_op f s = (case f of None \<Rightarrow> s | Some f \<Rightarrow> f s)"

definition apple_a7iop_cpu_start ::
  "'x AppleA7IOP_scheme AppleA7IOPOps option \<Rightarrow> bool \<Rightarrow> 'x AppleA7IOP_scheme \<Rightarrow> 'x AppleA7IOP_scheme" where
  "apple_a7iop_cpu_start ops wake s =
     (if apple_a7iop_get_cpu_ctrl s AND SEP_BOOT_MONITOR_RUN = 0 \<and>
         apple_a7iop_get_cpu_status s AND CPU_STATUS_IDLE = 0 then s
      else let s = apple_a7iop_set_cpu_status (apple_a7iop_get_cpu_status s AND NOT CPU_STATUS_IDLE) s
        in case ops of None \<Rightarrow> s
           | Some ops \<Rightarrow> if wake then call_op (wakeup ops) s else call_op (start ops) s)"

definition apple_a7iop_set_cpu_ctrl ::
  "'x AppleA7IOP_scheme AppleA7IOPOps option \<Rightarrow> u32 \<Rightarrow> 'x AppleA7IOP_scheme \<Rightarrow> 'x AppleA7IOP_scheme" where
  "apple_a7iop_set_cpu_ctrl ops v s =
     (let s = s\<lparr>cpu_ctrl := v\<rparr>
      in if v AND (CPU_CTRL_RUN OR SEP_BOOT_MONITOR_RUN) \<noteq> 0 then apple_a7iop_cpu_start ops False s else s)"

text \<open>
  The names are cut to the 31 characters of the buffer. Only the co-processor's mailbox has a
  message handler.
\<close>

definition apple_a7iop_init :: "string \<Rightarrow> bool \<Rightarrow> AppleA7IOP" where
  "apple_a7iop_init r handler =
     \<lparr>iop_role = r,
      mbox = (\<lambda>i. case i of IOP \<Rightarrow> apple_a7iop_mailbox_new (take 31 (r @ ''-iop'')) handler
                   | AP \<Rightarrow> apple_a7iop_mailbox_new (take 31 (r @ ''-ap'')) False),
      cpu_status = 0, cpu_ctrl = 0\<rparr>"

definition apple_a7iop_reset :: "'x AppleA7IOP_scheme \<Rightarrow> 'x AppleA7IOP_scheme" where
  "apple_a7iop_reset s = s\<lparr>cpu_status := CPU_STATUS_IDLE\<rparr>"

subsection \<open>Registers, version 4\<close>

abbreviation (input) "REG_CPU_CTRL \<equiv> 0x44 :: hwaddr"
abbreviation (input) "REG_CPU_STATUS \<equiv> 0x48 :: hwaddr"
abbreviation (input) "REG_UNKNOWN_4C \<equiv> 0x4C :: hwaddr"
abbreviation (input) "REG_KIC_GLB_CFG \<equiv> 0x80C :: hwaddr"
abbreviation (input) "REG_INTERRUPT_STATUS \<equiv> 0x81C :: hwaddr"
abbreviation (input) "REG_SEP_AKF_DISABLE_INTERRUPT_BASE \<equiv> 0xA00 :: hwaddr"
abbreviation (input) "REG_SEP_AKF_ENABLE_INTERRUPT_BASE \<equiv> 0xA80 :: hwaddr"
abbreviation (input) "REG_KIC_TMR0_EN \<equiv> 0xC00 :: hwaddr"
abbreviation (input) "REG_KIC_TMR1_EN \<equiv> 0xC04 :: hwaddr"
abbreviation (input) "REG_KIC_TMR0_INT_MASK_SET \<equiv> 0xC10 :: hwaddr"
abbreviation (input) "REG_KIC_TMR1_INT_MASK_SET \<equiv> 0xC14 :: hwaddr"
abbreviation (input) "REG_KIC_TMR0_INT_MASK_CLR \<equiv> 0xC18 :: hwaddr"
abbreviation (input) "REG_KIC_TMR1_INT_MASK_CLR \<equiv> 0xC1C :: hwaddr"

definition upd_iop_irq :: "(AppleA7IOPMailbox \<Rightarrow> AppleA7IOPMailbox) \<Rightarrow> 'x AppleA7IOP_scheme \<Rightarrow> 'x AppleA7IOP_scheme" where
  "upd_iop_irq f s = s\<lparr>mbox := apple_a7iop_mailbox_update_irq IOP (upd_mbox IOP f (mbox s))\<rparr>"

definition akf_groups :: "hwaddr \<Rightarrow> hwaddr list" where
  "akf_groups base = [base, base + 0x04, base + 0x08, base + 0x0C]"

definition apple_a7iop_v4_reg_write ::
  "'x AppleA7IOP_scheme AppleA7IOPOps option \<Rightarrow> hwaddr \<Rightarrow> u64 \<Rightarrow> 'x AppleA7IOP_scheme \<Rightarrow> 'x AppleA7IOP_scheme" where
  "apple_a7iop_v4_reg_write ops addr data s =
     (let v = ucast data :: u32
      in if addr = REG_CPU_CTRL then apple_a7iop_set_cpu_ctrl ops v s
         else if addr \<in> set (akf_groups REG_SEP_AKF_DISABLE_INTERRUPT_BASE) then
           let g = (addr - REG_SEP_AKF_DISABLE_INTERRUPT_BASE) div 4
           in upd_iop_irq (\<lambda>b. b\<lparr>interrupts_enabled :=
                (interrupts_enabled b)[g := interrupts_enabled b ! g AND NOT v]\<rparr>) s
         else if addr \<in> set (akf_groups REG_SEP_AKF_ENABLE_INTERRUPT_BASE) then
           let g = (addr - REG_SEP_AKF_ENABLE_INTERRUPT_BASE) div 4
           in upd_iop_irq (\<lambda>b. b\<lparr>interrupts_enabled :=
                (interrupts_enabled b)[g := interrupts_enabled b ! g OR v]\<rparr>) s
         else if addr = REG_KIC_GLB_CFG then upd_iop_irq (\<lambda>b. b\<lparr>glb_cfg := v\<rparr>) s
         else if addr = REG_KIC_TMR0_EN then upd_iop_irq (\<lambda>b. b\<lparr>timer0_enabled := v\<rparr>) s
         else if addr = REG_KIC_TMR1_EN then upd_iop_irq (\<lambda>b. b\<lparr>timer1_enabled := v\<rparr>) s
         else if addr = REG_KIC_TMR0_INT_MASK_SET then
           upd_iop_irq (\<lambda>b. b\<lparr>timer0_masked := timer0_masked b OR v\<rparr>) s
         else if addr = REG_KIC_TMR0_INT_MASK_CLR then
           upd_iop_irq (\<lambda>b. b\<lparr>timer0_masked := timer0_masked b AND NOT v\<rparr>) s
         else if addr = REG_KIC_TMR1_INT_MASK_SET then
           upd_iop_irq (\<lambda>b. b\<lparr>timer1_masked := timer1_masked b OR v\<rparr>) s
         else if addr = REG_KIC_TMR1_INT_MASK_CLR then
           upd_iop_irq (\<lambda>b. b\<lparr>timer1_masked := timer1_masked b AND NOT v\<rparr>) s
         else s)"

definition apple_a7iop_v4_reg_read :: "hwaddr \<Rightarrow> 'x AppleA7IOP_scheme \<Rightarrow> u64 \<times> 'x AppleA7IOP_scheme" where
  "apple_a7iop_v4_reg_read addr s =
     (let b = mbox s IOP
      in if addr = REG_CPU_CTRL then (ucast (apple_a7iop_get_cpu_ctrl s), s)
         else if addr = REG_CPU_STATUS then (ucast (apple_a7iop_get_cpu_status s), s)
         else if addr = REG_UNKNOWN_4C then (1, s)
         else if addr \<in> set (akf_groups REG_SEP_AKF_DISABLE_INTERRUPT_BASE) then
           (ucast (NOT (interrupts_enabled b ! ((addr - REG_SEP_AKF_DISABLE_INTERRUPT_BASE) div 4))), s)
         else if addr \<in> set (akf_groups REG_SEP_AKF_ENABLE_INTERRUPT_BASE) then
           (ucast (NOT (interrupts_enabled b ! ((addr - REG_SEP_AKF_ENABLE_INTERRUPT_BASE) div 4))), s)
         else if addr = REG_KIC_GLB_CFG then (ucast (glb_cfg b), s)
         else if addr = REG_INTERRUPT_STATUS then
           let (r, m) = apple_a7iop_mailbox_read_interrupt_status IOP (mbox s) in (ucast r, s\<lparr>mbox := m\<rparr>)
         else if addr = REG_KIC_TMR0_EN then (ucast (timer0_enabled b), s)
         else if addr = REG_KIC_TMR1_EN then (ucast (timer1_enabled b), s)
         else if addr = REG_KIC_TMR0_INT_MASK_SET \<or> addr = REG_KIC_TMR0_INT_MASK_CLR
         then (ucast (timer0_masked b), s)
         else if addr = REG_KIC_TMR1_INT_MASK_SET \<or> addr = REG_KIC_TMR1_INT_MASK_CLR
         then (ucast (timer1_masked b), s)
         else (0, s))"

subsection \<open>Registers, version 2\<close>

definition apple_a7iop_v2_reg_write ::
  "'x AppleA7IOP_scheme AppleA7IOPOps option \<Rightarrow> hwaddr \<Rightarrow> u64 \<Rightarrow> 'x AppleA7IOP_scheme \<Rightarrow> 'x AppleA7IOP_scheme" where
  "apple_a7iop_v2_reg_write ops addr data s =
     (if addr = REG_CPU_CTRL then apple_a7iop_set_cpu_ctrl ops (ucast data) s
      else if addr = REG_CPU_STATUS then apple_a7iop_set_cpu_status (ucast data) s
      else s)"

definition apple_a7iop_v2_reg_read :: "hwaddr \<Rightarrow> 'x AppleA7IOP_scheme \<Rightarrow> u64" where
  "apple_a7iop_v2_reg_read addr s =
     (if addr = REG_CPU_CTRL then ucast (apple_a7iop_get_cpu_ctrl s)
      else if addr = REG_CPU_STATUS then ucast (apple_a7iop_get_cpu_status s)
      else 0)"

subsection \<open>The two channels of a co-processor\<close>

lemma init_iop_role: "role (mbox (apple_a7iop_init r h) IOP) \<noteq> ''SEP-ap''"
proof
  assume "role (mbox (apple_a7iop_init r h) IOP) = ''SEP-ap''"
  then have e: "take 31 (r @ ''-iop'') = ''SEP-ap''"
    by (simp add: apple_a7iop_init_def apple_a7iop_mailbox_new_def)
  have "length (take 31 (r @ ''-iop'')) = length ''SEP-ap''" by (simp only: e)
  then have "length r = 2" by (simp add: min_def split: if_splits)
  then have "r @ ''-iop'' = ''SEP-ap''" using e by simp
  then have "rev (r @ ''-iop'') = rev ''SEP-ap''" by (rule arg_cong)
  then show False by simp
qed

interpretation a7_iop_chan: fifo_channel apple_a7iop_send_iop apple_a7iop_recv_iop "\<lambda>s. inbox (mbox s IOP)"
    "\<lambda>s. inbox_ok IOP (mbox s) \<and> iop_dir_en (mbox s AP)" "\<lambda>n. stamp_count (of_nat n)"
  by unfold_locales
    (simp_all add: apple_a7iop_send_iop_def apple_a7iop_recv_iop_def apple_a7iop_mailbox_send_iop_def
      apple_a7iop_mailbox_recv_iop_def case_prod_beta fst_recv inbox_ok_send inbox_ok_recv,
      simp_all add: inbox_ok_def)

interpretation a7_ap_chan: fifo_channel apple_a7iop_send_ap apple_a7iop_recv_ap "\<lambda>s. inbox (mbox s AP)"
    "\<lambda>s. inbox_ok AP (mbox s) \<and> ap_dir_en (mbox s IOP)" "\<lambda>n. stamp_count (of_nat n)"
  by unfold_locales
    (simp_all add: apple_a7iop_send_ap_def apple_a7iop_recv_ap_def apple_a7iop_mailbox_send_ap_def
      apple_a7iop_mailbox_recv_ap_def case_prod_beta fst_recv inbox_ok_send inbox_ok_recv,
      simp_all add: inbox_ok_def)

subsection \<open>Interrupt controller ports\<close>

lemma update_irq_kic [simp]:
  "timer0_masked (apple_a7iop_mailbox_update_irq i st j) = timer0_masked (st j)"
  "timer1_masked (apple_a7iop_mailbox_update_irq i st j) = timer1_masked (st j)"
  "timer0_enabled (apple_a7iop_mailbox_update_irq i st j) = timer0_enabled (st j)"
  "timer1_enabled (apple_a7iop_mailbox_update_irq i st j) = timer1_enabled (st j)"
  "glb_cfg (apple_a7iop_mailbox_update_irq i st j) = glb_cfg (st j)"
  by (simp_all add: apple_a7iop_mailbox_update_irq_def update_irq_one_def update_irq_status_lines Let_def
      upd_mbox_apply with_lines_def update_sep_cpu_irq_def)

text \<open>Group \<open>g\<close> of the external interrupts: enabling sets bits, disabling clears them.\<close>

definition akf_ok :: "nat \<Rightarrow> 'x AppleA7IOP_scheme \<Rightarrow> bool" where
  "akf_ok g s \<longleftrightarrow> g < 4 \<and> length (interrupts_enabled (mbox s IOP)) = 4"

lemma akf_addr: "g < 4 \<Longrightarrow> base + 4 * g \<in> set (akf_groups base)"
proof -
  assume "g < 4"
  then have "g = 0 \<or> g = 1 \<or> g = 2 \<or> g = 3" by linarith
  then show ?thesis by (auto simp: akf_groups_def)
qed

lemma akf_write:
  assumes "g < 4"
  shows "apple_a7iop_v4_reg_write ops (REG_SEP_AKF_ENABLE_INTERRUPT_BASE + 4 * g) (ucast (v :: u32)) s =
      upd_iop_irq (\<lambda>b. b\<lparr>interrupts_enabled := (interrupts_enabled b)[g := interrupts_enabled b ! g OR v]\<rparr>) s"
    "apple_a7iop_v4_reg_write ops (REG_SEP_AKF_DISABLE_INTERRUPT_BASE + 4 * g) (ucast v) s =
      upd_iop_irq (\<lambda>b. b\<lparr>interrupts_enabled := (interrupts_enabled b)[g := interrupts_enabled b ! g AND NOT v]\<rparr>) s"
proof -
  have "REG_SEP_AKF_ENABLE_INTERRUPT_BASE + 4 * g \<notin> set (akf_groups REG_SEP_AKF_DISABLE_INTERRUPT_BASE)"
    by (simp add: akf_groups_def)
  then show "apple_a7iop_v4_reg_write ops (REG_SEP_AKF_ENABLE_INTERRUPT_BASE + 4 * g) (ucast v) s =
      upd_iop_irq (\<lambda>b. b\<lparr>interrupts_enabled := (interrupts_enabled b)[g := interrupts_enabled b ! g OR v]\<rparr>) s"
    using akf_addr [OF assms, of REG_SEP_AKF_ENABLE_INTERRUPT_BASE]
    by (simp add: apple_a7iop_v4_reg_write_def Let_def)
  show "apple_a7iop_v4_reg_write ops (REG_SEP_AKF_DISABLE_INTERRUPT_BASE + 4 * g) (ucast v) s =
      upd_iop_irq (\<lambda>b. b\<lparr>interrupts_enabled := (interrupts_enabled b)[g := interrupts_enabled b ! g AND NOT v]\<rparr>) s"
    using akf_addr [OF assms, of REG_SEP_AKF_DISABLE_INTERRUPT_BASE]
    by (simp add: apple_a7iop_v4_reg_write_def Let_def)
qed

interpretation akf_port: mask_register "\<lambda>s. interrupts_enabled (mbox s IOP) ! g"
    "\<lambda>v. apple_a7iop_v4_reg_write ops (REG_SEP_AKF_ENABLE_INTERRUPT_BASE + 4 * g) (ucast v)"
    "\<lambda>v. apple_a7iop_v4_reg_write ops (REG_SEP_AKF_DISABLE_INTERRUPT_BASE + 4 * g) (ucast v)" "akf_ok g" for ops g
  by unfold_locales (simp_all add: akf_ok_def akf_write upd_iop_irq_def)

interpretation timer0_port: mask_register "\<lambda>s. timer0_masked (mbox s IOP)"
    "\<lambda>v. apple_a7iop_v4_reg_write ops REG_KIC_TMR0_INT_MASK_SET (ucast v)"
    "\<lambda>v. apple_a7iop_v4_reg_write ops REG_KIC_TMR0_INT_MASK_CLR (ucast v)" "\<lambda>_. True" for ops
  by unfold_locales (simp_all add: apple_a7iop_v4_reg_write_def akf_groups_def upd_iop_irq_def)

interpretation timer1_port: mask_register "\<lambda>s. timer1_masked (mbox s IOP)"
    "\<lambda>v. apple_a7iop_v4_reg_write ops REG_KIC_TMR1_INT_MASK_SET (ucast v)"
    "\<lambda>v. apple_a7iop_v4_reg_write ops REG_KIC_TMR1_INT_MASK_CLR (ucast v)" "\<lambda>_. True" for ops
  by unfold_locales (simp_all add: apple_a7iop_v4_reg_write_def akf_groups_def upd_iop_irq_def)

subsection \<open>Properties\<close>

text \<open>
  Setting the run bit starts an idle co-processor exactly once: the idle
  bit is cleared before the start callback runs, and setting the bit again changes nothing, as long
  as the callback leaves the CPU registers alone. The Secure Enclave's own run bit is excluded; it
  always starts.
\<close>

theorem a7iop_starts_once:
  fixes f :: "AppleA7IOP \<Rightarrow> AppleA7IOP"
  assumes callback: "\<And>s. cpu_status (f s) = cpu_status s" "\<And>s. cpu_ctrl (f s) = cpu_ctrl s"
    and "start ops = Some f" "bit v 4" "\<not> bit v 16" "bit (cpu_status s) 0"
  defines "s' \<equiv> apple_a7iop_set_cpu_ctrl (Some ops) v s"
  shows "s' = f (s\<lparr>cpu_ctrl := v, cpu_status := cpu_status s AND NOT 1\<rparr>) \<and>
         \<not> bit (cpu_status s') 0 \<and> apple_a7iop_set_cpu_ctrl (Some ops) v s' = s'"
proof -
  have one: "(1 :: u32) = BIT 0" by (simp add: BIT_def)
  have run: "v AND (BIT 4 OR BIT 16) \<noteq> 0"
  proof
    assume "v AND (BIT 4 OR BIT 16) = 0"
    then have "\<not> bit (v AND (BIT 4 OR BIT 16)) 4" by simp
    then show False using assms(4) by (simp add: bit_logic)
  qed
  have s': "s' = f (s\<lparr>cpu_ctrl := v, cpu_status := cpu_status s AND NOT 1\<rparr>)"
    using assms(3,5,6) run
    by (simp add: s'_def apple_a7iop_set_cpu_ctrl_def apple_a7iop_cpu_start_def apple_a7iop_get_cpu_ctrl_def
        apple_a7iop_get_cpu_status_def apple_a7iop_set_cpu_status_def call_op_def one and_BIT_eq_0)
  then have idle: "\<not> bit (cpu_status s') 0" "cpu_ctrl s' = v"
    by (simp_all add: callback one bit_logic)
  then have "s'\<lparr>cpu_ctrl := v\<rparr> = s'" by simp
  then have "apple_a7iop_set_cpu_ctrl (Some ops) v s' = s'"
    using idle assms(5) run
    by (simp add: apple_a7iop_set_cpu_ctrl_def apple_a7iop_cpu_start_def apple_a7iop_get_cpu_ctrl_def
        apple_a7iop_get_cpu_status_def one and_BIT_eq_0)
  then show ?thesis using s' idle by simp
qed

theorem a7iop_starts_once_witness:
  "\<not> bit (cpu_status (apple_a7iop_set_cpu_ctrl (Some \<lparr>start = Some (apple_a7iop_send_ap (replicate 16 0)), wakeup = None\<rparr>)
     16 (apple_a7iop_reset (apple_a7iop_init ''ANS'' True)))) 0"
  using a7iop_starts_once [of "apple_a7iop_send_ap (replicate 16 0)"
      "\<lparr>start = Some (apple_a7iop_send_ap (replicate 16 0)), wakeup = None\<rparr>" 16
      "apple_a7iop_reset (apple_a7iop_init ''ANS'' True)"]
  by (simp add: apple_a7iop_send_ap_def apple_a7iop_reset_def bit_numeral_rec)

text \<open>
  A message sent to the co-processor schedules its handler, raises its
  inbox line unless masked, and is the message the handler receives next when nothing was queued.
\<close>

theorem a7iop_send_iop_delivers:
  fixes m :: message
  assumes "inbox_ok IOP (mbox s)" "inbox (mbox s IOP) = []" "iop_dir_en (mbox s AP)"
    "handle_messages_bh (mbox s IOP)"
  defines "t \<equiv> apple_a7iop_send_iop m s"
  shows "fst (apple_a7iop_recv_iop t) = Some (stamp_count 1 m) \<and> bh_scheduled (mbox t IOP) \<and>
         (irqs (mbox t IOP) ! 0 \<longleftrightarrow> \<not> bit (int_mask (mbox s IOP)) 4)"
proof -
  have "fst (apple_a7iop_recv_iop t) = Some (stamp_count 1 m)"
    using a7_iop_chan.recv_Cons [of t m "[]"] a7_iop_chan.queue_send [of s m] a7_iop_chan.up_send [of s m] assms
    by simp
  moreover have "bh_scheduled (mbox t IOP)"
    using assms(3,4) by (simp add: t_def apple_a7iop_send_iop_def apple_a7iop_mailbox_send_iop_def
        apple_a7iop_mailbox_send_def Let_def)
  moreover have "irqs (mbox t IOP) ! 0 \<longleftrightarrow> \<not> bit (int_mask (mbox s IOP)) 4"
    using assms(1,3,4) by (simp add: t_def apple_a7iop_send_iop_def apple_a7iop_mailbox_send_iop_def
        apple_a7iop_mailbox_send_def Let_def irqs_update_irq mbox_lines_def iop_nonempty_is_unmasked_def
        and_BIT_eq_0 inbox_ok_def)
  ultimately show ?thesis by blast
qed

theorem a7iop_send_iop_delivers_witness:
  "fst (apple_a7iop_recv_iop (apple_a7iop_send_iop (replicate 16 3)
     ((apple_a7iop_init ''SMC'' True)\<lparr>mbox := (mbox_demo(IOP := (mbox_demo IOP)\<lparr>handle_messages_bh := True\<rparr>))\<rparr>))) =
   Some (stamp_count 1 (replicate 16 3))"
  using a7iop_send_iop_delivers [of "(apple_a7iop_init ''SMC'' True)
      \<lparr>mbox := (mbox_demo(IOP := (mbox_demo IOP)\<lparr>handle_messages_bh := True\<rparr>))\<rparr>" "replicate 16 3"]
  by (simp add: mbox_demo_fields inbox_ok_def)

text \<open>
  The enable and disable registers of a group of external interrupts act
  on one word, and both read as the set of disabled interrupts.
\<close>

theorem akf_enable_disable:
  fixes v w :: u32 and s :: "'x AppleA7IOP_scheme" and ops :: "'x AppleA7IOP_scheme AppleA7IOPOps option"
  assumes "g < 4" "length (interrupts_enabled (mbox s IOP)) = 4"
  defines "t \<equiv> apple_a7iop_v4_reg_write ops (REG_SEP_AKF_DISABLE_INTERRUPT_BASE + 4 * g) (ucast w)
     (apple_a7iop_v4_reg_write ops (REG_SEP_AKF_ENABLE_INTERRUPT_BASE + 4 * g) (ucast v) s)"
  shows "interrupts_enabled (mbox t IOP) ! g = (interrupts_enabled (mbox s IOP) ! g OR v) AND NOT w \<and>
     fst (apple_a7iop_v4_reg_read (REG_SEP_AKF_ENABLE_INTERRUPT_BASE + 4 * g) t) =
       ucast (NOT ((interrupts_enabled (mbox s IOP) ! g OR v) AND NOT w))"
proof -
  have ok: "akf_ok g s" using assms(1,2) by (simp add: akf_ok_def)
  have t: "interrupts_enabled (mbox t IOP) ! g = (interrupts_enabled (mbox s IOP) ! g OR v) AND NOT w"
    using ok by (simp only: t_def akf_port.get_clr akf_port.get_set akf_port.wf_set)
  moreover have "REG_SEP_AKF_ENABLE_INTERRUPT_BASE + 4 * g \<notin> set (akf_groups REG_SEP_AKF_DISABLE_INTERRUPT_BASE)"
    by (simp add: akf_groups_def)
  ultimately show ?thesis
    using akf_addr [OF assms(1), of REG_SEP_AKF_ENABLE_INTERRUPT_BASE]
    by (simp add: apple_a7iop_v4_reg_read_def Let_def)
qed

theorem akf_enable_disable_witness:
  "interrupts_enabled (mbox (apple_a7iop_v4_reg_write None 0xA00 4
     (apple_a7iop_v4_reg_write None 0xA80 6 (apple_a7iop_init ''SEP'' True))) IOP) ! 0 = 2"
proof -
  have "interrupts_enabled (mbox (apple_a7iop_init ''SEP'' True) IOP) = replicate 4 0"
    by (simp add: apple_a7iop_init_def apple_a7iop_mailbox_new_def)
  then show ?thesis using akf_enable_disable [of 0 "apple_a7iop_init ''SEP'' True" None 4 6] by simp
qed

end
