(* ===== verification/Rtkit.thy ===== *)
theory Rtkit
  imports A7iop
begin

text \<open>
  The RTKit protocol of a co-processor, \<open>hw/misc/apple-silicon/a7iop/rtkit.c\<close>: the management
  endpoint's handshake (hello, roll call, power) and the dispatch of received messages to endpoint
  handlers. The endpoint table is a hash table of an external library: a map, with the order its
  iterator visits the keys an argument \<open>iter\<close>. The handlers of the devices and their \<open>start\<close>,
  \<open>wakeup\<close> and \<open>boot_done\<close> callbacks are arguments; a registered handler is the management handler of
  this file, a handler of the device named by a value of the device's own type, or null. An
  assertion that fails is a fault.
\<close>

subsection \<open>Constants and state\<close>

abbreviation (input) "EP_MANAGEMENT \<equiv> 0 :: u8"
abbreviation (input) "EP_CRASHLOG \<equiv> 1 :: u8"
abbreviation (input) "EP_USER_START \<equiv> 32 :: nat"
abbreviation (input) "EP0_IDLE \<equiv> 0 :: u8"
abbreviation (input) "EP0_WAIT_HELLO \<equiv> 1 :: u8"
abbreviation (input) "EP0_WAIT_ROLLCALL \<equiv> 2 :: u8"
abbreviation (input) "MSG_HELLO \<equiv> 1 :: u64"
abbreviation (input) "MSG_HELLO_ACK \<equiv> 2 :: u64"
abbreviation (input) "MSG_TYPE_PING \<equiv> 3 :: u64"
abbreviation (input) "MSG_TYPE_PING_ACK \<equiv> 4 :: u64"
abbreviation (input) "MSG_TYPE_REQ_POWER \<equiv> 6 :: u64"
abbreviation (input) "MSG_GET_PSTATE x \<equiv> (x :: u64) AND 0xFFF"
abbreviation (input) "PSTATE_PWRGATE \<equiv> 0x0 :: u64"
abbreviation (input) "PSTATE_SLEEP \<equiv> 0x201 :: u64"
abbreviation (input) "PSTATE_OFF \<equiv> 0x202 :: u64"
abbreviation (input) "PSTATE_ON \<equiv> 0x220 :: u64"
abbreviation (input) "MSG_TYPE_POWER_ACK \<equiv> 7 :: u64"
abbreviation (input) "MSG_TYPE_ROLLCALL \<equiv> 8 :: u64"
abbreviation (input) "MSG_TYPE_AP_POWER \<equiv> 11 :: u64"
abbreviation (input) "RTKIT_MIN_VERSION \<equiv> 3 :: u64"
abbreviation (input) "RTKIT_MAX_VERSION_PRE_IOS14 \<equiv> 10 :: u64"
abbreviation (input) "RTKIT_MAX_VERSION \<equiv> 12 :: u64"

datatype 'h ep_handler = Mgmt | Client 'h

record 'h AppleRTKitEPData =
  handler :: "'h ep_handler option"
  user :: bool

record 's AppleRTKitOps =
  rtk_start :: "('s \<Rightarrow> 's) option"
  rtk_wakeup :: "('s \<Rightarrow> 's) option"
  rtk_boot_done :: "('s \<Rightarrow> 's) option"

record 'h AppleRTKit = AppleA7IOP +
  ep0_status :: u8
  protocol_version :: u32
  endpoints :: "u16 \<rightharpoonup> 'h AppleRTKitEPData"
  rollcall :: "message list"

subsection \<open>Messages\<close>

text \<open>
  \<open>AppleRTKitMessage\<close>: the 64-bit message, the 32-bit endpoint, the 32-bit flags. The fields of
  \<open>AppleRTKitManagementMessage\<close> are bit fields of the message: the type in bits 52 to 55.
\<close>

definition apple_rtkit_construct_msg :: "u8 \<Rightarrow> u64 \<Rightarrow> message" where
  "apple_rtkit_construct_msg ep data = to_le 8 data @ to_le 4 (ucast ep :: u32) @ replicate 4 0"

definition rtk_msg_data :: "message \<Rightarrow> u64" where
  "rtk_msg_data m = of_le (bslice 0 8 m)"

definition rtk_msg_endpoint :: "message \<Rightarrow> u32" where
  "rtk_msg_endpoint m = of_le (bslice 8 4 m)"

definition mgmt_type :: "u64 \<Rightarrow> u64" where
  "mgmt_type raw = extract64 raw 52 4"

definition mgmt_hello :: "u64 \<Rightarrow> u64 \<Rightarrow> u64" where
  "mgmt_hello min_version max_version =
     deposit64 (deposit64 (deposit64 0 52 4 MSG_HELLO) 0 16 min_version) 16 16 max_version"

definition mgmt_power :: "u64 \<Rightarrow> u64 \<Rightarrow> u64" where
  "mgmt_power t state = deposit64 (deposit64 0 52 4 t) 0 32 state"

definition mgmt_ping_ack :: "u64 \<Rightarrow> u64" where
  "mgmt_ping_ack raw =
     deposit64 (deposit64 (deposit64 0 52 4 MSG_TYPE_PING_ACK) 0 32 (extract64 raw 0 32))
       32 16 (extract64 raw 32 16)"

definition mgmt_rollcall_v11 :: "u32 \<Rightarrow> nat \<Rightarrow> bool \<Rightarrow> u64" where
  "mgmt_rollcall_v11 msk block fin =
     deposit64 (deposit64 (deposit64 (deposit64 0 52 4 MSG_TYPE_ROLLCALL) 0 32 (ucast msk))
       32 6 (of_nat block)) 51 1 (if fin then 1 else 0)"

definition apple_rtkit_send_msg :: "u8 \<Rightarrow> u64 \<Rightarrow> ('h, 'x) AppleRTKit_scheme \<Rightarrow> ('h, 'x) AppleRTKit_scheme" where
  "apple_rtkit_send_msg ep data s = apple_a7iop_send_ap (apple_rtkit_construct_msg ep data) s"

definition apple_rtkit_send_control_msg ::
  "u8 \<Rightarrow> u64 \<Rightarrow> ('h, 'x) AppleRTKit_scheme \<Rightarrow> ('h, 'x) AppleRTKit_scheme res" where
  "apple_rtkit_send_control_msg ep data s =
     (if unat ep < EP_USER_START then Inr (apple_rtkit_send_msg ep data s) else Inl AssertFailed)"

definition apple_rtkit_send_user_msg ::
  "u8 \<Rightarrow> u64 \<Rightarrow> ('h, 'x) AppleRTKit_scheme \<Rightarrow> ('h, 'x) AppleRTKit_scheme res" where
  "apple_rtkit_send_user_msg ep data s =
     (if unat ep < 256 - EP_USER_START then Inr (apple_rtkit_send_msg (ep + of_nat EP_USER_START) data s)
      else Inl AssertFailed)"

subsection \<open>Endpoints\<close>

definition apple_rtkit_register_ep ::
  "u8 \<Rightarrow> 'h ep_handler option \<Rightarrow> bool \<Rightarrow> ('h, 'x) AppleRTKit_scheme \<Rightarrow> ('h, 'x) AppleRTKit_scheme res" where
  "apple_rtkit_register_ep ep h u s =
     (if endpoints s (ucast ep) \<noteq> None then Inl AssertFailed
      else Inr (s\<lparr>endpoints := (endpoints s)(ucast ep \<mapsto> \<lparr>handler = h, user = u\<rparr>)\<rparr>))"

definition apple_rtkit_register_control_ep ::
  "u8 \<Rightarrow> 'h ep_handler option \<Rightarrow> ('h, 'x) AppleRTKit_scheme \<Rightarrow> ('h, 'x) AppleRTKit_scheme res" where
  "apple_rtkit_register_control_ep ep h s =
     (if unat ep < EP_USER_START then apple_rtkit_register_ep ep h False s else Inl AssertFailed)"

definition apple_rtkit_register_user_ep ::
  "u8 \<Rightarrow> 'h ep_handler option \<Rightarrow> ('h, 'x) AppleRTKit_scheme \<Rightarrow> ('h, 'x) AppleRTKit_scheme res" where
  "apple_rtkit_register_user_ep ep h s =
     (if unat ep < 256 - EP_USER_START then apple_rtkit_register_ep (ep + of_nat EP_USER_START) h True s
      else Inl AssertFailed)"

definition apple_rtkit_unregister_ep :: "u8 \<Rightarrow> ('h, 'x) AppleRTKit_scheme \<Rightarrow> ('h, 'x) AppleRTKit_scheme" where
  "apple_rtkit_unregister_ep ep s = s\<lparr>endpoints := (endpoints s)(ucast ep := None)\<rparr>"

definition apple_rtkit_unregister_control_ep ::
  "u8 \<Rightarrow> ('h, 'x) AppleRTKit_scheme \<Rightarrow> ('h, 'x) AppleRTKit_scheme res" where
  "apple_rtkit_unregister_control_ep ep s =
     (if unat ep < EP_USER_START then Inr (apple_rtkit_unregister_ep ep s) else Inl AssertFailed)"

definition apple_rtkit_unregister_user_ep ::
  "u8 \<Rightarrow> ('h, 'x) AppleRTKit_scheme \<Rightarrow> ('h, 'x) AppleRTKit_scheme res" where
  "apple_rtkit_unregister_user_ep ep s =
     (if unat ep < 256 - EP_USER_START then Inr (apple_rtkit_unregister_ep (ep + of_nat EP_USER_START) s)
      else Inl AssertFailed)"

subsection \<open>Handshake\<close>

definition apple_rtkit_mgmt_send_hello_msg ::
  "u64 \<Rightarrow> u64 \<Rightarrow> ('h, 'x) AppleRTKit_scheme \<Rightarrow> ('h, 'x) AppleRTKit_scheme" where
  "apple_rtkit_mgmt_send_hello_msg min_version max_version s =
     apple_rtkit_send_msg EP_MANAGEMENT (mgmt_hello min_version max_version) s"

definition apple_rtkit_mgmt_send_hello :: "('h, 'x) AppleRTKit_scheme \<Rightarrow> ('h, 'x) AppleRTKit_scheme" where
  "apple_rtkit_mgmt_send_hello s =
     (apple_rtkit_mgmt_send_hello_msg RTKIT_MIN_VERSION RTKIT_MAX_VERSION s)\<lparr>ep0_status := EP0_WAIT_HELLO\<rparr>"

text \<open>The 52-bit mask keeps what fits; \<open>BIT_ULL\<close> of a key from 64 on is an undefined shift.\<close>

definition apple_rtkit_mgmt_rollcall_v10 ::
  "u16 list \<Rightarrow> ('h, 'x) AppleRTKit_scheme \<Rightarrow> ('h, 'x) AppleRTKit_scheme res" where
  "apple_rtkit_mgmt_rollcall_v10 keys s =
     (if list_ex (\<lambda>k. unat k \<ge> 64) keys then Inl UndefinedShift
      else Inr (apple_rtkit_send_msg EP_MANAGEMENT
        (fold (\<lambda>k raw. deposit64 raw 0 52 (extract64 raw 0 52 OR BIT (unat k))) keys
          (deposit64 0 52 4 MSG_TYPE_ROLLCALL)) s))"

definition rollcall_step :: "u16 \<Rightarrow> message list \<times> u32 \<times> nat \<Rightarrow> message list \<times> u32 \<times> nat" where
  "rollcall_step k = (\<lambda>(q, mask, last_block).
     let ep = unat k;
         (q, mask) = (if ep div EP_USER_START \<noteq> last_block \<and> mask \<noteq> 0
            then (q @ [apple_rtkit_construct_msg EP_MANAGEMENT (mgmt_rollcall_v11 mask last_block False)], 0)
            else (q, mask))
     in (q, mask OR BIT (ep mod EP_USER_START), ep div EP_USER_START))"

definition rollcall_msgs :: "u16 list \<Rightarrow> message list" where
  "rollcall_msgs keys =
     (let (q, mask, last_block) = fold rollcall_step keys ([], 0, 0)
      in q @ [apple_rtkit_construct_msg EP_MANAGEMENT (mgmt_rollcall_v11 mask last_block True)])"

definition apple_rtkit_mgmt_rollcall_v11 ::
  "u16 list \<Rightarrow> ('h, 'x) AppleRTKit_scheme \<Rightarrow> ('h, 'x) AppleRTKit_scheme res" where
  "apple_rtkit_mgmt_rollcall_v11 keys s =
     (if rollcall s \<noteq> [] then Inl AssertFailed
      else let q = rollcall_msgs keys
        in Inr (apple_a7iop_send_ap (hd q) (s\<lparr>rollcall := tl q\<rparr>)))"

definition apple_rtkit_iop_start ::
  "('h, 'x) AppleRTKit_scheme AppleRTKitOps option \<Rightarrow> ('h, 'x) AppleRTKit_scheme \<Rightarrow> ('h, 'x) AppleRTKit_scheme" where
  "apple_rtkit_iop_start ops s =
     apple_rtkit_mgmt_send_hello (case ops of None \<Rightarrow> s | Some ops \<Rightarrow> call_op (rtk_start ops) s)"

definition apple_rtkit_iop_wakeup ::
  "('h, 'x) AppleRTKit_scheme AppleRTKitOps option \<Rightarrow> ('h, 'x) AppleRTKit_scheme \<Rightarrow> ('h, 'x) AppleRTKit_scheme" where
  "apple_rtkit_iop_wakeup ops s =
     apple_rtkit_mgmt_send_hello (case ops of None \<Rightarrow> s | Some ops \<Rightarrow> call_op (rtk_wakeup ops) s)"

definition apple_rtkit_iop_ops ::
  "('h, 'x) AppleRTKit_scheme AppleRTKitOps option \<Rightarrow> ('h, 'x) AppleRTKit_scheme AppleA7IOPOps" where
  "apple_rtkit_iop_ops ops =
     \<lparr>start = Some (apple_rtkit_iop_start ops), wakeup = Some (apple_rtkit_iop_wakeup ops)\<rparr>"

definition mgmt_hello_ack ::
  "((u16 \<rightharpoonup> 'h AppleRTKitEPData) \<Rightarrow> u16 list) \<Rightarrow> u64 \<Rightarrow> ('h, 'x) AppleRTKit_scheme \<Rightarrow> ('h, 'x) AppleRTKit_scheme res" where
  "mgmt_hello_ack iter msg s =
     (if ep0_status s \<noteq> EP0_WAIT_HELLO then Inl AssertFailed
      else if extract64 msg 0 16 = 0xFFFF \<and> extract64 msg 16 16 = 0xBAD
      then Inr (apple_rtkit_mgmt_send_hello_msg RTKIT_MIN_VERSION RTKIT_MAX_VERSION_PRE_IOS14 s)
      else let s = s\<lparr>protocol_version := ucast (extract64 msg 16 16)\<rparr>
        in rbind (if protocol_version s \<le> 10 then apple_rtkit_mgmt_rollcall_v10 (iter (endpoints s)) s
                  else apple_rtkit_mgmt_rollcall_v11 (iter (endpoints s)) s)
             (\<lambda>s. Inr (s\<lparr>ep0_status := EP0_WAIT_ROLLCALL\<rparr>)))"

definition mgmt_req_power ::
  "('h, 'x) AppleRTKit_scheme AppleRTKitOps option \<Rightarrow> u8 \<Rightarrow> u64 \<Rightarrow> ('h, 'x) AppleRTKit_scheme \<Rightarrow>
   ('h, 'x) AppleRTKit_scheme" where
  "mgmt_req_power ops ep msg s =
     (let p = MSG_GET_PSTATE msg
      in if p = PSTATE_ON then apple_a7iop_cpu_start (Some (apple_rtkit_iop_ops ops)) True s
         else if p = PSTATE_SLEEP \<or> p = PSTATE_OFF \<or> p = PSTATE_PWRGATE then
           apple_rtkit_send_msg ep (mgmt_power MSG_TYPE_POWER_ACK p)
             (apple_a7iop_set_cpu_status (apple_a7iop_get_cpu_status s OR CPU_STATUS_IDLE) s)
         else s)"

definition mgmt_rollcall_ack ::
  "('h, 'x) AppleRTKit_scheme AppleRTKitOps option \<Rightarrow> u8 \<Rightarrow> ('h, 'x) AppleRTKit_scheme \<Rightarrow>
   ('h, 'x) AppleRTKit_scheme res" where
  "mgmt_rollcall_ack ops ep s =
     (if ep0_status s \<noteq> EP0_WAIT_ROLLCALL then Inl AssertFailed
      else case rollcall s of
        [] \<Rightarrow> let s = apple_rtkit_send_msg ep (mgmt_power MSG_TYPE_POWER_ACK 32) (s\<lparr>ep0_status := EP0_IDLE\<rparr>)
           in Inr (case ops of None \<Rightarrow> s | Some ops \<Rightarrow> call_op (rtk_boot_done ops) s)
      | m2 # rest \<Rightarrow> Inr (apple_a7iop_send_ap m2 (s\<lparr>rollcall := rest\<rparr>)))"

definition apple_rtkit_mgmt_handle_msg ::
  "((u16 \<rightharpoonup> 'h AppleRTKitEPData) \<Rightarrow> u16 list) \<Rightarrow> ('h, 'x) AppleRTKit_scheme AppleRTKitOps option \<Rightarrow> u8 \<Rightarrow> u64 \<Rightarrow>
   ('h, 'x) AppleRTKit_scheme \<Rightarrow> ('h, 'x) AppleRTKit_scheme res" where
  "apple_rtkit_mgmt_handle_msg iter ops ep msg s =
     (let t = mgmt_type msg
      in if t = MSG_HELLO_ACK then mgmt_hello_ack iter msg s
         else if t = MSG_TYPE_PING then Inr (apple_rtkit_send_msg ep (mgmt_ping_ack msg) s)
         else if t = MSG_TYPE_AP_POWER
         then Inr (apple_rtkit_send_msg ep (mgmt_power MSG_TYPE_AP_POWER (extract64 msg 0 32)) s)
         else if t = MSG_TYPE_REQ_POWER then Inr (mgmt_req_power ops ep msg s)
         else if t = MSG_TYPE_ROLLCALL then mgmt_rollcall_ack ops ep s
         else Inr s)"

subsection \<open>Dispatch\<close>

text \<open>
  One message: its endpoint, cut to the 16 bits of the table's key, selects the handler; the handler
  gets the low 8 bits, counted from the first user endpoint for a user endpoint.
\<close>

definition rtkit_dispatch ::
  "((u16 \<rightharpoonup> 'h AppleRTKitEPData) \<Rightarrow> u16 list) \<Rightarrow> ('h, 'x) AppleRTKit_scheme AppleRTKitOps option \<Rightarrow>
   ('h \<Rightarrow> u8 \<Rightarrow> u64 \<Rightarrow> ('h, 'x) AppleRTKit_scheme \<Rightarrow> ('h, 'x) AppleRTKit_scheme res) \<Rightarrow> message \<Rightarrow>
   ('h, 'x) AppleRTKit_scheme \<Rightarrow> ('h, 'x) AppleRTKit_scheme res" where
  "rtkit_dispatch iter ops call m s =
     (let e = rtk_msg_endpoint m
      in case endpoints s (ucast e) of
           None \<Rightarrow> Inr s
         | Some d \<Rightarrow> case handler d of
             None \<Rightarrow> Inr s
           | Some h \<Rightarrow>
               let ep = (if user d then ucast (e - of_nat EP_USER_START) else ucast e)
               in case h of Mgmt \<Rightarrow> apple_rtkit_mgmt_handle_msg iter ops ep (rtk_msg_data m) s
                  | Client c \<Rightarrow> call c ep (rtk_msg_data m) s)"

partial_function (option) apple_rtkit_handle_messages_bh ::
  "((u16 \<rightharpoonup> 'h AppleRTKitEPData) \<Rightarrow> u16 list) \<Rightarrow> ('h, 'x) AppleRTKit_scheme AppleRTKitOps option \<Rightarrow>
   ('h \<Rightarrow> u8 \<Rightarrow> u64 \<Rightarrow> ('h, 'x) AppleRTKit_scheme \<Rightarrow> ('h, 'x) AppleRTKit_scheme res) \<Rightarrow>
   ('h, 'x) AppleRTKit_scheme \<Rightarrow> ('h, 'x) AppleRTKit_scheme res option" where
  "apple_rtkit_handle_messages_bh iter ops call s =
     (if apple_a7iop_mailbox_is_empty IOP (mbox s) then Some (Inr s)
      else let r = apple_a7iop_recv_iop s
        in if fst r = None then Some (Inl NullDeref)
           else let d = rtkit_dispatch iter ops call (the (fst r)) (snd r)
             in if isl d then Some d else apple_rtkit_handle_messages_bh iter ops call (projr d))"

subsection \<open>Creation and reset\<close>

definition apple_rtkit_init :: "string \<Rightarrow> 'h AppleRTKit res" where
  "apple_rtkit_init r =
     (let a = apple_a7iop_init r True;
          s = \<lparr>iop_role = iop_role a, mbox = mbox a, cpu_status = cpu_status a, cpu_ctrl = cpu_ctrl a,
               ep0_status = 0, protocol_version = 0, endpoints = Map.empty, rollcall = []\<rparr>
      in rbind (apple_rtkit_register_control_ep EP_MANAGEMENT (Some Mgmt) s)
           (apple_rtkit_register_control_ep EP_CRASHLOG None))"

definition apple_rtkit_reset_hold :: "('h, 'x) AppleRTKit_scheme \<Rightarrow> ('h, 'x) AppleRTKit_scheme" where
  "apple_rtkit_reset_hold s =
     (apple_a7iop_reset s)\<lparr>ep0_status := EP0_IDLE, protocol_version := 0, rollcall := []\<rparr>"

subsection \<open>Message codec\<close>

lemma length_construct_msg [simp]: "length (apple_rtkit_construct_msg ep d) = 16"
  by (simp add: apple_rtkit_construct_msg_def)

lemma rtk_msg_construct [simp]:
  "rtk_msg_data (apple_rtkit_construct_msg ep d) = d"
  "rtk_msg_endpoint (apple_rtkit_construct_msg ep d) = ucast ep"
  by (simp_all add: rtk_msg_data_def rtk_msg_endpoint_def apple_rtkit_construct_msg_def bslice_def)

lemma rtk_msg_stamp [simp]:
  assumes "length m = 16"
  shows "rtk_msg_data (stamp_count c m) = rtk_msg_data m" "rtk_msg_endpoint (stamp_count c m) = rtk_msg_endpoint m"
  using assms by (simp_all add: rtk_msg_data_def rtk_msg_endpoint_def stamp_count_def bslice_blit_other)

lemma bit_rollcall_v11:
  "bit (mgmt_rollcall_v11 m b f) i \<longleftrightarrow>
     i < 32 \<and> bit m i \<or> 32 \<le> i \<and> i < 38 \<and> bit b (i - 32) \<or> i = 51 \<and> f \<or> i = 55"
proof -
  have e: "(8 :: u64) = BIT 3" by (simp add: BIT_def)
  show ?thesis unfolding mgmt_rollcall_v11_def e
    by (auto simp: bit_deposit64 bit_ucast_iff bit_of_nat_iff bit_1_iff dest: bit_imp_le_length)
qed

subsection \<open>Roll call\<close>

text \<open>The endpoints a roll call message announces, and whether it is the last one.\<close>

definition announced :: "message \<Rightarrow> nat set" where
  "announced m = {32 * unat (extract64 (rtk_msg_data m) 32 6) + i | i. i < 32 \<and> bit (rtk_msg_data m) i}"

definition is_end :: "message \<Rightarrow> bool" where
  "is_end m = bit (rtk_msg_data m) 51"

definition block_eps :: "nat \<Rightarrow> u32 \<Rightarrow> nat set" where
  "block_eps b msk = {32 * b + i | i. bit msk i}"

lemma block_eps_0 [simp]: "block_eps b 0 = {}"
  by (simp add: block_eps_def)

lemma block_eps_or: "ep mod 32 = i \<Longrightarrow> ep div 32 = b \<Longrightarrow> block_eps b (msk OR BIT i) = insert ep (block_eps b msk)"
proof -
  assume "ep mod 32 = i" "ep div 32 = b"
  then have "ep = 32 * b + i" "i < 32" by (auto simp: mult_div_mod_eq)
  then show ?thesis by (auto simp: block_eps_def bit_or_iff)
qed

lemma block_eps_BIT: "block_eps (ep div 32) (BIT (ep mod 32)) = {ep}"
  using block_eps_or [of ep "ep mod 32" "ep div 32" 0] by simp

lemma rollcall_block: "b < 64 \<Longrightarrow> unat (extract64 (mgmt_rollcall_v11 m b f) 32 6) = b"
proof -
  assume b: "b < 64"
  then have "take_bit 6 b = b" by (simp add: take_bit_eq_mod)
  then have hi: "bit b k \<Longrightarrow> k < 6" for k by (metis bit_take_bit_iff)
  have "extract64 (mgmt_rollcall_v11 m b f) 32 6 = of_nat b"
    by (rule bit_word_eqI) (auto simp: bit_rollcall_v11 bit_of_nat_iff dest: hi)
  then show ?thesis using b by (simp add: unat_of_nat)
qed

lemma announced_construct:
  "b < 64 \<Longrightarrow> announced (apple_rtkit_construct_msg ep (mgmt_rollcall_v11 m b f)) = block_eps b m"
  using bit_imp_le_length [of m] by (fastforce simp: announced_def block_eps_def rollcall_block bit_rollcall_v11)

lemma is_end_construct [simp]: "is_end (apple_rtkit_construct_msg ep (mgmt_rollcall_v11 m b f)) = f"
  by (simp add: is_end_def bit_rollcall_v11)

text \<open>What has been collected so far: the queued messages and the block that is being filled.\<close>

definition collected :: "message list \<times> u32 \<times> nat \<Rightarrow> nat set" where
  "collected = (\<lambda>(q, msk, b). (\<Union>m \<in> set q. announced m) \<union> block_eps b msk)"

definition rollcall_ok :: "message list \<times> u32 \<times> nat \<Rightarrow> bool" where
  "rollcall_ok = (\<lambda>(q, msk, b). b < 64 \<and> (\<forall>m \<in> set q. \<not> is_end m \<and> length m = 16))"

lemma rollcall_step_inv:
  assumes "unat k < 256" "rollcall_ok st"
  shows "rollcall_ok (rollcall_step k st) \<and> collected (rollcall_step k st) = insert (unat k) (collected st)"
proof -
  obtain q msk b where st: "st = (q, msk, b)" by (cases st)
  have "unat k div 32 < 64" using assms(1) by linarith
  then show ?thesis using assms(2)
    by (auto simp: st rollcall_step_def rollcall_ok_def collected_def Let_def announced_construct block_eps_or
        block_eps_BIT)
qed

lemma rollcall_fold_inv:
  "\<forall>k \<in> set keys. unat k < 256 \<Longrightarrow> rollcall_ok st \<Longrightarrow>
   rollcall_ok (fold rollcall_step keys st) \<and>
   collected (fold rollcall_step keys st) = unat ` set keys \<union> collected st"
  by (induction keys arbitrary: st) (auto simp: rollcall_step_inv)

lemma rollcall_msgs_correct:
  assumes "\<forall>k \<in> set keys. unat k < 256"
  shows "(\<Union>m \<in> set (rollcall_msgs keys). announced m) = unat ` set keys \<and>
         \<not> list_ex is_end (butlast (rollcall_msgs keys)) \<and> is_end (last (rollcall_msgs keys)) \<and>
         (\<forall>m \<in> set (rollcall_msgs keys). length m = 16)"
proof -
  obtain q msk b where f: "fold rollcall_step keys ([], 0, 0) = (q, msk, b)" by (cases "fold rollcall_step keys ([], 0, 0)")
  have "rollcall_ok (q, msk, b) \<and> collected (q, msk, b) = unat ` set keys \<union> collected ([], 0, 0)"
    using rollcall_fold_inv [OF assms, of "([], 0, 0)"] by (simp add: f rollcall_ok_def)
  then show ?thesis
    by (auto simp: rollcall_msgs_def f rollcall_ok_def collected_def announced_construct list_ex_iff)
qed

subsection \<open>Runs of the management endpoint\<close>

fun mgmt_run ::
  "((u16 \<rightharpoonup> 'h AppleRTKitEPData) \<Rightarrow> u16 list) \<Rightarrow> ('h, 'x) AppleRTKit_scheme AppleRTKitOps option \<Rightarrow> u64 list \<Rightarrow>
   ('h, 'x) AppleRTKit_scheme \<Rightarrow> ('h, 'x) AppleRTKit_scheme res" where
  "mgmt_run iter ops [] s = Inr s"
| "mgmt_run iter ops (m # ms) s =
     rbind (apple_rtkit_mgmt_handle_msg iter ops EP_MANAGEMENT m s) (mgmt_run iter ops ms)"

lemma mgmt_run_append: "mgmt_run iter ops (xs @ ys) s = rbind (mgmt_run iter ops xs s) (mgmt_run iter ops ys)"
  by (induction xs arbitrary: s) (auto simp: rbind_def split: sum.split)

lemma send_ap_mbox:
  assumes "ap_dir_en (mbox s IOP)"
  shows "inbox (mbox (apple_a7iop_send_ap m s) AP) = inbox (mbox s AP) @ [m]"
    "ap_dir_en (mbox (apple_a7iop_send_ap m s) IOP)"
  using assms by (simp_all add: apple_a7iop_send_ap_def apple_a7iop_mailbox_send_ap_def)

lemma send_ap_fields [simp]:
  fixes s :: "('h, 'x) AppleRTKit_scheme"
  shows "ep0_status (apple_a7iop_send_ap m s) = ep0_status s" "rollcall (apple_a7iop_send_ap m s) = rollcall s"
    "endpoints (apple_a7iop_send_ap m s) = endpoints s" "cpu_status (apple_a7iop_send_ap m s) = cpu_status s"
    "cpu_ctrl (apple_a7iop_send_ap m s) = cpu_ctrl s"
    "inbox (mbox (apple_a7iop_send_ap m s) IOP) = inbox (mbox s IOP)"
    "underflow (mbox (apple_a7iop_send_ap m s) i) = underflow (mbox s i)"
    "iop_dir_en (mbox (apple_a7iop_send_ap m s) i) = iop_dir_en (mbox s i)"
  by (simp_all add: apple_a7iop_send_ap_def apple_a7iop_mailbox_send_ap_def)

lemma mgmt_rollcalls:
  "ep0_status s = EP0_WAIT_ROLLCALL \<Longrightarrow> ap_dir_en (mbox s IOP) \<Longrightarrow>
   list_all (\<lambda>m. mgmt_type m = MSG_TYPE_ROLLCALL) rc \<Longrightarrow> length rc = length (rollcall s) \<Longrightarrow>
   \<exists>t. mgmt_run iter ops rc s = Inr t \<and> rollcall t = [] \<and> ep0_status t = EP0_WAIT_ROLLCALL \<and>
       ap_dir_en (mbox t IOP) \<and> inbox (mbox t AP) = inbox (mbox s AP) @ rollcall s"
proof (induction rc arbitrary: s)
  case (Cons m rc)
  then obtain m2 rest where r: "rollcall s = m2 # rest" by (cases "rollcall s") auto
  define s1 where "s1 = apple_a7iop_send_ap m2 (s\<lparr>rollcall := rest\<rparr>)"
  have step: "apple_rtkit_mgmt_handle_msg iter ops EP_MANAGEMENT m s = Inr s1"
    using Cons.prems r by (simp add: apple_rtkit_mgmt_handle_msg_def mgmt_rollcall_ack_def s1_def)
  have "inbox (mbox s1 AP) = inbox (mbox s AP) @ [m2]" "ap_dir_en (mbox s1 IOP)"
    using send_ap_mbox [of "s\<lparr>rollcall := rest\<rparr>" m2] Cons.prems(2) by (simp_all add: s1_def)
  then show ?case using Cons.IH [of s1] Cons.prems r step by (simp add: s1_def)
qed simp

definition boot_done :: "'s AppleRTKitOps option \<Rightarrow> 's \<Rightarrow> 's" where
  "boot_done ops s = (case ops of None \<Rightarrow> s | Some ops \<Rightarrow> call_op (rtk_boot_done ops) s)"

lemma rollcall_msgs_not_Nil [simp]: "rollcall_msgs keys \<noteq> []"
  by (simp add: rollcall_msgs_def split: prod.split)

lemma protocol_version_gt_10: "10 < extract64 ack 16 16 \<Longrightarrow> \<not> (ucast (extract64 ack 16 16) :: u32) \<le> 10"
proof -
  let ?w = "extract64 ack 16 16" and ?v = "ucast (extract64 ack 16 16) :: u32"
  have "?w = take_bit 16 ?w" by (rule bit_word_eqI) (auto simp: bit_take_bit_iff)
  then have "unat ?w = take_bit 16 (unat ?w)" by (metis unsigned_take_bit_eq)
  then have "unat ?w < 2 ^ 32" using take_bit_nat_less_exp [of 16 "unat ?w"] by simp
  then have "unat ?v = unat ?w" by (simp add: unsigned_ucast_eq take_bit_nat_eq_self)
  then show "10 < ?w \<Longrightarrow> \<not> ?v \<le> 10" by (simp add: word_le_nat_alt word_less_nat_alt)
qed

lemma hello_ack_v11:
  fixes s :: "('h, 'x) AppleRTKit_scheme"
  assumes "ep0_status s = EP0_WAIT_HELLO" "rollcall s = []" "ap_dir_en (mbox s IOP)"
    and "mgmt_type ack = MSG_HELLO_ACK" "10 < extract64 ack 16 16"
    and "\<not> (extract64 ack 0 16 = 0xFFFF \<and> extract64 ack 16 16 = 0xBAD)"
  shows "\<exists>t. apple_rtkit_mgmt_handle_msg iter ops ep ack s = Inr t \<and> ep0_status t = EP0_WAIT_ROLLCALL \<and>
      rollcall t = tl (rollcall_msgs (iter (endpoints s))) \<and> ap_dir_en (mbox t IOP) \<and>
      inbox (mbox t AP) = inbox (mbox s AP) @ [hd (rollcall_msgs (iter (endpoints s)))] \<and>
      cpu_status t = cpu_status s \<and> cpu_ctrl t = cpu_ctrl s \<and> endpoints t = endpoints s"
proof -
  let ?v = "ucast (extract64 ack 16 16) :: u32"
  have "\<not> ?v \<le> 10" using assms(5) by (rule protocol_version_gt_10)
  then show ?thesis
    using assms send_ap_mbox [of "s\<lparr>protocol_version := ?v, rollcall := tl (rollcall_msgs (iter (endpoints s)))\<rparr>"]
    by (auto simp: apple_rtkit_mgmt_handle_msg_def mgmt_hello_ack_def Let_def apple_rtkit_mgmt_rollcall_v11_def)
qed

subsection \<open>Properties\<close>

text \<open>
  Property C6 (liveness). Once the application processor has acknowledged the hello with a protocol
  version above 10, the roll call completes: after one acknowledgement per message the co-processor
  is idle again, has run the boot callback, and has sent roll call messages that together announce
  exactly the registered endpoints, whatever order the table's iterator uses; only the last one
  carries the end mark.
\<close>

theorem rtkit_handshake:
  fixes s :: "('h, 'x) AppleRTKit_scheme"
  assumes iterator: "set (iter (endpoints s)) = dom (endpoints s)"
    and "\<forall>k \<in> dom (endpoints s). unat k < 256"
    and "ep0_status s = EP0_WAIT_HELLO" "rollcall s = []" "ap_dir_en (mbox s IOP)"
    and "mgmt_type ack = MSG_HELLO_ACK" "10 < extract64 ack 16 16"
    and "\<not> (extract64 ack 0 16 = 0xFFFF \<and> extract64 ack 16 16 = 0xBAD)"
    and "list_all (\<lambda>m. mgmt_type m = MSG_TYPE_ROLLCALL) rc"
    and "length rc = length (rollcall_msgs (iter (endpoints s)))"
  shows "\<exists>t ms. mgmt_run iter ops (ack # rc) s = Inr (boot_done ops t) \<and> ep0_status t = EP0_IDLE \<and> rollcall t = [] \<and>
      inbox (mbox t AP) = inbox (mbox s AP) @ ms @ [apple_rtkit_construct_msg 0 (mgmt_power MSG_TYPE_POWER_ACK 32)] \<and>
      (\<Union>m \<in> set ms. announced m) = unat ` dom (endpoints s) \<and>
      \<not> list_ex is_end (butlast ms) \<and> is_end (last ms)"
proof -
  let ?q = "rollcall_msgs (iter (endpoints s))"
  obtain s1 where s1: "apple_rtkit_mgmt_handle_msg iter ops EP_MANAGEMENT ack s = Inr s1"
    "ep0_status s1 = EP0_WAIT_ROLLCALL" "rollcall s1 = tl ?q" "ap_dir_en (mbox s1 IOP)"
    "inbox (mbox s1 AP) = inbox (mbox s AP) @ [hd ?q]"
    using hello_ack_v11 [OF assms(3-8)] by blast
  obtain rc1 l where rc: "rc = rc1 @ [l]" using assms(10) by (cases rc rule: rev_cases) auto
  have "length rc1 = length (rollcall s1)" using assms(10) rc s1(3) by simp
  moreover have "list_all (\<lambda>m. mgmt_type m = MSG_TYPE_ROLLCALL) rc1" using assms(9) rc by simp
  ultimately obtain s2 where s2: "mgmt_run iter ops rc1 s1 = Inr s2" "rollcall s2 = []"
    "ep0_status s2 = EP0_WAIT_ROLLCALL" "ap_dir_en (mbox s2 IOP)"
    "inbox (mbox s2 AP) = inbox (mbox s AP) @ ?q"
    using mgmt_rollcalls [of s1 rc1 iter ops] s1 by auto
  define t where "t = apple_rtkit_send_msg EP_MANAGEMENT (mgmt_power MSG_TYPE_POWER_ACK 32) (s2\<lparr>ep0_status := EP0_IDLE\<rparr>)"
  have "apple_rtkit_mgmt_handle_msg iter ops EP_MANAGEMENT l s2 = Inr (boot_done ops t)"
    using assms(9) s2 rc
    by (simp add: apple_rtkit_mgmt_handle_msg_def mgmt_rollcall_ack_def boot_done_def t_def Let_def)
  then have "mgmt_run iter ops (ack # rc) s = Inr (boot_done ops t)"
    by (simp add: s1 rc mgmt_run_append s2)
  moreover have "ep0_status t = EP0_IDLE" "rollcall t = []"
    "inbox (mbox t AP) = (inbox (mbox s AP) @ ?q) @ [apple_rtkit_construct_msg 0 (mgmt_power MSG_TYPE_POWER_ACK 32)]"
    using s2 send_ap_mbox(1) [of "s2\<lparr>ep0_status := EP0_IDLE\<rparr>"] by (simp_all add: t_def apple_rtkit_send_msg_def)
  moreover have "\<forall>k \<in> set (iter (endpoints s)). unat k < 256" using assms(1,2) by simp
  note rollcall_msgs_correct [OF this]
  ultimately show ?thesis using iterator by (intro exI [of _ t] exI [of _ ?q]) simp
qed

definition rtk_demo :: "nat AppleRTKit" where
  "rtk_demo = \<lparr>iop_role = ''SMC'', mbox = mbox_demo, cpu_status = 0, cpu_ctrl = 0, ep0_status = 1,
     protocol_version = 0,
     endpoints = [0 \<mapsto> \<lparr>handler = Some Mgmt, user = False\<rparr>, 1 \<mapsto> \<lparr>handler = None, user = False\<rparr>,
                  32 \<mapsto> \<lparr>handler = Some (Client 7), user = True\<rparr>],
     rollcall = []\<rparr>"

lemma rtk_demo_fields:
  "ep0_status rtk_demo = 1" "rollcall rtk_demo = []" "mbox rtk_demo = mbox_demo" "cpu_status rtk_demo = 0"
  "dom (endpoints rtk_demo) = {0, 1, 32}" "cpu_ctrl rtk_demo = 0"
  by (auto simp: rtk_demo_def)

lemma rtk_demo_rollcall: "length (rollcall_msgs [0, 1, 32]) = 2"
  by (simp add: rollcall_msgs_def rollcall_step_def BIT_def)

theorem rtkit_handshake_witness:
  "\<exists>t. mgmt_run (\<lambda>_. [0, 1, 32]) None [0x00200000000C0003, 0x0080000000000000, 0x0080000000000000] rtk_demo = Inr t \<and>
     ep0_status t = EP0_IDLE \<and> rollcall t = []"
proof -
  have "mgmt_type 0x00200000000C0003 = 2" "extract64 0x00200000000C0003 16 16 = 12"
    "mgmt_type 0x0080000000000000 = 8"
    by (simp_all add: mgmt_type_def extract64_def mask_eq_exp_minus_1)
  then show ?thesis
    using rtkit_handshake [of "\<lambda>_. [0, 1, 32]" rtk_demo "0x00200000000C0003" "[0x0080000000000000, 0x0080000000000000]" None]
    by (auto simp: rtk_demo_fields mbox_demo_fields rtk_demo_rollcall boot_done_def)
qed

text \<open>
  The roll call can be made to fail its assertion by the guest: with a roll
  call of more than one message, a request to sleep and a request to power on between the hello
  acknowledgement and the end of the roll call restart the handshake with messages still queued.
\<close>

theorem rtkit_rollcall_assert_reachable:
  fixes s :: "('h, 'x) AppleRTKit_scheme"
  assumes "1 < length (rollcall_msgs (iter (endpoints s)))"
    and "ep0_status s = EP0_WAIT_HELLO" "rollcall s = []" "ap_dir_en (mbox s IOP)"
    and "mgmt_type ack = MSG_HELLO_ACK" "10 < extract64 ack 16 16"
    and "\<not> (extract64 ack 0 16 = 0xFFFF \<and> extract64 ack 16 16 = 0xBAD)"
  shows "mgmt_run iter None [ack, 0x0060000000000201, 0x0060000000000220, ack] s = Inl AssertFailed"
proof -
  obtain s1 where s1: "apple_rtkit_mgmt_handle_msg iter None EP_MANAGEMENT ack s = Inr s1"
    "rollcall s1 = tl (rollcall_msgs (iter (endpoints s)))"
    using hello_ack_v11 [OF assms(2-7)] by blast
  define s2 where "s2 = apple_rtkit_send_msg 0 (mgmt_power MSG_TYPE_POWER_ACK PSTATE_SLEEP) (s1\<lparr>cpu_status := cpu_status s1 OR 1\<rparr>)"
  define s3 where "s3 = apple_rtkit_mgmt_send_hello (s2\<lparr>cpu_status := cpu_status s2 AND NOT 1\<rparr>)"
  have types: "mgmt_type 0x0060000000000201 = 6" "mgmt_type 0x0060000000000220 = 6"
    by (simp_all add: mgmt_type_def extract64_def mask_eq_exp_minus_1)
  have h1: "apple_rtkit_mgmt_handle_msg iter None EP_MANAGEMENT 0x0060000000000201 s1 = Inr s2"
    by (simp add: apple_rtkit_mgmt_handle_msg_def types mgmt_req_power_def s2_def apple_a7iop_set_cpu_status_def
        apple_a7iop_get_cpu_status_def)
  have "(cpu_status s1 OR 1) AND 1 = (1 :: u32)" by (rule bit_word_eqI) (auto simp: bit_logic bit_1_iff)
  then have "cpu_status s2 AND 1 \<noteq> 0" by (simp add: s2_def apple_rtkit_send_msg_def)
  then have h2: "apple_rtkit_mgmt_handle_msg iter None EP_MANAGEMENT 0x0060000000000220 s2 = Inr s3"
    by (simp add: apple_rtkit_mgmt_handle_msg_def types mgmt_req_power_def s3_def apple_a7iop_set_cpu_status_def
        apple_a7iop_get_cpu_status_def apple_a7iop_cpu_start_def apple_rtkit_iop_ops_def call_op_def
        apple_rtkit_iop_wakeup_def Let_def)
  have "rollcall s3 \<noteq> []" "ep0_status s3 = EP0_WAIT_HELLO"
    using s1(2) assms(1) by (simp_all add: s3_def s2_def apple_rtkit_mgmt_send_hello_def
        apple_rtkit_mgmt_send_hello_msg_def apple_rtkit_send_msg_def)
      (metis One_nat_def length_tl list.size(3) zero_less_diff less_numeral_extra(3))
  then have "apple_rtkit_mgmt_handle_msg iter None EP_MANAGEMENT ack s3 = Inl AssertFailed"
    using assms(5,7) protocol_version_gt_10 [OF assms(6)]
    by (auto simp: apple_rtkit_mgmt_handle_msg_def mgmt_hello_ack_def Let_def apple_rtkit_mgmt_rollcall_v11_def)
  then show ?thesis by (simp add: s1 h1 h2)
qed

theorem rtkit_rollcall_assert_reachable_witness:
  "mgmt_run (\<lambda>_. [0, 1, 32]) None
     [0x00200000000C0003, 0x0060000000000201, 0x0060000000000220, 0x00200000000C0003] rtk_demo = Inl AssertFailed"
proof -
  have "mgmt_type 0x00200000000C0003 = 2" "extract64 0x00200000000C0003 16 16 = 12"
    by (simp_all add: mgmt_type_def extract64_def mask_eq_exp_minus_1)
  then show ?thesis
    by (intro rtkit_rollcall_assert_reachable)
      (simp_all add: rtk_demo_fields mbox_demo_fields rtk_demo_rollcall)
qed

text \<open>The part of the state the receive loop depends on.\<close>

definition same_inbox :: "('h, 'x) AppleRTKit_scheme \<Rightarrow> ('h, 'x) AppleRTKit_scheme \<Rightarrow> bool" where
  "same_inbox s t \<longleftrightarrow> inbox (mbox t IOP) = inbox (mbox s IOP) \<and> underflow (mbox t IOP) = underflow (mbox s IOP) \<and>
     iop_dir_en (mbox t AP) = iop_dir_en (mbox s AP)"

lemma same_inbox_trans: "same_inbox s t \<Longrightarrow> same_inbox t u \<Longrightarrow> same_inbox s u"
  by (simp add: same_inbox_def)

lemma same_inbox_send [simp]: "same_inbox s (apple_a7iop_send_ap m t) = same_inbox s t"
  by (simp add: same_inbox_def)

text \<open>The callbacks of a device leave the inbox of the co-processor alone.\<close>

definition ops_keep_inbox :: "('h, 'x) AppleRTKit_scheme AppleRTKitOps option \<Rightarrow> bool" where
  "ops_keep_inbox ops \<longleftrightarrow> (\<forall>o1 f s. ops = Some o1 \<and> (rtk_start o1 = Some f \<or> rtk_wakeup o1 = Some f \<or>
     rtk_boot_done o1 = Some f) \<longrightarrow> same_inbox s (f s))"

lemma mgmt_same_inbox:
  assumes "ops_keep_inbox ops" "apple_rtkit_mgmt_handle_msg iter ops ep msg s = Inr t"
  shows "same_inbox s t"
proof -
  have wake: "same_inbox u (apple_rtkit_iop_wakeup ops u)" for u
    using assms(1) by (auto simp: apple_rtkit_iop_wakeup_def apple_rtkit_mgmt_send_hello_def
        apple_rtkit_mgmt_send_hello_msg_def apple_rtkit_send_msg_def ops_keep_inbox_def call_op_def same_inbox_def
        split: option.split)
  have done1: "same_inbox u (case ops of None \<Rightarrow> u | Some ops \<Rightarrow> call_op (rtk_boot_done ops) u)" for u
    using assms(1) by (auto simp: ops_keep_inbox_def call_op_def same_inbox_def split: option.split)
  have power: "same_inbox s (mgmt_req_power ops ep msg s)"
    using wake [of "s\<lparr>cpu_status := cpu_status s AND NOT 1\<rparr>"]
    by (auto simp: mgmt_req_power_def Let_def apple_a7iop_cpu_start_def apple_rtkit_iop_ops_def call_op_def
        apple_a7iop_set_cpu_status_def apple_a7iop_get_cpu_status_def apple_rtkit_send_msg_def same_inbox_def)
  have rc: "same_inbox s t" if r: "mgmt_rollcall_ack ops ep s = Inr t"
  proof (cases "rollcall s")
    case Nil
    let ?u = "apple_rtkit_send_msg ep (mgmt_power MSG_TYPE_POWER_ACK 32) (s\<lparr>ep0_status := EP0_IDLE\<rparr>)"
    have "t = (case ops of None \<Rightarrow> ?u | Some ops \<Rightarrow> call_op (rtk_boot_done ops) ?u)"
      using r Nil by (simp add: mgmt_rollcall_ack_def Let_def split: if_splits)
    moreover have "same_inbox s ?u" by (simp add: apple_rtkit_send_msg_def same_inbox_def)
    ultimately show ?thesis using done1 [of ?u] same_inbox_trans by blast
  next
    case (Cons m2 rest)
    then show ?thesis using r by (auto simp: mgmt_rollcall_ack_def same_inbox_def split: if_splits)
  qed
  have hello: "same_inbox s t" if "mgmt_hello_ack iter msg s = Inr t"
    using that by (auto simp: mgmt_hello_ack_def Let_def same_inbox_def apple_rtkit_mgmt_send_hello_msg_def
        apple_rtkit_send_msg_def apple_rtkit_mgmt_rollcall_v10_def apple_rtkit_mgmt_rollcall_v11_def
        split: if_splits)
  show ?thesis using assms(2) power rc hello
    by (auto simp: apple_rtkit_mgmt_handle_msg_def Let_def apple_rtkit_send_msg_def same_inbox_def split: if_splits)
qed

lemma dispatch_same_inbox:
  assumes "ops_keep_inbox ops" "\<And>c ep d s t. call c ep d s = Inr t \<Longrightarrow> same_inbox s t"
    and "rtkit_dispatch iter ops call m s = Inr t"
  shows "same_inbox s t"
  using assms(3) by (auto simp: rtkit_dispatch_def Let_def same_inbox_def
      dest!: mgmt_same_inbox [OF assms(1)] assms(2) split: option.splits ep_handler.splits)

lemma recv_iop_inbox:
  assumes "inbox (mbox s IOP) \<noteq> []" "\<not> underflow (mbox s IOP)" "iop_dir_en (mbox s AP)"
  defines "r \<equiv> apple_a7iop_recv_iop s"
  shows "fst r \<noteq> None" "inbox (mbox (snd r) IOP) = tl (inbox (mbox s IOP))" "\<not> underflow (mbox (snd r) IOP)"
    "iop_dir_en (mbox (snd r) AP)"
  using assms by (simp_all add: apple_a7iop_recv_iop_def apple_a7iop_mailbox_recv_iop_def case_prod_beta fst_recv)

text \<open>
  Property C27 (termination). The receive loop ends and leaves the inbox empty, or stops at a fault
  of a handler, when the direction is enabled and the device's handlers and callbacks do not
  themselves touch the co-processor's inbox.
\<close>

theorem rtkit_bh_drains:
  fixes s :: "('h, 'x) AppleRTKit_scheme"
  assumes handlers: "ops_keep_inbox ops" "\<And>c ep d s t. call c ep d s = Inr t \<Longrightarrow> same_inbox s t"
    and "\<not> underflow (mbox s IOP)" "iop_dir_en (mbox s AP)"
  shows "\<exists>r. apple_rtkit_handle_messages_bh iter ops call s = Some r \<and>
           (case r of Inl e \<Rightarrow> \<exists>m u. rtkit_dispatch iter ops call m u = Inl e
                    | Inr t \<Rightarrow> inbox (mbox t IOP) = [])"
  using assms(3,4)
proof (induction "length (inbox (mbox s IOP))" arbitrary: s rule: less_induct)
  case less
  note bh = apple_rtkit_handle_messages_bh.simps [of iter ops call s]
  show ?case
  proof (cases "inbox (mbox s IOP) = []")
    case True
    then show ?thesis by (simp add: bh apple_a7iop_mailbox_is_empty_def)
  next
    case False
    note r = recv_iop_inbox [OF False less.prems]
    let ?d = "rtkit_dispatch iter ops call (the (fst (apple_a7iop_recv_iop s))) (snd (apple_a7iop_recv_iop s))"
    have step: "apple_rtkit_handle_messages_bh iter ops call s =
        (if isl ?d then Some ?d else apple_rtkit_handle_messages_bh iter ops call (projr ?d))"
      using False less.prems(1) r(1) by (subst bh) (simp only: apple_a7iop_mailbox_is_empty_def Let_def if_False simp_thms)
    show ?thesis
    proof (cases ?d)
      case (Inl e)
      then show ?thesis using step by (auto intro!: exI [of _ "Inl e"])
    next
      case (Inr t)
      then have "same_inbox (snd (apple_a7iop_recv_iop s)) t"
        using dispatch_same_inbox [of ops call iter] handlers by blast
      then have "length (inbox (mbox t IOP)) < length (inbox (mbox s IOP))" "\<not> underflow (mbox t IOP)"
        "iop_dir_en (mbox t AP)"
        using r(2-4) False by (simp_all add: same_inbox_def)
      then show ?thesis using less.hyps [of t] step Inr by simp
    qed
  qed
qed

lemma rtk_demo_ok: "\<not> underflow (mbox rtk_demo IOP)" "iop_dir_en (mbox rtk_demo AP)"
  by (simp_all add: rtk_demo_fields mbox_demo_fields)

theorem rtkit_bh_drains_witness:
  "\<exists>r. apple_rtkit_handle_messages_bh (\<lambda>_. [0, 1, 32]) None (\<lambda>c ep d s. Inr (apple_rtkit_send_msg (ep + 32) d s))
     (apple_a7iop_send_iop (apple_rtkit_construct_msg 32 5) rtk_demo) = Some r"
proof -
  let ?s = "apple_a7iop_send_iop (apple_rtkit_construct_msg 32 5) rtk_demo"
  have "\<not> underflow (mbox ?s IOP)" "iop_dir_en (mbox ?s AP)"
    by (simp_all add: apple_a7iop_send_iop_def apple_a7iop_mailbox_send_iop_def rtk_demo_ok)
  then show ?thesis
    using rtkit_bh_drains [of None "\<lambda>c ep d s. Inr (apple_rtkit_send_msg (ep + 32) d s)" ?s "\<lambda>_. [0, 1, 32]"]
    by (auto simp: ops_keep_inbox_def same_inbox_def apple_rtkit_send_msg_def)
qed

text \<open>
  If the application processor disables the direction after sending, the
  receive loop dereferences a null message.
\<close>

theorem rtkit_bh_null_message:
  assumes "inbox (mbox s IOP) \<noteq> []" "\<not> underflow (mbox s IOP)" "\<not> iop_dir_en (mbox s AP)"
  shows "apple_rtkit_handle_messages_bh iter ops call s = Some (Inl NullDeref)"
  using assms apple_rtkit_handle_messages_bh.simps [of iter ops call s]
  by (simp add: apple_a7iop_mailbox_is_empty_def apple_a7iop_recv_iop_def apple_a7iop_mailbox_recv_iop_def)

theorem rtkit_bh_null_message_witness:
  "apple_rtkit_handle_messages_bh (\<lambda>_. []) None (\<lambda>_ _ _ s. Inr s)
     (rtk_demo\<lparr>mbox := apple_a7iop_mailbox_set_iop_ctrl AP 0 (apple_a7iop_mailbox_send_iop AP (replicate 16 0) mbox_demo)\<rparr>) =
   Some (Inl NullDeref)"
  by (rule rtkit_bh_null_message) (simp_all add: apple_a7iop_mailbox_set_iop_ctrl_def upd_mbox_apply
      apple_a7iop_mailbox_send_iop_def mbox_demo_fields)

text \<open>
  A user endpoint that has been registered receives the messages addressed
  to its number plus 32, with its own number and the message unchanged, through the mailbox's
  count stamp; registering it twice fails the assertion.
\<close>

theorem rtkit_user_endpoint_dispatch:
  assumes "unat ep < 224" "apple_rtkit_register_user_ep ep (Some (Client c)) s = Inr t"
  shows "rtkit_dispatch iter ops call (stamp_count n (apple_rtkit_construct_msg (ep + 32) d)) t = call c ep d t \<and>
         apple_rtkit_register_user_ep ep (Some h) t = Inl AssertFailed"
proof -
  have t: "endpoints t (ucast (ep + 32)) = Some \<lparr>handler = Some (Client c), user = True\<rparr>"
    using assms by (auto simp: apple_rtkit_register_user_ep_def apple_rtkit_register_ep_def split: if_splits)
  have "(ucast (ucast (ep + 32) :: u32) :: u16) = ucast (ep + 32)"
    by (rule bit_word_eqI) (simp add: bit_ucast_iff)
  moreover have "(ucast ((ucast (ep + 32) :: u32) - 32) :: u8) = ep"
  proof -
    have "unat (ucast (ep + 32) :: u32) = unat ep + 32"
      using assms(1) by (simp add: unsigned_ucast_eq unat_word_ariths take_bit_nat_eq_self)
    then have "unat ((ucast (ep + 32) :: u32) - 32) = unat ep" by (subst unat_sub) (simp_all add: word_le_nat_alt)
    then have "unat (ucast ((ucast (ep + 32) :: u32) - 32) :: u8) = unat ep"
      using assms(1) by (simp add: unsigned_ucast_eq take_bit_nat_eq_self)
    then show ?thesis by (rule unsigned_word_eqI)
  qed
  ultimately show ?thesis using t assms(1)
    by (simp add: rtkit_dispatch_def apple_rtkit_register_user_ep_def apple_rtkit_register_ep_def)
qed

theorem rtkit_user_endpoint_dispatch_witness:
  "rtkit_dispatch (\<lambda>_. []) None (\<lambda>c ep d s. Inr (s\<lparr>cpu_status := ucast d\<rparr>))
     (stamp_count 1 (apple_rtkit_construct_msg 37 9))
     (projr (apple_rtkit_register_user_ep 5 (Some (Client 3)) rtk_demo)) =
   Inr ((projr (apple_rtkit_register_user_ep 5 (Some (Client 3)) rtk_demo))\<lparr>cpu_status := 9\<rparr>)"
proof -
  have "apple_rtkit_register_user_ep 5 (Some (Client 3)) rtk_demo =
      Inr (projr (apple_rtkit_register_user_ep 5 (Some (Client 3)) rtk_demo))"
    by (simp add: apple_rtkit_register_user_ep_def apple_rtkit_register_ep_def rtk_demo_def)
  from rtkit_user_endpoint_dispatch [OF _ this, of "\<lambda>_. []" None "\<lambda>c ep d s. Inr (s\<lparr>cpu_status := ucast d\<rparr>)" 1 9]
  show ?thesis by simp
qed

end
