(* ===== verification/Smc.thy ===== *)
theory Smc
  imports Rtkit Dt
begin

text \<open>
  The system management controller, \<open>hw/misc/apple-silicon/smc.c\<close>: a store of typed keys behind an
  RTKit user endpoint. The keys and their data are two lists, as in the code. A key's reader or
  writer is one of this file's functions or a function of another device (\<open>OtherFunc\<close>), which is an
  argument. Requests to shut down or reset the machine are recorded. Reading or writing past the
  shared memory is a fault.
\<close>

subsection \<open>Constants and state\<close>

text \<open>Multi-character constants: the first character is the most significant byte.\<close>

definition fourcc :: "string \<Rightarrow> u32" where
  "fourcc chars = fold (\<lambda>c w. push_bit 8 w OR of_char c) chars 0"

abbreviation (input) "SMC_READ_KEY \<equiv> 0x10 :: u8"
abbreviation (input) "SMC_WRITE_KEY \<equiv> 0x11 :: u8"
abbreviation (input) "SMC_GET_KEY_BY_INDEX \<equiv> 0x12 :: u8"
abbreviation (input) "SMC_GET_KEY_INFO \<equiv> 0x13 :: u8"
abbreviation (input) "SMC_GET_SRAM_ADDR \<equiv> 0x17 :: u8"
abbreviation (input) "SMC_NOTIFICATION \<equiv> 0x18 :: u8"
abbreviation (input) "SMC_READ_KEY_PAYLOAD \<equiv> 0x20 :: u8"
abbreviation (input) "SMC_RESULT_SUCCESS \<equiv> 0 :: u8"
abbreviation (input) "SMC_RESULT_BAD_COMMAND \<equiv> 0x82 :: u8"
abbreviation (input) "SMC_RESULT_KEY_NOT_FOUND \<equiv> 0x84 :: u8"
abbreviation (input) "SMC_RESULT_KEY_NOT_READABLE \<equiv> 0x85 :: u8"
abbreviation (input) "SMC_RESULT_KEY_NOT_WRITABLE \<equiv> 0x86 :: u8"
abbreviation (input) "SMC_RESULT_KEY_SIZE_MISMATCH \<equiv> 0x87 :: u8"
abbreviation (input) "SMC_RESULT_BAD_ARGUMENT_ERROR \<equiv> 0x89 :: u8"
abbreviation (input) "SMC_RESULT_KEY_INDEX_RANGE_ERROR \<equiv> 0xB8 :: u8"
abbreviation (input) "SMC_RESULT_BAD_FUNC_PARAMETER \<equiv> 0xC0 :: u8"
abbreviation (input) "SMC_EVENT_SYSTEM_STATE_NOTIFY \<equiv> 0x70 :: u8"
abbreviation (input) "SMC_EVENT_HID_EVENT_NOTIFY \<equiv> 0x72 :: u8"
abbreviation (input) "SMC_SYSTEM_STATE_NOTIFY_SMC_PANIC_DONE \<equiv> 0xA :: u8"
abbreviation (input) "SMC_SYSTEM_STATE_NOTIFY_SMC_PANIC_PROGRESS \<equiv> 0x22 :: u8"
abbreviation (input) "SMC_HID_EVENT_NOTIFY_BUTTON \<equiv> 1 :: u8"
abbreviation (input) "kSMCKeyEndpoint \<equiv> 0 :: u8"
abbreviation (input) "SMC_ATTR_LE \<equiv> 0x04 :: u8"
abbreviation (input) "SMC_ATTR_FUNC \<equiv> 0x10 :: u8"
abbreviation (input) "SMC_ATTR_W \<equiv> 0x40 :: u8"
abbreviation (input) "SMC_ATTR_R \<equiv> 0x80 :: u8"
abbreviation (input) "SMC_ATTR_RW \<equiv> 0xC0 :: u8"
abbreviation (input) "SMC_ATTR_RW_LE \<equiv> 0xC4 :: u8"
abbreviation (input) "SMC_ATTR_R_LE \<equiv> 0x84 :: u8"
abbreviation (input) "SMC_ATTR_W_LE \<equiv> 0x44 :: u8"

datatype 'f SMCKeyFunc = KeyCountRead | SensorCountRead | SensorQueryRead | MbseWrite | OtherFunc 'f

datatype sys_request = ShutdownRequest | ResetRequest

record 'f SMCKey =
  k_size :: u8
  k_type :: u32
  k_attr :: u8
  k_key :: u32
  k_sensor :: bool
  k_read :: "'f SMCKeyFunc option"
  k_write :: "'f SMCKeyFunc option"

record SMCKeyData =
  d_key :: u32
  d_size :: u32
  d_data :: bytes

text \<open>\<open>sram_addr\<close> is the address the shared memory is mapped at.\<close>

record 'f AppleSMCState = "unit AppleRTKit" +
  keys :: "'f SMCKey list"
  key_data :: "SMCKeyData list"
  sram :: bytes
  sram_addr :: u64
  is_booted :: bool
  requests :: "sys_request list"

text \<open>
  A function of another device: it gets the key, the data entry, the payload and its length, and
  returns a result code.
\<close>

type_synonym 'f other_funcs =
  "'f \<Rightarrow> 'f SMCKey \<Rightarrow> SMCKeyData option \<Rightarrow> bytes option \<Rightarrow> u8 \<Rightarrow> 'f AppleSMCState \<Rightarrow> (u8 \<times> 'f AppleSMCState) res"

subsection \<open>Keys\<close>

definition apple_smc_get_key :: "'f AppleSMCState \<Rightarrow> u32 \<Rightarrow> 'f SMCKey option" where
  "apple_smc_get_key s key = find (\<lambda>k. k_key k = key) (keys s)"

definition apple_smc_get_key_data :: "'f AppleSMCState \<Rightarrow> u32 \<Rightarrow> SMCKeyData option" where
  "apple_smc_get_key_data s key = find (\<lambda>d. d_key d = key) (key_data s)"

definition apple_smc_new_key ::
  "u32 \<Rightarrow> u8 \<Rightarrow> u32 \<Rightarrow> u8 \<Rightarrow> bytes option \<Rightarrow> 'f SMCKey \<times> SMCKeyData" where
  "apple_smc_new_key key sz type attr data =
     (\<lparr>k_size = sz, k_type = of_le (rev (to_le 4 type)), k_attr = attr, k_key = key, k_sensor = False,
       k_read = None, k_write = None\<rparr>,
      \<lparr>d_key = key, d_size = ucast sz,
       d_data = (case data of None \<Rightarrow> replicate (unat sz) 0 | Some bs \<Rightarrow> take (unat sz) bs)\<rparr>)"

definition apple_smc_insert_key ::
  "'f SMCKey \<Rightarrow> SMCKeyData \<Rightarrow> 'f AppleSMCState \<Rightarrow> 'f AppleSMCState res" where
  "apple_smc_insert_key ke de s =
     (if apple_smc_get_key s (k_key ke) \<noteq> None then Inl FatalError
      else Inr (s\<lparr>keys := keys s @ [ke], key_data := key_data s @ [de]\<rparr>))"

definition apple_smc_add_key ::
  "u32 \<Rightarrow> u8 \<Rightarrow> u32 \<Rightarrow> u8 \<Rightarrow> bytes option \<Rightarrow> 'f AppleSMCState \<Rightarrow> 'f AppleSMCState res" where
  "apple_smc_add_key key sz type attr data s =
     (if attr AND SMC_ATTR_FUNC \<noteq> 0 then Inl AssertFailed
      else let (ke, de) = apple_smc_new_key key sz type attr data in apple_smc_insert_key ke de s)"

definition apple_smc_add_sensor ::
  "u32 \<Rightarrow> u8 \<Rightarrow> u32 \<Rightarrow> u8 \<Rightarrow> bytes option \<Rightarrow> 'f AppleSMCState \<Rightarrow> 'f AppleSMCState res" where
  "apple_smc_add_sensor key sz type attr data s =
     (if attr AND SMC_ATTR_FUNC \<noteq> 0 then Inl AssertFailed
      else let (ke, de) = apple_smc_new_key key sz type attr data
        in apple_smc_insert_key (ke\<lparr>k_sensor := True\<rparr>) de s)"

definition apple_smc_add_key_func ::
  "u32 \<Rightarrow> u8 \<Rightarrow> u32 \<Rightarrow> u8 \<Rightarrow> 'f SMCKeyFunc option \<Rightarrow> 'f SMCKeyFunc option \<Rightarrow> 'f AppleSMCState \<Rightarrow>
   'f AppleSMCState res" where
  "apple_smc_add_key_func key sz type attr reader writer s =
     (if attr AND (SMC_ATTR_FUNC OR SMC_ATTR_RW) \<noteq> 0 then Inl AssertFailed
      else let attr = attr OR SMC_ATTR_FUNC;
               attr = (if reader \<noteq> None then attr OR SMC_ATTR_R else attr);
               attr = (if writer \<noteq> None then attr OR SMC_ATTR_W else attr);
               (ke, de) = apple_smc_new_key key sz type attr None
        in apple_smc_insert_key (ke\<lparr>k_read := reader, k_write := writer\<rparr>) de s)"

text \<open>Storing into the data entry a pointer refers to: the first one of the key.\<close>

fun upd_data :: "u32 \<Rightarrow> (bytes \<Rightarrow> bytes) \<Rightarrow> SMCKeyData list \<Rightarrow> SMCKeyData list" where
  "upd_data key f [] = []"
| "upd_data key f (d # ds) =
     (if d_key d = key then d\<lparr>d_data := f (d_data d)\<rparr> # ds else d # upd_data key f ds)"

definition store_data :: "SMCKeyData option \<Rightarrow> bytes \<Rightarrow> 'f AppleSMCState \<Rightarrow> 'f AppleSMCState res" where
  "store_data de bs s =
     (case de of None \<Rightarrow> Inl NullDeref
      | Some d \<Rightarrow> if length (d_data d) < length bs then Inl OutOfBounds
                  else Inr (s\<lparr>key_data := upd_data (d_key d) (blit 0 bs) (key_data s)\<rparr>))"

subsection \<open>Responses\<close>

definition key_response :: "u8 \<Rightarrow> u8 \<Rightarrow> u8 \<Rightarrow> bytes \<Rightarrow> u64" where
  "key_response status tag len response = of_le ([status, tag, len, 0] @ response)"

definition apple_smc_send_hid_button :: "u8 \<Rightarrow> bool \<Rightarrow> 'f AppleSMCState \<Rightarrow> 'f AppleSMCState res" where
  "apple_smc_send_hid_button button state s =
     (if \<not> is_booted s then Inr s
      else apple_rtkit_send_user_msg kSMCKeyEndpoint
        (key_response SMC_NOTIFICATION 0 0
           [if state then 1 else 0, button, SMC_HID_EVENT_NOTIFY_BUTTON, SMC_EVENT_HID_EVENT_NOTIFY]) s)"

definition smc_key_count_read ::
  "SMCKeyData option \<Rightarrow> 'f AppleSMCState \<Rightarrow> (u8 \<times> 'f AppleSMCState) res" where
  "smc_key_count_read de s =
     rbind (store_data de (rev (to_le 4 (of_nat (length (keys s)) :: u32))) s) (\<lambda>s. Inr (SMC_RESULT_SUCCESS, s))"

definition load32 :: "bytes \<Rightarrow> u32 res" where
  "load32 bs = (if length bs < 4 then Inl OutOfBounds else Inr (of_le (take 4 bs)))"

definition apple_smc_mbse_write ::
  "'f SMCKey \<Rightarrow> bytes option \<Rightarrow> u8 \<Rightarrow> 'f AppleSMCState \<Rightarrow> (u8 \<times> 'f AppleSMCState) res" where
  "apple_smc_mbse_write ke inp len s =
     (case inp of None \<Rightarrow> Inr (SMC_RESULT_BAD_ARGUMENT_ERROR, s)
      | Some bs \<Rightarrow>
          if len \<noteq> k_size ke then Inr (SMC_RESULT_BAD_ARGUMENT_ERROR, s)
          else rbind (load32 bs) (\<lambda>v.
            if v = fourcc ''susp'' \<or> v = fourcc ''offw''
            then Inr (SMC_RESULT_SUCCESS, s\<lparr>requests := requests s @ [ShutdownRequest]\<rparr>)
            else if v = fourcc ''rest'' then Inr (SMC_RESULT_SUCCESS, s\<lparr>requests := requests s @ [ResetRequest]\<rparr>)
            else if v = fourcc ''waka'' \<or> v = fourcc ''slpa'' \<or> v = fourcc ''slpw'' then Inr (SMC_RESULT_SUCCESS, s)
            else if v = fourcc ''panb'' then
              rbind (apple_rtkit_send_user_msg kSMCKeyEndpoint (key_response SMC_NOTIFICATION 0 0
                  [0, 0, SMC_SYSTEM_STATE_NOTIFY_SMC_PANIC_PROGRESS, SMC_EVENT_SYSTEM_STATE_NOTIFY]) s)
                (\<lambda>s. Inr (SMC_RESULT_SUCCESS, s))
            else if v = fourcc ''pane'' then
              rbind (apple_rtkit_send_user_msg kSMCKeyEndpoint (key_response SMC_NOTIFICATION 0 0
                  [0, 0, SMC_SYSTEM_STATE_NOTIFY_SMC_PANIC_DONE, SMC_EVENT_SYSTEM_STATE_NOTIFY]) s)
                (\<lambda>s. Inr (SMC_RESULT_SUCCESS, s))
            else Inr (SMC_RESULT_BAD_FUNC_PARAMETER, s)))"

definition apple_smc_sensor_count_read ::
  "SMCKeyData option \<Rightarrow> 'f AppleSMCState \<Rightarrow> (u8 \<times> 'f AppleSMCState) res" where
  "apple_smc_sensor_count_read de s =
     rbind (store_data de (to_le 4 (of_nat (length (filter k_sensor (keys s))) :: u32)) s)
       (\<lambda>s. Inr (SMC_RESULT_SUCCESS, s))"

definition apple_smc_sensor_query_read ::
  "SMCKeyData option \<Rightarrow> bytes option \<Rightarrow> u8 \<Rightarrow> 'f AppleSMCState \<Rightarrow> (u8 \<times> 'f AppleSMCState) res" where
  "apple_smc_sensor_query_read de inp len s =
     (case inp of None \<Rightarrow> Inr (SMC_RESULT_BAD_ARGUMENT_ERROR, s)
      | Some bs \<Rightarrow>
          if len \<noteq> 4 then Inr (SMC_RESULT_BAD_ARGUMENT_ERROR, s)
          else rbind (load32 bs) (\<lambda>q.
            let sensors = filter k_sensor (keys s)
            in if unat q < length sensors
               then rbind (store_data de (to_le 4 (k_key (sensors ! unat q))) s) (\<lambda>s. Inr (SMC_RESULT_SUCCESS, s))
               else Inr (SMC_RESULT_BAD_ARGUMENT_ERROR, s)))"

definition call_key_func ::
  "'f other_funcs \<Rightarrow> 'f SMCKeyFunc \<Rightarrow> 'f SMCKey \<Rightarrow> SMCKeyData option \<Rightarrow> bytes option \<Rightarrow> u8 \<Rightarrow> 'f AppleSMCState \<Rightarrow>
   (u8 \<times> 'f AppleSMCState) res" where
  "call_key_func oth f ke de inp len s =
     (case f of KeyCountRead \<Rightarrow> smc_key_count_read de s
      | SensorCountRead \<Rightarrow> apple_smc_sensor_count_read de s
      | SensorQueryRead \<Rightarrow> apple_smc_sensor_query_read de inp len s
      | MbseWrite \<Rightarrow> apple_smc_mbse_write ke inp len s
      | OtherFunc g \<Rightarrow> oth g ke de inp len s)"

subsection \<open>The key endpoint\<close>

text \<open>Copying the data of a key to a buffer, the response or the shared memory.\<close>

definition apple_smc_key_read ::
  "'f SMCKey \<Rightarrow> SMCKeyData option \<Rightarrow> u8 \<Rightarrow> bytes \<Rightarrow> (u8 \<times> bytes) res" where
  "apple_smc_key_read ke de sz out =
     (if sz < k_size ke then Inr (SMC_RESULT_KEY_SIZE_MISMATCH, out)
      else case de of None \<Rightarrow> Inl NullDeref
        | Some d \<Rightarrow> if length (d_data d) < unat (k_size ke) \<or> length out < unat (k_size ke) then Inl OutOfBounds
                    else Inr (SMC_RESULT_SUCCESS, blit 0 (take (unat (k_size ke)) (d_data d)) out))"

definition smc_run_reader ::
  "'f other_funcs \<Rightarrow> 'f SMCKey \<Rightarrow> u32 \<Rightarrow> u8 \<Rightarrow> 'f AppleSMCState \<Rightarrow> (u8 \<times> 'f AppleSMCState) res" where
  "smc_run_reader oth ke key plen s =
     (case k_read ke of None \<Rightarrow> Inr (SMC_RESULT_SUCCESS, s)
      | Some f \<Rightarrow> call_key_func oth f ke (apple_smc_get_key_data s key)
                    (if plen = 0 then None else Some (sram s)) plen s)"

definition smc_read_key ::
  "'f other_funcs \<Rightarrow> u8 \<Rightarrow> u32 \<Rightarrow> u8 \<Rightarrow> u8 \<Rightarrow> 'f AppleSMCState \<Rightarrow> (u64 \<times> 'f AppleSMCState) res" where
  "smc_read_key oth tag key len plen s =
     (case apple_smc_get_key s key of
        None \<Rightarrow> Inr (key_response SMC_RESULT_KEY_NOT_FOUND tag 0 (replicate 4 0), s)
      | Some ke \<Rightarrow>
          if k_attr ke AND SMC_ATTR_R \<noteq> 0 then
            rbind (smc_run_reader oth ke key plen s)
              (\<lambda>(status, s).
                 if status \<noteq> SMC_RESULT_SUCCESS then Inr (key_response status tag 0 (replicate 4 0), s)
                 else let de = apple_smc_get_key_data s key
                   in if k_size ke \<le> 4
                      then rbind (apple_smc_key_read ke de len (replicate 4 0)) (\<lambda>(status, out).
                             Inr (key_response status tag (if status = SMC_RESULT_SUCCESS then k_size ke else 0) out, s))
                      else rbind (apple_smc_key_read ke de len (sram s)) (\<lambda>(status, out).
                             Inr (key_response status tag (if status = SMC_RESULT_SUCCESS then k_size ke else 0)
                                    (replicate 4 0), s\<lparr>sram := out\<rparr>)))
          else Inr (key_response SMC_RESULT_KEY_NOT_READABLE tag 0 (replicate 4 0), s))"

definition smc_run_writer ::
  "'f other_funcs \<Rightarrow> 'f SMCKey \<Rightarrow> u32 \<Rightarrow> u8 \<Rightarrow> 'f AppleSMCState \<Rightarrow> (u8 \<times> 'f AppleSMCState) res" where
  "smc_run_writer oth ke key len s =
     (if k_size ke \<noteq> len then Inr (SMC_RESULT_KEY_SIZE_MISMATCH, s)
      else case k_write ke of
             Some f \<Rightarrow> call_key_func oth f ke (apple_smc_get_key_data s key)
                         (if len = 0 then None else Some (sram s)) len s
           | None \<Rightarrow> if length (sram s) < unat len then Inl OutOfBounds
                     else rbind (store_data (apple_smc_get_key_data s key) (take (unat len) (sram s)) s)
                            (\<lambda>s. Inr (SMC_RESULT_SUCCESS, s)))"

definition smc_write_key ::
  "'f other_funcs \<Rightarrow> u8 \<Rightarrow> u32 \<Rightarrow> u8 \<Rightarrow> 'f AppleSMCState \<Rightarrow> (u64 \<times> 'f AppleSMCState) res" where
  "smc_write_key oth tag key len s =
     (case apple_smc_get_key s key of
        None \<Rightarrow> Inr (key_response SMC_RESULT_KEY_NOT_FOUND tag 0 (replicate 4 0), s)
      | Some ke \<Rightarrow>
          if k_attr ke AND SMC_ATTR_W \<noteq> 0 then
            rbind (smc_run_writer oth ke key len s)
              (\<lambda>(status, s). Inr (key_response status tag
                 (if status = SMC_RESULT_SUCCESS then k_size ke else 0) (replicate 4 0), s))
          else Inr (key_response SMC_RESULT_KEY_NOT_WRITABLE tag 0 (replicate 4 0), s))"

definition smc_key_by_index :: "u8 \<Rightarrow> u32 \<Rightarrow> 'f AppleSMCState \<Rightarrow> u64" where
  "smc_key_by_index tag key s =
     (if unat key < length (keys s)
      then key_response SMC_RESULT_SUCCESS tag 0 (to_le 4 (k_key (keys s ! unat key)))
      else key_response SMC_RESULT_KEY_INDEX_RANGE_ERROR tag 0 (replicate 4 0))"

definition smc_key_info :: "u8 \<Rightarrow> u32 \<Rightarrow> 'f AppleSMCState \<Rightarrow> (u64 \<times> 'f AppleSMCState) res" where
  "smc_key_info tag key s =
     (case apple_smc_get_key s key of
        None \<Rightarrow> Inr (key_response SMC_RESULT_KEY_NOT_FOUND tag 0 (replicate 4 0), s)
      | Some ke \<Rightarrow>
          if length (sram s) < 6 then Inl OutOfBounds
          else Inr (key_response SMC_RESULT_SUCCESS tag 0 (replicate 4 0),
                    s\<lparr>sram := blit 0 ([k_size ke] @ to_le 4 (k_type ke) @ [k_attr ke]) (sram s)\<rparr>))"

text \<open>\<open>KeyMessage\<close>: command, tag, length and payload length, a byte each, then the key.\<close>

definition apple_smc_handle_key_endpoint ::
  "'f other_funcs \<Rightarrow> u8 \<Rightarrow> u64 \<Rightarrow> 'f AppleSMCState \<Rightarrow> 'f AppleSMCState res" where
  "apple_smc_handle_key_endpoint oth ep msg s =
     (let m = to_le 8 msg; cmd = m ! 0; tag = m ! 1; len = m ! 2; plen = m ! 3; key = of_le (drop 4 m);
          reply = (\<lambda>(raw, s). apple_rtkit_send_user_msg ep raw s)
      in if cmd = SMC_GET_SRAM_ADDR then apple_rtkit_send_user_msg ep (sram_addr s) s
         else if cmd = SMC_READ_KEY \<or> cmd = SMC_READ_KEY_PAYLOAD
         then rbind (smc_read_key oth tag key len plen s) reply
         else if cmd = SMC_WRITE_KEY then rbind (smc_write_key oth tag key len s) reply
         else if cmd = SMC_GET_KEY_BY_INDEX then reply (smc_key_by_index tag key s, s)
         else if cmd = SMC_GET_KEY_INFO then rbind (smc_key_info tag key s) reply
         else reply (key_response SMC_RESULT_BAD_COMMAND tag 0 (replicate 4 0), s))"

subsection \<open>Creation, reset and migration\<close>

definition apple_smc_boot_done :: "'f AppleSMCState \<Rightarrow> 'f AppleSMCState" where
  "apple_smc_boot_done s = s\<lparr>is_booted := True\<rparr>"

definition apple_smc_rtkit_ops :: "'f AppleSMCState AppleRTKitOps" where
  "apple_smc_rtkit_ops = \<lparr>rtk_start = None, rtk_wakeup = None, rtk_boot_done = Some apple_smc_boot_done\<rparr>"

text \<open>
  The keys \<open>apple_smc_create\<close> adds, in its order. The battery figures it computes are written as
  their values.
\<close>

datatype 'f key_spec = KPlain u32 u8 u32 u8 "bytes option" | KSensor u32 u8 u32 u8 "bytes option"
  | KFunc u32 u8 u32 u8 "'f SMCKeyFunc option" "'f SMCKeyFunc option"

definition smc_keys_system :: "'f key_spec list" where
  "smc_keys_system =
     [KFunc (fourcc ''#KEY'') 4 (fourcc ''ui32'') 0 (Some KeyCountRead) None,
      KPlain (fourcc ''CLKH'') 8 (fourcc ''{clh'') SMC_ATTR_RW_LE (Some [0x40, 0x19, 0x01, 0x00, 0x80, 0x70, 0x00, 0x00]),
      KPlain (fourcc ''RGEN'') 1 (fourcc ''ui8 '') SMC_ATTR_R (Some [0x03, 0x19, 0x01, 0x00, 0x80, 0x70, 0x00, 0x00]),
      KFunc (fourcc ''MBSE'') 4 (fourcc ''hex_'') SMC_ATTR_LE None (Some MbseWrite),
      KPlain (fourcc ''LGPB'') 1 (fourcc ''flag'') SMC_ATTR_RW None,
      KPlain (fourcc ''LGPE'') 1 (fourcc ''flag'') SMC_ATTR_RW None,
      KPlain (fourcc ''NESN'') 4 (fourcc ''hex_'') SMC_ATTR_W_LE None,
      KPlain (fourcc ''AC-N'') 1 (fourcc ''ui8 '') SMC_ATTR_R (Some [0x1]),
      KPlain (fourcc ''B0AP'') 4 (fourcc ''si32'') SMC_ATTR_R_LE None,
      KPlain (fourcc ''AC-W'') 1 (fourcc ''si8 '') SMC_ATTR_R (Some [0x1]),
      KPlain (fourcc ''CHAI'') 4 (fourcc ''ui32'') SMC_ATTR_R_LE None]"

definition smc_keys_sensors :: "'f key_spec list" where
  "smc_keys_sensors =
     [KSensor (fourcc ''VP0u'') 8 (fourcc ''ioft'') SMC_ATTR_R_LE None,
      KSensor (fourcc ''TP0Z'') 8 (fourcc ''ioft'') SMC_ATTR_R_LE None] @
     map (\<lambda>i. KSensor (fourcc ''TP0d'' + push_bit 8 (of_nat i)) 8 (fourcc ''ioft'') SMC_ATTR_R_LE None) [0..<6] @
     map (\<lambda>i. KSensor (fourcc ''TP0b'' + push_bit 8 (of_nat i)) 8 (fourcc ''ioft'') SMC_ATTR_R_LE None) [1..<9] @
     map (\<lambda>i. KSensor (fourcc ''TV0s'' + push_bit 8 (of_nat i)) 8 (fourcc ''ioft'') SMC_ATTR_R_LE None) [0..<6] @
     [KSensor (fourcc ''IQ0u'') 8 (fourcc ''ioft'') SMC_ATTR_R_LE None,
      KSensor (fourcc ''QQ0u'') 8 (fourcc ''ioft'') SMC_ATTR_R_LE None,
      KSensor (fourcc ''TQ0d'') 8 (fourcc ''ioft'') SMC_ATTR_R_LE None,
      KSensor (fourcc ''TQ0j'') 8 (fourcc ''ioft'') SMC_ATTR_R_LE None,
      KSensor (fourcc ''VQ0l'') 8 (fourcc ''ioft'') SMC_ATTR_R_LE None] @
     map (\<lambda>i. KSensor (fourcc ''VQ0u'' + push_bit 8 (of_nat i)) 8 (fourcc ''ioft'') SMC_ATTR_R_LE None) [0..<2] @
     [KSensor (fourcc ''WQ0u'') 8 (fourcc ''ioft'') SMC_ATTR_R_LE None,
      KSensor (fourcc ''VQDD'') 8 (fourcc ''ioft'') SMC_ATTR_R_LE None,
      KSensor (fourcc ''TG0B'') 8 (fourcc ''ioft'') SMC_ATTR_R_LE None,
      KSensor (fourcc ''TG0C'') 8 (fourcc ''ioft'') SMC_ATTR_R_LE None,
      KSensor (fourcc ''TG0H'') 8 (fourcc ''ioft'') SMC_ATTR_R_LE None,
      KSensor (fourcc ''TG0V'') 8 (fourcc ''ioft'') SMC_ATTR_R_LE None,
      KSensor (fourcc ''Tarc'') 8 (fourcc ''ioft'') SMC_ATTR_R_LE None]"

definition smc_keys_power :: "'f key_spec list" where
  "smc_keys_power =
     [KPlain (fourcc ''D0VR'') 2 (fourcc ''ui16'') SMC_ATTR_R_LE None,
      KPlain (fourcc ''D1VR'') 2 (fourcc ''ui16'') SMC_ATTR_R_LE None,
      KPlain (fourcc ''D2VR'') 2 (fourcc ''ui16'') SMC_ATTR_R_LE None,
      KPlain (fourcc ''BHTL'') 1 (fourcc ''flag'') SMC_ATTR_RW_LE None,
      KPlain (fourcc ''BFS0'') 1 (fourcc ''ui8 '') SMC_ATTR_R_LE (Some [0x0]),
      KPlain (fourcc ''B0CT'') 2 (fourcc ''ui16'') SMC_ATTR_R_LE (Some [0x7, 0x0]),
      KPlain (fourcc ''B0TF'') 2 (fourcc ''ui16'') SMC_ATTR_R_LE (Some [0xff, 0xff]),
      KPlain (fourcc ''B0CM'') 2 (fourcc ''ui16'') SMC_ATTR_R_LE (Some [0x69, 0x7a]),
      KPlain (fourcc ''B0FC'') 2 (fourcc ''ui16'') SMC_ATTR_R_LE (Some [0xf6, 0x77]),
      KPlain (fourcc ''B0UC'') 2 (fourcc ''ui16'') SMC_ATTR_R_LE (Some [0xc5, 0x52]),
      KPlain (fourcc ''B0RM'') 2 (fourcc ''ui16'') SMC_ATTR_R_LE (Some [0x31, 0x25]),
      KPlain (fourcc ''B0FV'') 4 (fourcc ''hex_'') SMC_ATTR_R_LE (Some [0x1, 0x2, 0x0, 0x0]),
      KPlain (fourcc ''BDD1'') 1 (fourcc ''ui8 '') SMC_ATTR_R_LE (Some [0x19]),
      KPlain (fourcc ''UB0C'') 1 (fourcc ''ui8 '') SMC_ATTR_W_LE None,
      KPlain (fourcc ''BNCB'') 1 (fourcc ''ui8 '') SMC_ATTR_R_LE (Some [0x1]),
      KPlain (fourcc ''BC1V'') 2 (fourcc ''ui16'') SMC_ATTR_R_LE (Some [0x68, 0x10]),
      KPlain (fourcc ''BC2V'') 2 (fourcc ''ui16'') SMC_ATTR_R_LE (Some [0x68, 0x10]),
      KPlain (fourcc ''BC3V'') 2 (fourcc ''ui16'') SMC_ATTR_R_LE (Some [0x68, 0x10]),
      KPlain (fourcc ''BC4V'') 2 (fourcc ''ui16'') SMC_ATTR_R_LE (Some [0x68, 0x10]),
      KPlain (fourcc ''B0DC'') 2 (fourcc ''ui16'') SMC_ATTR_R_LE (Some [0x13, 0xef]),
      KPlain (fourcc ''B0BL'') 2 (fourcc ''ui16'') SMC_ATTR_R_LE None,
      KPlain (fourcc ''B0CA'') 2 (fourcc ''ui16'') SMC_ATTR_R_LE None,
      KPlain (fourcc ''B0NC'') 2 (fourcc ''ui16'') SMC_ATTR_R_LE None,
      KPlain (fourcc ''B0IV'') 2 (fourcc ''si16'') SMC_ATTR_R_LE None,
      KPlain (fourcc ''B0AC'') 2 (fourcc ''si16'') SMC_ATTR_R_LE (Some [0x0, 0x0]),
      KPlain (fourcc ''B0AV'') 2 (fourcc ''ui16'') SMC_ATTR_R_LE (Some [0x68, 0x10]),
      KPlain (fourcc ''CHNC'') 8 (fourcc ''hex_'') SMC_ATTR_R_LE (Some [0x1, 0x0, 0x0, 0x0, 0x0, 0x0, 0x0, 0x0]),
      KPlain (fourcc ''CHAS'') 4 (fourcc ''ui32'') SMC_ATTR_R_LE None,
      KPlain (fourcc ''CHA1'') 4 (fourcc ''ui32'') SMC_ATTR_R_LE None,
      KPlain (fourcc ''WADI'') 1 (fourcc ''ui8 '') SMC_ATTR_R_LE (Some [0x1]),
      KFunc (fourcc ''aDC#'') 4 (fourcc ''hex_'') SMC_ATTR_LE (Some SensorCountRead) None,
      KFunc (fourcc ''aDC?'') 4 (fourcc ''hex_'') SMC_ATTR_LE (Some SensorQueryRead) None]"


fun add_spec :: "'f key_spec \<Rightarrow> 'f AppleSMCState \<Rightarrow> 'f AppleSMCState res" where
  "add_spec (KPlain key sz type attr data) s = apple_smc_add_key key sz type attr data s"
| "add_spec (KSensor key sz type attr data) s = apple_smc_add_sensor key sz type attr data s"
| "add_spec (KFunc key sz type attr r w) s = apple_smc_add_key_func key sz type attr r w s"

fun add_specs :: "'f key_spec list \<Rightarrow> 'f AppleSMCState \<Rightarrow> 'f AppleSMCState res" where
  "add_specs [] s = Inr s"
| "add_specs (k # ks) s = rbind (add_spec k s) (add_specs ks)"

text \<open>
  \<open>node\<close> is the controller's device tree node. \<open>mem\<close> is the memory \<open>qemu_memalign\<close> returns, of
  \<open>sram_size\<close> bytes, and \<open>addr\<close> the address it is mapped at. The result is the device, the sizes of
  the two register windows (\<open>reg[1]\<close> and \<open>reg[3]\<close>), and the node with its changed child.
\<close>

definition apple_smc_create :: "AppleDTNode \<Rightarrow> u64 \<Rightarrow> bytes \<Rightarrow> ('f AppleSMCState \<times> u64 \<times> u64 \<times> AppleDTNode) res" where
  "apple_smc_create node addr mem =
     (if length mem > 0xFFFFFFFF then Inl AssertFailed
      else case apple_dt_get_node node (cs ''iop-smc-nub'') of
        None \<Rightarrow> Inl AssertFailed
      | Some child \<Rightarrow>
          (case apple_dt_get_prop node (cs ''reg'') of
             None \<Rightarrow> Inl AssertFailed
           | Some prop \<Rightarrow>
               rbind (if length (p_data prop) < 16 then Inl OutOfBounds else Inr (of_le (bslice 8 8 (p_data prop)))) (\<lambda>reg1.
               rbind (apple_rtkit_init ''SMC'') (\<lambda>r.
               rbind (apple_rtkit_register_user_ep kSMCKeyEndpoint (Some (Client ())) r) (\<lambda>r.
               rbind (if length (p_data prop) < 32 then Inl OutOfBounds else Inr (of_le (bslice 24 8 (p_data prop)))) (\<lambda>reg3.
               rbind (apple_dt_set_prop_u32 (node_at node child) (cs ''pre-loaded'') 1) (\<lambda>c.
               rbind (apple_dt_set_prop_u32 c (cs ''running'') 1) (\<lambda>c.
               rbind (add_specs (smc_keys_system @ smc_keys_sensors @ smc_keys_power)
                 \<lparr>iop_role = iop_role r, mbox = mbox r, cpu_status = cpu_status r, cpu_ctrl = cpu_ctrl r,
                  ep0_status = ep0_status r, protocol_version = protocol_version r, endpoints = endpoints r,
                  rollcall = rollcall r, keys = [], key_data = [], sram = mem, sram_addr = addr,
                  is_booted = False, requests = []\<rparr>) (\<lambda>s.
                 Inr (s, reg1, reg3, put_node_at node child c))))))))))"

text \<open>
  The reset calls the hold phase saved in \<open>AppleRTKitClass\<close>, which is the one of \<open>AppleA7IOP\<close>;
  \<open>apple_rtkit_reset_hold\<close>, saved in \<open>AppleSMCClass\<close>, is not called.
\<close>

definition apple_smc_reset_hold :: "'f AppleSMCState \<Rightarrow> 'f AppleSMCState" where
  "apple_smc_reset_hold s =
     (apple_a7iop_reset s)\<lparr>sram := replicate (length (sram s)) 0, is_booted := False\<rparr>"

definition vmstate_apple_smc_post_load :: "'f AppleSMCState \<Rightarrow> int" where
  "vmstate_apple_smc_post_load s =
     (if list_ex (\<lambda>d. case apple_smc_get_key s (d_key d) of None \<Rightarrow> True
                      | Some k \<Rightarrow> unat (k_size k) \<noteq> unat (d_size d)) (key_data s) then - 1
      else if list_ex (\<lambda>k. apple_smc_get_key_data s (k_key k) = None) (keys s) then - 1
      else 0)"

subsection \<open>Well-formed key stores\<close>

text \<open>
  Every key has its data entry, of its size; no key occurs twice; the keys whose function stores a
  32-bit value have four bytes; the shared memory holds the largest transfer.
\<close>

definition entry_ok :: "'f SMCKey \<Rightarrow> SMCKeyData \<Rightarrow> bool" where
  "entry_ok k d \<longleftrightarrow> d_key d = k_key k \<and> length (d_data d) = unat (k_size k)"

definition stores_word :: "'f SMCKeyFunc option \<Rightarrow> bool" where
  "stores_word f \<longleftrightarrow> f = Some KeyCountRead \<or> f = Some SensorCountRead \<or> f = Some SensorQueryRead"

definition key_ok :: "'f SMCKey \<Rightarrow> bool" where
  "key_ok k \<longleftrightarrow> (stores_word (k_read k) \<or> stores_word (k_write k) \<longrightarrow> k_size k = 4)"

definition smc_wf :: "'f AppleSMCState \<Rightarrow> bool" where
  "smc_wf s \<longleftrightarrow> distinct (map k_key (keys s)) \<and> list_all2 entry_ok (keys s) (key_data s) \<and>
     (\<forall>k \<in> set (keys s). key_ok k) \<and> 255 \<le> length (sram s)"

lemma find_entry:
  "list_all2 entry_ok ks ds \<Longrightarrow> find (\<lambda>k. k_key k = key) ks = Some k \<Longrightarrow>
   \<exists>d. find (\<lambda>d. d_key d = key) ds = Some d \<and> entry_ok k d"
  by (induction ks ds rule: list_all2_induct) (auto simp: entry_ok_def split: if_splits)

lemma smc_wf_entry:
  assumes "smc_wf s" "apple_smc_get_key s key = Some k"
  shows "\<exists>d. apple_smc_get_key_data s key = Some d \<and> entry_ok k d \<and> key_ok k \<and> k_key k = key"
proof -
  have "k \<in> set (keys s)" "k_key k = key" using assms(2) by (auto simp: apple_smc_get_key_def find_Some_iff)
  then show ?thesis
    using assms find_entry [of "keys s" "key_data s" key k]
    by (auto simp: smc_wf_def apple_smc_get_key_def apple_smc_get_key_data_def)
qed

lemma list_all2_upd_data:
  "list_all2 entry_ok ks ds \<Longrightarrow> (\<And>d. d \<in> set ds \<Longrightarrow> d_key d = key \<Longrightarrow> length (f (d_data d)) = length (d_data d)) \<Longrightarrow>
   list_all2 entry_ok ks (upd_data key f ds)"
  by (induction ks ds rule: list_all2_induct) (auto simp: entry_ok_def [abs_def])

lemma find_upd_data:
  "find (\<lambda>d. d_key d = key) (upd_data key f ds) =
     map_option (\<lambda>d. d\<lparr>d_data := f (d_data d)\<rparr>) (find (\<lambda>d. d_key d = key) ds)"
  by (induction ds) auto

lemma find_upd_data_other:
  "key' \<noteq> key \<Longrightarrow> find (\<lambda>d. d_key d = key') (upd_data key f ds) = find (\<lambda>d. d_key d = key') ds"
  by (induction ds) auto

lemma entry_unique:
  assumes "list_all2 entry_ok ks ds" "distinct (map k_key ks)" "d \<in> set ds" "e \<in> set ds" "d_key d = d_key e"
  shows "d = e"
proof -
  have "map d_key ds = map k_key ks" using assms(1) by (induction rule: list_all2_induct) (auto simp: entry_ok_def)
  then have "distinct (map d_key ds)" using assms(2) by simp
  then show ?thesis using assms(3-5) by (metis distinct_map inj_onD)
qed

text \<open>Storing at most as many bytes as the entry has keeps the store well-formed.\<close>

lemma store_data_wf:
  assumes "smc_wf s" "apple_smc_get_key_data s key = Some d" "length bs \<le> length (d_data d)"
  shows "\<exists>t. store_data (Some d) bs s = Inr t \<and> smc_wf t \<and> keys t = keys s \<and>
     t = s\<lparr>key_data := upd_data key (blit 0 bs) (key_data s)\<rparr>"
proof -
  have d: "d \<in> set (key_data s)" "d_key d = key"
    using assms(2) by (auto simp: apple_smc_get_key_data_def find_Some_iff)
  have "length (blit 0 bs (d_data e)) = length (d_data e)" if "e \<in> set (key_data s)" "d_key e = key" for e
  proof -
    have "e = d" using entry_unique [of "keys s" "key_data s" e d] assms(1) d that by (simp add: smc_wf_def)
    then show ?thesis using assms(3) by simp
  qed
  then show ?thesis using assms d by (simp add: store_data_def smc_wf_def list_all2_upd_data)
qed

lemma smc_wf_send [simp]:
  "smc_wf (apple_rtkit_send_msg ep raw s) = smc_wf s" "keys (apple_rtkit_send_msg ep raw s) = keys s"
  "key_data (apple_rtkit_send_msg ep raw s) = key_data s" "sram (apple_rtkit_send_msg ep raw s) = sram s"
  by (simp_all add: apple_rtkit_send_msg_def apple_a7iop_send_ap_def smc_wf_def)

lemma smc_wf_requests [simp]: "smc_wf (s\<lparr>requests := r\<rparr>) = smc_wf s"
  by (simp add: smc_wf_def)

lemma smc_wf_sram: "smc_wf s \<Longrightarrow> length m = length (sram s) \<Longrightarrow> smc_wf (s\<lparr>sram := m\<rparr>)"
  by (simp add: smc_wf_def)

text \<open>The functions of other devices do not fault and keep the store.\<close>

definition others_ok :: "'f other_funcs \<Rightarrow> bool" where
  "others_ok oth \<longleftrightarrow> (\<forall>g ke de inp len s. smc_wf s \<longrightarrow>
     (\<exists>r t. oth g ke de inp len s = Inr (r, t) \<and> smc_wf t \<and> keys t = keys s))"

lemma call_key_func_ok:
  assumes "others_ok oth" "smc_wf s" "apple_smc_get_key s key = Some ke"
    "k_read ke = Some f \<or> k_write ke = Some f" "inp = None \<or> inp = Some (sram s)"
  shows "\<exists>r t. call_key_func oth f ke (apple_smc_get_key_data s key) inp len s = Inr (r, t) \<and> smc_wf t \<and> keys t = keys s"
proof -
  obtain d where d: "apple_smc_get_key_data s key = Some d" "entry_ok ke d" "key_ok ke"
    using smc_wf_entry [OF assms(2,3)] by blast
  have word: "\<exists>t. store_data (Some d) bs s = Inr t \<and> smc_wf t \<and> keys t = keys s"
    if "stores_word (Some f)" "length bs = 4" for bs
    using store_data_wf [OF assms(2) d(1), of bs] d that assms(4) by (auto simp: entry_ok_def key_ok_def)
  have load: "\<exists>v. load32 (sram s) = Inr v" using assms(2) by (simp add: load32_def smc_wf_def)
  show ?thesis
  proof (cases f)
    case KeyCountRead
    then show ?thesis using word [of "rev (to_le 4 (of_nat (length (keys s)) :: u32))"]
      by (auto simp: call_key_func_def smc_key_count_read_def d stores_word_def)
  next
    case SensorCountRead
    then show ?thesis using word [of "to_le 4 (of_nat (length (filter k_sensor (keys s))) :: u32)"]
      by (auto simp: call_key_func_def apple_smc_sensor_count_read_def d stores_word_def)
  next
    case SensorQueryRead
    obtain q where q: "load32 (sram s) = Inr q" using load by blast
    show ?thesis
      using assms(2,5) SensorQueryRead word [of "to_le 4 (k_key (filter k_sensor (keys s) ! unat q))"]
      by (auto simp: call_key_func_def apple_smc_sensor_query_read_def d q Let_def stores_word_def)
  next
    case MbseWrite
    obtain v where v: "load32 (sram s) = Inr v" using load by blast
    show ?thesis using assms(2,5) MbseWrite
      by (auto simp: call_key_func_def apple_smc_mbse_write_def v apple_rtkit_send_user_msg_def)
  next
    case (OtherFunc g)
    then show ?thesis using assms(1,2) by (simp add: call_key_func_def others_ok_def)
  qed
qed

lemma k_size_le: "unat (k_size k) \<le> 255"
  using unsigned_less [of "k_size k", where 'a = nat] by simp

lemma key_read_ok:
  assumes "entry_ok ke d" "unat (k_size ke) \<le> length out"
  shows "\<exists>r out'. apple_smc_key_read ke (Some d) len out = Inr (r, out') \<and> length out' = length out"
  using assms by (simp add: apple_smc_key_read_def entry_ok_def)

lemma smc_read_key_ok:
  assumes "others_ok oth" "smc_wf s"
  shows "\<exists>raw t. smc_read_key oth tag key len plen s = Inr (raw, t) \<and> smc_wf t \<and> keys t = keys s"
proof (cases "apple_smc_get_key s key")
  case None
  then show ?thesis using assms by (simp add: smc_read_key_def)
next
  case (Some ke)
  show ?thesis
  proof (cases "k_attr ke AND SMC_ATTR_R = 0")
    case True
    then show ?thesis using Some assms by (simp add: smc_read_key_def)
  next
    case False
    have "\<exists>r t. smc_run_reader oth ke key plen s = Inr (r, t) \<and> smc_wf t \<and> keys t = keys s"
      using call_key_func_ok [OF assms Some] assms(2) by (cases "k_read ke") (auto simp: smc_run_reader_def)
    then obtain r t where t: "smc_run_reader oth ke key plen s = Inr (r, t)" "smc_wf t" "keys t = keys s" by blast
    have "apple_smc_get_key t key = Some ke" using Some t(3) by (simp add: apple_smc_get_key_def)
    then obtain d where d: "apple_smc_get_key_data t key = Some d" "entry_ok ke d"
      using smc_wf_entry [OF t(2)] by blast
    have "\<exists>r out'. apple_smc_key_read ke (Some d) len (sram t) = Inr (r, out') \<and> length out' = length (sram t)"
      using key_read_ok [OF d(2)] k_size_le [of ke] t(2) by (simp add: smc_wf_def)
    moreover have "k_size ke \<le> 4 \<Longrightarrow> \<exists>r out'. apple_smc_key_read ke (Some d) len (replicate 4 0) = Inr (r, out')"
      using key_read_ok [OF d(2), of "replicate 4 0" len] by (simp add: word_le_nat_alt) blast
    ultimately show ?thesis
      using Some False t d smc_wf_sram [OF t(2)] by (auto simp: smc_read_key_def Let_def simp del: rbind_eq_Inr)
  qed
qed

lemma smc_write_key_ok:
  assumes "others_ok oth" "smc_wf s"
  shows "\<exists>raw t. smc_write_key oth tag key len s = Inr (raw, t) \<and> smc_wf t \<and> keys t = keys s"
proof (cases "apple_smc_get_key s key")
  case None
  then show ?thesis using assms by (simp add: smc_write_key_def)
next
  case (Some ke)
  obtain d where d: "apple_smc_get_key_data s key = Some d" "entry_ok ke d"
    using smc_wf_entry [OF assms(2) Some] by blast
  have "\<exists>t. store_data (Some d) (take (unat (k_size ke)) (sram s)) s = Inr t \<and> smc_wf t \<and> keys t = keys s"
    using store_data_wf [OF assms(2) d(1), of "take (unat (k_size ke)) (sram s)"] d(2) by (auto simp: entry_ok_def)
  moreover have "unat (k_size ke) \<le> length (sram s)" using assms(2) k_size_le [of ke] by (simp add: smc_wf_def)
  moreover have "\<exists>r t. call_key_func oth f ke (Some d) (if len = 0 then None else Some (sram s)) len s = Inr (r, t) \<and>
      smc_wf t \<and> keys t = keys s" if "k_write ke = Some f" for f
    using call_key_func_ok [OF assms Some, of f "if len = 0 then None else Some (sram s)" len] that d by simp
  ultimately have "\<exists>r t. smc_run_writer oth ke key len s = Inr (r, t) \<and> smc_wf t \<and> keys t = keys s"
    using assms(2) d by (cases "k_write ke") (auto simp: smc_run_writer_def)
  then show ?thesis using Some assms(2) by (auto simp: smc_write_key_def simp del: rbind_eq_Inr)
qed

lemma smc_key_info_ok:
  assumes "smc_wf s"
  shows "\<exists>raw t. smc_key_info tag key s = Inr (raw, t) \<and> smc_wf t \<and> keys t = keys s"
proof -
  have "6 \<le> length (sram s)" using assms by (simp add: smc_wf_def)
  then show ?thesis using assms by (auto simp: smc_key_info_def intro!: smc_wf_sram split: option.splits)
qed

subsection \<open>Properties\<close>

text \<open>
  Property C7 (safety). The key endpoint never faults: whatever message the guest sends, the handler
  finishes, without dereferencing a missing entry or leaving a buffer, and keeps the key store
  well-formed with the same keys.
\<close>

theorem smc_key_endpoint_safe:
  assumes others: "others_ok oth" and "smc_wf s" "unat ep < 224"
  shows "\<exists>t. apple_smc_handle_key_endpoint oth ep msg s = Inr t \<and> smc_wf t \<and> keys t = keys s"
proof -
  define m where "m = to_le 8 msg"
  obtain r1 t1 where r: "smc_read_key oth (m ! 1) (of_le (drop 4 m)) (m ! 2) (m ! 3) s = Inr (r1, t1)" "smc_wf t1" "keys t1 = keys s"
    using smc_read_key_ok [OF assms(1,2)] by blast
  obtain r2 t2 where w: "smc_write_key oth (m ! 1) (of_le (drop 4 m)) (m ! 2) s = Inr (r2, t2)" "smc_wf t2" "keys t2 = keys s"
    using smc_write_key_ok [OF assms(1,2)] by blast
  obtain r3 t3 where i: "smc_key_info (m ! 1) (of_le (drop 4 m)) s = Inr (r3, t3)" "smc_wf t3" "keys t3 = keys s"
    using smc_key_info_ok [OF assms(2)] by blast
  show ?thesis
    unfolding apple_smc_handle_key_endpoint_def Let_def m_def [symmetric]
    using r w i assms(2,3) by (simp add: apple_rtkit_send_user_msg_def)
qed

definition smc_demo :: "unit AppleSMCState" where
  "smc_demo =
     \<lparr>iop_role = ''SMC'', mbox = mbox_demo, cpu_status = 1, cpu_ctrl = 0, ep0_status = 0, protocol_version = 0,
      endpoints = Map.empty, rollcall = [],
      keys = [\<lparr>k_size = 4, k_type = 0, k_attr = 0x90, k_key = fourcc ''#KEY'', k_sensor = False,
               k_read = Some KeyCountRead, k_write = None\<rparr>,
              \<lparr>k_size = 1, k_type = 0, k_attr = SMC_ATTR_RW, k_key = fourcc ''LGPB'', k_sensor = False,
               k_read = None, k_write = None\<rparr>],
      key_data = [\<lparr>d_key = fourcc ''#KEY'', d_size = 4, d_data = [0, 0, 0, 0]\<rparr>,
                  \<lparr>d_key = fourcc ''LGPB'', d_size = 1, d_data = [0]\<rparr>],
      sram = replicate 255 7, sram_addr = 0, is_booted = True, requests = []\<rparr>"

lemma fourcc_demo: "fourcc ''#KEY'' = 0x234B4559" "fourcc ''LGPB'' = 0x4C475042"
  by code_simp+

lemma smc_demo_wf: "smc_wf smc_demo"
  by (simp add: smc_demo_def smc_wf_def fourcc_demo entry_ok_def key_ok_def stores_word_def)

theorem smc_key_endpoint_safe_witness:
  "\<exists>t. apple_smc_handle_key_endpoint (\<lambda>_ _ _ _ _ s. Inr (0, s)) 0 0x10 smc_demo = Inr t \<and> smc_wf t"
  using smc_key_endpoint_safe [of "\<lambda>_ _ _ _ _ s. Inr (0, s)" smc_demo 0 "0x10"] smc_demo_wf
  by (auto simp: others_ok_def)

text \<open>The keys the machine is built with.\<close>

fun spec_key :: "'f key_spec \<Rightarrow> u32" where
  "spec_key (KPlain k _ _ _ _) = k"
| "spec_key (KSensor k _ _ _ _) = k"
| "spec_key (KFunc k _ _ _ _ _) = k"

fun spec_ok :: "'f key_spec \<Rightarrow> bool" where
  "spec_ok (KPlain _ sz _ attr data) \<longleftrightarrow> attr AND SMC_ATTR_FUNC = 0 \<and> (case data of None \<Rightarrow> True | Some bs \<Rightarrow> unat sz \<le> length bs)"
| "spec_ok (KSensor _ sz _ attr data) \<longleftrightarrow> attr AND SMC_ATTR_FUNC = 0 \<and> (case data of None \<Rightarrow> True | Some bs \<Rightarrow> unat sz \<le> length bs)"
| "spec_ok (KFunc _ sz _ attr r w) \<longleftrightarrow> attr AND (SMC_ATTR_FUNC OR SMC_ATTR_RW) = 0 \<and> (stores_word r \<or> stores_word w \<longrightarrow> sz = 4)"

lemma insert_key_ok:
  assumes "smc_wf s" "k_key ke \<notin> k_key ` set (keys s)" "entry_ok ke de" "key_ok ke"
  shows "\<exists>t. apple_smc_insert_key ke de s = Inr t \<and> smc_wf t \<and> map k_key (keys t) = map k_key (keys s) @ [k_key ke] \<and>
     endpoints t = endpoints s"
proof -
  have "apple_smc_get_key s (k_key ke) = None" using assms(2) by (simp add: apple_smc_get_key_def find_None_iff image_iff) metis
  then show ?thesis using assms by (auto simp: apple_smc_insert_key_def smc_wf_def list_all2_appendI)
qed

lemma add_spec_ok:
  fixes s :: "'f AppleSMCState"
  assumes "smc_wf s" "spec_ok k" "spec_key k \<notin> k_key ` set (keys s)"
  shows "\<exists>t. add_spec k s = Inr t \<and> smc_wf t \<and> map k_key (keys t) = map k_key (keys s) @ [spec_key k] \<and>
     endpoints t = endpoints s"
proof (cases k)
  case (KPlain key sz type attr data)
  let ?e = "apple_smc_new_key key sz type attr data :: 'f SMCKey \<times> SMCKeyData"
  have "entry_ok (fst ?e) (snd ?e)" "key_ok (fst ?e)" "k_key (fst ?e) = key"
    using assms(2) KPlain
    by (auto simp: apple_smc_new_key_def entry_ok_def key_ok_def stores_word_def split: option.splits)
  then show ?thesis using insert_key_ok [of s "fst ?e" "snd ?e"] assms KPlain
    by (simp add: apple_smc_add_key_def case_prod_beta)
next
  case (KSensor key sz type attr data)
  let ?e = "apple_smc_new_key key sz type attr data :: 'f SMCKey \<times> SMCKeyData"
  have "entry_ok ((fst ?e)\<lparr>k_sensor := True\<rparr>) (snd ?e)" "key_ok ((fst ?e)\<lparr>k_sensor := True\<rparr>)" "k_key (fst ?e) = key"
    using assms(2) KSensor
    by (auto simp: apple_smc_new_key_def entry_ok_def key_ok_def stores_word_def split: option.splits)
  then show ?thesis using insert_key_ok [of s "(fst ?e)\<lparr>k_sensor := True\<rparr>" "snd ?e"] assms KSensor
    by (simp add: apple_smc_add_sensor_def case_prod_beta)
next
  case (KFunc key sz type attr r w)
  let ?e = "\<lambda>a. apple_smc_new_key key sz type a None :: 'f SMCKey \<times> SMCKeyData"
  have "entry_ok ((fst (?e a))\<lparr>k_read := r, k_write := w\<rparr>) (snd (?e a))" "key_ok ((fst (?e a))\<lparr>k_read := r, k_write := w\<rparr>)"
    "k_key (fst (?e a)) = key" for a
    using assms(2) KFunc by (auto simp: apple_smc_new_key_def entry_ok_def key_ok_def)
  then show ?thesis using insert_key_ok [of s "(fst (?e a))\<lparr>k_read := r, k_write := w\<rparr>" "snd (?e a)" for a] assms KFunc
    by (simp add: apple_smc_add_key_func_def case_prod_beta Let_def)
qed

lemma add_specs_ok:
  "smc_wf s \<Longrightarrow> list_all spec_ok ks \<Longrightarrow> distinct (map k_key (keys s) @ map spec_key ks) \<Longrightarrow>
   \<exists>t. add_specs ks s = Inr t \<and> smc_wf t \<and> map k_key (keys t) = map k_key (keys s) @ map spec_key ks \<and>
     endpoints t = endpoints s"
proof (induction ks arbitrary: s)
  case (Cons k ks)
  then obtain u where u: "add_spec k s = Inr u" "smc_wf u" "map k_key (keys u) = map k_key (keys s) @ [spec_key k]"
    "endpoints u = endpoints s"
    using add_spec_ok [of s k] by force
  then show ?case using Cons.IH [of u] Cons.prems by auto
qed simp

definition smc_keys_all :: "'f key_spec list" where
  "smc_keys_all = smc_keys_system @ smc_keys_sensors @ smc_keys_power"

lemma smc_keys_all_ok: "list_all spec_ok smc_keys_all"
  by (simp add: smc_keys_all_def smc_keys_system_def smc_keys_sensors_def smc_keys_power_def stores_word_def list.pred_map
      comp_def list.pred_True)

lemma length_smc_keys_all: "length smc_keys_all = 79"
  by (simp add: smc_keys_all_def smc_keys_system_def smc_keys_sensors_def smc_keys_power_def)

lemma smc_keys_all_distinct: "distinct (map spec_key smc_keys_all)"
  by code_simp

text \<open>Registering the endpoints and adding the keys, as \<open>apple_smc_create\<close> does.\<close>

lemma smc_create_state:
  assumes "255 \<le> length mem"
  shows "\<exists>(r :: unit AppleRTKit) u (s :: 'f AppleSMCState). apple_rtkit_init ''SMC'' = Inr r \<and>
     apple_rtkit_register_user_ep kSMCKeyEndpoint (Some (Client ())) r = Inr u \<and>
     add_specs smc_keys_all \<lparr>iop_role = iop_role u, mbox = mbox u, cpu_status = cpu_status u, cpu_ctrl = cpu_ctrl u,
       ep0_status = ep0_status u, protocol_version = protocol_version u, endpoints = endpoints u, rollcall = rollcall u,
       keys = [], key_data = [], sram = mem, sram_addr = addr, is_booted = False, requests = []\<rparr> = Inr s \<and>
     smc_wf s \<and> map k_key (keys s) = map spec_key (smc_keys_all :: 'f key_spec list) \<and> length (keys s) = 79 \<and>
     dom (endpoints s) = {0, 1, 32}"
proof -
  obtain r :: "unit AppleRTKit" where r: "apple_rtkit_init ''SMC'' = Inr r" "dom (endpoints r) = {0, 1}"
    by (auto simp: apple_rtkit_init_def apple_rtkit_register_control_ep_def apple_rtkit_register_ep_def Let_def)
  then have "endpoints r 32 = None" using domIff [of 32 "endpoints r"] by simp
  then obtain u where u: "apple_rtkit_register_user_ep kSMCKeyEndpoint (Some (Client ())) r = Inr u"
      "dom (endpoints u) = {0, 1, 32}"
    using r(2) by (auto simp: apple_rtkit_register_user_ep_def apple_rtkit_register_ep_def)
  define s0 where "s0 = \<lparr>iop_role = iop_role u, mbox = mbox u, cpu_status = cpu_status u, cpu_ctrl = cpu_ctrl u,
    ep0_status = ep0_status u, protocol_version = protocol_version u, endpoints = endpoints u, rollcall = rollcall u,
    keys = [] :: 'f SMCKey list, key_data = [], sram = mem, sram_addr = addr, is_booted = False, requests = []\<rparr>"
  have "smc_wf s0" "keys s0 = []" "endpoints s0 = endpoints u" using assms(1) by (simp_all add: s0_def smc_wf_def)
  then obtain t where t: "add_specs smc_keys_all s0 = Inr t" "smc_wf t"
      "map k_key (keys t) = map spec_key (smc_keys_all :: 'f key_spec list)" "endpoints t = endpoints u"
    using add_specs_ok [of s0, OF _ smc_keys_all_ok] smc_keys_all_distinct by auto
  have n: "length (keys t) = 79" using t(3) by (metis length_map length_smc_keys_all)
  have "dom (endpoints t) = {0, 1, 32}" unfolding t(4) by (rule u(2))
  with r(1) u(1) t(1-3) n show ?thesis unfolding s0_def by (intro exI conjI)
qed

lemma smc_create_short:
  assumes "255 \<le> length mem" "length mem \<le> 0xFFFFFFFF" "apple_dt_get_node node (cs ''iop-smc-nub'') = Some path"
    "apple_dt_get_prop node (cs ''reg'') = Some reg" "length (p_data reg) < 32"
  shows "apple_smc_create node addr mem = (Inl OutOfBounds :: ('f AppleSMCState \<times> _) res)"
proof -
  obtain r :: "unit AppleRTKit" and u where s: "apple_rtkit_init ''SMC'' = Inr r"
      "apple_rtkit_register_user_ep kSMCKeyEndpoint (Some (Client ())) r = Inr u"
    using smc_create_state [OF assms(1)] by blast
  have m: "\<not> 0xFFFFFFFF < length mem" using assms(2) by simp
  show ?thesis
    by (cases "length (p_data reg) < 16")
      (simp_all only: apple_smc_create_def assms(3-5) option.case m if_False if_True rbind_simps s)
qed

lemma smc_create_ok:
  assumes "255 \<le> length mem" "length mem \<le> 0xFFFFFFFF" "apple_dt_get_node node (cs ''iop-smc-nub'') = Some path"
    "apple_dt_get_prop node (cs ''reg'') = Some reg" "32 \<le> length (p_data reg)" "\<not> finalised (node_at node path)"
  shows "\<exists>s tree. apple_smc_create node addr mem =
        Inr (s :: 'f AppleSMCState, of_le (bslice 8 8 (p_data reg)), of_le (bslice 24 8 (p_data reg)), tree) \<and>
      smc_wf s \<and> map k_key (keys s) = map spec_key (smc_keys_all :: 'f key_spec list) \<and>
      length (keys s) = 79 \<and> dom (endpoints s) = {0, 1, 32} \<and>
      apple_dt_get_prop_u32 (node_at tree path) (cs ''pre-loaded'') ErrFatal = Inr (1, False) \<and>
      apple_dt_get_prop_u32 (node_at tree path) (cs ''running'') ErrFatal = Inr (1, False)"
proof -
  obtain r :: "unit AppleRTKit" and u and s :: "'f AppleSMCState" where s: "apple_rtkit_init ''SMC'' = Inr r"
      "apple_rtkit_register_user_ep kSMCKeyEndpoint (Some (Client ())) r = Inr u"
      "add_specs smc_keys_all \<lparr>iop_role = iop_role u, mbox = mbox u, cpu_status = cpu_status u, cpu_ctrl = cpu_ctrl u,
         ep0_status = ep0_status u, protocol_version = protocol_version u, endpoints = endpoints u, rollcall = rollcall u,
         keys = [], key_data = [], sram = mem, sram_addr = addr, is_booted = False, requests = []\<rparr> = Inr s"
    and w: "smc_wf s" "map k_key (keys s) = map spec_key (smc_keys_all :: 'f key_spec list)" "length (keys s) = 79"
      "dom (endpoints s) = {0, 1, 32}"
    using smc_create_state [OF assms(1), of addr] by blast
  have n: "length (cs ''pre-loaded'') < 32" "length (cs ''running'') < 32" "cs ''pre-loaded'' \<noteq> cs ''running''"
    by (simp_all add: cs_def)
  obtain a where a: "apple_dt_set_prop_u32 (node_at node path) (cs ''pre-loaded'') 1 = Inr a" "\<not> finalised a"
      "apple_dt_get_prop_u32 a (cs ''pre-loaded'') ErrFatal = Inr (1, False)"
    using set_prop_u32_get [OF assms(6) n(1)] by blast
  obtain b where b: "apple_dt_set_prop_u32 a (cs ''running'') 1 = Inr b" "apple_dt_get_prop_u32 b (cs ''running'') ErrFatal = Inr (1, False)"
      "apple_dt_get_prop b (cs ''pre-loaded'') = apple_dt_get_prop a (cs ''pre-loaded'')"
    using set_prop_u32_get [OF a(2) n(2)] n(3) by blast
  have p: "apple_dt_get_prop_u32 b (cs ''pre-loaded'') ErrFatal = Inr (1, False)"
    using a(3) unfolding apple_dt_get_prop_u32_def get_prop_int_def b(3) .
  have f: "node_at (put_node_at node path b) path = b" using assms(3) by (rule put_node_at_found)
  have l: "\<not> 0xFFFFFFFF < length mem" "\<not> length (p_data reg) < 16" "\<not> length (p_data reg) < 32" using assms(2,5) by simp_all
  have "apple_smc_create node addr mem =
      Inr (s, of_le (bslice 8 8 (p_data reg)), of_le (bslice 24 8 (p_data reg)), put_node_at node path b)"
    by (simp only: apple_smc_create_def assms(3,4) option.case l if_False rbind_simps s(1,2) a(1) b(1) smc_keys_all_def [symmetric] s(3))
  moreover have "apple_dt_get_prop_u32 (node_at (put_node_at node path b) path) (cs ''pre-loaded'') ErrFatal = Inr (1, False)"
    "apple_dt_get_prop_u32 (node_at (put_node_at node path b) path) (cs ''running'') ErrFatal = Inr (1, False)"
    unfolding f by (rule p, rule b(2))
  ultimately show ?thesis using w by (intro exI conjI)
qed

text \<open>
  Property C40 (type). Creating the controller from its device tree node, for every shared memory that
  can be mapped: when the node has the child \<open>iop-smc-nub\<close>, which is not finalised, and a property \<open>reg\<close>
  of at least four words, the creation succeeds. No two of the 79 keys collide, so the fatal duplicate-key
  exit is not taken, every key gets a data entry of its size, and the result is well-formed. The
  management, crash-log and key endpoints are registered, the register windows have the sizes the tree
  gives, and the child reports the co-processor as loaded and running. Without the child or the property
  an assertion fails, and a shorter property is read past its end.
\<close>

theorem smc_create_wf:
  assumes "255 \<le> length mem" "length mem \<le> 0xFFFFFFFF"
  shows "case (apple_dt_get_node node (cs ''iop-smc-nub''), apple_dt_get_prop node (cs ''reg'')) of
     (Some path, Some reg) \<Rightarrow>
       if length (p_data reg) < 32 then apple_smc_create node addr mem = (Inl OutOfBounds :: ('f AppleSMCState \<times> _) res)
       else \<not> finalised (node_at node path) \<longrightarrow>
         (\<exists>s tree. apple_smc_create node addr mem =
             Inr (s :: 'f AppleSMCState, of_le (bslice 8 8 (p_data reg)), of_le (bslice 24 8 (p_data reg)), tree) \<and>
           smc_wf s \<and> map k_key (keys s) = map spec_key (smc_keys_all :: 'f key_spec list) \<and>
           length (keys s) = 79 \<and> dom (endpoints s) = {0, 1, 32} \<and>
           apple_dt_get_prop_u32 (node_at tree path) (cs ''pre-loaded'') ErrFatal = Inr (1, False) \<and>
           apple_dt_get_prop_u32 (node_at tree path) (cs ''running'') ErrFatal = Inr (1, False))
   | _ \<Rightarrow> apple_smc_create node addr mem = (Inl AssertFailed :: ('f AppleSMCState \<times> _) res)"
proof (cases "apple_dt_get_node node (cs ''iop-smc-nub'')")
  case (Some path)
  show ?thesis
  proof (cases "apple_dt_get_prop node (cs ''reg'')")
    case reg: (Some reg)
    show ?thesis
      using smc_create_short [OF assms Some reg, of addr, where 'f = 'f] smc_create_ok [OF assms Some reg, of addr, where 'f = 'f]
      unfolding Some reg prod.case option.case not_le [symmetric] by (cases "32 \<le> length (p_data reg)") simp_all
  qed (use Some assms(2) in \<open>simp add: apple_smc_create_def\<close>)
qed (use assms(2) in \<open>simp add: apple_smc_create_def\<close>)

text \<open>A node with the child and a property of four words.\<close>

definition smc_demo_node :: AppleDTNode where
  "smc_demo_node = DTNode [(cs ''reg'', plain_prop (replicate 32 1))] [DTNode [(cs ''name'', plain_prop (cs ''iop-smc-nub'' @ [0]))] [] False] False"

theorem smc_create_wf_witness:
  "\<exists>s tree. apple_smc_create smc_demo_node 0x1000 (replicate 300 0) =
     Inr (s :: unit AppleSMCState, 0x0101010101010101, 0x0101010101010101, tree) \<and> smc_wf s"
proof -
  have "apple_dt_get_node smc_demo_node (cs ''iop-smc-nub'') = Some [0]" by code_simp
  moreover have "apple_dt_get_prop smc_demo_node (cs ''reg'') = Some (plain_prop (replicate 32 1))" by code_simp
  moreover have "\<not> finalised (node_at smc_demo_node [0])" by (simp add: smc_demo_node_def)
  moreover have "of_le (bslice 8 8 (replicate 32 1)) = (0x0101010101010101 :: u64)"
      "of_le (bslice 24 8 (replicate 32 1)) = (0x0101010101010101 :: u64)" by code_simp+
  ultimately show ?thesis using smc_create_wf [of "replicate 300 0" smc_demo_node "0x1000", where 'f = unit]
    by (auto simp: plain_prop_def)
qed

lemma take_blit: "length bs \<le> length dst \<Longrightarrow> take (length bs) (blit 0 bs dst) = bs"
  by (simp add: blit_def)

text \<open>
  Property C26 (roundtrip). What the guest writes to a plain key is what it reads back: the write
  stores the first bytes of the shared memory and answers success with the size; a later read,
  whatever the shared memory holds by then, returns them in the response when they fit in its four
  bytes and in the shared memory otherwise. No other key's data changes.
\<close>

theorem smc_write_read:
  assumes "smc_wf s" "apple_smc_get_key s key = Some ke" "k_read ke = None" "k_write ke = None"
    and "k_attr ke AND SMC_ATTR_R \<noteq> 0" "k_attr ke AND SMC_ATTR_W \<noteq> 0" "length m = length (sram s)"
  defines "data \<equiv> take (unat (k_size ke)) (sram s)"
  shows "\<exists>t. smc_write_key oth tag key (k_size ke) s = Inr (key_response SMC_RESULT_SUCCESS tag (k_size ke) (replicate 4 0), t) \<and>
     (\<forall>key'. key' \<noteq> key \<longrightarrow> apple_smc_get_key_data t key' = apple_smc_get_key_data s key') \<and>
     smc_read_key oth tag' key (k_size ke) plen (t\<lparr>sram := m\<rparr>) =
       Inr (key_response SMC_RESULT_SUCCESS tag' (k_size ke) (if k_size ke \<le> 4 then blit 0 data (replicate 4 0) else replicate 4 0),
            t\<lparr>sram := if k_size ke \<le> 4 then m else blit 0 data m\<rparr>)"
proof -
  obtain d where d: "apple_smc_get_key_data s key = Some d" "entry_ok ke d"
    using smc_wf_entry [OF assms(1,2)] by blast
  have len: "unat (k_size ke) \<le> length (sram s)" using assms(1) k_size_le [of ke] by (simp add: smc_wf_def)
  then have data: "length data = unat (k_size ke)" "length (d_data d) = unat (k_size ke)"
    using d(2) by (simp_all add: data_def entry_ok_def)
  let ?t = "s\<lparr>key_data := upd_data key (blit 0 data) (key_data s)\<rparr>"
  have store: "store_data (Some d) data s = Inr ?t" using store_data_wf [OF assms(1) d(1), of data] data by auto
  have "smc_write_key oth tag key (k_size ke) s = Inr (key_response SMC_RESULT_SUCCESS tag (k_size ke) (replicate 4 0), ?t)"
    using assms(2,4,6) len store by (simp add: smc_write_key_def smc_run_writer_def d(1) data_def [symmetric])
  moreover have "\<forall>key'. key' \<noteq> key \<longrightarrow> apple_smc_get_key_data ?t key' = apple_smc_get_key_data s key'"
    by (simp add: apple_smc_get_key_data_def find_upd_data_other)
  moreover have get: "apple_smc_get_key_data (?t\<lparr>sram := m\<rparr>) key = Some (d\<lparr>d_data := data\<rparr>)"
    using d(1) data by (simp add: apple_smc_get_key_data_def find_upd_data blit_self)
  have "smc_read_key oth tag' key (k_size ke) plen (?t\<lparr>sram := m\<rparr>) =
       Inr (key_response SMC_RESULT_SUCCESS tag' (k_size ke) (if k_size ke \<le> 4 then blit 0 data (replicate 4 0) else replicate 4 0),
            ?t\<lparr>sram := if k_size ke \<le> 4 then m else blit 0 data m\<rparr>)"
    using assms(2,3,5,7) len data get
    by (simp add: smc_read_key_def smc_run_reader_def apple_smc_get_key_def apple_smc_key_read_def word_le_nat_alt)
  ultimately show ?thesis by blast
qed

theorem smc_write_read_witness:
  "\<exists>t. smc_write_key (\<lambda>_ _ _ _ _ s. Inr (0, s)) 1 (fourcc ''LGPB'') 1 smc_demo = Inr (key_response 0 1 1 (replicate 4 0), t) \<and>
     smc_read_key (\<lambda>_ _ _ _ _ s. Inr (0, s)) 2 (fourcc ''LGPB'') 1 0 (t\<lparr>sram := replicate 255 9\<rparr>) =
       Inr (key_response 0 2 1 (7 # replicate 3 0), t\<lparr>sram := replicate 255 9\<rparr>)"
  using smc_write_read [of smc_demo "fourcc ''LGPB''" "keys smc_demo ! 1" "replicate 255 9" "\<lambda>_ _ _ _ _ s. Inr (0, s)" 1 2 0]
    smc_demo_wf
  by (auto simp: smc_demo_def apple_smc_get_key_def fourcc_demo blit_def)

lemma store_data_get:
  assumes "smc_wf s" "apple_smc_get_key_data s key = Some d" "length bs = length (d_data d)"
  shows "\<exists>t. store_data (Some d) bs s = Inr t \<and> keys t = keys s \<and> sram t = sram s \<and>
     apple_smc_get_key_data t key = Some (d\<lparr>d_data := bs\<rparr>)"
  using store_data_wf [OF assms(1,2), of bs] assms(2,3)
  by (auto simp: apple_smc_get_key_data_def find_upd_data blit_self)

text \<open>
  The guest can enumerate the keys: reading \<open>#KEY\<close> answers the number of
  keys, most significant byte first, and asking for index i answers the i-th key for every smaller i
  and a range error from there on.
\<close>

theorem smc_enumerate_keys:
  assumes "smc_wf s" "apple_smc_get_key s (fourcc ''#KEY'') = Some ke" "k_read ke = Some KeyCountRead"
    and "k_attr ke AND SMC_ATTR_R \<noteq> 0" "4 \<le> len"
  shows "(\<exists>t. smc_read_key oth tag (fourcc ''#KEY'') len plen s =
            Inr (key_response SMC_RESULT_SUCCESS tag 4 (rev (to_le 4 (of_nat (length (keys s)) :: u32))), t) \<and> keys t = keys s) \<and>
         (\<forall>i. smc_key_by_index tag i s =
            (if unat i < length (keys s) then key_response SMC_RESULT_SUCCESS tag 0 (to_le 4 (k_key (keys s ! unat i)))
             else key_response SMC_RESULT_KEY_INDEX_RANGE_ERROR tag 0 (replicate 4 0)))"
proof -
  let ?n = "rev (to_le 4 (of_nat (length (keys s)) :: u32))"
  obtain d where d: "apple_smc_get_key_data s (fourcc ''#KEY'') = Some d" "entry_ok ke d" "key_ok ke"
    using smc_wf_entry [OF assms(1,2)] by blast
  then have sz: "k_size ke = 4" "length (d_data d) = 4"
    using assms(3) by (simp_all add: key_ok_def stores_word_def entry_ok_def)
  obtain t where t: "store_data (Some d) ?n s = Inr t" "keys t = keys s"
      "apple_smc_get_key_data t (fourcc ''#KEY'') = Some (d\<lparr>d_data := ?n\<rparr>)"
    using store_data_get [OF assms(1) d(1), of ?n] sz by auto
  have "\<not> len < 4" using assms(5) by simp
  then have "smc_read_key oth tag (fourcc ''#KEY'') len plen s = Inr (key_response SMC_RESULT_SUCCESS tag 4 ?n, t)"
    using assms(2-4) t sz
    by (simp add: smc_read_key_def smc_run_reader_def call_key_func_def smc_key_count_read_def d(1)
        apple_smc_key_read_def blit_self)
  then show ?thesis using t(2) by (simp add: smc_key_by_index_def)
qed

theorem smc_enumerate_keys_witness:
  "smc_key_by_index 1 1 smc_demo = key_response 0 1 0 (to_le 4 (fourcc ''LGPB'')) \<and>
   (\<exists>t. smc_read_key (\<lambda>_ _ _ _ _ s. Inr (0, s)) 1 (fourcc ''#KEY'') 4 0 smc_demo =
      Inr (key_response 0 1 4 (rev (to_le 4 (2 :: u32))), t))"
  using smc_enumerate_keys [of smc_demo "keys smc_demo ! 0" 4 "\<lambda>_ _ _ _ _ s. Inr (0, s)" 1 0] smc_demo_wf
  by (auto simp: smc_demo_def apple_smc_get_key_def fourcc_demo)

text \<open>
  A reset of the controller during the roll call leaves the remaining roll call
  messages queued, because it skips the reset of the RTKit layer: the next boot reaches the
  acknowledgement of the greeting with a non-empty queue, and the assertion there fails.
\<close>

theorem smc_reset_keeps_rollcall:
  assumes "rollcall s \<noteq> []" "mgmt_type ack = MSG_HELLO_ACK" "10 < extract64 ack 16 16"
    and "\<not> (extract64 ack 0 16 = 0xFFFF \<and> extract64 ack 16 16 = 0xBAD)"
  shows "apple_rtkit_mgmt_handle_msg iter (Some apple_smc_rtkit_ops) EP_MANAGEMENT ack
           (apple_rtkit_iop_start (Some apple_smc_rtkit_ops) (apple_smc_reset_hold s)) = Inl AssertFailed"
  using assms protocol_version_gt_10 [OF assms(3)]
  by (auto simp: apple_rtkit_mgmt_handle_msg_def mgmt_hello_ack_def Let_def apple_rtkit_mgmt_rollcall_v11_def
      apple_rtkit_iop_start_def apple_smc_rtkit_ops_def call_op_def apple_rtkit_mgmt_send_hello_def
      apple_rtkit_mgmt_send_hello_msg_def apple_rtkit_send_msg_def apple_smc_reset_hold_def apple_a7iop_reset_def)

theorem smc_reset_keeps_rollcall_witness:
  "apple_rtkit_mgmt_handle_msg (\<lambda>_. [0, 1, 32]) (Some apple_smc_rtkit_ops) EP_MANAGEMENT 0x00200000000C0003
     (apple_rtkit_iop_start (Some apple_smc_rtkit_ops)
        (apple_smc_reset_hold (smc_demo\<lparr>rollcall := [replicate 16 0]\<rparr>))) = Inl AssertFailed"
proof -
  have "mgmt_type 0x00200000000C0003 = 2" "extract64 0x00200000000C0003 16 16 = 12"
    by (simp_all add: mgmt_type_def extract64_def mask_eq_exp_minus_1)
  then show ?thesis by (intro smc_reset_keeps_rollcall) simp_all
qed

end
