(* ===== verification/Nvram.thy ===== *)
theory Nvram
  imports Cstrings Interfaces
begin

text \<open>
  The NVRAM, \<open>hw/nvram/apple_nvram.c\<close>: environment variables, their text form in the partition
  \<open>common\<close>, and the bank of checksummed partitions on the block device. Lists stand for the queues;
  \<open>adler\<close> is the checksum of zlib. Sizes are natural numbers: a bank has at most 0x2000 bytes.
\<close>

subsection \<open>Data\<close>

abbreviation (input) "CHRP_NVPART_FREE \<equiv> 0x7f :: u8"

record env_var =
  v_name :: bytes
  v_str :: bytes
  v_u :: u64
  v_flags :: u32

record NvramPartition =
  sig :: u8
  pt_len :: nat
  pt_data :: bytes
  pt_name :: bytes

record NvramBank =
  parts :: "NvramPartition list"
  bank_len :: nat

record AppleNvramState =
  bank :: "NvramBank option"
  env :: "env_var list"
  nv_len :: nat

subsection \<open>Numbers in text\<close>

definition digit_val :: "u8 \<Rightarrow> nat" where
  "digit_val b =
     (if 48 \<le> b \<and> b \<le> 57 then unat b - 48
      else if 97 \<le> b \<and> b \<le> 122 then unat b - 87
      else if 65 \<le> b \<and> b \<le> 90 then unat b - 55
      else 36)"

definition digits :: "nat \<Rightarrow> bytes \<Rightarrow> nat list" where
  "digits base s = map digit_val (takeWhile (\<lambda>b. digit_val b < base) s)"

definition num_val :: "nat \<Rightarrow> nat list \<Rightarrow> nat" where
  "num_val base ds = foldl (\<lambda>a d. a * base + d) 0 ds"

definition isspace :: "u8 \<Rightarrow> bool" where
  "isspace b \<longleftrightarrow> b = 32 \<or> 9 \<le> b \<and> b \<le> 13"

text \<open>The base \<open>strtoul\<close> finds for base 0, and where the digits start.\<close>

definition strtoul_base :: "bytes \<Rightarrow> nat \<times> bytes" where
  "strtoul_base s =
     (if s = [] \<or> hd s \<noteq> 48 then (10, s)
      else case tl s of
          x # d # rest \<Rightarrow> if (x = 120 \<or> x = 88) \<and> digit_val d < 16 then (16, d # rest) else (8, s)
        | _ \<Rightarrow> (8, s))"

definition strtoul :: "bytes \<Rightarrow> u64" where
  "strtoul s =
     (let s = dropWhile isspace s;
          neg = (s \<noteq> [] \<and> hd s = 45);
          s = (if s \<noteq> [] \<and> (hd s = 45 \<or> hd s = 43) then tl s else s);
          (base, s) = strtoul_base s;
          n = num_val base (digits base s)
      in if 2 ^ 64 \<le> n then - 1 else if neg then - of_nat n else of_nat n)"

definition hex_digit :: "nat \<Rightarrow> u8" where
  "hex_digit d = (if d < 10 then of_nat (48 + d) else of_nat (87 + d))"

fun hex_digits :: "nat \<Rightarrow> bytes" where
  "hex_digits n = (if n < 16 then [hex_digit n] else hex_digits (n div 16) @ [hex_digit (n mod 16)])"

declare hex_digits.simps [simp del]

subsection \<open>Environment variables\<close>

definition env_find :: "AppleNvramState \<Rightarrow> bytes \<Rightarrow> env_var option" where
  "env_find s name = find (\<lambda>v. v_name v = name) (env s)"

definition env_get :: "AppleNvramState \<Rightarrow> bytes \<Rightarrow> bytes option" where
  "env_get s name = map_option v_str (env_find s name)"

definition env_get_uint :: "AppleNvramState \<Rightarrow> bytes \<Rightarrow> u64 \<Rightarrow> u64" where
  "env_get_uint s name default_val = (case env_find s name of Some v \<Rightarrow> v_u v | None \<Rightarrow> default_val)"

definition env_get_bool :: "AppleNvramState \<Rightarrow> bytes \<Rightarrow> bool \<Rightarrow> bool" where
  "env_get_bool s name default_val =
     (case env_find s name of None \<Rightarrow> default_val
      | Some v \<Rightarrow> if v_str v = cs ''true'' then True else v_u v \<noteq> 0)"

text \<open>\<open>QTAILQ_REMOVE\<close> of the entry that was found.\<close>

fun remove_first :: "('a \<Rightarrow> bool) \<Rightarrow> 'a list \<Rightarrow> 'a list" where
  "remove_first P [] = []"
| "remove_first P (x # xs) = (if P x then xs else x # remove_first P xs)"

definition env_unset :: "bytes \<Rightarrow> AppleNvramState \<Rightarrow> int \<times> AppleNvramState" where
  "env_unset name s =
     (case env_find s name of None \<Rightarrow> (0, s)
      | Some _ \<Rightarrow> (1, s\<lparr>env := remove_first (\<lambda>v. v_name v = name) (env s)\<rparr>))"

text \<open>\<open>g_strlcpy\<close> into the 64 bytes of the name keeps 63 characters.\<close>

definition env_set :: "bytes \<Rightarrow> bytes \<Rightarrow> u32 \<Rightarrow> AppleNvramState \<Rightarrow> int \<times> AppleNvramState" where
  "env_set name val flags s =
     (let s = (if env_find s name \<noteq> None then snd (env_unset name s) else s)
      in (0, s\<lparr>env := env s @ [\<lparr>v_name = take 63 name, v_str = val, v_u = strtoul val, v_flags = flags\<rparr>]\<rparr>))"

definition env_set_uint :: "bytes \<Rightarrow> u64 \<Rightarrow> u32 \<Rightarrow> AppleNvramState \<Rightarrow> int \<times> AppleNvramState" where
  "env_set_uint name val flags s = env_set name (cs ''0x'' @ hex_digits (unat val)) flags s"

definition env_set_bool :: "bytes \<Rightarrow> bool \<Rightarrow> u32 \<Rightarrow> AppleNvramState \<Rightarrow> int \<times> AppleNvramState" where
  "env_set_bool name val flags s = env_set name (if val then cs ''true'' else cs ''false'') flags s"

text \<open>The loop of \<open>env_serialize\<close>; \<open>None\<close> is the result -1. The equals sign is character 61.\<close>

primrec env_serialize_loop :: "env_var list \<Rightarrow> nat \<Rightarrow> nat \<Rightarrow> bytes \<Rightarrow> bytes option" where
  "env_serialize_loop [] len pos buf = Some buf"
| "env_serialize_loop (v # vs) len pos buf =
     (let str = take (len - pos - 1) (v_name v @ [61] @ v_str v);
          buf = blit pos (str @ [0]) buf;
          pos = pos + length str + 1
      in if len \<le> pos then None else env_serialize_loop vs len pos buf)"

definition env_serialize :: "AppleNvramState \<Rightarrow> nat \<Rightarrow> bytes option" where
  "env_serialize s len = (if len = 0 then None else env_serialize_loop (env s) len 0 (replicate len 0))"

subsection \<open>Partitions\<close>

text \<open>\<open>chrp_checksum\<close>: the first byte and bytes 2 to 15 of a header, with end-around carry.\<close>

definition chrp_checksum :: "bytes \<Rightarrow> u8" where
  "chrp_checksum hdr =
     ucast (fold (\<lambda>b sum. let sum = sum + ucast b in (sum + drop_bit 8 (sum AND 0xff00)) AND 0xff)
       (bslice 2 14 hdr) (ucast (hdr ! 0) :: u32))"

definition nvram_find_part :: "NvramBank \<Rightarrow> bytes \<Rightarrow> NvramPartition option" where
  "nvram_find_part b name = find (\<lambda>p. c_string (pt_name p) = name) (parts b)"

definition hdr_len :: "bytes \<Rightarrow> nat" where
  "hdr_len hdr = unat (of_le (bslice 2 2 hdr) :: u16)"

text \<open>
  The loop of \<open>nvram_parse_partitions\<close>. The copy of the name reads up to 16 bytes from the 12 of the
  header.
\<close>

function parse_loop :: "nat \<Rightarrow> bytes \<Rightarrow> nat \<Rightarrow> NvramPartition list res" where
  "parse_loop len buf offset =
     (if offset + 16 \<le> len then
        let hdr = bslice offset 16 buf
        in if hdr ! 1 \<noteq> chrp_checksum hdr then Inr []
           else if hdr ! 0 = CHRP_NVPART_FREE then Inr []
           else if hdr_len hdr * 16 + offset > len \<or> hdr_len hdr < 1 then Inr []
           else if bslice 4 12 hdr = cs ''APL,OSXPani'' @ [0] then parse_loop len buf (offset + hdr_len hdr * 16)
           else if length buf < offset + 20 \<and> 0 \<notin> set (drop (offset + 4) buf) then Inl OutOfBounds
           else rbind (parse_loop len buf (offset + hdr_len hdr * 16)) (\<lambda>ps.
             Inr (\<lparr>sig = hdr ! 0, pt_len = hdr_len hdr * 16 - 16,
                   pt_data = bslice (offset + 16) (hdr_len hdr * 16 - 16) buf,
                   pt_name = strncpy 16 (drop (offset + 4) buf)\<rparr> # ps))
      else Inr [])"
  by pat_completeness auto
termination
  by (relation "measure (\<lambda>(len, _, offset). len - offset)") auto

declare parse_loop.simps [simp del]

definition nvram_parse_partitions :: "NvramBank \<Rightarrow> bytes \<Rightarrow> NvramBank res" where
  "nvram_parse_partitions b buf =
     rbind (parse_loop (bank_len b) buf 0x20) (\<lambda>ps. Inr (b\<lparr>parts := parts b @ ps\<rparr>))"

definition nvram_parse :: "(bytes \<Rightarrow> u32) \<Rightarrow> bytes \<Rightarrow> NvramBank res" where
  "nvram_parse adler buf =
     (let b = \<lparr>parts = [], bank_len = length buf\<rparr>
      in if length buf < 16 then Inl OutOfBounds
         else if buf ! 1 \<noteq> chrp_checksum (bslice 0 16 buf) then Inr b
         else if length buf < 0x14 then Inl OutOfBounds
         else if adler (drop 0x14 buf) \<noteq> of_le (bslice 0x10 4 buf) then Inr b
         else nvram_parse_partitions b buf)"

text \<open>A header: signature, checksum, length, name.\<close>

definition chrp_hdr :: "u8 \<Rightarrow> nat \<Rightarrow> bytes \<Rightarrow> bytes" where
  "chrp_hdr sg len16 name =
     (let hdr = [sg, 0] @ to_le 2 (of_nat len16 :: u16) @ name in hdr[1 := chrp_checksum hdr])"

text \<open>The loop over the partitions; \<open>None\<close> is the result -1.\<close>

primrec prepare_loop :: "nat \<Rightarrow> NvramPartition list \<Rightarrow> nat \<times> bytes \<Rightarrow> (nat \<times> bytes) option" where
  "prepare_loop len [] st = Some st"
| "prepare_loop len (p # ps) st =
     (case st of (offset, buf) \<Rightarrow>
        if pt_len p = 0 then prepare_loop len ps (offset, buf)
        else if offset + 16 > len then None
        else let n = (pt_len p + 16 + 15) div 16;
                 buf = blit offset (chrp_hdr (sig p) n (take 12 (pt_name p))) buf
          in if offset + 16 + pt_len p > len then None
             else prepare_loop len ps
               (offset + unat (of_nat n :: u16) * 16, blit (offset + 16) (pt_data p) buf))"

definition nvram_prepare_bank :: "(bytes \<Rightarrow> u32) \<Rightarrow> NvramBank \<Rightarrow> bytes option res" where
  "nvram_prepare_bank adler b =
     (if bank_len b < 0x18 then Inl OutOfBounds
      else let buf = blit 0 (chrp_hdr 0x5a 2 (cs ''nvram'' @ replicate 7 0)) (replicate (bank_len b) 0)
        in case prepare_loop (bank_len b) (parts b) (0x20, buf) of
             None \<Rightarrow> Inr None
           | Some (offset, buf) \<Rightarrow>
               let buf = (if offset + 16 \<le> bank_len b
                          then blit offset (chrp_hdr CHRP_NVPART_FREE ((bank_len b - offset) div 16) (replicate 12 0)) buf
                          else buf)
               in Inr (Some (blit 0x10 (to_le 4 (adler (drop 0x14 buf))) buf)))"

subsection \<open>Loading and saving\<close>

text \<open>The loop of \<open>apple_nvram_load_env\<close>.\<close>

function load_env_loop :: "bytes \<Rightarrow> nat \<Rightarrow> AppleNvramState \<Rightarrow> AppleNvramState" where
  "load_env_loop data cnt s =
     (if cnt < length data then
        if data ! cnt = 0 then s
        else let name = takeWhile (\<lambda>b. b \<noteq> 61) (drop cnt data)
          in if length data \<le> cnt + length name then s
             else let cnt' = cnt + length name + 1;
                      val = takeWhile (\<lambda>b. b \<noteq> 0) (drop cnt' data)
               in if length data \<le> cnt' + length val then s
                  else load_env_loop data (cnt' + length val + 1) (snd (env_set (c_string name) val 0 s))
      else s)"
  by pat_completeness auto
termination
  by (relation "measure (\<lambda>(data, cnt, _). length data - cnt)") auto

declare load_env_loop.simps [simp del]

definition apple_nvram_load_env :: "AppleNvramState \<Rightarrow> AppleNvramState res" where
  "apple_nvram_load_env s =
     (case bank s of None \<Rightarrow> Inl NullDeref
      | Some b \<Rightarrow> case nvram_find_part b (cs ''common'') of None \<Rightarrow> Inl NullDeref
        | Some p \<Rightarrow> Inr (load_env_loop (pt_data p) 0 s))"

definition common_part :: NvramPartition where
  "common_part = \<lparr>sig = 0x70, pt_len = 0x7f0, pt_data = replicate 0x7f0 0, pt_name = strncpy 16 (cs ''common'')\<rparr>"

text \<open>A bank without the partition gets an empty one at its head.\<close>

definition with_common :: "NvramBank \<Rightarrow> NvramBank" where
  "with_common b = (if nvram_find_part b (cs ''common'') = None then b\<lparr>parts := common_part # parts b\<rparr> else b)"

fun upd_part :: "bytes \<Rightarrow> (NvramPartition \<Rightarrow> NvramPartition) \<Rightarrow> NvramPartition list \<Rightarrow> NvramPartition list" where
  "upd_part name f [] = []"
| "upd_part name f (p # ps) = (if c_string (pt_name p) = name then f p # ps else p # upd_part name f ps)"

text \<open>The bytes written, or \<open>None\<close> for -1, and the state, whose \<open>common\<close> partition holds the variables.\<close>

definition apple_nvram_serialize ::
  "(bytes \<Rightarrow> u32) \<Rightarrow> nat \<Rightarrow> AppleNvramState \<Rightarrow> (bytes option \<times> AppleNvramState) res" where
  "apple_nvram_serialize adler sz s =
     (case bank s of None \<Rightarrow> Inl NullDeref
      | Some b \<Rightarrow>
          let b = with_common b;
              p = the (nvram_find_part b (cs ''common''));
              b = (case env_serialize s (pt_len p) of None \<Rightarrow> b
                   | Some buf \<Rightarrow> b\<lparr>parts := upd_part (cs ''common'') (\<lambda>p. p\<lparr>pt_data := buf\<rparr>) (parts b)\<rparr>);
              s = s\<lparr>bank := Some b\<rparr>
          in rbind (nvram_prepare_bank adler b) (\<lambda>r. Inr (map_option (take sz) r, s)))"

text \<open>\<open>blk_pwrite\<close> at offset 0: the contents of the block device, of which \<open>w\<close> tells that the write succeeds.\<close>

definition apple_nvram_save ::
  "(bytes \<Rightarrow> u32) \<Rightarrow> bool \<Rightarrow> bytes \<Rightarrow> AppleNvramState \<Rightarrow> (bytes \<times> AppleNvramState) res" where
  "apple_nvram_save adler w blk s =
     rbind (apple_nvram_serialize adler (nv_len s) s) (\<lambda>(r, s).
       Inr (case r of None \<Rightarrow> blk | Some bs \<Rightarrow> if w then blit 0 bs blk else blk, s))"

definition apple_nvram_cleanup :: "AppleNvramState \<Rightarrow> AppleNvramState" where
  "apple_nvram_cleanup s = s\<lparr>bank := None, env := []\<rparr>"

text \<open>\<open>r\<close> tells that reading the block device succeeds.\<close>

definition apple_nvram_load :: "(bytes \<Rightarrow> u32) \<Rightarrow> bool \<Rightarrow> bytes \<Rightarrow> AppleNvramState \<Rightarrow> AppleNvramState res" where
  "apple_nvram_load adler r blk s =
     (if \<not> r then Inr s
      else let buffer = take 0x2000 blk; s = (apple_nvram_cleanup s)\<lparr>nv_len := length buffer\<rparr>
        in rbind (nvram_parse adler buffer) (\<lambda>b.
             apple_nvram_load_env (s\<lparr>bank := Some (with_common b), env := []\<rparr>)))"

subsection \<open>The variables as a keyed store\<close>

lemma find_remove_first_other: "(\<And>x. P x \<Longrightarrow> \<not> Q x) \<Longrightarrow> find P (remove_first Q xs) = find P xs"
  by (induction xs) auto

lemma find_remove_first_same:
  "distinct (map f xs) \<Longrightarrow> find (\<lambda>x. f x = k) (remove_first (\<lambda>x. f x = k) xs) = None"
  by (induction xs) (auto simp: find_None_iff image_iff)

lemma distinct_remove_first:
  "distinct (map f xs) \<Longrightarrow> distinct (map f (remove_first P xs)) \<and> set (remove_first P xs) \<subseteq> set xs"
  by (induction xs) auto

lemma find_append: "find P (xs @ ys) = (case find P xs of None \<Rightarrow> find P ys | r \<Rightarrow> r)"
  by (induction xs) auto

definition env_wf :: "AppleNvramState \<Rightarrow> bool" where
  "env_wf s \<longleftrightarrow> distinct (map v_name (env s))"

lemma find_name_None: "find (\<lambda>v. v_name v = k) vs = None \<longleftrightarrow> k \<notin> v_name ` set vs"
  by (auto simp: find_None_iff)

lemma env_unset_wf: "env_wf s \<Longrightarrow> env_wf (snd (env_unset k s)) \<and> env_find (snd (env_unset k s)) k = None"
  using distinct_remove_first [of v_name "env s" "\<lambda>v. v_name v = k"] find_remove_first_same [of v_name "env s" k]
  by (auto simp: env_unset_def env_wf_def env_find_def split: option.splits)

lemma env_unset_other: "k' \<noteq> k \<Longrightarrow> env_find (snd (env_unset k s)) k' = env_find s k'"
  by (auto simp: env_unset_def env_find_def intro: find_remove_first_other split: option.splits)

text \<open>Setting a variable with a name that fits: its old entry goes, the new one comes last.\<close>

lemma env_set_eq:
  assumes "length k \<le> 63"
  shows "snd (env_set k v f s) = (snd (env_unset k s))
     \<lparr>env := env (snd (env_unset k s)) @ [\<lparr>v_name = k, v_str = v, v_u = strtoul v, v_flags = f\<rparr>]\<rparr>"
  using assms by (auto simp: env_set_def Let_def env_unset_def split: option.splits)

lemma env_find_set:
  assumes "env_wf s" "length k \<le> 63"
  shows "env_find (snd (env_set k v f s)) k' =
     (if k' = k then Some \<lparr>v_name = k, v_str = v, v_u = strtoul v, v_flags = f\<rparr> else env_find s k')"
proof (cases "k' = k")
  case True
  then show ?thesis using env_unset_wf [OF assms(1), of k] assms(2) by (simp add: env_set_eq env_find_def find_append)
next
  case False
  then show ?thesis using env_unset_other [of k' k s] assms(2)
    by (simp add: env_set_eq env_find_def find_append split: option.splits)
qed

lemma env_wf_set: "env_wf s \<Longrightarrow> length k \<le> 63 \<Longrightarrow> env_wf (snd (env_set k v f s))"
  using env_unset_wf [of s k] by (simp add: env_set_eq env_wf_def env_find_def find_name_None)

interpretation envs: keyed_store env_get "\<lambda>k v s. snd (env_set k v 0 s)" "\<lambda>k s. snd (env_unset k s)"
  "\<lambda>k v. length k \<le> 63" env_wf
proof
  fix s and k v :: bytes
  assume "env_wf s" "length k \<le> 63"
  then show "env_get (snd (env_set k v 0 s)) = (env_get s)(k \<mapsto> v)" "env_wf (snd (env_set k v 0 s))"
    by (auto simp: env_get_def env_find_set env_wf_set)
next
  fix s k
  assume "env_wf s"
  then show "env_get (snd (env_unset k s)) = (env_get s)(k := None)" "env_wf (snd (env_unset k s))"
    using env_unset_wf [of s k] env_unset_other [of _ k s] by (auto simp: env_get_def fun_eq_iff)
qed

subsection \<open>Numbers\<close>

lemma digit_val_hex_all: "list_all (\<lambda>d. digit_val (hex_digit d) = d) [0..<16]"
  by code_simp

lemma digit_val_hex [simp]: "d < 16 \<Longrightarrow> digit_val (hex_digit d) = d"
  using digit_val_hex_all by (simp add: list_all_iff)

lemma digits_append: "list_all (\<lambda>b. digit_val b < base) xs \<Longrightarrow> digits base (xs @ ys) = map digit_val xs @ digits base ys"
  by (induction xs) (auto simp: digits_def)

lemma hex_digits_ok: "list_all (\<lambda>b. digit_val b < 16) (hex_digits n) \<and> num_val 16 (map digit_val (hex_digits n)) = n"
proof (induction n rule: hex_digits.induct)
  case (1 n)
  show ?case
  proof (cases "n < 16")
    case True
    then show ?thesis by (simp add: hex_digits.simps [of n] num_val_def)
  next
    case False
    then show ?thesis using 1 by (simp add: hex_digits.simps [of n] num_val_def)
  qed
qed

lemma hex_digits_nonempty: "hex_digits n \<noteq> []"
  by (simp add: hex_digits.simps [of n])

lemma strtoul_hex: "strtoul (cs ''0x'' @ hex_digits (unat w)) = w"
proof -
  obtain d ds where h: "hex_digits (unat w) = d # ds" using hex_digits_nonempty by (cases "hex_digits (unat w)") auto
  have ok: "list_all (\<lambda>b. digit_val b < 16) (hex_digits (unat w))" "num_val 16 (map digit_val (hex_digits (unat w))) = unat w"
    using hex_digits_ok by blast+
  have c: "cs ''0x'' = [48, 120]" by code_simp
  have "dropWhile isspace (48 # 120 # d # ds) = 48 # 120 # d # ds" by (simp add: isspace_def)
  moreover have "strtoul_base (48 # 120 # d # ds) = (16, d # ds)" using ok(1) h by (simp add: strtoul_base_def)
  moreover have "digits 16 (d # ds) = map digit_val (d # ds)"
    using digits_append [of 16 "d # ds" "[]"] ok(1) h by (simp add: digits_def)
  moreover have "unat w < 2 ^ 64" using unsigned_less [of w, where 'a = nat] by simp
  ultimately show ?thesis using ok(2) h by (simp add: strtoul_def c)
qed

subsection \<open>The text form\<close>

definition env_text :: "env_var list \<Rightarrow> bytes" where
  "env_text vs = concat (map (\<lambda>v. v_name v @ [61] @ v_str v @ [0]) vs)"

lemma env_text_simps [simp]:
  "env_text [] = []" "env_text (v # vs) = v_name v @ [61] @ v_str v @ [0] @ env_text vs"
  by (simp_all add: env_text_def)

text \<open>Serialising succeeds exactly when the text, with its terminators, is shorter than the buffer.\<close>

lemma env_serialize_loop_text:
  assumes "length buf = len" "pos < len"
  shows "env_serialize_loop vs len pos buf =
     (if pos + length (env_text vs) < len then Some (blit pos (env_text vs) buf) else None)"
  using assms
proof (induction vs arbitrary: pos buf)
  case Nil
  then show ?case by (simp add: blit_def)
next
  case (Cons v vs)
  let ?t = "v_name v @ [61] @ v_str v"
  show ?case
  proof (cases "pos + length ?t + 1 < len")
    case True
    then have t: "take (len - pos - 1) ?t = ?t" by simp
    have e: "env_serialize_loop (v # vs) len pos buf =
        env_serialize_loop vs len (pos + length (?t @ [0])) (blit pos (?t @ [0]) buf)"
      using True unfolding env_serialize_loop.simps t by (simp add: Let_def)
    show ?thesis unfolding e using True Cons.prems blit_blit [of pos "?t @ [0]" "env_text vs" buf]
      by (subst Cons.IH) auto
  next
    case False
    then have "length (take (len - pos - 1) ?t) = len - pos - 1" by simp
    then have "env_serialize_loop (v # vs) len pos buf = None"
      using Cons.prems(2) unfolding env_serialize_loop.simps by (simp only: Let_def) simp
    then show ?thesis using False by simp
  qed
qed

definition env_var_ok :: "env_var \<Rightarrow> bool" where
  "env_var_ok v \<longleftrightarrow> 0 \<notin> set (v_name v) \<and> 61 \<notin> set (v_name v) \<and> length (v_name v) \<le> 63 \<and> 0 \<notin> set (v_str v) \<and>
     v_u v = strtoul (v_str v)"

definition reload :: "env_var \<Rightarrow> env_var" where
  "reload v = v\<lparr>v_flags := 0\<rparr>"

lemma takeWhile_stop: "x \<notin> set xs \<Longrightarrow> takeWhile (\<lambda>b. b \<noteq> x) (xs @ x # ys) = xs"
  by (subst takeWhile_append2) auto

lemma drop_Suc_append: "drop n xs = ys @ zs \<Longrightarrow> drop (n + length ys) xs = zs"
  by (metis append_eq_conv_conj drop_drop add.commute)

lemma env_set_new:
  assumes "length k \<le> 63" "k \<notin> v_name ` set (env s)"
  shows "snd (env_set k v f s) = s\<lparr>env := env s @ [\<lparr>v_name = k, v_str = v, v_u = strtoul v, v_flags = f\<rparr>]\<rparr>"
proof -
  have "env_find s k = None" using assms(2) by (simp add: env_find_def find_name_None)
  then show ?thesis using assms(1) by (simp add: env_set_eq env_unset_def)
qed

lemma load_env_loop_text:
  assumes "list_all env_var_ok vs" "distinct (map v_name vs)" "v_name ` set (env s) \<inter> v_name ` set vs = {}"
    and "drop cnt data = env_text vs @ 0 # rest"
  shows "load_env_loop data cnt s = s\<lparr>env := env s @ map reload vs\<rparr>"
  using assms
proof (induction vs arbitrary: cnt s)
  case Nil
  have "cnt < length data" by (metis Nil.prems(4) drop_eq_Nil append_is_Nil_conv list.distinct(1) not_le)
  moreover from this have "data ! cnt = 0" using Nil.prems(4) by (metis Cons_nth_drop_Suc append_Nil env_text_simps(1) list.inject)
  ultimately show ?case by (simp add: load_env_loop.simps [of data cnt s])
next
  case (Cons v vs)
  let ?n = "v_name v" and ?d = "v_str v"
  have ok: "0 \<notin> set ?n" "61 \<notin> set ?n" "length ?n \<le> 63" "0 \<notin> set ?d" "v_u v = strtoul ?d" using Cons.prems(1) by (simp_all add: env_var_ok_def)
  have d0: "drop cnt data = ?n @ 61 # ?d @ 0 # env_text vs @ 0 # rest" using Cons.prems(4) by simp
  let ?c1 = "cnt + length ?n + 1" and ?c2 = "cnt + length ?n + 1 + length ?d + 1"
  have d1: "drop ?c1 data = ?d @ 0 # env_text vs @ 0 # rest"
    using drop_Suc_append [of cnt data "?n @ [61]"] d0 by (simp add: add.assoc)
  have d2: "drop ?c2 data = env_text vs @ 0 # rest"
    using drop_Suc_append [of ?c1 data "?d @ [0]"] d1 by (simp add: add.assoc)
  have len: "?c2 < length data" by (metis d2 append_is_Nil_conv drop_eq_Nil list.distinct(1) not_le)
  have "data ! cnt = hd (drop cnt data)" using len by (simp add: hd_drop_conv_nth)
  then have nz: "data ! cnt \<noteq> 0" unfolding d0 using ok(1) by (cases ?n) auto
  have n: "takeWhile (\<lambda>b. b \<noteq> 61) (drop cnt data) = ?n" unfolding d0 using ok(2) by (rule takeWhile_stop)
  have dv: "takeWhile (\<lambda>b. b \<noteq> 0) (drop ?c1 data) = ?d" unfolding d1 using ok(4) by (rule takeWhile_stop)
  let ?s = "s\<lparr>env := env s @ [reload v]\<rparr>"
  have "snd (env_set ?n ?d 0 s) = ?s"
    using env_set_new [of ?n s ?d 0] ok(3,5) Cons.prems(3) by (simp add: reload_def)
  then have "load_env_loop data cnt s = load_env_loop data ?c2 ?s"
    using len nz n dv ok(1) by (simp add: load_env_loop.simps [of data cnt s] Let_def add.assoc)
  then show ?case using Cons.IH [of ?s ?c2] Cons.prems d2 by (auto simp: reload_def)
qed

subsection \<open>The bank\<close>

lemma length_chrp_hdr [simp]: "length (chrp_hdr sg n name) = 4 + length name"
  by (simp add: chrp_hdr_def Let_def)

lemma chrp_checksum_upd: "length hdr = 16 \<Longrightarrow> chrp_checksum (hdr[1 := c]) = chrp_checksum hdr"
  by (cases hdr; cases "tl hdr") (simp_all add: chrp_checksum_def bslice_def)

text \<open>A header carries its own checksum, its signature, its length and its name.\<close>

lemma chrp_hdr_fields:
  assumes "length name = 12" "n < 2 ^ 16"
  shows "chrp_hdr sg n name ! 1 = chrp_checksum (chrp_hdr sg n name)" "chrp_hdr sg n name ! 0 = sg"
    "hdr_len (chrp_hdr sg n name) = n" "bslice 4 12 (chrp_hdr sg n name) = name"
proof -
  let ?h = "[sg, 0] @ to_le 2 (of_nat n :: u16) @ name"
  have l: "length ?h = 16" using assms(1) by simp
  show "chrp_hdr sg n name ! 1 = chrp_checksum (chrp_hdr sg n name)"
    unfolding chrp_hdr_def Let_def chrp_checksum_upd [OF l] using l by (simp only: nth_list_update_eq)
  show "chrp_hdr sg n name ! 0 = sg" by (simp add: chrp_hdr_def Let_def)
  have "(unat (of_nat n :: u16)) = n" using assms(2) by (simp add: unsigned_of_nat take_bit_nat_eq_self)
  moreover have "bslice 2 2 (chrp_hdr sg n name) = to_le 2 (of_nat n :: u16)"
    by (simp add: chrp_hdr_def Let_def bslice_def)
  ultimately show "hdr_len (chrp_hdr sg n name) = n" by (simp add: hdr_len_def)
  show "bslice 4 12 (chrp_hdr sg n name) = name"
    using assms(1) by (simp add: chrp_hdr_def Let_def bslice_def numeral_2_eq_2)
qed

definition part_ok :: "NvramPartition \<Rightarrow> bool" where
  "part_ok p \<longleftrightarrow> sig p \<noteq> CHRP_NVPART_FREE \<and> 0 < pt_len p \<and> 16 dvd pt_len p \<and> pt_len p < 0xfff00 \<and>
     length (pt_data p) = pt_len p \<and> length (c_string (pt_name p)) \<le> 11 \<and> pt_name p = strncpy 16 (pt_name p)"

definition part_bytes :: "NvramPartition \<Rightarrow> bytes" where
  "part_bytes p = chrp_hdr (sig p) ((pt_len p + 16) div 16) (take 12 (pt_name p)) @ pt_data p"

definition is_panic :: "NvramPartition \<Rightarrow> bool" where
  "is_panic p \<longleftrightarrow> take 12 (pt_name p) = cs ''APL,OSXPani'' @ [0]"

lemma length_part_name: "part_ok p \<Longrightarrow> length (pt_name p) = 16"
  by (metis length_strncpy part_ok_def)

lemma length_part_bytes: "part_ok p \<Longrightarrow> length (part_bytes p) = 16 + pt_len p"
  by (simp add: part_bytes_def length_part_name part_ok_def)

lemma prepare_loop_bytes:
  assumes "list_all part_ok ps" "length buf = len" "offset + length (concat (map part_bytes ps)) \<le> len"
  shows "prepare_loop len ps (offset, buf) =
    Some (offset + length (concat (map part_bytes ps)), blit offset (concat (map part_bytes ps)) buf)"
  using assms
proof (induction ps arbitrary: offset buf)
  case Nil
  then show ?case by (simp add: blit_def)
next
  case (Cons p ps)
  have ok: "part_ok p" using Cons.prems by simp
  note lp = length_part_bytes [OF ok] length_part_name [OF ok]
  obtain k where k: "pt_len p = 16 * k" using ok by (auto simp: part_ok_def)
  have n: "(pt_len p + 16 + 15) div 16 = (pt_len p + 16) div 16" "(pt_len p + 16) div 16 = Suc k"
    "(31 + pt_len p) div 16 = Suc k" by (simp_all add: k)
  have u: "unat (of_nat (Suc k) :: u16) * 16 = length (part_bytes p)"
    using ok by (simp add: lp part_ok_def k unsigned_of_nat take_bit_nat_eq_self del: of_nat_Suc)
  have data: "length (pt_data p) = pt_len p" "pt_len p \<noteq> 0" using ok by (simp_all add: part_ok_def)
  let ?h = "chrp_hdr (sig p) (Suc k) (take 12 (pt_name p))"
  have pb: "part_bytes p = ?h @ pt_data p" by (simp add: part_bytes_def n)
  have "length ?h = 16" using lp by simp
  then have "blit (offset + 16) (pt_data p) (blit offset ?h buf) = blit offset (part_bytes p) buf"
    using blit_blit [of offset ?h "pt_data p" buf] Cons.prems data by (simp add: pb)
  then have "prepare_loop len (p # ps) (offset, buf) =
      prepare_loop len ps (offset + length (part_bytes p), blit offset (part_bytes p) buf)"
    using Cons.prems data by (simp add: n u Let_def lp del: of_nat_Suc)
  then show ?case using Cons.prems by (simp add: Cons.IH blit_blit)
qed

lemma strncpy_append:
  assumes "part_ok p"
  shows "strncpy 16 (take 12 (pt_name p) @ rest) = pt_name p"
    "0 \<in> set (take 12 (pt_name p))"
proof -
  let ?s = "c_string (pt_name p)"
  have l: "length ?s \<le> 11" and n: "pt_name p = strncpy 16 (pt_name p)" using assms by (simp_all add: part_ok_def)
  have e: "pt_name p = ?s @ replicate (16 - length ?s) 0"
    by (subst n) (use l in \<open>simp add: strncpy_def\<close>)
  have "12 - length ?s = Suc (11 - length ?s)" using l by simp
  then have t: "take 12 (pt_name p) = ?s @ 0 # replicate (11 - length ?s) 0"
    by (subst e) (use l in \<open>simp add: min_def\<close>)
  show "0 \<in> set (take 12 (pt_name p))" unfolding t by simp
  have "c_string (take 12 (pt_name p) @ rest) = ?s" unfolding t by simp
  then show "strncpy 16 (take 12 (pt_name p) @ rest) = pt_name p" using n by (simp add: strncpy_def)
qed

text \<open>What follows the partitions: too little for a header, or a valid free partition.\<close>

definition ends_bank :: "bytes \<Rightarrow> bool" where
  "ends_bank rest \<longleftrightarrow> length rest < 16 \<or> rest ! 1 = chrp_checksum (take 16 rest) \<and> rest ! 0 = CHRP_NVPART_FREE"

lemma parse_loop_bytes:
  assumes "list_all part_ok ps" "length buf = len" "offset \<le> len"
    "drop offset buf = concat (map part_bytes ps) @ rest" "ends_bank rest"
  shows "parse_loop len buf offset = Inr (filter (\<lambda>p. \<not> is_panic p) ps)"
  using assms
proof (induction ps arbitrary: offset)
  case Nil
  then have r: "drop offset buf = rest" by simp
  then have l: "length rest = len - offset" using Nil.prems by auto
  show ?case
  proof (cases "offset + 16 \<le> len")
    case True
    then have "bslice offset 16 buf = take 16 rest" by (simp add: bslice_def r)
    moreover have "\<not> length rest < 16" using True l by simp
    ultimately show ?thesis using Nil.prems True by (simp add: parse_loop.simps [of len buf offset] ends_bank_def Let_def)
  qed (simp add: parse_loop.simps [of len buf offset])
next
  case (Cons p ps)
  have ok: "part_ok p" using Cons.prems by simp
  let ?n = "(pt_len p + 16) div 16"
  let ?h = "chrp_hdr (sig p) ?n (take 12 (pt_name p))" and ?o = "offset + length (part_bytes p)"
  note lp = length_part_bytes [OF ok] length_part_name [OF ok]
  obtain k where k: "pt_len p = 16 * k" "k < 2 ^ 16 - 1" "0 < k" using ok by (auto simp: part_ok_def)
  then have n: "?n < 2 ^ 16" "?n * 16 = 16 + pt_len p" "\<not> ?n < 1" by simp_all
  note f = chrp_hdr_fields [of "take 12 (pt_name p)" ?n "sig p", OF _ n(1)]
  have d: "drop offset buf = ?h @ pt_data p @ concat (map part_bytes ps) @ rest"
    using Cons.prems(4) by (simp add: part_bytes_def [of p])
  have lh: "length ?h = 16" using lp by simp
  have le: "?o \<le> len" using arg_cong [OF d, of length] Cons.prems(2,3) lp lh ok by (simp add: part_ok_def)
  have h: "bslice offset 16 buf = ?h" unfolding bslice_def d using lh by simp
  have d2: "drop ?o buf = concat (map part_bytes ps) @ rest"
    using drop_Suc_append [of offset buf "part_bytes p"] Cons.prems(4) by simp
  have d16: "drop (offset + 16) buf = pt_data p @ concat (map part_bytes ps) @ rest"
    using drop_Suc_append [OF d] lh by simp
  then have data: "bslice (offset + 16) (pt_len p) buf = pt_data p" using ok by (simp add: bslice_def part_ok_def)
  have "drop 4 ?h = take 12 (pt_name p)" using f(4) lp lh by (simp add: bslice_def)
  then have d4: "drop (offset + 4) buf = take 12 (pt_name p) @ drop (offset + 16) buf"
    unfolding d16 using arg_cong [OF d, of "drop 4"] lh by (simp add: add.commute)
  note nm = strncpy_append (1) [OF ok, of "drop (offset + 16) buf"] strncpy_append (2) [OF ok]
  have IH: "parse_loop len buf ?o = Inr (filter (\<lambda>p. \<not> is_panic p) ps)"
    using Cons.IH [of ?o] Cons.prems le d2 by simp
  have sg: "sig p \<noteq> CHRP_NVPART_FREE" using ok by (simp add: part_ok_def)
  define hd where "hd = ?h"
  have "length (take 12 (pt_name p)) = 12" using lp by simp
  note f' = f [OF this, folded hd_def]
  show ?case
    apply (subst parse_loop.simps)
    using le lp IH sg f' nm n data h [folded hd_def]
    by (simp add: Let_def d4 is_panic_def)
qed

definition parts_bytes :: "NvramBank \<Rightarrow> bytes" where
  "parts_bytes b = concat (map part_bytes (parts b))"

definition bank_ok :: "NvramBank \<Rightarrow> bool" where
  "bank_ok b \<longleftrightarrow> list_all part_ok (parts b) \<and> 0x20 + length (parts_bytes b) \<le> bank_len b \<and> bank_len b \<le> 0x2000"

lemma blit_append: "length xs = off \<Longrightarrow> length bs \<le> length ys \<Longrightarrow> blit off bs (xs @ ys) = xs @ bs @ drop (length bs) ys"
  by (simp add: blit_def)

definition bank_hdr :: bytes where
  "bank_hdr = chrp_hdr 0x5a 2 (cs ''nvram'' @ replicate 7 0)"

lemma length_bank_hdr [simp]: "length bank_hdr = 16"
  by (simp add: bank_hdr_def cs_def)

lemma bank_hdr_checksum: "bank_hdr ! Suc 0 = chrp_checksum bank_hdr"
  using chrp_hdr_fields(1) [of "cs ''nvram'' @ replicate 7 0" 2 "0x5a"] by (simp add: bank_hdr_def cs_def)

text \<open>The layout of a prepared bank: header, checksum of the rest, partitions, a free partition.\<close>

lemma nvram_prepare_bank_layout:
  assumes "bank_ok b"
  shows "\<exists>rest. ends_bank rest \<and> 0x20 + length (parts_bytes b) + length rest = bank_len b \<and>
    nvram_prepare_bank adler b = Inr (Some (bank_hdr @
      to_le 4 (adler (replicate 12 0 @ parts_bytes b @ rest)) @ replicate 12 0 @ parts_bytes b @ rest))"
proof -
  let ?n = "bank_len b" and ?C = "parts_bytes b"
  let ?off = "0x20 + length ?C"
  have ok: "list_all part_ok (parts b)" "?off \<le> ?n" "?n \<le> 0x2000" using assms by (simp_all add: bank_ok_def)
  let ?b0 = "bank_hdr @ replicate (?n - 16) 0"
  have b0: "blit 0 bank_hdr (replicate ?n 0) = ?b0" by (simp add: blit_def)
  have l0: "length ?b0 = ?n" using ok by simp
  have zs: "?b0 = (bank_hdr @ replicate 16 0) @ replicate (?n - 32) 0"
    using ok by (simp add: replicate_add [symmetric])
  have b1: "blit 0x20 ?C ?b0 = bank_hdr @ replicate 16 0 @ ?C @ replicate (?n - ?off) 0"
    unfolding zs by (subst blit_append) (use ok in auto)
  have p: "prepare_loop ?n (parts b) (0x20, ?b0) = Some (?off, blit 0x20 ?C ?b0)"
    using prepare_loop_bytes [OF ok(1) l0, of "0x20"] ok(2) by (simp add: parts_bytes_def)
  let ?h = "chrp_hdr CHRP_NVPART_FREE ((?n - ?off) div 16) (replicate 12 0)"
  let ?rest = "if ?off + 16 \<le> ?n then ?h @ replicate (?n - ?off - 16) 0 else replicate (?n - ?off) 0"
  have "(?n - ?off) div 16 < 2 ^ 16" using ok by simp
  then have h: "?h ! Suc 0 = chrp_checksum ?h" "?h ! 0 = CHRP_NVPART_FREE"
    using chrp_hdr_fields(1,2) [of "replicate 12 0" "(?n - ?off) div 16" CHRP_NVPART_FREE] by simp_all
  then have e: "ends_bank ?rest" using ok(2) by (cases "?off + 16 \<le> ?n") (auto simp: ends_bank_def nth_append)
  have b2: "(if ?off + 16 \<le> ?n then blit ?off ?h (blit 0x20 ?C ?b0) else blit 0x20 ?C ?b0) =
      bank_hdr @ replicate 16 0 @ ?C @ ?rest"
    unfolding b1 using blit_append [of "bank_hdr @ replicate 16 0 @ ?C" ?off ?h "replicate (?n - ?off) 0"]
    by simp
  have r16: "replicate 16 (0 :: u8) = replicate 4 0 @ replicate 12 0" by (simp add: replicate_add [symmetric])
  have b3: "blit 0x10 (to_le 4 A) (bank_hdr @ replicate 16 0 @ ?C @ ?rest) =
      bank_hdr @ to_le 4 A @ replicate 12 0 @ ?C @ ?rest" for A :: u32
    unfolding r16 by (subst blit_append) auto
  have "nvram_prepare_bank adler b = Inr (Some (bank_hdr @
      to_le 4 (adler (replicate 12 0 @ ?C @ ?rest)) @ replicate 12 0 @ ?C @ ?rest))"
    using ok(2) unfolding nvram_prepare_bank_def Let_def bank_hdr_def [symmetric] b0 p option.case prod.case b2 b3
    by (simp add: r16)
  then show ?thesis using e ok by (intro exI [of _ ?rest]) (simp del: replicate.simps)
qed

text \<open>Parsing a prepared bank gives it back, but for a panic partition.\<close>

lemma nvram_parse_prepared:
  assumes "bank_ok b" "nvram_prepare_bank adler b = Inr (Some buf)"
  shows "length buf = bank_len b" "nvram_parse adler buf = Inr (b\<lparr>parts := filter (\<lambda>p. \<not> is_panic p) (parts b)\<rparr>)"
proof -
  obtain rest where r: "ends_bank rest" "0x20 + length (parts_bytes b) + length rest = bank_len b"
    and buf: "buf = bank_hdr @ to_le 4 (adler (replicate 12 0 @ parts_bytes b @ rest)) @ replicate 12 0 @ parts_bytes b @ rest"
    using nvram_prepare_bank_layout [OF assms(1), of adler] assms(2) by auto
  show l: "length buf = bank_len b" using r(2) by (simp add: buf)
  have d: "drop 0x20 buf = concat (map part_bytes (parts b)) @ rest" by (simp add: buf parts_bytes_def)
  have "bslice 0 16 buf = bank_hdr" "buf ! 1 = bank_hdr ! 1" "drop 0x14 buf = replicate 12 0 @ parts_bytes b @ rest"
    "bslice 0x10 4 buf = to_le 4 (adler (replicate 12 0 @ parts_bytes b @ rest))"
    by (simp_all add: buf bslice_def nth_append)
  moreover have "parse_loop (bank_len b) buf 0x20 = Inr (filter (\<lambda>p. \<not> is_panic p) (parts b))"
    using parse_loop_bytes [OF _ l _ d r(1)] assms(1) by (simp add: bank_ok_def)
  ultimately show "nvram_parse adler buf = Inr (b\<lparr>parts := filter (\<lambda>p. \<not> is_panic p) (parts b)\<rparr>)"
    using r(2) l by (simp add: nvram_parse_def nvram_parse_partitions_def bank_hdr_checksum)
qed

subsection \<open>Saving and loading\<close>

lemma find_part_split:
  assumes "nvram_find_part b name = Some p"
  obtains ps1 ps2 where "parts b = ps1 @ p # ps2" "c_string (pt_name p) = name"
    "\<And>q. q \<in> set ps1 \<Longrightarrow> c_string (pt_name q) \<noteq> name" "\<And>f. upd_part name f (parts b) = ps1 @ f p # ps2"
proof -
  have "\<exists>ps1 ps2. ps = ps1 @ p # ps2 \<and> c_string (pt_name p) = name \<and>
      (\<forall>q \<in> set ps1. c_string (pt_name q) \<noteq> name) \<and> (\<forall>f. upd_part name f ps = ps1 @ f p # ps2)"
    if "find (\<lambda>p. c_string (pt_name p) = name) ps = Some p" for ps
    using that
  proof (induction ps)
    case (Cons q ps)
    show ?case
    proof (cases "c_string (pt_name q) = name")
      case True
      then show ?thesis using Cons.prems by (intro exI [of _ "[]"] exI [of _ ps]) auto
    next
      case False
      then obtain ps1 ps2 where "ps = ps1 @ p # ps2 \<and> c_string (pt_name p) = name \<and>
          (\<forall>q \<in> set ps1. c_string (pt_name q) \<noteq> name) \<and> (\<forall>f. upd_part name f ps = ps1 @ f p # ps2)"
        using Cons by auto
      then show ?thesis using False by (intro exI [of _ "q # ps1"] exI [of _ ps2]) auto
    qed
  qed simp
  then show ?thesis using assms that unfolding nvram_find_part_def by blast
qed

lemma not_panic_common: "c_string (pt_name p) = cs ''common'' \<Longrightarrow> \<not> is_panic p"
proof
  assume c: "c_string (pt_name p) = cs ''common''" and "is_panic p"
  then have "pt_name p = (cs ''APL,OSXPani'' @ [0]) @ drop 12 (pt_name p)"
    by (metis append_take_drop_id is_panic_def)
  moreover have "0 \<notin> set (cs ''APL,OSXPani'')" "cs ''APL,OSXPani'' \<noteq> cs ''common''" by code_simp+
  ultimately show False using c c_string_nul [of "cs ''APL,OSXPani''" "drop 12 (pt_name p)"] by simp
qed

text \<open>The state of the partition after the variables were serialised into it.\<close>

definition put_env :: "bytes \<Rightarrow> NvramBank \<Rightarrow> NvramBank" where
  "put_env buf b = b\<lparr>parts := upd_part (cs ''common'') (\<lambda>p. p\<lparr>pt_data := buf\<rparr>) (parts b)\<rparr>"

lemma put_env_bank:
  assumes "bank_ok b" "nvram_find_part b (cs ''common'') = Some p" "length buf = pt_len p"
  shows "bank_ok (put_env buf b)"
    "nvram_find_part ((put_env buf b)\<lparr>parts := filter (\<lambda>p. \<not> is_panic p) (parts (put_env buf b))\<rparr>) (cs ''common'')
      = Some (p\<lparr>pt_data := buf\<rparr>)"
proof -
  obtain ps1 ps2 where ps: "parts b = ps1 @ p # ps2" "c_string (pt_name p) = cs ''common''"
    "\<And>q. q \<in> set ps1 \<Longrightarrow> c_string (pt_name q) \<noteq> cs ''common''"
    "\<And>f. upd_part (cs ''common'') f (parts b) = ps1 @ f p # ps2"
    using find_part_split [OF assms(2)] by blast
  have ok: "part_ok p" "part_ok (p\<lparr>pt_data := buf\<rparr>)" using assms ps(1) by (auto simp: bank_ok_def part_ok_def)
  then show "bank_ok (put_env buf b)"
    using assms(1) ps(1,4) by (simp add: bank_ok_def put_env_def parts_bytes_def length_part_bytes)
  have "\<not> is_panic (p\<lparr>pt_data := buf\<rparr>)" using not_panic_common [of p] ps(2) by (simp add: is_panic_def)
  moreover have "find (\<lambda>p. c_string (pt_name p) = cs ''common'') (filter (\<lambda>p. \<not> is_panic p) ps1) = None"
    using ps(3) by (auto simp: find_None_iff)
  ultimately show "nvram_find_part ((put_env buf b)\<lparr>parts := filter (\<lambda>p. \<not> is_panic p) (parts (put_env buf b))\<rparr>) (cs ''common'')
      = Some (p\<lparr>pt_data := buf\<rparr>)"
    using ps by (simp add: put_env_def nvram_find_part_def find_append)
qed

lemma find_with_common: "nvram_find_part (with_common b) (cs ''common'') \<noteq> None"
proof -
  have "c_string (pt_name common_part) = cs ''common''" by code_simp
  then show ?thesis by (simp add: with_common_def nvram_find_part_def)
qed

definition env_fits :: "AppleNvramState \<Rightarrow> NvramBank \<Rightarrow> bool" where
  "env_fits s b \<longleftrightarrow> length (env_text (env s)) < pt_len (the (nvram_find_part b (cs ''common'')))"

text \<open>Saving writes a bank whose partition \<open>common\<close> holds the text of the variables.\<close>

lemma apple_nvram_save_writes:
  assumes "bank s = Some b0" "b = with_common b0" "bank_ok b" "env_fits s b" "nv_len s = bank_len b"
    "length blk \<ge> nv_len s" "nvram_find_part b (cs ''common'') = Some p"
    "buf = env_text (env s) @ replicate (pt_len p - length (env_text (env s))) 0"
  shows "\<exists>bs. nvram_prepare_bank adler (put_env buf b) = Inr (Some bs) \<and> length bs = nv_len s \<and>
    apple_nvram_save adler True blk s = Inr (blit 0 bs blk, s\<lparr>bank := Some (put_env buf b)\<rparr>)"
proof -
  have fits: "length (env_text (env s)) < pt_len p" using assms(4,7) by (simp add: env_fits_def)
  then have e: "env_serialize s (pt_len p) = Some buf"
    by (simp add: env_serialize_def env_serialize_loop_text assms(8) blit_def)
  have lb: "length buf = pt_len p" using fits by (simp add: assms(8))
  have ok: "bank_ok (put_env buf b)" by (rule put_env_bank(1) [OF assms(3,7) lb])
  obtain bs where bs: "nvram_prepare_bank adler (put_env buf b) = Inr (Some bs)"
    using nvram_prepare_bank_layout [OF ok, of adler] by blast
  have l: "length bs = bank_len b" using nvram_parse_prepared(1) [OF ok bs] by (simp add: put_env_def)
  have "apple_nvram_save adler True blk s = Inr (blit 0 bs blk, s\<lparr>bank := Some (put_env buf b)\<rparr>)"
    using bs e assms(1,5,7) l unfolding apple_nvram_save_def apple_nvram_serialize_def Let_def
    by (simp add: assms(2) [symmetric] put_env_def)
  then show ?thesis using bs l assms(5) by simp
qed

text \<open>
  Property C5 (roundtrip). Saving the NVRAM and loading it back: if the text of the variables fits the
  partition \<open>common\<close> and the partitions fit the device, then \<open>apple_nvram_save\<close> succeeds, and
  \<open>apple_nvram_load\<close> from the written device finds exactly the same variables in the same order, with
  their strings and numbers, and only their flags cleared; every other partition comes back too, but
  for the one of panic logs, which parsing skips.
\<close>

theorem nvram_save_load:
  assumes "bank s = Some b0" "bank_ok (with_common b0)" "env_fits s (with_common b0)"
    and "nv_len s = bank_len b0" "nv_len s = min 0x2000 (length blk)"
    and "list_all env_var_ok (env s)" "distinct (map v_name (env s))"
  shows "\<exists>blk' s' b' s''. apple_nvram_save adler True blk s = Inr (blk', s') \<and> bank s' = Some b' \<and> env s' = env s \<and>
    apple_nvram_load adler True blk' s0 = Inr s'' \<and> env s'' = map (\<lambda>v. v\<lparr>v_flags := 0\<rparr>) (env s) \<and>
    bank s'' = Some (b'\<lparr>parts := filter (\<lambda>p. \<not> is_panic p) (parts b')\<rparr>)"
proof -
  let ?b = "with_common b0"
  obtain p where p: "nvram_find_part ?b (cs ''common'') = Some p" using find_with_common [of b0] by blast
  define buf where "buf = env_text (env s) @ replicate (pt_len p - length (env_text (env s))) 0"
  have fits: "length (env_text (env s)) < pt_len p" using assms(3) p by (simp add: env_fits_def)
  then have lb: "length buf = pt_len p" by (simp add: buf_def)
  have n: "nv_len s = bank_len ?b" using assms(4) by (simp add: with_common_def)
  obtain bs where bs: "nvram_prepare_bank adler (put_env buf ?b) = Inr (Some bs)" "length bs = nv_len s"
    "apple_nvram_save adler True blk s = Inr (blit 0 bs blk, s\<lparr>bank := Some (put_env buf ?b)\<rparr>)"
    using apple_nvram_save_writes [OF assms(1) refl assms(2,3) n _ p buf_def, of blk adler] assms(5) by auto
  note put = put_env_bank [OF assms(2) p lb]
  let ?b' = "(put_env buf ?b)\<lparr>parts := filter (\<lambda>p. \<not> is_panic p) (parts (put_env buf ?b))\<rparr>"
  have t: "take 0x2000 (blit 0 bs blk) = bs" using bs(2) assms(5) by (auto simp: blit_def min_def split: if_splits)
  have "with_common ?b' = ?b'" using put(2) by (simp add: with_common_def)
  moreover have "drop 0 buf = env_text (env s) @ 0 # replicate (pt_len p - length (env_text (env s)) - 1) 0"
    using fits by (simp add: buf_def Suc_diff_Suc flip: replicate_Suc)
  then have "load_env_loop buf 0 s1 = s1\<lparr>env := map reload (env s)\<rparr>" if "env s1 = []" for s1
    using load_env_loop_text [OF assms(6,7), of s1 0 buf] that by simp
  ultimately have "\<exists>s''. apple_nvram_load adler True (blit 0 bs blk) s0 = Inr s'' \<and> env s'' = map reload (env s) \<and> bank s'' = Some ?b'"
    using nvram_parse_prepared(2) [OF put(1) bs(1)] put(2) t
    by (simp add: apple_nvram_load_def apple_nvram_load_env_def Let_def)
  then show ?thesis using bs(3) by (auto simp: reload_def [abs_def])
qed

definition example_vars :: "env_var list" where
  "example_vars = [\<lparr>v_name = cs ''auto-boot'', v_str = cs ''true'', v_u = 0, v_flags = 1\<rparr>,
     \<lparr>v_name = cs ''debug'', v_str = cs ''0x14e'', v_u = 0x14e, v_flags = 0\<rparr>]"

definition example_bank :: NvramBank where
  "example_bank = \<lparr>parts = [\<lparr>sig = 0x70, pt_len = 16, pt_data = replicate 16 7, pt_name = strncpy 16 (cs ''APL,OSXPani'')\<rparr>,
     \<lparr>sig = 0x70, pt_len = 48, pt_data = replicate 48 0, pt_name = strncpy 16 (cs ''common'')\<rparr>], bank_len = 160\<rparr>"

lemma example_find_common:
  "nvram_find_part example_bank (cs ''common'') = Some (parts example_bank ! 1)"
  by code_simp

lemma example_names:
  "list_all (\<lambda>p. length (c_string (pt_name p)) \<le> 11 \<and> pt_name p = strncpy 16 (pt_name p)) (parts example_bank)"
  by code_simp

lemma example_bank_ok:
  "bank_ok (with_common example_bank)"
  "env_fits \<lparr>bank = Some example_bank, env = example_vars, nv_len = 160\<rparr> (with_common example_bank)"
proof -
  have w: "with_common example_bank = example_bank" by (simp add: with_common_def example_find_common)
  have "list_all part_ok (parts example_bank)"
    using example_names by (simp add: part_ok_def example_bank_def)
  then show "bank_ok (with_common example_bank)"
    unfolding w by (simp add: bank_ok_def parts_bytes_def example_bank_def length_part_bytes)
  have "length (env_text example_vars) = 27" by code_simp
  then show "env_fits \<lparr>bank = Some example_bank, env = example_vars, nv_len = 160\<rparr> (with_common example_bank)"
    unfolding w env_fits_def example_find_common by (simp add: example_bank_def)
qed

lemma strtoul_word:
  assumes "s = [] \<or> \<not> isspace (hd s) \<and> hd s \<noteq> 45 \<and> hd s \<noteq> 43 \<and> hd s \<noteq> 48 \<and> 10 \<le> digit_val (hd s)"
  shows "strtoul s = 0"
  using assms by (cases s) (auto simp: strtoul_def strtoul_base_def digits_def num_val_def)

lemma strtoul_true_false: "strtoul (cs ''true'') = 0" "strtoul (cs ''false'') = 0"
  by (rule strtoul_word, code_simp)+

lemma example_vars_ok: "list_all env_var_ok example_vars" "distinct (map v_name example_vars)"
proof -
  have "cs ''0x14e'' = cs ''0x'' @ hex_digits 334" by code_simp
  then have "strtoul (cs ''0x14e'') = 0x14e" using strtoul_hex [of "0x14e"] by simp
  moreover have "list_all (\<lambda>v. 0 \<notin> set (v_name v) \<and> 61 \<notin> set (v_name v) \<and> length (v_name v) \<le> 63 \<and> 0 \<notin> set (v_str v)) example_vars"
    by code_simp
  ultimately show "list_all env_var_ok example_vars"
    using strtoul_true_false by (simp add: env_var_ok_def example_vars_def)
  show "distinct (map v_name example_vars)" by code_simp
qed

theorem nvram_save_load_witness:
  "\<exists>blk' s' b' s''. apple_nvram_save (\<lambda>bs. of_nat (length bs)) True (replicate 160 0)
      \<lparr>bank = Some example_bank, env = example_vars, nv_len = 160\<rparr> = Inr (blk', s') \<and> bank s' = Some b' \<and>
    env s' = example_vars \<and>
    apple_nvram_load (\<lambda>bs. of_nat (length bs)) True blk' \<lparr>bank = None, env = [], nv_len = 0\<rparr> = Inr s'' \<and>
    env s'' = map (\<lambda>v. v\<lparr>v_flags := 0\<rparr>) example_vars \<and>
    bank s'' = Some (b'\<lparr>parts := filter (\<lambda>p. \<not> is_panic p) (parts b')\<rparr>)"
  using nvram_save_load [of "\<lparr>bank = Some example_bank, env = example_vars, nv_len = 160\<rparr>" example_bank "replicate 160 0"
      "\<lambda>bs. of_nat (length bs)" "\<lparr>bank = None, env = [], nv_len = 0\<rparr>"] example_bank_ok example_vars_ok
  by (simp add: example_bank_def)

subsection \<open>Reading what was set\<close>

text \<open>
  Numbers and flags read back: after \<open>env_set_uint\<close> and then \<open>env_set_bool\<close>
  of two different variables whose names fit, \<open>env_get_uint\<close> gives the number, parsed from the
  hexadecimal text that was stored, \<open>env_get_bool\<close> gives the flag, and every third variable is what
  it was.
\<close>

theorem env_numbers_roundtrip:
  assumes "env_wf s" "length k \<le> 63" "length l \<le> 63" "k \<noteq> l"
  shows "let s' = snd (env_set_bool l b g (snd (env_set_uint k n f s)))
    in env_get_uint s' k d = n \<and> env_get_bool s' l e = b \<and> env_wf s' \<and>
       (\<forall>m. m \<noteq> k \<longrightarrow> m \<noteq> l \<longrightarrow> env_get s' m = env_get s m)"
proof -
  let ?x = "cs ''0x'' @ hex_digits (unat n)"
  have v: "strtoul ?x = n" by (rule strtoul_hex)
  have bs: "cs ''false'' \<noteq> cs ''true''" by code_simp
  have "env_wf (snd (env_set k ?x f s))" using assms env_wf_set by blast
  then show ?thesis using assms v bs strtoul_true_false
    by (auto simp: Let_def env_set_bool_def env_set_uint_def env_get_uint_def env_get_bool_def env_get_def env_find_set env_wf_set)
qed

theorem env_numbers_roundtrip_witness:
  "let s' = snd (env_set_bool (cs ''auto-boot'') False 0 (snd (env_set_uint (cs ''debug'') 0x14e 0
        \<lparr>bank = None, env = example_vars, nv_len = 0\<rparr>)))
    in env_get_uint s' (cs ''debug'') 7 = 0x14e \<and> env_get_bool s' (cs ''auto-boot'') True = False \<and> env_wf s' \<and>
       (\<forall>m. m \<noteq> cs ''debug'' \<longrightarrow> m \<noteq> cs ''auto-boot'' \<longrightarrow>
          env_get s' m = env_get \<lparr>bank = None, env = example_vars, nv_len = 0\<rparr> m)"
proof (rule env_numbers_roundtrip)
  show "env_wf \<lparr>bank = None, env = example_vars, nv_len = 0\<rparr>" "length (cs ''debug'') \<le> 63"
    "length (cs ''auto-boot'') \<le> 63" "cs ''debug'' \<noteq> cs ''auto-boot''" by code_simp+
qed

text \<open>
  A name of 64 or more characters is cut to 63 when it is stored and compared
  whole when it is looked up: setting such a variable succeeds, and reading it back finds nothing. A
  second call adds a second entry of the same cut name, so names are no longer unique.
\<close>

theorem env_long_name_lost:
  assumes "64 \<le> length k" "list_all (\<lambda>v. length (v_name v) \<le> 63) (env s)"
  shows "fst (env_set k v f s) = 0 \<and> env_get (snd (env_set k v f s)) k = None \<and>
    \<not> env_wf (snd (env_set k w f (snd (env_set k v f s))))"
proof -
  have none: "env_find s' k = None" if "list_all (\<lambda>v. length (v_name v) \<le> 63) (env s')" for s'
    using that assms(1) by (auto simp: env_find_def find_None_iff list_all_iff)
  let ?e = "\<lambda>v. \<lparr>v_name = take 63 k, v_str = v, v_u = strtoul v, v_flags = f\<rparr>"
  have set: "env_set k v f s' = (0, s'\<lparr>env := env s' @ [?e v]\<rparr>)" if "list_all (\<lambda>v. length (v_name v) \<le> 63) (env s')" for s' v
    using none [OF that] by (simp add: env_set_def)
  show ?thesis using assms(2) none [of "s\<lparr>env := env s @ [?e v]\<rparr>"]
    by (simp add: set env_get_def env_wf_def)
qed

theorem env_long_name_lost_witness:
  "fst (env_set (replicate 64 65) (cs ''1'') 0 \<lparr>bank = None, env = example_vars, nv_len = 0\<rparr>) = 0 \<and>
   env_get (snd (env_set (replicate 64 65) (cs ''1'') 0 \<lparr>bank = None, env = example_vars, nv_len = 0\<rparr>)) (replicate 64 65) = None \<and>
   \<not> env_wf (snd (env_set (replicate 64 65) (cs ''2'') 0
       (snd (env_set (replicate 64 65) (cs ''1'') 0 \<lparr>bank = None, env = example_vars, nv_len = 0\<rparr>))))"
proof (rule env_long_name_lost)
  show "list_all (\<lambda>v. length (v_name v) \<le> 63) (env \<lparr>bank = None, env = example_vars, nv_len = 0\<rparr>)" by code_simp
qed simp

end
