(* ===== verification/Iommu.thy ===== *)
theory Iommu
  imports Bitops
begin

text \<open>
  The interface between an IOMMU and the memory core: the entry a translation gives
  (\<open>include/system/memory.h\<close>), what \<open>address_space_translate_iommu\<close> of \<open>system/physmem.c\<close> makes of it,
  and the contract that makes one entry good for the whole page it covers.
\<close>

type_synonym IOMMUAccessFlags = u32

abbreviation (input) "IOMMU_NONE \<equiv> 0 :: IOMMUAccessFlags"
abbreviation (input) "IOMMU_RO \<equiv> 1 :: IOMMUAccessFlags"
abbreviation (input) "IOMMU_WO \<equiv> 2 :: IOMMUAccessFlags"
abbreviation (input) "IOMMU_RW \<equiv> 3 :: IOMMUAccessFlags"

definition IOMMU_ACCESS_FLAG :: "bool \<Rightarrow> bool \<Rightarrow> IOMMUAccessFlags" where
  "IOMMU_ACCESS_FLAG r w = (if r then IOMMU_RO else 0) OR (if w then IOMMU_WO else 0)"

text \<open>The target address space is always the system memory.\<close>

record IOMMUTLBEntry =
  iova :: u64
  translated_addr :: u64
  addr_mask :: u64
  perm :: IOMMUAccessFlags

text \<open>
  One round of \<open>address_space_translate_iommu\<close>: the physical address and the length that stays in
  the page, or \<open>None\<close> for the unassigned region.
\<close>

definition iotlb_access :: "IOMMUTLBEntry \<Rightarrow> u64 \<Rightarrow> u64 \<Rightarrow> bool \<Rightarrow> (u64 \<times> u64) option" where
  "iotlb_access iotlb addr plen is_write =
     (if perm iotlb AND push_bit (if is_write then 1 else 0) 1 = 0 then None
      else let addr = (translated_addr iotlb AND NOT (addr_mask iotlb)) OR (addr AND addr_mask iotlb)
        in Some (addr, min plen ((addr OR addr_mask iotlb) - addr + 1)))"

subsection \<open>Pages\<close>

lemma unat_page:
  "unat (drop_bit k (a :: u64)) = unat a div 2 ^ k" "unat (take_bit k (a :: u64)) = unat a mod 2 ^ k"
proof -
  have "unat a < 2 ^ 64" using unsigned_less [of a] by simp
  then have "unat a mod 2 ^ 64 = unat a" by simp
  then show "unat (drop_bit k a) = unat a div 2 ^ k"
    unfolding unsigned_drop_bit_eq by (simp add: drop_bit_eq_div take_bit_eq_mod)
  show "unat (take_bit k a) = unat a mod 2 ^ k"
    unfolding unsigned_take_bit_eq by (simp add: take_bit_eq_mod)
qed

lemma page_add:
  assumes "k \<le> 64" "unat (take_bit k a) + unat i < 2 ^ k"
  shows "drop_bit k (a + i :: u64) = drop_bit k a" "take_bit k (a + i) = take_bit k a + i" "unat (a + i) = unat a + unat i"
proof -
  let ?q = "unat a div 2 ^ k" and ?r = "unat a mod 2 ^ k"
  have a: "unat a = 2 ^ k * ?q + ?r" by simp
  have p: "2 ^ k * 2 ^ (64 - k) = (2 ^ 64 :: nat)" using assms(1) by (simp flip: power_add)
  have "unat a < 2 ^ 64" using unsigned_less [of a] by simp
  then have "unat a < 2 ^ (64 - k) * 2 ^ k" unfolding p [symmetric] by (simp only: mult.commute)
  then have "?q < 2 ^ (64 - k)" by (rule less_mult_imp_div_less)
  then have "2 ^ k * (?q + 1) \<le> 2 ^ k * (2 ^ (64 - k) :: nat)" by (intro mult_le_mono) auto
  then have "2 ^ k * ?q + 2 ^ k \<le> (2 ^ 64 :: nat)" unfolding p by (simp add: algebra_simps)
  then have lt: "unat a + unat i < 2 ^ 64" using a assms(2) unfolding unat_page by linarith
  then show s: "unat (a + i) = unat a + unat i" by (simp add: unat_word_ariths)
  have ri: "?r + unat i < 2 ^ k" using assms(2) by (simp add: unat_page)
  have e: "unat a + unat i = (?r + unat i) + 2 ^ k * ?q" using a by simp
  have r64: "(?r + unat i) mod 2 ^ 64 = ?r + unat i"
    using lt mod_less_eq_dividend [of "unat a" "2 ^ k"] by (intro mod_less) linarith
  have "unat (a + i) div 2 ^ k = ?q" "unat (a + i) mod 2 ^ k = ?r + unat i"
    unfolding s e using ri by (simp_all only: div_mult_self2 mod_mult_self2) auto
  then show "drop_bit k (a + i) = drop_bit k a" "take_bit k (a + i) = take_bit k a + i"
    using s r64 by (simp_all add: word_unat_eq_iff unat_page) (simp add: unat_word_ariths unat_page)
qed

lemma page_join:
  "take_bit k ((t AND NOT (mask k)) OR (a AND mask k)) = take_bit k (a :: u64)"
  "drop_bit k ((t AND NOT (mask k)) OR (a AND mask k)) = drop_bit k (t :: u64)"
  using bit_imp_le_length [of t] by (auto intro!: bit_word_eqI simp: bit_logic)

lemma page_split: "unat (a :: u64) = 2 ^ k * unat (drop_bit k a) + unat (take_bit k a)"
  by (simp add: unat_page)

lemma unat_mask_64: "k \<le> 64 \<Longrightarrow> unat (mask k :: u64) = 2 ^ k - 1"
proof -
  assume "k \<le> 64"
  then have "uint (mask k :: u64) = mask k" by (simp add: uint_mask_eq min_def)
  then have "nat (uint (mask k :: u64)) = nat (mask k)" by simp
  then show ?thesis by (simp add: mask_eq_exp_minus_1 nat_diff_distrib nat_power_eq)
qed

lemma page_rest:
  assumes "k < 64"
  shows "unat ((p OR mask k) - p + 1 :: u64) = 2 ^ k - unat (take_bit k p)"
proof -
  have "drop_bit k (p OR mask k) = drop_bit k p" "take_bit k (p OR mask k) = mask k"
    using assms by (auto intro!: bit_word_eqI simp: bit_logic)
  moreover have "unat (mask k :: u64) = 2 ^ k - 1"
    using assms unat_mask_64 by simp
  ultimately have m: "unat (p OR mask k) = 2 ^ k * unat (drop_bit k p) + (2 ^ k - 1)"
    using page_split [of "p OR mask k" k] by simp
  have r: "unat (take_bit k p) < 2 ^ k" by (simp add: unat_page)
  have "p \<le> p OR mask k" unfolding word_le_nat_alt m using page_split [of p k] r by linarith
  then have "unat ((p OR mask k) - p) = 2 ^ k - 1 - unat (take_bit k p)"
    using unat_sub [of p "p OR mask k"] m page_split [of p k] by simp
  moreover have "(2 :: nat) ^ k < 2 ^ 64" using assms by (intro power_strict_increasing) auto
  ultimately show ?thesis using r by (simp add: unat_word_ariths)
qed

lemma min_sub:
  fixes x y :: u64
  assumes "i \<le> x" "i \<le> y" "unat z = unat y - unat i"
  shows "min (x - i) z = min x y - i"
proof -
  have z: "z = y - i" using assms(2,3) by (simp only: word_unat_eq_iff unat_sub)
  have "x - i \<le> y - i \<longleftrightarrow> x \<le> y"
    using assms(1,2) unat_sub [OF assms(1)] unat_sub [OF assms(2)] by (simp only: word_le_nat_alt) linarith
  then show ?thesis by (simp only: z min_def) simp
qed

lemma iotlb_access_Some:
  "iotlb_access e a len w = Some (p, n) \<longleftrightarrow> perm e AND push_bit (if w then 1 else 0) 1 \<noteq> 0 \<and>
     p = (translated_addr e AND NOT (addr_mask e)) OR (a AND addr_mask e) \<and> n = min len ((p OR addr_mask e) - p + 1)"
  unfolding iotlb_access_def Let_def by (simp only: option.inject prod.inject if_not_P split: if_split) blast

subsection \<open>The contract\<close>

text \<open>
  An IOMMU in state \<open>s\<close> gives for every address an entry of the page size, and all addresses of a page
  the same page frame and the same permissions.
\<close>

locale iommu =
  fixes lookup :: "'s \<Rightarrow> bool \<Rightarrow> u64 \<Rightarrow> IOMMUTLBEntry"
    and shift :: "'s \<Rightarrow> nat"
    and ok :: "'s \<Rightarrow> bool"
  assumes shift_less: "ok s \<Longrightarrow> shift s < 64"
    and entry_mask: "ok s \<Longrightarrow> addr_mask (lookup s w a) = mask (shift s)"
    and same_page: "ok s \<Longrightarrow> drop_bit (shift s) a = drop_bit (shift s) b \<Longrightarrow>
      perm (lookup s w a) = perm (lookup s w b) \<and>
      drop_bit (shift s) (translated_addr (lookup s w a)) = drop_bit (shift s) (translated_addr (lookup s w b))"
begin

text \<open>
  The length the memory core goes on with is good: every byte of it translates, to the next physical
  byte.
\<close>

lemma access_span:
  assumes ok: "ok s" and acc: "iotlb_access (lookup s w a) a len w = Some (p, n)" and i: "unat i < unat n"
  shows "iotlb_access (lookup s w (a + i)) (a + i) (len - i) w = Some (p + i, n - i)"
proof -
  let ?k = "shift s" and ?t = "translated_addr (lookup s w a)" and ?t' = "translated_addr (lookup s w (a + i))"
  let ?j = "\<lambda>t a. (t AND NOT (mask ?k)) OR (a AND mask ?k) :: u64"
  have k: "?k < 64" "?k \<le> 64" using shift_less [OF ok] by simp_all
  have p: "p = ?j ?t a" and n: "n = min len ((p OR mask ?k) - p + 1)"
    and pm: "perm (lookup s w a) AND push_bit (if w then 1 else 0) 1 \<noteq> 0"
    using acc unfolding iotlb_access_Some entry_mask [OF ok] by blast+
  have lo: "take_bit ?k p = take_bit ?k a" and hi: "drop_bit ?k p = drop_bit ?k ?t" unfolding p by (rule page_join)+
  note rest = page_rest [OF k(1)]
  have "n \<le> len" "n \<le> (p OR mask ?k) - p + 1" unfolding n by (rule min.cobounded1, rule min.cobounded2)
  then have ni: "unat i < unat len" "unat i < 2 ^ ?k - unat (take_bit ?k p)"
    using i unfolding word_le_nat_alt rest by linarith+
  then have inp: "unat (take_bit ?k a) + unat i < 2 ^ ?k" "unat (take_bit ?k p) + unat i < 2 ^ ?k" using lo by simp_all
  note pa = page_add [OF k(2) inp(1)] and pp = page_add [OF k(2) inp(2)]
  have same: "perm (lookup s w (a + i)) = perm (lookup s w a)" "drop_bit ?k ?t' = drop_bit ?k ?t"
    using same_page [OF ok pa(1)] by simp_all
  have "?j ?t' (a + i) = p + i"
    unfolding word_unat_eq_iff page_split [of "?j ?t' (a + i)" ?k] page_split [of "p + i" ?k] page_join pp(1,2) pa(2) same lo
    by (simp only: hi)
  moreover have "min (len - i) ((p + i OR mask ?k) - (p + i) + 1) = n - i"
  proof -
    have il: "i \<le> len" "i \<le> (p OR mask ?k) - p + 1" unfolding word_le_nat_alt rest using ni by simp_all
    have "unat (take_bit ?k (p + i)) = unat (take_bit ?k p) + unat i"
      using pp(3) page_split [of "p + i" ?k] page_split [of p ?k] pp(1) by simp
    then have r: "unat ((p + i OR mask ?k) - (p + i) + 1) = unat ((p OR mask ?k) - p + 1) - unat i"
      unfolding rest by simp
    show ?thesis unfolding n by (rule min_sub [OF il r])
  qed
  ultimately show ?thesis using pm unfolding iotlb_access_Some entry_mask [OF ok] same(1) by simp
qed

text \<open>An entry may be cached: it gives every address of its page what a fresh lookup gives.\<close>

lemma access_cached:
  assumes "ok s" "drop_bit (shift s) a = drop_bit (shift s) b"
  shows "iotlb_access (lookup s w a) b len w = iotlb_access (lookup s w b) b len w"
proof -
  have "translated_addr (lookup s w a) AND NOT (mask (shift s)) = translated_addr (lookup s w b) AND NOT (mask (shift s))"
    using same_page [OF assms] by (simp only: and_not_mask_eq)
  then show ?thesis using same_page [OF assms] entry_mask [OF assms(1)] by (simp only: iotlb_access_def)
qed

end

end
