(* ===== verification/Sart.thy ===== *)
theory Sart
  imports Dt Iommu
begin

text \<open>
  The SART, \<open>hw/arm/apple-silicon/sart.c\<close>: a DMA filter with 16 regions that are decoded from the
  registers on every write. Notifications to the memory core are returned as a list of entries.
\<close>

subsection \<open>Data\<close>

abbreviation (input) "SART_NUM_REGIONS \<equiv> 16 :: nat"

record AppleSARTRegion =
  rg_addr :: u64
  rg_size :: u64
  rg_flags :: u32

record AppleSARTState =
  sart_regions :: "AppleSARTRegion list"
  sart_version :: u32
  sart_reg :: "u32 list"

subsection \<open>Operations\<close>

definition sart_get_reg :: "AppleSARTState \<Rightarrow> nat \<Rightarrow> u32" where
  "sart_get_reg s offset = sart_reg s ! (offset div 4)"

definition sart_get_region_addr :: "AppleSARTState \<Rightarrow> nat \<Rightarrow> u64 res" where
  "sart_get_region_addr s region =
     (if \<not> region < SART_NUM_REGIONS then Inl AssertFailed
      else if sart_version s = 1 \<or> sart_version s = 2 then Inr (ucast (sart_get_reg s (0x40 + region * 4) AND 0xFFFFFF))
      else if sart_version s = 3 then Inr (ucast (sart_get_reg s (0x40 + region * 4) AND 0x3FFFFFFF))
      else Inl AssertFailed)"

definition sart_get_region_size :: "AppleSARTState \<Rightarrow> nat \<Rightarrow> u64 res" where
  "sart_get_region_size s region =
     (if \<not> region < SART_NUM_REGIONS then Inl AssertFailed
      else if sart_version s = 1 then Inr (ucast (sart_get_reg s (region * 4) AND 0x7FFFF))
      else if sart_version s = 2 then Inr (ucast (sart_get_reg s (region * 4) AND 0xFFFFFF))
      else if sart_version s = 3 then Inr (ucast (sart_get_reg s (0x80 + region * 4) AND 0x3FFFFFFF))
      else Inl AssertFailed)"

definition sart_get_region_flags :: "AppleSARTState \<Rightarrow> nat \<Rightarrow> u32 res" where
  "sart_get_region_flags s region =
     (if \<not> region < SART_NUM_REGIONS then Inl AssertFailed
      else if sart_version s = 1 then Inr (ucast (ucast (sart_get_reg s (region * 4)) AND NOT (push_bit 12 (0x7FFFF :: u64))))
      else if sart_version s = 2 then Inr (ucast (ucast (sart_get_reg s (region * 4)) AND NOT (push_bit 12 (0xFFFFFF :: u64))))
      else if sart_version s = 3 then Inr (sart_get_reg s (region * 4))
      else Inl AssertFailed)"

text \<open>The pages of a region, one unmap notification each.\<close>

definition sart_unmap :: "AppleSARTRegion \<Rightarrow> IOMMUTLBEntry list" where
  "sart_unmap r = map (\<lambda>curr. \<lparr>iova = push_bit 12 (of_nat curr), translated_addr = 0, addr_mask = 0xFFF, perm = IOMMU_NONE\<rparr>)
     [unat (rg_addr r)..<unat (rg_addr r + rg_size r)]"

text \<open>The body of the loop over the regions.\<close>

definition sart_sync :: "nat \<Rightarrow> AppleSARTState \<times> IOMMUTLBEntry list \<Rightarrow> (AppleSARTState \<times> IOMMUTLBEntry list) res" where
  "sart_sync i = (\<lambda>(s, events).
     rbind (sart_get_region_addr s i) (\<lambda>a. rbind (sart_get_region_size s i) (\<lambda>n. rbind (sart_get_region_flags s i) (\<lambda>f.
       let r = sart_regions s ! i
       in if a \<noteq> rg_addr r \<or> n \<noteq> rg_size r \<or> f \<noteq> rg_flags r
          then Inr (s\<lparr>sart_regions := (sart_regions s)[i := \<lparr>rg_addr = a, rg_size = n, rg_flags = f\<rparr>]\<rparr>, events @ sart_unmap r)
          else Inr (s, events)))))"

fun sart_sync_loop :: "nat list \<Rightarrow> AppleSARTState \<times> IOMMUTLBEntry list \<Rightarrow> (AppleSARTState \<times> IOMMUTLBEntry list) res" where
  "sart_sync_loop [] st = Inr st"
| "sart_sync_loop (i # is) st = rbind (sart_sync i st) (sart_sync_loop is)"

definition base_reg_write :: "hwaddr \<Rightarrow> u64 \<Rightarrow> AppleSARTState \<Rightarrow> (AppleSARTState \<times> IOMMUTLBEntry list) res" where
  "base_reg_write addr data s =
     (if \<not> addr div 4 < length (sart_reg s) then Inl OutOfBounds
      else sart_sync_loop [0..<SART_NUM_REGIONS] (s\<lparr>sart_reg := (sart_reg s)[addr div 4 := ucast data]\<rparr>, []))"

definition base_reg_read :: "hwaddr \<Rightarrow> AppleSARTState \<Rightarrow> u64 res" where
  "base_reg_read addr s =
     (if \<not> addr div 4 < length (sart_reg s) then Inl OutOfBounds else Inr (ucast (sart_reg s ! (addr div 4))))"

definition apple_sart_translate :: "AppleSARTState \<Rightarrow> u64 \<Rightarrow> IOMMUAccessFlags \<Rightarrow> IOMMUTLBEntry" where
  "apple_sart_translate s addr flag =
     (let entry = \<lparr>iova = addr AND NOT 0xFFF, translated_addr = addr AND NOT 0xFFF, addr_mask = 0xFFF, perm = IOMMU_RW\<rparr>;
          addr = drop_bit 12 addr
      in case find (\<lambda>r. rg_addr r \<le> addr \<and> addr < rg_addr r + rg_size r \<and> rg_flags r \<noteq> 0) (sart_regions s) of
           Some _ \<Rightarrow> entry\<lparr>perm := IOMMU_RW\<rparr>
         | None \<Rightarrow> entry)"

definition apple_sart_reset :: "AppleSARTState \<Rightarrow> AppleSARTState" where
  "apple_sart_reset s = s\<lparr>sart_reg := replicate 0x2000 0,
     sart_regions := replicate SART_NUM_REGIONS \<lparr>rg_addr = 0, rg_size = 0, rg_flags = 0\<rparr>\<rparr>"

text \<open>The new device, its name and the size of its register window. A new object is zeroed.\<close>

definition apple_sart_from_node :: "AppleDTNode \<Rightarrow> (AppleSARTState \<times> bytes option \<times> u64) res" where
  "apple_sart_from_node node =
     rbind (apple_dt_get_prop_strdup node (cs ''name'') ErrFatal) (\<lambda>(dev_id, _).
     rbind (apple_dt_get_prop_u32_or node (cs ''sart-version'') 1 ErrFatal) (\<lambda>(version, _).
       if \<not> (1 \<le> version \<and> version \<le> 3) then Inl AssertFailed
       else case apple_dt_get_prop node (cs ''reg'') of
              None \<Rightarrow> Inl AssertFailed
            | Some prop \<Rightarrow>
                if length (p_data prop) < 16 then Inl OutOfBounds
                else Inr (\<lparr>sart_regions = replicate SART_NUM_REGIONS \<lparr>rg_addr = 0, rg_size = 0, rg_flags = 0\<rparr>,
                           sart_version = version, sart_reg = replicate 0x2000 0\<rparr>,
                          dev_id, of_le (bslice 8 8 (p_data prop)))))"

subsection \<open>The regions follow the registers\<close>

definition sart_wf :: "AppleSARTState \<Rightarrow> bool" where
  "sart_wf s \<longleftrightarrow> length (sart_regions s) = 16 \<and> length (sart_reg s) = 0x2000 \<and> 1 \<le> sart_version s \<and> sart_version s \<le> 3"

text \<open>The region the registers describe.\<close>

definition decoded :: "AppleSARTState \<Rightarrow> nat \<Rightarrow> AppleSARTRegion \<Rightarrow> bool" where
  "decoded s i r \<longleftrightarrow> sart_get_region_addr s i = Inr (rg_addr r) \<and> sart_get_region_size s i = Inr (rg_size r) \<and>
     sart_get_region_flags s i = Inr (rg_flags r)"

lemma sart_version_cases: "sart_wf s \<Longrightarrow> sart_version s = 1 \<or> sart_version s = 2 \<or> sart_version s = 3"
proof -
  assume "sart_wf s"
  then have "1 \<le> unat (sart_version s)" "unat (sart_version s) \<le> 3" by (simp_all add: sart_wf_def word_le_nat_alt)
  then have "unat (sart_version s) \<in> {1, 2, 3}" by auto
  then show ?thesis by (auto simp: word_unat_eq_iff)
qed

lemma decoded_ex: "sart_wf s \<Longrightarrow> i < 16 \<Longrightarrow> \<exists>r. decoded s i r"
proof -
  assume "sart_wf s" "i < 16"
  then obtain a n f where "sart_get_region_addr s i = Inr a" "sart_get_region_size s i = Inr n" "sart_get_region_flags s i = Inr f"
    using sart_version_cases [of s]
    by (auto simp: sart_get_region_addr_def sart_get_region_size_def sart_get_region_flags_def)
  then show ?thesis by (intro exI [of _ "\<lparr>rg_addr = a, rg_size = n, rg_flags = f\<rparr>"]) (simp add: decoded_def)
qed

lemma decoded_cong: "sart_reg s' = sart_reg s \<Longrightarrow> sart_version s' = sart_version s \<Longrightarrow> decoded s' = decoded s"
  by (simp add: fun_eq_iff decoded_def sart_get_region_addr_def sart_get_region_size_def sart_get_region_flags_def sart_get_reg_def)

lemma sart_sync_eq:
  "decoded s i r \<Longrightarrow> sart_sync i (s, events) =
     Inr (s\<lparr>sart_regions := (sart_regions s)[i := r]\<rparr>, events @ (if sart_regions s ! i = r then [] else sart_unmap (sart_regions s ! i)))"
proof -
  assume d: "decoded s i r"
  show ?thesis
  proof (cases "sart_regions s ! i = r")
    case True
    then have "(sart_regions s)[i := r] = sart_regions s" by (metis list_update_id)
    then show ?thesis using d True by (simp add: decoded_def sart_sync_def)
  next
    case False
    obtain a n f where r: "r = \<lparr>rg_addr = a, rg_size = n, rg_flags = f\<rparr>" by (cases r)
    obtain a' n' f' where o: "sart_regions s ! i = \<lparr>rg_addr = a', rg_size = n', rg_flags = f'\<rparr>" by (cases "sart_regions s ! i")
    have "a \<noteq> a' \<or> n \<noteq> n' \<or> f \<noteq> f'" using False by (auto simp: r o)
    then show ?thesis using d False by (auto simp: decoded_def sart_sync_def r o)
  qed
qed

lemma sart_sync_loop_eq:
  assumes "sart_wf s" "distinct is" "set is \<subseteq> {..<16}"
  shows "\<exists>s'. sart_sync_loop is (s, events) = Inr (s', events @ concat (map (\<lambda>i.
      if sart_regions s ! i = sart_regions s' ! i then [] else sart_unmap (sart_regions s ! i)) is)) \<and>
    sart_wf s' \<and> sart_reg s' = sart_reg s \<and> sart_version s' = sart_version s \<and>
    (\<forall>i \<in> set is. decoded s i (sart_regions s' ! i)) \<and> (\<forall>i. i \<notin> set is \<longrightarrow> sart_regions s' ! i = sart_regions s ! i)"
  using assms
proof (induction "is" arbitrary: s events)
  case (Cons i "is")
  obtain r where r: "decoded s i r" using decoded_ex [of s i] Cons.prems by auto
  let ?s = "s\<lparr>sart_regions := (sart_regions s)[i := r]\<rparr>"
  let ?ev = "events @ (if sart_regions s ! i = r then [] else sart_unmap (sart_regions s ! i))"
  have wf: "sart_wf ?s" and rest: "distinct is" "set is \<subseteq> {..<16}" using Cons.prems by (simp_all add: sart_wf_def)
  obtain s' where s': "sart_sync_loop is (?s, ?ev) = Inr (s', ?ev @ concat (map (\<lambda>i.
      if sart_regions ?s ! i = sart_regions s' ! i then [] else sart_unmap (sart_regions ?s ! i)) is))"
    "sart_wf s'" "sart_reg s' = sart_reg ?s" "sart_version s' = sart_version ?s"
    "\<forall>i \<in> set is. decoded ?s i (sart_regions s' ! i)" "\<forall>i. i \<notin> set is \<longrightarrow> sart_regions s' ! i = sart_regions ?s ! i"
    using Cons.IH [OF wf rest, of ?ev] by blast
  have i: "i \<notin> set is" "i < length (sart_regions s)" using Cons.prems by (simp_all add: sart_wf_def)
  have ri: "sart_regions s' ! i = r" using s'(6) i by simp
  have same: "map (\<lambda>i. if sart_regions ?s ! i = sart_regions s' ! i then [] else sart_unmap (sart_regions ?s ! i)) is =
      map (\<lambda>i. if sart_regions s ! i = sart_regions s' ! i then [] else sart_unmap (sart_regions s ! i)) is"
    using i by (intro map_cong) (auto simp: nth_list_update)
  have "decoded ?s = decoded s" by (rule decoded_cong) simp_all
  then have dec: "\<forall>j \<in> set (i # is). decoded s j (sart_regions s' ! j)" using s'(5) r ri by simp
  have "sart_sync_loop (i # is) (s, events) = sart_sync_loop is (?s, ?ev)" using sart_sync_eq [OF r, of events] by simp
  then have loop: "sart_sync_loop (i # is) (s, events) = Inr (s', events @ concat (map (\<lambda>i.
      if sart_regions s ! i = sart_regions s' ! i then [] else sart_unmap (sart_regions s ! i)) (i # is)))"
    unfolding s'(1) same by (simp add: ri)
  have "\<forall>j. j \<notin> set (i # is) \<longrightarrow> sart_regions s' ! j = sart_regions s ! j" using s'(6) by simp
  then show ?case using loop dec s'(2-4) by (intro exI [of _ s']) simp
qed simp

text \<open>
  Property C31 (invariant). After every register write the 16 regions are what the registers decode to,
  for each of the three register layouts, the write does not fault, and the memory core has been told
  to drop exactly the pages of those regions that changed, as they were before the write.
\<close>

theorem sart_write_syncs:
  assumes "sart_wf s" "addr < 0x8000"
  shows "\<exists>s' events. base_reg_write addr data s = Inr (s', events) \<and> sart_wf s' \<and>
    sart_reg s' = (sart_reg s)[addr div 4 := ucast data] \<and> list_all (\<lambda>i. decoded s' i (sart_regions s' ! i)) [0..<16] \<and>
    events = concat (map (\<lambda>i. if sart_regions s ! i = sart_regions s' ! i then [] else sart_unmap (sart_regions s ! i)) [0..<16])"
proof -
  let ?s = "s\<lparr>sart_reg := (sart_reg s)[addr div 4 := ucast data]\<rparr>"
  have wf: "sart_wf ?s" and in_range: "addr div 4 < length (sart_reg s)" using assms by (simp_all add: sart_wf_def)
  have rs: "sart_regions ?s = sart_regions s" "sart_reg ?s = (sart_reg s)[addr div 4 := ucast data]" by simp_all
  have ss: "set [0..<16] \<subseteq> {..<16 :: nat}" by auto
  obtain s' where s': "sart_sync_loop [0..<16] (?s, []) = Inr (s', [] @ concat (map (\<lambda>i.
      if sart_regions ?s ! i = sart_regions s' ! i then [] else sart_unmap (sart_regions ?s ! i)) [0..<16]))"
    "sart_wf s'" "sart_reg s' = sart_reg ?s" "sart_version s' = sart_version ?s"
    "\<forall>i \<in> set [0..<16]. decoded ?s i (sart_regions s' ! i)"
    using sart_sync_loop_eq [OF wf distinct_upt ss, of "[]"] by blast
  have "decoded s' = decoded ?s" using s'(3,4) by (rule decoded_cong)
  then have "list_all (\<lambda>i. decoded s' i (sart_regions s' ! i)) [0..<16]" using s'(5) by (simp only: list_all_iff)
  moreover have "base_reg_write addr data s = sart_sync_loop [0..<16] (?s, [])" using in_range by (simp only: base_reg_write_def) simp
  note this [unfolded s'(1) rs append_Nil]
  moreover note s'(2) s'(3) [unfolded rs]
  ultimately show ?thesis by blast
qed

definition sart_demo :: AppleSARTState where
  "sart_demo = apple_sart_reset \<lparr>sart_regions = [], sart_version = 2, sart_reg = []\<rparr>"

lemma sart_reset_wf: "1 \<le> sart_version s \<Longrightarrow> sart_version s \<le> 3 \<Longrightarrow> sart_wf (apple_sart_reset s)"
  by (simp add: sart_wf_def apple_sart_reset_def)

theorem sart_write_syncs_witness:
  "\<exists>s' events. base_reg_write 0x40 0x80000 sart_demo = Inr (s', events) \<and> sart_wf s' \<and>
    sart_reg s' = (sart_reg sart_demo)[0x40 div 4 := ucast (0x80000 :: u64)] \<and>
    list_all (\<lambda>i. decoded s' i (sart_regions s' ! i)) [0..<16] \<and>
    events = concat (map (\<lambda>i. if sart_regions sart_demo ! i = sart_regions s' ! i then [] else sart_unmap (sart_regions sart_demo ! i)) [0..<16])"
  by (rule sart_write_syncs) (simp_all add: sart_demo_def sart_reset_wf)

subsection \<open>Translation\<close>

lemma sart_translate_eq: "apple_sart_translate s addr flag =
    \<lparr>iova = addr AND NOT 0xFFF, translated_addr = addr AND NOT 0xFFF, addr_mask = 0xFFF, perm = IOMMU_RW\<rparr>"
  by (simp add: apple_sart_translate_def Let_def split: option.split)

lemma mask_12: "(0xFFF :: u64) = mask 12"
  by (simp add: mask_eq_exp_minus_1)

interpretation sart: iommu "\<lambda>s w a. apple_sart_translate s a (if w then IOMMU_WO else IOMMU_RO)" "\<lambda>_. 12" "\<lambda>_. True"
  by unfold_locales (simp_all add: sart_translate_eq mask_12 and_not_mask_eq)

text \<open>
  The filter never refuses an access: whatever the registers and the regions are,
  even with no region at all, a read and a write of any address translate to that address, for as
  many bytes as the page has left. The regions have no effect on translation.
\<close>

theorem sart_never_denies:
  "\<exists>n. iotlb_access (apple_sart_translate s addr (if w then IOMMU_WO else IOMMU_RO)) addr plen w = Some (addr, n) \<and>
     apple_sart_translate s addr flag = apple_sart_translate s' addr flag'"
proof -
  have "(addr AND NOT 0xFFF AND NOT 0xFFF) OR (addr AND 0xFFF) = addr"
    by (rule bit_word_eqI) (auto simp: mask_12 bit_logic)
  moreover have "(3 :: u32) AND push_bit (if w then 1 else 0) 1 \<noteq> 0" by (cases w) simp_all
  ultimately show ?thesis by (simp add: sart_translate_eq iotlb_access_def Let_def)
qed

text \<open>A device created from a node of the device tree is well-formed.\<close>

lemma sart_from_node_wf: "apple_sart_from_node node = Inr (s, i, n) \<Longrightarrow> sart_wf s"
  by (auto simp: apple_sart_from_node_def sart_wf_def split: option.splits if_splits)

end
