(* ===== verification/Dart.thy ===== *)
theory Dart
  imports Dt Iommu
begin

text \<open>
  The DART, \<open>hw/arm/apple-silicon/dart.c\<close>: an IOMMU with a page table of three levels for each of 16
  streams. \<open>ldq\<close> stands for \<open>address_space_ldq\<close> on the system memory, \<open>None\<close> for a failed transaction.
  A mapper is named by the index of its instance; an IOMMU region by that index and its stream.
\<close>

subsection \<open>Data\<close>

abbreviation (input) "DART_MAX_STREAMS \<equiv> 16 :: nat"
abbreviation (input) "DART_MAX_TTBR \<equiv> 4 :: nat"
abbreviation (input) "DART_TLB_OP_INVALIDATE \<equiv> 0 :: u32"

abbreviation (input) "R_DART_PARAMS1 \<equiv> 0x0 div 4 :: nat"
abbreviation (input) "R_DART_PARAMS2 \<equiv> 0x4 div 4 :: nat"
abbreviation (input) "R_DART_TLB_OP \<equiv> 0x20 div 4 :: nat"
abbreviation (input) "R_DART_TLB_OP_SET_0_LOW \<equiv> 0x34 div 4 :: nat"
abbreviation (input) "R_DART_TLB_OP_SET_0_HIGH \<equiv> 0x38 div 4 :: nat"
abbreviation (input) "R_DART_ERROR_STATUS \<equiv> 0x40 div 4 :: nat"
abbreviation (input) "R_DART_ERROR_ADDRESS_LOW \<equiv> 0x50 div 4 :: nat"
abbreviation (input) "R_DART_ERROR_ADDRESS_HIGH \<equiv> 0x54 div 4 :: nat"
abbreviation (input) "R_DART_CONFIG \<equiv> 0x60 div 4 :: nat"
abbreviation (input) "DART_TTBR_SHIFT \<equiv> 12 :: nat"
abbreviation (input) "DART_TTBR_MASK \<equiv> 0xFFFFFFF :: u64"
abbreviation (input) "DART_PTE_VALID \<equiv> 1 :: u64"
abbreviation (input) "DART_PTE_ADDR_MASK \<equiv> 0xFFFFFFFFFF :: u64"

definition A_DART_SID_REMAP :: "nat \<Rightarrow> nat" where
  "A_DART_SID_REMAP sid = 0x80 + sid * 4"

definition A_DART_SID_CONFIG :: "nat \<Rightarrow> nat" where
  "A_DART_SID_CONFIG sid = 0x100 + sid * 4"

definition A_DART_TTBR :: "nat \<Rightarrow> nat \<Rightarrow> nat" where
  "A_DART_TTBR sid idx = 0x200 + (DART_MAX_STREAMS * sid + DART_MAX_TTBR * idx) * 4"

datatype dart_instance_t = DART_UNKNOWN | DART_DART | DART_SMMU | DART_DAPF

text \<open>\<open>ttbr\<close> is the memory of the array \<open>ttbr[16][4]\<close>.\<close>

record AppleDARTDARTRegs =
  params1 :: u32
  params2 :: u32
  tlb_op :: u32
  tlb_op_set :: u64
  error_status :: u32
  error_address :: u64
  dart_config :: u32
  sid_remap :: bytes
  sid_config :: "u32 list"
  ttbr :: "u32 list"

text \<open>The last two fields are those of a mapper, of type \<open>DART_DART\<close>: which of its regions exist, and its registers.\<close>

record AppleDARTInstance =
  di_type :: dart_instance_t
  iommus :: "bool list"
  regs :: AppleDARTDARTRegs

record AppleDARTState =
  dart_irq :: bool
  instances :: "AppleDARTInstance list"
  page_shift :: nat
  page_mask :: u64
  page_bits :: u64
  l_mask :: "u32 list"
  l_shift :: "nat list"
  sid_mask :: u64
  dart_options :: u32

definition mapper_regs :: "nat \<Rightarrow> AppleDARTState \<Rightarrow> AppleDARTDARTRegs" where
  "mapper_regs k d = regs (instances d ! k)"

definition upd_regs :: "nat \<Rightarrow> (AppleDARTDARTRegs \<Rightarrow> AppleDARTDARTRegs) \<Rightarrow> AppleDARTState \<Rightarrow> AppleDARTState" where
  "upd_regs k f d = d\<lparr>instances := (instances d)[k := (instances d ! k)\<lparr>regs := f (mapper_regs k d)\<rparr>]\<rparr>"

definition dart_busy :: "AppleDARTDARTRegs \<Rightarrow> bool" where
  "dart_busy r \<longleftrightarrow> extract32 (tlb_op r) 2 1 \<noteq> 0"

subsection \<open>Interrupt\<close>

definition apple_dart_raise_irq :: "AppleDARTState \<Rightarrow> AppleDARTState" where
  "apple_dart_raise_irq d = d\<lparr>dart_irq := True\<rparr>"

definition apple_dart_update_irq :: "AppleDARTState \<Rightarrow> AppleDARTState" where
  "apple_dart_update_irq d =
     (if list_ex (\<lambda>i. di_type i = DART_DART \<and> error_status (regs i) \<noteq> 0) (instances d)
      then apple_dart_raise_irq d else d\<lparr>dart_irq := False\<rparr>)"

subsection \<open>Registers\<close>

text \<open>The streams an invalidation drops: a notification for all addresses of each.\<close>

definition dart_tlb_sids :: "u32 \<Rightarrow> AppleDARTDARTRegs \<Rightarrow> AppleDARTState \<Rightarrow> nat list" where
  "dart_tlb_sids val r d =
     (let set_index = extract32 val 20 12;
          sids = (if bit set_index 0 then tlb_op_set r AND sid_mask d else 0)
      in filter (bit sids) [0..<DART_MAX_STREAMS])"

definition dart_tlb_op :: "nat \<Rightarrow> u32 \<Rightarrow> AppleDARTState \<Rightarrow> (AppleDARTState \<times> nat list) res" where
  "dart_tlb_op k val d =
     (let r = mapper_regs k d
      in if extract32 val 0 2 \<noteq> DART_TLB_OP_INVALIDATE \<or> extract32 val 20 12 = 0 \<or> dart_busy r then Inr (d, [])
         else if list_ex (\<lambda>i. \<not> iommus (instances d ! k) ! i) (dart_tlb_sids val r d) then Inl NullDeref
         else Inr (upd_regs k (\<lambda>r. r\<lparr>tlb_op := deposit32 val 2 1 1 AND NOT (push_bit 2 1)\<rparr>) d, dart_tlb_sids val r d))"

definition apple_dart_mapper_reg_write :: "nat \<Rightarrow> hwaddr \<Rightarrow> u64 \<Rightarrow> AppleDARTState \<Rightarrow> (AppleDARTState \<times> nat list) res" where
  "apple_dart_mapper_reg_write k addr data d =
     (let val = ucast data :: u32; r = mapper_regs k d; n = addr div 4
      in if n = R_DART_TLB_OP then dart_tlb_op k val d
         else if n = R_DART_TLB_OP_SET_0_LOW then
           Inr (if dart_busy r then d else upd_regs k (\<lambda>r. r\<lparr>tlb_op_set := deposit64 (tlb_op_set r) 0 32 (ucast val)\<rparr>) d, [])
         else if n = R_DART_TLB_OP_SET_0_HIGH then
           Inr (if dart_busy r then d else upd_regs k (\<lambda>r. r\<lparr>tlb_op_set := deposit64 (tlb_op_set r) 32 32 (ucast val)\<rparr>) d, [])
         else if n = R_DART_ERROR_STATUS then
           Inr (apple_dart_update_irq (upd_regs k (\<lambda>r. r\<lparr>error_status := error_status r AND NOT val\<rparr>) d), [])
         else if n = R_DART_CONFIG then Inr (upd_regs k (\<lambda>r. r\<lparr>dart_config := val\<rparr>) d, [])
         else if A_DART_SID_REMAP 0 div 4 \<le> n \<and> n \<le> A_DART_SID_REMAP DART_MAX_STREAMS div 4 - 1 then
           let i = addr - A_DART_SID_REMAP 0
           in if length (sid_remap r) < i + 4 then Inl OutOfBounds
              else Inr (upd_regs k (\<lambda>r. r\<lparr>sid_remap := blit i (to_le 4 val) (sid_remap r)\<rparr>) d, [])
         else if A_DART_SID_CONFIG 0 div 4 \<le> n \<and> n \<le> A_DART_SID_CONFIG DART_MAX_STREAMS div 4 - 1 then
           Inr (upd_regs k (\<lambda>r. r\<lparr>sid_config := (sid_config r)[n - A_DART_SID_CONFIG 0 div 4 := val]\<rparr>) d, [])
         else if A_DART_TTBR 0 0 div 4 \<le> n \<and> n \<le> A_DART_TTBR DART_MAX_STREAMS DART_MAX_TTBR div 4 - 1 then
           let i = n - A_DART_TTBR 0 0 div 4
           in if length (ttbr r) \<le> i then Inl OutOfBounds
              else Inr (upd_regs k (\<lambda>r. r\<lparr>ttbr := (ttbr r)[i := val]\<rparr>) d, [])
         else Inr (d, []))"

definition apple_dart_mapper_reg_read :: "nat \<Rightarrow> hwaddr \<Rightarrow> AppleDARTState \<Rightarrow> u64 res" where
  "apple_dart_mapper_reg_read k addr d =
     (let r = mapper_regs k d; n = addr div 4
      in if n = R_DART_PARAMS1 then Inr (ucast (params1 r))
         else if n = R_DART_PARAMS2 then Inr (ucast (params2 r))
         else if n = R_DART_TLB_OP then Inr (ucast (tlb_op r))
         else if n = R_DART_TLB_OP_SET_0_LOW then Inr (extract64 (tlb_op_set r) 0 32)
         else if n = R_DART_TLB_OP_SET_0_HIGH then Inr (extract64 (tlb_op_set r) 32 32)
         else if n = R_DART_ERROR_STATUS then Inr (ucast (error_status r))
         else if n = R_DART_ERROR_ADDRESS_LOW then Inr (extract64 (error_address r) 0 32)
         else if n = R_DART_ERROR_ADDRESS_HIGH then Inr (extract64 (error_address r) 32 32)
         else if n = R_DART_CONFIG then Inr (ucast (dart_config r))
         else if A_DART_SID_REMAP 0 div 4 \<le> n \<and> n \<le> A_DART_SID_REMAP DART_MAX_STREAMS div 4 - 1 then
           let i = addr - A_DART_SID_REMAP 0
           in if length (sid_remap r) < i + 4 then Inl OutOfBounds else Inr (of_le (bslice i 4 (sid_remap r)))
         else if A_DART_SID_CONFIG 0 div 4 \<le> n \<and> n \<le> A_DART_SID_CONFIG DART_MAX_STREAMS div 4 - 1 then
           Inr (ucast (sid_config r ! (n - A_DART_SID_CONFIG 0 div 4)))
         else if A_DART_TTBR 0 0 div 4 \<le> n \<and> n \<le> A_DART_TTBR DART_MAX_STREAMS DART_MAX_TTBR div 4 - 1 then
           let i = n - A_DART_TTBR 0 0 div 4
           in if length (ttbr r) \<le> i then Inl OutOfBounds else Inr (ucast (ttbr r ! i))
         else Inr 0)"

text \<open>The register window of the other instances.\<close>

definition apple_dart_dummy_reg_write :: "nat \<Rightarrow> hwaddr \<Rightarrow> u64 \<Rightarrow> AppleDARTState \<Rightarrow> AppleDARTState" where
  "apple_dart_dummy_reg_write k addr data d = d"

definition apple_dart_dummy_reg_read :: "nat \<Rightarrow> hwaddr \<Rightarrow> AppleDARTState \<Rightarrow> u64" where
  "apple_dart_dummy_reg_read k addr d = 0"

subsection \<open>Translation\<close>

definition l_index :: "AppleDARTState \<Rightarrow> nat \<Rightarrow> u64 \<Rightarrow> u64" where
  "l_index d level vpn = drop_bit (l_shift d ! level) (vpn AND ucast (l_mask d ! level))"

text \<open>The loop over levels 1 and 2: the error status, or the last entry.\<close>

fun ptw_loop :: "(u64 \<Rightarrow> u64 option) \<Rightarrow> AppleDARTState \<Rightarrow> u64 \<Rightarrow> nat list \<Rightarrow> u64 \<Rightarrow> u64 \<Rightarrow> u32 + u64" where
  "ptw_loop ldq d vpn [] pa pte = Inr pte"
| "ptw_loop ldq d vpn (level # levels) pa pte =
     (case ldq (pa + 8 * l_index d level vpn) of
        None \<Rightarrow> Inl (deposit32 (deposit32 0 31 1 1) 1 1 1)
      | Some pte \<Rightarrow>
          if pte AND DART_PTE_VALID = 0 then Inl (deposit32 (deposit32 0 31 1 1) 2 1 1)
          else ptw_loop ldq d vpn levels (pte AND page_mask d AND DART_PTE_ADDR_MASK) pte)"

text \<open>The status, 0 for success, and the entry.\<close>

definition apple_dart_mapper_ptw ::
  "(u64 \<Rightarrow> u64 option) \<Rightarrow> nat \<Rightarrow> nat \<Rightarrow> u64 \<Rightarrow> IOMMUTLBEntry \<Rightarrow> AppleDARTState \<Rightarrow> u32 \<times> IOMMUTLBEntry" where
  "apple_dart_mapper_ptw ldq k sid vpn tlb_entry d =
     (let idx = l_index d 0 vpn; tt = ttbr (mapper_regs k d) ! (sid * DART_MAX_TTBR + unat idx)
      in if DART_MAX_STREAMS \<le> sid \<or> \<not> bit (sid_mask d) sid \<or> DART_MAX_TTBR \<le> unat idx \<or> extract32 tt 31 1 = 0
         then (deposit32 (deposit32 0 31 1 1) 0 1 1, tlb_entry)
         else case ptw_loop ldq d vpn [1, 2] (push_bit DART_TTBR_SHIFT (ucast tt AND DART_TTBR_MASK)) (ucast tt) of
                Inl status \<Rightarrow> (status, tlb_entry)
              | Inr pte \<Rightarrow> (0, tlb_entry\<lparr>translated_addr := pte AND page_mask d AND DART_PTE_ADDR_MASK,
                    perm := IOMMU_ACCESS_FLAG (extract32 (ucast pte) 8 1 = 0) (extract32 (ucast pte) 7 1 = 0)\<rparr>))"

text \<open>A protection fault is reported as a write fault, whichever access it is.\<close>

definition dart_prot_fault :: "nat \<Rightarrow> nat \<Rightarrow> u64 \<Rightarrow> AppleDARTState \<Rightarrow> AppleDARTState" where
  "dart_prot_fault k sid addr d = apple_dart_raise_irq (upd_regs k (\<lambda>r. r\<lparr>error_address := addr,
     error_status := deposit32 (deposit32 (deposit32 (error_status r) 31 1 1) 3 1 1) 24 4 (of_nat sid)\<rparr>) d)"

definition apple_dart_mapper_translate ::
  "(u64 \<Rightarrow> u64 option) \<Rightarrow> nat \<Rightarrow> nat \<Rightarrow> u64 \<Rightarrow> IOMMUAccessFlags \<Rightarrow> AppleDARTState \<Rightarrow> (IOMMUTLBEntry \<times> AppleDARTState) res" where
  "apple_dart_mapper_translate ldq k sid addr flag d =
     (let r = mapper_regs k d;
          entry = \<lparr>iova = addr, translated_addr = 0, addr_mask = page_bits d, perm = IOMMU_NONE\<rparr>
      in if dart_busy r then Inr (entry, d)
         else let sid' = unat (sid_remap r ! sid)
           in if length (sid_config r) \<le> sid' then Inl OutOfBounds
              else if extract32 (sid_config r ! sid') 7 1 = 0 \<or> extract32 (sid_config r ! sid') 8 1 \<noteq> 0 then Inr (entry, d)
              else case apple_dart_mapper_ptw ldq k sid' (drop_bit (page_shift d) addr) entry d of (status, entry) \<Rightarrow>
                if status \<noteq> 0 then
                  Inr (entry, apple_dart_raise_irq (upd_regs k (\<lambda>r. r\<lparr>error_address := addr,
                    error_status := deposit32 (error_status r OR status) 24 4 (of_nat sid)\<rparr>) d))
                else let entry = entry\<lparr>translated_addr := translated_addr entry OR (addr AND addr_mask entry)\<rparr>;
                         d = (if flag AND IOMMU_WO \<noteq> 0 \<and> perm entry AND IOMMU_WO = 0 then dart_prot_fault k sid addr d else d);
                         d = (if flag AND IOMMU_RO \<noteq> 0 \<and> perm entry AND IOMMU_RO = 0 then dart_prot_fault k sid addr d else d)
                  in Inr (entry, d))"

subsection \<open>Reset and creation\<close>

definition dart_zero_regs :: AppleDARTDARTRegs where
  "dart_zero_regs = \<lparr>params1 = 0, params2 = 0, tlb_op = 0, tlb_op_set = 0, error_status = 0, error_address = 0,
     dart_config = 0, sid_remap = replicate 16 0, sid_config = replicate 16 0, ttbr = replicate 64 0\<rparr>"

definition dart_reset_regs :: "AppleDARTState \<Rightarrow> AppleDARTDARTRegs" where
  "dart_reset_regs d = dart_zero_regs\<lparr>
     params1 := deposit32 (deposit32 0 24 4 (of_nat (page_shift d))) 31 1 (if bit (dart_options d) 1 then 1 else 0),
     params2 := deposit32 0 0 1 1, sid_remap := map of_nat [0..<DART_MAX_STREAMS]\<rparr>"

definition apple_dart_reset :: "AppleDARTState \<Rightarrow> AppleDARTState" where
  "apple_dart_reset d =
     d\<lparr>instances := map (\<lambda>i. if di_type i = DART_DART then i\<lparr>regs := dart_reset_regs d\<rparr> else i) (instances d)\<rparr>"

text \<open>The region of a stream: the index of the first mapper.\<close>

definition apple_dart_instance_iommu_mr :: "AppleDARTState \<Rightarrow> nat \<Rightarrow> nat \<Rightarrow> (nat \<times> nat) option res" where
  "apple_dart_instance_iommu_mr d k sid =
     (if length (instances d) \<le> k then Inr None
      else if 64 \<le> sid then Inl UndefinedShift
      else if \<not> bit (sid_mask d) sid \<or> di_type (instances d ! k) \<noteq> DART_DART then Inr None
      else if DART_MAX_STREAMS \<le> sid then Inl OutOfBounds
      else Inr (if iommus (instances d ! k) ! sid then Some (k, sid) else None))"

definition apple_dart_iommu_mr :: "AppleDARTState \<Rightarrow> nat \<Rightarrow> (nat \<times> nat) option res" where
  "apple_dart_iommu_mr d sid =
     (if 64 \<le> sid then Inl UndefinedShift
      else if \<not> bit (sid_mask d) sid then Inr None
      else case find (\<lambda>k. di_type (instances d ! k) = DART_DART) [0..<length (instances d)] of
             None \<Rightarrow> Inr None
           | Some k \<Rightarrow> if DART_MAX_STREAMS \<le> sid then Inl OutOfBounds
               else Inr (if iommus (instances d ! k) ! sid then Some (k, sid) else None))"

definition clz32 :: "u32 \<Rightarrow> nat" where
  "clz32 val = length (takeWhile (\<lambda>i. \<not> bit val (31 - i)) [0..<32])"

text \<open>The geometry of the tables.\<close>

definition dart_levels :: "nat \<Rightarrow> (u32 list \<times> nat list) res" where
  "dart_levels shift =
     (if shift = 12 then Inr ([0xC0000, 0x3FE00, 0x1FF], [0x12, 9, 0])
      else if shift = 14 then Inr ([0xC00000, 0x3FF800, 0x7FF], [0x16, 11, 0])
      else Inl AssertFailed)"

text \<open>The instance a tag of the device tree names.\<close>

definition dart_instance :: "u64 \<Rightarrow> u32 \<Rightarrow> AppleDARTInstance" where
  "dart_instance sids tag =
     (let other = \<lparr>di_type = DART_UNKNOWN, iommus = replicate 16 False, regs = dart_zero_regs\<rparr>
      in if tag = 0x44415254 then other\<lparr>di_type := DART_DART, iommus := map (bit sids) [0..<DART_MAX_STREAMS]\<rparr>
         else if tag = 0x534D4D55 then other\<lparr>di_type := DART_SMMU\<rparr>
         else if tag = 0x44415046 then other\<lparr>di_type := DART_DAPF\<rparr>
         else other)"

definition dart_instances :: "u64 \<Rightarrow> bytes \<Rightarrow> nat \<Rightarrow> AppleDARTInstance list res" where
  "dart_instances sids instance_data n =
     (if n \<noteq> 0 \<and> length instance_data < 12 * (n - 1) + 4 then Inl OutOfBounds
      else Inr (map (\<lambda>i. dart_instance sids (of_le (bslice (12 * i) 4 instance_data))) [0..<n]))"

definition dart_instance_data :: "AppleDTNode \<Rightarrow> bytes res" where
  "dart_instance_data node =
     (case apple_dt_get_prop node (cs ''instance'') of
        None \<Rightarrow> rbind (apple_dt_get_prop_u32_or node (cs ''smmu-present'') 0 ErrFatal) (\<lambda>(smmu, _).
          Inr (cs ''TRADDART'' @ replicate 4 0 @ (if smmu = 1 then cs ''UMMSSMMU'' @ replicate 4 0 else [])))
      | Some prop \<Rightarrow> if p_len prop mod 12 \<noteq> 0 then Inl AssertFailed else Inr (p_data prop))"

definition apple_dart_from_node :: "AppleDTNode \<Rightarrow> AppleDARTState res" where
  "apple_dart_from_node node =
     rbind (apple_dt_get_prop_strdup node (cs ''name'') ErrFatal) (\<lambda>_.
     rbind (apple_dt_get_prop_u32_or node (cs ''page-size'') 0x1000 ErrFatal) (\<lambda>(page_size, _).
     if page_size = 0 then Inl AssertFailed else
     let shift = 31 - clz32 page_size; bits = ucast (page_size - 1) :: u64 in
     rbind (dart_levels shift) (\<lambda>(masks, shifts).
     rbind (apple_dt_get_prop_u32_or node (cs ''sids'') 0xFFFF ErrFatal) (\<lambda>(sids, _).
     rbind (apple_dt_get_prop_u32_or node (cs ''dart-options'') 0 ErrFatal) (\<lambda>(options, _).
     rbind (dart_instance_data node) (\<lambda>instance_data.
     case apple_dt_get_prop node (cs ''reg'') of
       None \<Rightarrow> Inl AssertFailed
     | Some prop \<Rightarrow>
         rbind (dart_instances (ucast sids) instance_data (unat (p_len prop) div 16)) (\<lambda>is.
           Inr \<lparr>dart_irq = False, instances = is, page_shift = shift, page_mask = NOT bits, page_bits = bits,
                l_mask = masks, l_shift = shifts, sid_mask = ucast sids, dart_options = options\<rparr>)))))))"

subsection \<open>The walk, in numbers\<close>

definition dart_geom :: "AppleDARTState \<Rightarrow> bool" where
  "dart_geom d \<longleftrightarrow> (page_shift d = 12 \<or> page_shift d = 14) \<and> dart_levels (page_shift d) = Inr (l_mask d, l_shift d) \<and>
     page_bits d = mask (page_shift d) \<and> page_mask d = NOT (page_bits d)"

lemma dart_geom_cases:
  assumes "dart_geom d"
  obtains "page_shift d = 12" "l_mask d = [0xC0000, 0x3FE00, 0x1FF]" "l_shift d = [0x12, 9, 0]"
  | "page_shift d = 14" "l_mask d = [0xC00000, 0x3FF800, 0x7FF]" "l_shift d = [0x16, 11, 0]"
  using assms by (auto simp: dart_geom_def dart_levels_def)

lemma field_index: "drop_bit n (v AND push_bit n (mask m)) = take_bit m (drop_bit n (v :: u64))"
  by (rule bit_word_eqI) (auto simp: bit_logic dest: bit_imp_le_length)

lemma l_index_arith:
  assumes "dart_geom d"
  shows "unat (l_index d 0 v) = unat v div 2 ^ (2 * (page_shift d - 3)) mod 4"
    "unat (l_index d 1 v) = unat v div 2 ^ (page_shift d - 3) mod 2 ^ (page_shift d - 3)"
    "unat (l_index d 2 v) = unat v mod 2 ^ (page_shift d - 3)"
proof -
  have c: "ucast (0xC0000 :: u32) = push_bit 18 (mask 2 :: u64)" "ucast (0x3FE00 :: u32) = push_bit 9 (mask 9 :: u64)"
    "ucast (0x1FF :: u32) = push_bit 0 (mask 9 :: u64)" "ucast (0xC00000 :: u32) = push_bit 22 (mask 2 :: u64)"
    "ucast (0x3FF800 :: u32) = push_bit 11 (mask 11 :: u64)" "ucast (0x7FF :: u32) = push_bit 0 (mask 11 :: u64)"
    by code_simp+
  note geom = dart_geom_cases [OF assms]
  from geom show "unat (l_index d 0 v) = unat v div 2 ^ (2 * (page_shift d - 3)) mod 4"
    by cases (simp_all only: l_index_def nth_Cons_0 c field_index unat_page, simp_all)
  have one: "(x # y # ys) ! 1 = y" "(x # y # z # zs) ! 2 = z" for x y z :: 'a and ys zs by simp_all
  show "unat (l_index d 1 v) = unat v div 2 ^ (page_shift d - 3) mod 2 ^ (page_shift d - 3)"
    using geom by cases (simp_all only: l_index_def one c field_index unat_page, simp_all)
  show "unat (l_index d 2 v) = unat v mod 2 ^ (page_shift d - 3)"
    using geom by cases (simp_all only: l_index_def one c field_index unat_page, simp_all)
qed

text \<open>The frame an entry points to.\<close>

definition dart_frame :: "nat \<Rightarrow> u64 \<Rightarrow> nat" where
  "dart_frame s pte = 2 ^ s * (unat pte mod 2 ^ 40 div 2 ^ s)"

lemma dart_frame_word:
  assumes "dart_geom d"
  shows "pte AND page_mask d AND DART_PTE_ADDR_MASK = of_nat (dart_frame (page_shift d) pte)"
    "unat (pte AND page_mask d AND DART_PTE_ADDR_MASK) = dart_frame (page_shift d) pte"
    "dart_frame (page_shift d) pte < 2 ^ 40"
proof -
  let ?s = "page_shift d" and ?w = "pte AND page_mask d AND DART_PTE_ADDR_MASK"
  have m: "page_mask d = NOT (mask ?s)" "DART_PTE_ADDR_MASK = mask 40"
    using assms by (simp_all add: dart_geom_def mask_eq_exp_minus_1)
  have "take_bit ?s ?w = 0" "drop_bit ?s ?w = drop_bit ?s (take_bit 40 pte)"
    unfolding m by (auto intro!: bit_word_eqI simp: bit_logic dest: bit_imp_le_length)
  then show u: "unat ?w = dart_frame ?s pte"
    using page_split [of ?w ?s] by (simp add: dart_frame_def unat_page)
  then show "?w = of_nat (dart_frame ?s pte)" by (metis of_nat_unat ucast_id)
  have "dart_frame ?s pte \<le> unat pte mod 2 ^ 40" by (simp add: dart_frame_def)
  then show "dart_frame ?s pte < 2 ^ 40" by (rule le_less_trans) simp
qed

datatype walk_fault = NoTable | BusError | NoEntry

text \<open>
  What the tables mean: the top index selects a root table, the next index an entry of it, the last
  index an entry of the table that one points to.
\<close>

definition dart_walk :: "(nat \<Rightarrow> u64 option) \<Rightarrow> nat \<Rightarrow> (nat \<Rightarrow> nat option) \<Rightarrow> nat \<Rightarrow> walk_fault + u64" where
  "dart_walk mem s root vpn =
     (case root (vpn div 2 ^ (2 * (s - 3)) mod 4) of None \<Rightarrow> Inl NoTable
      | Some t \<Rightarrow> case mem (t + 8 * (vpn div 2 ^ (s - 3) mod 2 ^ (s - 3))) of None \<Rightarrow> Inl BusError
        | Some e \<Rightarrow> if \<not> bit e 0 then Inl NoEntry
            else case mem (dart_frame s e + 8 * (vpn mod 2 ^ (s - 3))) of None \<Rightarrow> Inl BusError
              | Some pte \<Rightarrow> if \<not> bit pte 0 then Inl NoEntry else Inr pte)"

definition dart_root :: "AppleDARTState \<Rightarrow> nat \<Rightarrow> nat \<Rightarrow> nat \<Rightarrow> nat option" where
  "dart_root d k sid i =
     (let tt = ttbr (mapper_regs k d) ! (sid * 4 + i)
      in if sid < 16 \<and> bit (sid_mask d) sid \<and> bit tt 31 then Some (unat tt mod 2 ^ 28 * 2 ^ 12) else None)"

fun fault_status :: "walk_fault \<Rightarrow> u32" where
  "fault_status NoTable = 0x80000001"
| "fault_status BusError = 0x80000002"
| "fault_status NoEntry = 0x80000004"

lemma extract32_bit: "n < 32 \<Longrightarrow> extract32 v n 1 = 0 \<longleftrightarrow> \<not> bit v n"
proof -
  assume "n < 32"
  then have "extract32 v n 1 = of_bool (bit v n)" by (intro bit_word_eqI) (auto simp: bit_1_iff)
  then show ?thesis by simp
qed

lemma status_consts:
  "deposit32 (deposit32 0 31 1 1) 0 1 1 = fault_status NoTable"
  "deposit32 (deposit32 0 31 1 1) 1 1 1 = fault_status BusError"
  "deposit32 (deposit32 0 31 1 1) 2 1 1 = fault_status NoEntry"
  by code_simp+

lemma fault_status_neq_0: "fault_status f \<noteq> 0"
  by (cases f) simp_all

lemma and_1_bit: "(pte :: u64) AND 1 = 0 \<longleftrightarrow> \<not> bit pte 0"
  using and_BIT_eq_0 [of pte 0] by (simp add: BIT_def)

lemma unat_ucast_32_64: "unat (ucast (x :: u32) :: u64) = unat x"
proof -
  have "unat x < 2 ^ 64" using unsigned_less [of x] by (rule less_trans) simp
  then show ?thesis by (simp add: unsigned_ucast_eq take_bit_nat_eq_self)
qed

lemma unat_and_28: "ucast (t :: u32) AND 0xFFFFFFF = (of_nat (unat t mod 2 ^ 28) :: u64)"
proof -
  have "(0xFFFFFFF :: u64) = mask 28" by (simp add: mask_eq_exp_minus_1)
  then have "ucast t AND 0xFFFFFFF = take_bit 28 (ucast t :: u64)" by (simp add: take_bit_eq_mask)
  then have "unat (ucast t AND 0xFFFFFFF :: u64) = unat t mod 2 ^ 28" by (simp only: unat_page unat_ucast_32_64)
  then show ?thesis by (metis of_nat_unat ucast_id)
qed

lemma ptw_loop_numbers:
  assumes "dart_geom d"
  shows "ptw_loop ldq d v [1, 2] (of_nat t) pte0 =
    (case dart_walk (\<lambda>n. ldq (of_nat n)) (page_shift d) (\<lambda>_. Some t) (unat v) of
       Inl f \<Rightarrow> Inl (fault_status f) | Inr pte \<Rightarrow> Inr pte)"
proof -
  note idx = l_index_arith [OF assms, of v]
  have a1: "of_nat b + 8 * l_index d 1 v = of_nat (b + 8 * (unat v div 2 ^ (page_shift d - 3) mod 2 ^ (page_shift d - 3)))"
    and a2: "of_nat b + 8 * l_index d 2 v = of_nat (b + 8 * (unat v mod 2 ^ (page_shift d - 3)))" for b
    by (simp_all add: idx [symmetric])
  show ?thesis
    unfolding ptw_loop.simps a1 dart_frame_word(1) [OF assms] a2 and_1_bit status_consts dart_walk_def option.case
    by (auto simp del: of_nat_add of_nat_mult split: option.split)
qed

text \<open>The walk over words is the walk in numbers.\<close>

lemma ptw_refines:
  assumes "dart_geom d"
  shows "apple_dart_mapper_ptw ldq k sid v e d =
    (case dart_walk (\<lambda>n. ldq (of_nat n)) (page_shift d) (dart_root d k sid) (unat v) of
       Inl f \<Rightarrow> (fault_status f, e)
     | Inr pte \<Rightarrow> (0, e\<lparr>translated_addr := of_nat (dart_frame (page_shift d) pte),
         perm := IOMMU_ACCESS_FLAG (\<not> bit pte 8) (\<not> bit pte 7)\<rparr>))"
proof -
  let ?i0 = "unat v div 2 ^ (2 * (page_shift d - 3)) mod 4"
  let ?tt = "ttbr (mapper_regs k d) ! (sid * 4 + ?i0)"
  have lt: "\<not> 4 \<le> ?i0" by simp
  have ap: "extract32 (ucast pte) 8 1 = 0 \<longleftrightarrow> \<not> bit pte 8" "extract32 (ucast pte) 7 1 = 0 \<longleftrightarrow> \<not> bit pte 7" for pte :: u64
    using extract32_bit [of 8 "ucast pte"] extract32_bit [of 7 "ucast pte"] by (simp_all add: bit_ucast_iff)
  have tv: "extract32 t 31 1 = 0 \<longleftrightarrow> \<not> bit t 31" for t using extract32_bit [of 31 t] by simp
  show ?thesis
  proof (cases "sid < 16 \<and> bit (sid_mask d) sid \<and> bit ?tt 31")
    case True
    have t: "push_bit 12 (ucast ?tt AND 0xFFFFFFF) = (of_nat (unat ?tt mod 2 ^ 28 * 2 ^ 12) :: u64)"
      unfolding unat_and_28 by (simp add: push_bit_eq_mult)
    have r: "dart_root d k sid ?i0 = Some (unat ?tt mod 2 ^ 28 * 2 ^ 12)" using True by (simp add: dart_root_def)
    have "dart_walk mem (page_shift d) (dart_root d k sid) (unat v) =
        dart_walk mem (page_shift d) (\<lambda>_. Some (unat ?tt mod 2 ^ 28 * 2 ^ 12)) (unat v)" for mem
      unfolding dart_walk_def r ..
    then show ?thesis
      using True lt unfolding apple_dart_mapper_ptw_def Let_def l_index_arith(1) [OF assms] tv ap t ptw_loop_numbers [OF assms]
      by (simp add: dart_frame_word(1) [OF assms] split: sum.split)
  next
    case False
    then have "dart_root d k sid ?i0 = None" by (auto simp: dart_root_def Let_def)
    then show ?thesis using False
      unfolding apple_dart_mapper_ptw_def Let_def l_index_arith(1) [OF assms] tv dart_walk_def status_consts by auto
  qed
qed

subsection \<open>Translation of an enabled stream\<close>

definition remapped :: "AppleDARTState \<Rightarrow> nat \<Rightarrow> nat \<Rightarrow> nat" where
  "remapped d k sid = unat (sid_remap (mapper_regs k d) ! sid)"

definition is_mapper :: "AppleDARTState \<Rightarrow> nat \<Rightarrow> bool" where
  "is_mapper d k \<longleftrightarrow> k < length (instances d) \<and> di_type (instances d ! k) = DART_DART"

text \<open>Translation is on for the stream, without bypass, and no invalidation is under way.\<close>

definition stream_on :: "AppleDARTState \<Rightarrow> nat \<Rightarrow> nat \<Rightarrow> bool" where
  "stream_on d k sid \<longleftrightarrow> is_mapper d k \<and> sid < 16 \<and> \<not> dart_busy (mapper_regs k d) \<and>
     remapped d k sid < length (sid_config (mapper_regs k d)) \<and>
     bit (sid_config (mapper_regs k d) ! remapped d k sid) 7 \<and> \<not> bit (sid_config (mapper_regs k d) ! remapped d k sid) 8"

text \<open>What the tables say about the page of an address.\<close>

definition dart_page :: "(u64 \<Rightarrow> u64 option) \<Rightarrow> AppleDARTState \<Rightarrow> nat \<Rightarrow> nat \<Rightarrow> u64 \<Rightarrow> walk_fault + u64" where
  "dart_page ldq d k sid addr =
     dart_walk (\<lambda>n. ldq (of_nat n)) (page_shift d) (dart_root d k (remapped d k sid)) (unat addr div 2 ^ page_shift d)"

definition dart_flag :: "bool \<Rightarrow> IOMMUAccessFlags" where
  "dart_flag w = (if w then IOMMU_WO else IOMMU_RO)"

text \<open>The bit of an entry that forbids the access.\<close>

definition no_access :: "bool \<Rightarrow> nat" where
  "no_access w = (if w then 7 else 8)"

lemma mapper_regs_upd [simp]: "k < length (instances d) \<Longrightarrow> mapper_regs k (upd_regs k f d) = f (mapper_regs k d)"
  by (simp add: mapper_regs_def upd_regs_def)

lemma upd_regs_fields [simp]:
  "page_shift (upd_regs k f d) = page_shift d" "sid_mask (upd_regs k f d) = sid_mask d"
  "length (instances (upd_regs k f d)) = length (instances d)" "dart_irq (upd_regs k f d) = dart_irq d"
  by (simp_all add: upd_regs_def)

lemma raise_irq_fields [simp]: "instances (apple_dart_raise_irq d) = instances d" "dart_irq (apple_dart_raise_irq d)"
  "mapper_regs k (apple_dart_raise_irq d) = mapper_regs k d"
  by (simp_all add: apple_dart_raise_irq_def mapper_regs_def)

lemma access_flag_bits: "IOMMU_ACCESS_FLAG r w AND 2 = 0 \<longleftrightarrow> \<not> w" "IOMMU_ACCESS_FLAG r w AND 1 = 0 \<longleftrightarrow> \<not> r"
  by (cases r; cases w; simp add: IOMMU_ACCESS_FLAG_def)+

lemma extract32_1: "extract32 v 7 1 = 0 \<longleftrightarrow> \<not> bit v 7" "extract32 v 8 1 = 0 \<longleftrightarrow> \<not> bit v 8"
  using extract32_bit [of 7 v] extract32_bit [of 8 v] by simp_all

lemma translate_page:
  assumes "dart_geom d" "stream_on d k sid"
  shows "apple_dart_mapper_translate ldq k sid addr (dart_flag w) d =
    (let e = \<lparr>iova = addr, translated_addr = 0, addr_mask = mask (page_shift d), perm = IOMMU_NONE\<rparr>
     in case dart_page ldq d k sid addr of
       Inl f \<Rightarrow> Inr (e, apple_dart_raise_irq (upd_regs k (\<lambda>r. r\<lparr>error_address := addr,
          error_status := deposit32 (error_status r OR fault_status f) 24 4 (of_nat sid)\<rparr>) d))
     | Inr pte \<Rightarrow> Inr (e\<lparr>translated_addr := of_nat (dart_frame (page_shift d) pte) OR (addr AND mask (page_shift d)),
          perm := IOMMU_ACCESS_FLAG (\<not> bit pte 8) (\<not> bit pte 7)\<rparr>,
          if bit pte (no_access w) then dart_prot_fault k sid addr d else d))"
proof -
  have v: "unat (drop_bit (page_shift d) addr) = unat addr div 2 ^ page_shift d" by (rule unat_page)
  have pb: "page_bits d = mask (page_shift d)" using assms(1) by (simp add: dart_geom_def)
  have on: "\<not> dart_busy (mapper_regs k d)" "\<not> length (sid_config (mapper_regs k d)) \<le> remapped d k sid"
    "bit (sid_config (mapper_regs k d) ! remapped d k sid) 7" "\<not> bit (sid_config (mapper_regs k d) ! remapped d k sid) 8"
    using assms(2) by (simp_all add: stream_on_def)
  have fl: "dart_flag w AND 2 \<noteq> 0 \<longleftrightarrow> w" "dart_flag w AND 1 \<noteq> 0 \<longleftrightarrow> \<not> w" by (simp_all add: dart_flag_def)
  show ?thesis
    unfolding apple_dart_mapper_translate_def Let_def remapped_def [symmetric] extract32_1 ptw_refines [OF assms(1)] v pb
      dart_page_def [symmetric] fl
    using on by (simp add: fault_status_neq_0 access_flag_bits no_access_def split: sum.split)
qed

text \<open>The address the memory core computes from an entry.\<close>

lemma frame_join:
  assumes "dart_geom d"
  shows "((of_nat (dart_frame (page_shift d) pte) OR (addr AND mask (page_shift d))) AND NOT (mask (page_shift d))) OR (addr AND mask (page_shift d))
    = (of_nat (dart_frame (page_shift d) pte + unat addr mod 2 ^ page_shift d) :: u64)"
proof -
  let ?s = "page_shift d" and ?f = "of_nat (dart_frame (page_shift d) pte) :: u64"
  let ?w = "((?f OR (addr AND mask ?s)) AND NOT (mask ?s)) OR (addr AND mask ?s)"
  have u: "unat ?f = dart_frame ?s pte" using dart_frame_word [OF assms, of pte] by metis
  have dr: "drop_bit ?s (?f OR (addr AND mask ?s)) = drop_bit ?s ?f"
    by (rule bit_word_eqI) (auto simp: bit_logic)
  have "unat ?w = 2 ^ ?s * unat (drop_bit ?s ?f) + unat (take_bit ?s addr)"
    using page_split [of ?w ?s] unfolding page_join dr .
  also have "\<dots> = dart_frame ?s pte + unat addr mod 2 ^ ?s" by (simp only: unat_page u) (simp add: dart_frame_def)
  finally show ?thesis by (metis of_nat_unat ucast_id)
qed

text \<open>
  Property C2 (refinement). Translation implements the page tables: if translation is on for a stream
  and the tables, read as numbers (two bits of root index, then two table indices of 9 bits for 4K
  pages or 11 bits for 16K pages), map the page of an address to an entry that permits the access,
  then the memory core goes on with the frame of the entry plus the offset in the page, and the
  device reports nothing.
\<close>

theorem dart_translate_mapped:
  assumes "dart_geom d" "stream_on d k sid" "dart_page ldq d k sid addr = Inr pte" "\<not> bit pte (no_access w)"
  shows "\<exists>e n. apple_dart_mapper_translate ldq k sid addr (dart_flag w) d = Inr (e, d) \<and>
    iotlb_access e addr len w = Some (of_nat (dart_frame (page_shift d) pte + unat addr mod 2 ^ page_shift d), n)"
proof -
  let ?e = "\<lparr>iova = addr, translated_addr = of_nat (dart_frame (page_shift d) pte) OR (addr AND mask (page_shift d)),
    addr_mask = mask (page_shift d), perm = IOMMU_ACCESS_FLAG (\<not> bit pte 8) (\<not> bit pte 7)\<rparr>"
  have "apple_dart_mapper_translate ldq k sid addr (dart_flag w) d = Inr (?e, d)"
    using assms(3,4) by (simp add: translate_page [OF assms(1,2)] Let_def)
  moreover have "perm ?e AND push_bit (if w then 1 else 0) 1 \<noteq> 0"
    using assms(4) access_flag_bits by (cases w) (simp_all add: no_access_def)
  then have "\<exists>n. iotlb_access ?e addr len w = Some (of_nat (dart_frame (page_shift d) pte + unat addr mod 2 ^ page_shift d), n)"
    unfolding iotlb_access_Some by (simp only: IOMMUTLBEntry.simps frame_join [OF assms(1)]) simp
  ultimately show ?thesis by blast
qed

definition dart_demo_regs :: AppleDARTDARTRegs where
  "dart_demo_regs = dart_zero_regs\<lparr>sid_config := (replicate 16 0)[0 := 0x80], ttbr := (replicate 64 0)[0 := 0x80000001]\<rparr>"

definition dart_demo :: AppleDARTState where
  "dart_demo = \<lparr>dart_irq = False, instances = [\<lparr>di_type = DART_DART, iommus = replicate 16 True, regs = dart_demo_regs\<rparr>],
     page_shift = 14, page_mask = NOT (mask 14), page_bits = mask 14, l_mask = [0xC00000, 0x3FF800, 0x7FF],
     l_shift = [0x16, 11, 0], sid_mask = 0xFFFF, dart_options = 0\<rparr>"

definition dart_demo_mem :: "u64 \<Rightarrow> u64 option" where
  "dart_demo_mem a = (if a = 0x1000 then Some 0x8001 else if a = 0x8028 then Some 0x10081 else Some 0)"

lemma dart_demo_geom: "dart_geom dart_demo"
  by (simp add: dart_geom_def dart_demo_def dart_levels_def)

lemma dart_demo_regs: "mapper_regs 0 dart_demo = dart_demo_regs"
  by (simp add: mapper_regs_def dart_demo_def)

lemma dart_demo_on: "stream_on dart_demo 0 0" "remapped dart_demo 0 0 = 0"
proof -
  show r: "remapped dart_demo 0 0 = 0" by (simp add: remapped_def dart_demo_regs dart_demo_regs_def dart_zero_regs_def)
  have "is_mapper dart_demo 0" by (simp add: is_mapper_def dart_demo_def)
  moreover have "bit (0x80 :: u32) 7" "\<not> bit (0x80 :: u32) 8" "extract32 0 2 1 = 0" by code_simp+
  ultimately show "stream_on dart_demo 0 0"
    by (simp add: stream_on_def r dart_demo_regs dart_demo_regs_def dart_zero_regs_def dart_busy_def)
qed

lemma dart_demo_root: "dart_root dart_demo 0 0 0 = Some 0x1000" "dart_root dart_demo 0 0 1 = None"
proof -
  have "bit (0xFFFF :: u64) 0" "bit (0x80000001 :: u32) 31" by code_simp+
  then show "dart_root dart_demo 0 0 0 = Some 0x1000"
    by (simp add: dart_root_def dart_demo_regs dart_demo_regs_def) (simp add: dart_demo_def)
  show "dart_root dart_demo 0 0 1 = None"
    by (simp add: dart_root_def dart_demo_regs dart_demo_regs_def)
qed

lemma dart_demo_page:
  "dart_page dart_demo_mem dart_demo 0 0 0x14010 = Inr 0x10081" "dart_page dart_demo_mem dart_demo 0 0 0x18010 = Inl NoEntry"
proof -
  have s: "page_shift dart_demo = 14" by (simp add: dart_demo_def)
  have b: "bit (0x8001 :: u64) 0" "bit (0x10081 :: u64) 0" by code_simp+
  have f: "dart_frame 14 0x8001 = 0x8000" by (simp add: dart_frame_def)
  show "dart_page dart_demo_mem dart_demo 0 0 0x14010 = Inr 0x10081" "dart_page dart_demo_mem dart_demo 0 0 0x18010 = Inl NoEntry"
    by (simp_all add: dart_page_def dart_walk_def s dart_demo_on dart_demo_root f b dart_demo_mem_def)
qed

theorem dart_translate_mapped_witness:
  "\<exists>e n. apple_dart_mapper_translate dart_demo_mem 0 0 0x14010 (dart_flag False) dart_demo = Inr (e, dart_demo) \<and>
    iotlb_access e 0x14010 4 False = Some (0x10010, n)"
proof -
  have "\<not> bit (0x10081 :: u64) (no_access False)" by code_simp
  moreover have "dart_frame 14 0x10081 = 0x10000" "page_shift dart_demo = 14" by (simp_all add: dart_frame_def dart_demo_def)
  ultimately show ?thesis
    using dart_translate_mapped [OF dart_demo_geom dart_demo_on(1) dart_demo_page(1), of False 4] by simp
qed

subsection \<open>Faults\<close>

text \<open>The bit of the status register for the cause of a refused access.\<close>

fun fault_bit :: "walk_fault + u64 \<Rightarrow> nat" where
  "fault_bit (Inl NoTable) = 0"
| "fault_bit (Inl BusError) = 1"
| "fault_bit (Inl NoEntry) = 2"
| "fault_bit (Inr _) = 3"

definition refused :: "walk_fault + u64 \<Rightarrow> bool \<Rightarrow> bool" where
  "refused p w \<longleftrightarrow> (case p of Inl _ \<Rightarrow> True | Inr pte \<Rightarrow> bit pte (no_access w))"

definition mapper_error :: "AppleDARTState \<Rightarrow> nat \<Rightarrow> bool" where
  "mapper_error d j \<longleftrightarrow> is_mapper d j \<and> error_status (mapper_regs j d) \<noteq> 0"

lemma update_irq_errors: "apple_dart_update_irq d = d\<lparr>dart_irq := (\<exists>j. mapper_error d j)\<rparr>"
proof -
  have "list_ex (\<lambda>i. di_type i = DART_DART \<and> error_status (regs i) \<noteq> 0) (instances d) \<longleftrightarrow> (\<exists>j. mapper_error d j)"
    unfolding list_ex_iff mapper_error_def is_mapper_def mapper_regs_def Bex_def in_set_conv_nth by blast
  then show ?thesis by (simp add: apple_dart_update_irq_def apple_dart_raise_irq_def)
qed

lemma fault_bit_status: "bit (fault_status f) (fault_bit (Inl f))" "bit (fault_status f) 31"
  by (cases f; simp; code_simp)+

lemma mapper_error_upd:
  assumes "is_mapper d k"
  shows "mapper_error (upd_regs k f d) j \<longleftrightarrow> (if j = k then error_status (f (mapper_regs k d)) \<noteq> 0 else mapper_error d j)"
  using assms by (auto simp: mapper_error_def is_mapper_def mapper_regs_def upd_regs_def nth_list_update)

lemma mapper_error_raise [simp]: "mapper_error (apple_dart_raise_irq d) j \<longleftrightarrow> mapper_error d j"
  by (simp add: mapper_error_def is_mapper_def)

text \<open>The state after a refused access: an error status with the flag, the cause and the stream.\<close>

lemma refused_reports:
  assumes "dart_geom d" "stream_on d k sid" "refused (dart_page ldq d k sid addr) w"
  shows "\<exists>e st. apple_dart_mapper_translate ldq k sid addr (dart_flag w) d =
      Inr (e, apple_dart_raise_irq (upd_regs k (\<lambda>r. r\<lparr>error_address := addr, error_status := st\<rparr>) d)) \<and>
    iotlb_access e addr len w = None \<and> bit st 31 \<and> extract32 st 24 4 = of_nat sid \<and> bit st (fault_bit (dart_page ldq d k sid addr))"
proof -
  have sid: "bit (of_nat sid :: u32) i \<Longrightarrow> i < 4" for i
  proof -
    assume "bit (of_nat sid :: u32) i"
    moreover have "(of_nat sid :: u32) = take_bit 4 (of_nat sid)"
      using assms(2) by (simp add: stream_on_def take_bit_of_nat take_bit_nat_eq_self)
    ultimately show "i < 4" by (metis bit_take_bit_iff)
  qed
  have fld: "extract32 (deposit32 x 24 4 (of_nat sid)) 24 4 = of_nat sid" for x
    by (rule bit_word_eqI) (auto dest: sid)
  show ?thesis
  proof (cases "dart_page ldq d k sid addr")
    case (Inl f)
    let ?st = "deposit32 (error_status (mapper_regs k d) OR fault_status f) 24 4 (of_nat sid)"
    have "bit ?st 31" "bit ?st (fault_bit (Inl f))" using fault_bit_status [of f] by (cases f; simp add: bit_or_iff)+
    then show ?thesis using Inl fld
      by (intro exI [of _ "\<lparr>iova = addr, translated_addr = 0, addr_mask = mask (page_shift d), perm = IOMMU_NONE\<rparr>"] exI [of _ ?st])
        (simp add: translate_page [OF assms(1,2)] Let_def iotlb_access_def upd_regs_def)
  next
    case (Inr pte)
    let ?st = "deposit32 (deposit32 (deposit32 (error_status (mapper_regs k d)) 31 1 1) 3 1 1) 24 4 (of_nat sid)"
    have b: "bit pte (no_access w)" using assms(3) Inr by (simp add: refused_def)
    have "bit ?st 31" "bit ?st 3" by simp_all
    moreover have "IOMMU_ACCESS_FLAG (\<not> bit pte 8) (\<not> bit pte 7) AND push_bit (if w then 1 else 0) 1 = 0"
      using b access_flag_bits by (cases w) (simp_all add: no_access_def)
    ultimately show ?thesis using Inr b fld
      by (intro exI [of _ "\<lparr>iova = addr, translated_addr = of_nat (dart_frame (page_shift d) pte) OR (addr AND mask (page_shift d)),
            addr_mask = mask (page_shift d), perm = IOMMU_ACCESS_FLAG (\<not> bit pte 8) (\<not> bit pte 7)\<rparr>"] exI [of _ ?st])
        (simp add: translate_page [OF assms(1,2)] Let_def iotlb_access_def dart_prot_fault_def upd_regs_def)
  qed
qed

text \<open>
  Property C25 (error). A refused access is reported and can be acknowledged: if the walk faults, or the
  entry forbids the access, the memory core refuses it, the interrupt line is high, the status
  register reads with its flag, the stream and the bit of the cause (a protection fault has the same
  bit for reads and writes), and the address registers read the two halves of the address. Writing
  the status back clears it, and the line then only stays high for an error of another mapper.
\<close>

theorem dart_fault_reported:
  assumes "dart_geom d" "stream_on d k sid" "refused (dart_page ldq d k sid addr) w"
  shows "\<exists>e d' st d''. apple_dart_mapper_translate ldq k sid addr (dart_flag w) d = Inr (e, d') \<and>
    iotlb_access e addr len w = None \<and> dart_irq d' \<and> apple_dart_mapper_reg_read k 0x40 d' = Inr (ucast st) \<and>
    bit st 31 \<and> extract32 st 24 4 = of_nat sid \<and> bit st (fault_bit (dart_page ldq d k sid addr)) \<and>
    apple_dart_mapper_reg_read k 0x50 d' = Inr (extract64 addr 0 32) \<and>
    apple_dart_mapper_reg_read k 0x54 d' = Inr (extract64 addr 32 32) \<and>
    apple_dart_mapper_reg_write k 0x40 (ucast st) d' = Inr (d'', []) \<and>
    apple_dart_mapper_reg_read k 0x40 d'' = Inr 0 \<and> (dart_irq d'' \<longleftrightarrow> (\<exists>j. j \<noteq> k \<and> mapper_error d j))"
proof -
  have k: "is_mapper d k" "k < length (instances d)" using assms(2) by (simp_all add: stream_on_def is_mapper_def)
  obtain e st where t: "apple_dart_mapper_translate ldq k sid addr (dart_flag w) d =
      Inr (e, apple_dart_raise_irq (upd_regs k (\<lambda>r. r\<lparr>error_address := addr, error_status := st\<rparr>) d))"
    "iotlb_access e addr len w = None" "bit st 31" "extract32 st 24 4 = of_nat sid" "bit st (fault_bit (dart_page ldq d k sid addr))"
    using refused_reports [OF assms] by blast
  let ?d = "apple_dart_raise_irq (upd_regs k (\<lambda>r. r\<lparr>error_address := addr, error_status := st\<rparr>) d)"
  let ?a = "upd_regs k (\<lambda>r. r\<lparr>error_status := error_status r AND NOT st\<rparr>) ?d"
  have r: "mapper_regs k ?d = (mapper_regs k d)\<lparr>error_address := addr, error_status := st\<rparr>" using k by simp
  have m: "is_mapper ?d k" using k by (simp add: is_mapper_def upd_regs_def)
  have err: "mapper_error ?a j \<longleftrightarrow> j \<noteq> k \<and> mapper_error d j" for j
    by (simp add: mapper_error_upd [OF m] mapper_error_upd [OF k(1)] k(2))
  have w: "apple_dart_mapper_reg_write k 0x40 (ucast st) ?d = Inr (apple_dart_update_irq ?a, [])"
    by (simp add: apple_dart_mapper_reg_write_def Let_def)
  have z: "apple_dart_mapper_reg_read k 0x40 (apple_dart_update_irq ?a) = Inr 0"
    using k by (simp add: apple_dart_mapper_reg_read_def Let_def update_irq_errors mapper_regs_def upd_regs_def)
  have rd: "apple_dart_mapper_reg_read k 0x40 ?d = Inr (ucast st)" "apple_dart_mapper_reg_read k 0x50 ?d = Inr (extract64 addr 0 32)"
    "apple_dart_mapper_reg_read k 0x54 ?d = Inr (extract64 addr 32 32)"
    by (simp_all add: apple_dart_mapper_reg_read_def Let_def k)
  have "dart_irq (apple_dart_update_irq ?a) \<longleftrightarrow> (\<exists>j. j \<noteq> k \<and> mapper_error d j)" by (simp add: update_irq_errors err)
  then show ?thesis using t w z rd by (intro exI conjI) (assumption | simp)+
qed

theorem dart_fault_reported_witness:
  "\<exists>e d' st d''. apple_dart_mapper_translate dart_demo_mem 0 0 0x14010 (dart_flag True) dart_demo = Inr (e, d') \<and>
    iotlb_access e 0x14010 4 True = None \<and> dart_irq d' \<and> apple_dart_mapper_reg_read 0 0x40 d' = Inr (ucast st) \<and>
    bit st 31 \<and> extract32 st 24 4 = of_nat 0 \<and> bit st 3 \<and>
    apple_dart_mapper_reg_read 0 0x50 d' = Inr (extract64 0x14010 0 32) \<and>
    apple_dart_mapper_reg_read 0 0x54 d' = Inr (extract64 0x14010 32 32) \<and>
    apple_dart_mapper_reg_write 0 0x40 (ucast st) d' = Inr (d'', []) \<and>
    apple_dart_mapper_reg_read 0 0x40 d'' = Inr 0 \<and> (dart_irq d'' \<longleftrightarrow> (\<exists>j. j \<noteq> 0 \<and> mapper_error dart_demo j))"
proof -
  have "bit (0x10081 :: u64) (no_access True)" by code_simp
  then have "refused (dart_page dart_demo_mem dart_demo 0 0 0x14010) True" by (simp add: refused_def dart_demo_page)
  from dart_fault_reported [OF dart_demo_geom dart_demo_on(1) this, of 4] show ?thesis by (simp only: dart_demo_page fault_bit.simps)
qed

subsection \<open>One entry for a page\<close>

text \<open>The entry of a translation; a faulting one gives none.\<close>

definition dart_entry :: "(u64 \<Rightarrow> u64 option) \<times> nat \<times> nat \<times> AppleDARTState \<Rightarrow> bool \<Rightarrow> u64 \<Rightarrow> IOMMUTLBEntry" where
  "dart_entry = (\<lambda>(ldq, k, sid, d) w addr.
     case apple_dart_mapper_translate ldq k sid addr (dart_flag w) d of
       Inr (e, _) \<Rightarrow> e | Inl _ \<Rightarrow> \<lparr>iova = addr, translated_addr = 0, addr_mask = page_bits d, perm = IOMMU_NONE\<rparr>)"

lemma dart_entry_eq:
  assumes "dart_geom d"
  shows "dart_entry (ldq, k, sid, d) w addr =
    (let e = \<lparr>iova = addr, translated_addr = 0, addr_mask = mask (page_shift d), perm = IOMMU_NONE\<rparr>;
         r = mapper_regs k d
     in if dart_busy r \<or> length (sid_config r) \<le> remapped d k sid \<or> \<not> bit (sid_config r ! remapped d k sid) 7 \<or>
           bit (sid_config r ! remapped d k sid) 8 then e
        else case dart_page ldq d k sid addr of Inl _ \<Rightarrow> e
          | Inr pte \<Rightarrow> e\<lparr>translated_addr := of_nat (dart_frame (page_shift d) pte) OR (addr AND mask (page_shift d)),
              perm := IOMMU_ACCESS_FLAG (\<not> bit pte 8) (\<not> bit pte 7)\<rparr>)"
proof -
  have v: "unat (drop_bit (page_shift d) addr) = unat addr div 2 ^ page_shift d" by (rule unat_page)
  have pb: "page_bits d = mask (page_shift d)" using assms by (simp add: dart_geom_def)
  show ?thesis
    unfolding dart_entry_def prod.case apple_dart_mapper_translate_def Let_def remapped_def [symmetric] extract32_1
      ptw_refines [OF assms] v pb dart_page_def [symmetric]
    by (simp add: fault_status_neq_0 split: sum.split)
qed

lemma dart_page_cong: "drop_bit (page_shift d) a = drop_bit (page_shift d) b \<Longrightarrow> dart_page ldq d k sid a = dart_page ldq d k sid b"
  by (metis dart_page_def unat_page(1))

interpretation dart: iommu dart_entry "\<lambda>(ldq, k, sid, d). page_shift d" "\<lambda>(ldq, k, sid, d). dart_geom d"
proof
  fix s :: "(u64 \<Rightarrow> u64 option) \<times> nat \<times> nat \<times> AppleDARTState" and w and a b :: u64
  obtain ldq k sid d where s: "s = (ldq, k, sid, d)" by (cases s)
  assume ok: "case s of (ldq, k, sid, d) \<Rightarrow> dart_geom d"
  then have g: "dart_geom d" by (simp add: s)
  show "(case s of (ldq, k, sid, d) \<Rightarrow> page_shift d) < 64" using g by (auto simp: s dart_geom_def)
  show "addr_mask (dart_entry s w a) = mask (case s of (ldq, k, sid, d) \<Rightarrow> page_shift d)"
    by (simp add: s dart_entry_eq [OF g] Let_def split: sum.split)
  assume "drop_bit (case s of (ldq, k, sid, d) \<Rightarrow> page_shift d) a = drop_bit (case s of (ldq, k, sid, d) \<Rightarrow> page_shift d) b"
  then have p: "dart_page ldq d k sid a = dart_page ldq d k sid b" by (intro dart_page_cong) (simp add: s)
  have j: "drop_bit n (mask n :: u64) = 0" for n
    by (rule bit_word_eqI) (auto simp: bit_logic)
  show "perm (dart_entry s w a) = perm (dart_entry s w b) \<and>
      drop_bit (case s of (ldq, k, sid, d) \<Rightarrow> page_shift d) (translated_addr (dart_entry s w a)) =
      drop_bit (case s of (ldq, k, sid, d) \<Rightarrow> page_shift d) (translated_addr (dart_entry s w b))"
    by (simp add: s dart_entry_eq [OF g] Let_def p j split: sum.split)
qed

text \<open>
  Property C24 (safety). The length the memory core goes on with after a translation stays inside what
  was translated: when an access to \<open>addr\<close> is given the physical address \<open>p\<close> and \<open>n\<close> bytes, then each
  later byte of those translates on its own, to the byte of memory that follows, with the rest of the
  length. So a device can not reach past a page through an entry for it.
\<close>

theorem dart_access_span:
  assumes "dart_geom d" "iotlb_access (dart_entry (ldq, k, sid, d) w addr) addr len w = Some (p, n)" "unat i < unat n"
  shows "iotlb_access (dart_entry (ldq, k, sid, d) w (addr + i)) (addr + i) (len - i) w = Some (p + i, n - i)"
  using dart.access_span [of "(ldq, k, sid, d)" w addr len p n i] assms by simp

lemma dart_demo_entry: "iotlb_access (dart_entry (dart_demo_mem, 0, 0, dart_demo) False 0x14010) 0x14010 64 False = Some (0x10010, 64)"
proof -
  have s: "page_shift dart_demo = 14" by (simp add: dart_demo_def)
  have f: "dart_frame 14 0x10081 = 0x10000" by (simp add: dart_frame_def)
  have b: "\<not> bit (0x10081 :: u64) 8" by code_simp
  have on: "\<not> (dart_busy (mapper_regs 0 dart_demo) \<or> length (sid_config (mapper_regs 0 dart_demo)) \<le> 0 \<or>
      \<not> bit (sid_config (mapper_regs 0 dart_demo) ! 0) 7 \<or> bit (sid_config (mapper_regs 0 dart_demo) ! 0) 8)"
    using dart_demo_on by (simp add: stream_on_def)
  show ?thesis
    unfolding dart_entry_eq [OF dart_demo_geom] Let_def dart_demo_on(2) if_not_P [OF on] dart_demo_page s f
    using b by (simp add: f iotlb_access_def Let_def mask_eq_exp_minus_1 IOMMU_ACCESS_FLAG_def)
qed

theorem dart_access_span_witness:
  "iotlb_access (dart_entry (dart_demo_mem, 0, 0, dart_demo) False (0x14010 + 8)) (0x14010 + 8) (64 - 8) False = Some (0x10010 + 8, 64 - 8)"
  by (rule dart_access_span [OF dart_demo_geom dart_demo_entry]) simp

lemma mod_div_pow: "(v :: nat) mod 2 ^ (a + b) div 2 ^ a = v div 2 ^ a mod 2 ^ b"
  unfolding drop_bit_eq_div [symmetric] take_bit_eq_mod [symmetric] by (simp add: drop_bit_take_bit)

lemma dart_walk_20: "dart_walk mem 12 root v = dart_walk mem 12 root (v mod 2 ^ 20)"
proof -
  have e: "12 - 3 = (9 :: nat)" "2 * 9 = (18 :: nat)" by simp_all
  have i: "v mod 2 ^ 20 div 2 ^ 18 mod 4 = v div 2 ^ 18 mod 4" "v mod 2 ^ 20 div 2 ^ 9 mod 2 ^ 9 = v div 2 ^ 9 mod 2 ^ 9"
    "v mod 2 ^ 20 mod 2 ^ 9 = v mod 2 ^ 9"
    using mod_div_pow [of v 18 2] mod_div_pow [of v 9 11] mod_mod_cancel [of "2 ^ 9" "2 ^ 11" "v div 2 ^ 9"]
      mod_mod_cancel [of "2 ^ 9" "2 ^ 20" v] by simp_all
  show ?thesis unfolding dart_walk_def e i ..
qed

text \<open>
  With 4K pages the tables cover 32 bits of address: the six bits above, which
  the region of 38 bits lets through, are ignored, so two addresses 4G apart are the same page.
\<close>

theorem dart_4k_alias:
  assumes "dart_geom d" "page_shift d = 12"
  shows "translated_addr (dart_entry (ldq, k, sid, d) w (addr + 2 ^ 32)) = translated_addr (dart_entry (ldq, k, sid, d) w addr) \<and>
    perm (dart_entry (ldq, k, sid, d) w (addr + 2 ^ 32)) = perm (dart_entry (ldq, k, sid, d) w addr)"
proof -
  let ?a = "addr + 2 ^ 32"
  have m: "unat ?a mod 2 ^ 32 = unat addr mod 2 ^ 32"
    using mod_mod_cancel [of "2 ^ 32" "2 ^ 64 :: nat" "unat addr + 2 ^ 32"] by (simp add: unat_word_ariths)
  have "unat ?a div 2 ^ 12 mod 2 ^ 20 = unat addr div 2 ^ 12 mod 2 ^ 20"
    using arg_cong [OF m, of "\<lambda>x. x div 2 ^ 12"] mod_div_pow [of _ 12 20] by simp
  then have p: "dart_page ldq d k sid ?a = dart_page ldq d k sid addr"
    unfolding dart_page_def assms(2) using dart_walk_20 by metis
  have "unat ?a mod 2 ^ 12 = unat addr mod 2 ^ 12"
    using arg_cong [OF m, of "\<lambda>x. x mod 2 ^ 12"] mod_mod_cancel [of "2 ^ 12" "2 ^ 32 :: nat"] by simp
  then have "take_bit 12 ?a = take_bit 12 addr" unfolding word_unat_eq_iff unat_page .
  then have o: "?a AND mask 12 = addr AND mask 12" by (simp only: take_bit_eq_mask)
  show ?thesis unfolding dart_entry_eq [OF assms(1)] p assms(2) o by (simp add: Let_def split: sum.split)
qed

definition dart_demo_4k :: AppleDARTState where
  "dart_demo_4k = dart_demo\<lparr>page_shift := 12, page_mask := NOT (mask 12), page_bits := mask 12,
     l_mask := [0xC0000, 0x3FE00, 0x1FF], l_shift := [0x12, 9, 0]\<rparr>"

theorem dart_4k_alias_witness:
  "translated_addr (dart_entry (dart_demo_mem, 0, 0, dart_demo_4k) True (0x5000 + 2 ^ 32)) =
     translated_addr (dart_entry (dart_demo_mem, 0, 0, dart_demo_4k) True 0x5000) \<and>
   perm (dart_entry (dart_demo_mem, 0, 0, dart_demo_4k) True (0x5000 + 2 ^ 32)) =
     perm (dart_entry (dart_demo_mem, 0, 0, dart_demo_4k) True 0x5000)"
  by (rule dart_4k_alias) (simp_all add: dart_demo_4k_def dart_geom_def dart_levels_def)

subsection \<open>Runs\<close>

datatype dart_op = DWrite nat hwaddr u64 | DRead nat hwaddr | DTranslate "u64 \<Rightarrow> u64 option" nat nat u64 IOMMUAccessFlags

fun dart_step :: "dart_op \<Rightarrow> AppleDARTState \<Rightarrow> AppleDARTState res" where
  "dart_step (DWrite k addr data) d = rbind (apple_dart_mapper_reg_write k addr data d) (\<lambda>(d, _). Inr d)"
| "dart_step (DRead k addr) d = rbind (apple_dart_mapper_reg_read k addr d) (\<lambda>_. Inr d)"
| "dart_step (DTranslate ldq k sid addr flag) d = rbind (apple_dart_mapper_translate ldq k sid addr flag d) (\<lambda>(_, d). Inr d)"

fun dart_run :: "dart_op list \<Rightarrow> AppleDARTState \<Rightarrow> AppleDARTState res" where
  "dart_run [] d = Inr d"
| "dart_run (x # xs) d = rbind (dart_step x d) (dart_run xs)"

text \<open>
  A register access of a guest that stays inside the arrays: aligned, not in the part of the two
  windows that lies past its array, and only remapping to streams that exist.
\<close>

definition dart_addr_ok :: "hwaddr \<Rightarrow> bool" where
  "dart_addr_ok addr \<longleftrightarrow> 4 dvd addr \<and> \<not> (0x90 \<le> addr \<and> addr < 0xC0) \<and> \<not> (0x300 \<le> addr \<and> addr < 0x640)"

fun dart_op_ok :: "AppleDARTState \<Rightarrow> dart_op \<Rightarrow> bool" where
  "dart_op_ok d (DWrite k addr data) \<longleftrightarrow> is_mapper d k \<and> dart_addr_ok addr \<and>
     (0x80 \<le> addr \<and> addr < 0x90 \<longrightarrow> list_all (\<lambda>b. b < 16) (to_le 4 (ucast data :: u32)))"
| "dart_op_ok d (DRead k addr) \<longleftrightarrow> is_mapper d k \<and> dart_addr_ok addr"
| "dart_op_ok d (DTranslate ldq k sid addr flag) \<longleftrightarrow> is_mapper d k \<and> sid < 16"

definition regs_ok :: "AppleDARTDARTRegs \<Rightarrow> bool" where
  "regs_ok r \<longleftrightarrow> length (sid_remap r) = 16 \<and> list_all (\<lambda>b. b < 16) (sid_remap r) \<and> length (sid_config r) = 16 \<and>
     length (ttbr r) = 64 \<and> \<not> dart_busy r"

definition mapper_ok :: "AppleDARTState \<Rightarrow> nat \<Rightarrow> bool" where
  "mapper_ok d k \<longleftrightarrow> regs_ok (mapper_regs k d) \<and> iommus (instances d ! k) = map (bit (sid_mask d)) [0..<16]"

definition dart_inv :: "AppleDARTState \<Rightarrow> bool" where
  "dart_inv d \<longleftrightarrow> (\<forall>k. is_mapper d k \<longrightarrow> mapper_ok d k) \<and> (dart_irq d \<longleftrightarrow> (\<exists>k. mapper_error d k))"

lemma is_mapper_upd [simp]: "is_mapper (upd_regs k f d) j \<longleftrightarrow> is_mapper d j"
  by (cases "j = k") (auto simp: is_mapper_def upd_regs_def nth_list_update)

lemma is_mapper_raise [simp]: "is_mapper (apple_dart_raise_irq d) j \<longleftrightarrow> is_mapper d j"
  by (simp add: is_mapper_def)

lemma mapper_ok_upd:
  assumes "is_mapper d k" "regs_ok (f (mapper_regs k d))" "\<forall>j. is_mapper d j \<longrightarrow> mapper_ok d j"
  shows "\<forall>j. is_mapper (upd_regs k f d) j \<longrightarrow> mapper_ok (upd_regs k f d) j"
  using assms by (auto simp: mapper_ok_def mapper_regs_def upd_regs_def is_mapper_def nth_list_update)

text \<open>An update of the registers that leaves the error status alone, and one that raises an error.\<close>

lemma dart_inv_upd:
  assumes "dart_inv d" "is_mapper d k" "regs_ok (f (mapper_regs k d))" "error_status (f (mapper_regs k d)) = error_status (mapper_regs k d)"
  shows "dart_inv (upd_regs k f d)"
proof -
  have "mapper_error (upd_regs k f d) j \<longleftrightarrow> mapper_error d j" for j
    using assms(2,4) by (simp add: mapper_error_upd) (auto simp: mapper_error_def)
  then show ?thesis using assms mapper_ok_upd [of d k f] by (auto simp: dart_inv_def)
qed

lemma dart_inv_raise:
  assumes "dart_inv d" "is_mapper d k" "regs_ok (f (mapper_regs k d))" "error_status (f (mapper_regs k d)) \<noteq> 0"
  shows "dart_inv (apple_dart_raise_irq (upd_regs k f d))"
proof -
  let ?d = "upd_regs k f d"
  have "mapper_error ?d k" using assms(2,4) by (simp add: mapper_error_upd)
  moreover have "mapper_ok (apple_dart_raise_irq ?d) j \<longleftrightarrow> mapper_ok ?d j" for j
    by (simp add: mapper_ok_def apple_dart_raise_irq_def mapper_regs_def)
  ultimately show ?thesis using assms mapper_ok_upd [of d k f] by (auto simp: dart_inv_def)
qed

lemma dart_inv_update_irq:
  assumes "dart_inv d" "is_mapper d k" "regs_ok (f (mapper_regs k d))"
  shows "dart_inv (apple_dart_update_irq (upd_regs k f d))"
proof -
  let ?d = "upd_regs k f d" and ?i = "apple_dart_update_irq (upd_regs k f d)"
  have "is_mapper ?i j \<longleftrightarrow> is_mapper ?d j" "mapper_ok ?i j \<longleftrightarrow> mapper_ok ?d j" "mapper_error ?i j \<longleftrightarrow> mapper_error ?d j" for j
    by (simp_all add: update_irq_errors is_mapper_def mapper_ok_def mapper_regs_def mapper_error_def)
  moreover have "dart_irq ?i \<longleftrightarrow> (\<exists>j. mapper_error ?d j)" by (simp add: update_irq_errors)
  ultimately show ?thesis using mapper_ok_upd [of d k f] assms by (simp add: dart_inv_def)
qed

lemma deposit_error_neq_0: "bit x 31 \<Longrightarrow> deposit32 x 24 4 v \<noteq> 0"
proof
  assume x: "bit x 31" and "deposit32 x 24 4 v = 0"
  then have "\<not> bit (deposit32 x 24 4 v) 31" by simp
  then show False using x by simp
qed

lemma ptw_loop_status: "ptw_loop ldq d v levels pa pte = Inl st \<Longrightarrow> bit st 31"
proof (induction levels arbitrary: pa pte)
  case (Cons level levels)
  show ?case
  proof (cases "ldq (pa + 8 * l_index d level v)")
    case None
    then show ?thesis using Cons.prems by auto
  next
    case (Some e)
    then show ?thesis using Cons by (auto split: if_splits)
  qed
qed simp

lemma ptw_status: "apple_dart_mapper_ptw ldq k sid v e d = (st, e') \<Longrightarrow> st = 0 \<or> bit st 31"
  by (auto simp: apple_dart_mapper_ptw_def Let_def simp del: ptw_loop.simps split: if_splits sum.splits dest: ptw_loop_status)

lemma regs_ok_error [simp]: "regs_ok (r\<lparr>error_status := x\<rparr>) = regs_ok r" "regs_ok (r\<lparr>error_address := a\<rparr>) = regs_ok r"
  by (simp_all add: regs_ok_def dart_busy_def)

lemma dart_prot_fault_inv:
  assumes "dart_inv d" "is_mapper d k"
  shows "dart_inv (dart_prot_fault k sid addr d)"
  unfolding dart_prot_fault_def
  by (rule dart_inv_raise [OF assms]) (use assms in \<open>simp_all add: dart_inv_def mapper_ok_def deposit_error_neq_0\<close>)

lemma dart_step_translate:
  assumes "dart_inv d" "is_mapper d k" "sid < 16"
  shows "\<exists>e d'. apple_dart_mapper_translate ldq k sid addr flag d = Inr (e, d') \<and> dart_inv d' \<and> (\<forall>j. is_mapper d' j \<longleftrightarrow> is_mapper d j)"
proof -
  let ?r = "mapper_regs k d"
  let ?e = "\<lparr>iova = addr, translated_addr = 0, addr_mask = page_bits d, perm = IOMMU_NONE\<rparr>"
  have ok: "regs_ok ?r" using assms by (simp add: dart_inv_def mapper_ok_def)
  then have "sid_remap ?r ! sid < 16" "length (sid_config ?r) = 16" using assms(3) by (simp_all add: regs_ok_def list_all_length)
  then have s: "\<not> length (sid_config ?r) \<le> unat (sid_remap ?r ! sid)" by (simp add: word_less_nat_alt)
  obtain st e where p: "apple_dart_mapper_ptw ldq k (unat (sid_remap ?r ! sid)) (drop_bit (page_shift d) addr) ?e d = (st, e)"
    by fastforce
  have "dart_inv (apple_dart_raise_irq (upd_regs k (\<lambda>r. r\<lparr>error_address := addr,
      error_status := deposit32 (error_status r OR st) 24 4 (of_nat sid)\<rparr>) d))" if "st \<noteq> 0"
    by (rule dart_inv_raise [OF assms(1,2)]) (use ok ptw_status [OF p] that in \<open>simp_all add: deposit_error_neq_0 bit_or_iff\<close>)
  moreover have "is_mapper (dart_prot_fault k sid addr d') j \<longleftrightarrow> is_mapper d' j" for d' j by (simp add: dart_prot_fault_def)
  ultimately show ?thesis
    using s p dart_prot_fault_inv [OF assms(1,2)] dart_prot_fault_inv [of "dart_prot_fault k sid addr d" k] assms(1,2)
    by (auto simp: apple_dart_mapper_translate_def Let_def)
qed

lemma blit_small: "list_all P bs \<Longrightarrow> list_all P dst \<Longrightarrow> list_all P (blit i bs dst)"
  by (auto simp: blit_def list_all_iff dest: in_set_takeD in_set_dropD)

lemma tlb_sids_exist:
  assumes "mapper_ok d k"
  shows "\<not> list_ex (\<lambda>i. \<not> iommus (instances d ! k) ! i) (dart_tlb_sids val r d)"
  using assms by (auto simp: mapper_ok_def dart_tlb_sids_def Let_def list_ex_iff bit_logic split: if_splits)

lemma dart_step_tlb:
  assumes "dart_inv d" "is_mapper d k"
  shows "\<exists>d' ev. dart_tlb_op k val d = Inr (d', ev) \<and> dart_inv d' \<and> (\<forall>j. is_mapper d' j \<longleftrightarrow> is_mapper d j)"
proof -
  have ok: "mapper_ok d k" using assms by (simp add: dart_inv_def)
  have "extract32 (deposit32 val 2 1 1 AND NOT (push_bit 2 1)) 2 1 = 0"
    using extract32_bit [of 2 "deposit32 val 2 1 1 AND NOT (push_bit 2 1)"] by (simp add: bit_logic)
  then have "regs_ok ((mapper_regs k d)\<lparr>tlb_op := deposit32 val 2 1 1 AND NOT (push_bit 2 1)\<rparr>)"
    using ok by (simp add: mapper_ok_def regs_ok_def dart_busy_def)
  then have "dart_inv (upd_regs k (\<lambda>r. r\<lparr>tlb_op := deposit32 val 2 1 1 AND NOT (push_bit 2 1)\<rparr>) d)"
    by (intro dart_inv_upd [OF assms]) simp_all
  then show ?thesis using tlb_sids_exist [OF ok, of val "mapper_regs k d"] assms(1) unfolding dart_tlb_op_def Let_def by simp
qed

lemma dart_step_write:
  assumes "dart_inv d" "dart_op_ok d (DWrite k addr data)"
  shows "\<exists>d' ev. apple_dart_mapper_reg_write k addr data d = Inr (d', ev) \<and> dart_inv d' \<and> (\<forall>j. is_mapper d' j \<longleftrightarrow> is_mapper d j)"
proof -
  let ?r = "mapper_regs k d" and ?v = "ucast data :: u32"
  have k: "is_mapper d k" and a: "dart_addr_ok addr" using assms(2) by simp_all
  have ok: "regs_ok ?r" using assms(1) k by (simp add: dart_inv_def mapper_ok_def)
  note upd = dart_inv_upd [OF assms(1) k]
  obtain n where n: "addr = 4 * n" using a by (auto simp: dart_addr_ok_def)
  have remap: "\<not> length (sid_remap ?r) < addr - 0x80 + 4" "list_all (\<lambda>b. b < 16) (to_le 4 ?v)" if "32 \<le> n" "n \<le> 47"
    using that a assms(2) ok by (simp_all add: n dart_addr_ok_def regs_ok_def)
  have tt: "\<not> length (ttbr ?r) \<le> n - 128" if "128 \<le> n" "n \<le> 399"
    using that a ok by (simp add: n dart_addr_ok_def regs_ok_def)
  have "regs_ok (?r\<lparr>sid_remap := blit (addr - 0x80) (to_le 4 ?v) (sid_remap ?r)\<rparr>)" if "32 \<le> n" "n \<le> 47"
    using ok remap [OF that] by (simp add: regs_ok_def dart_busy_def blit_small)
  then have 1: "dart_inv (upd_regs k (\<lambda>r. r\<lparr>sid_remap := blit (addr - 0x80) (to_le 4 ?v) (sid_remap r)\<rparr>) d)" if "32 \<le> n" "n \<le> 47"
    using that by (intro upd) simp_all
  have 2: "dart_inv (upd_regs k (\<lambda>r. r\<lparr>sid_config := (sid_config r)[i := ?v]\<rparr>) d)"
    "dart_inv (upd_regs k (\<lambda>r. r\<lparr>ttbr := (ttbr r)[i := ?v]\<rparr>) d)" "dart_inv (upd_regs k (\<lambda>r. r\<lparr>dart_config := ?v\<rparr>) d)"
    "dart_inv (upd_regs k (\<lambda>r. r\<lparr>tlb_op_set := deposit64 (tlb_op_set r) i 32 (ucast ?v)\<rparr>) d)" for i
    by (rule upd; use ok in \<open>simp add: regs_ok_def dart_busy_def\<close>)+
  have 3: "dart_inv (apple_dart_update_irq (upd_regs k (\<lambda>r. r\<lparr>error_status := error_status r AND NOT ?v\<rparr>) d))"
    by (rule dart_inv_update_irq [OF assms(1) k]) (simp add: ok)
  have 4: "is_mapper (apple_dart_update_irq d') j \<longleftrightarrow> is_mapper d' j" for d' j by (simp add: update_irq_errors is_mapper_def)
  have b: "\<not> dart_busy ?r" using ok by (simp add: regs_ok_def)
  show ?thesis
    using dart_step_tlb [OF assms(1) k, of ?v] assms(1) 1 2 3 4 remap tt b
    by (simp add: apple_dart_mapper_reg_write_def Let_def n A_DART_SID_REMAP_def A_DART_SID_CONFIG_def A_DART_TTBR_def)
qed

lemma dart_step_read:
  assumes "dart_inv d" "dart_op_ok d (DRead k addr)"
  shows "\<exists>v. apple_dart_mapper_reg_read k addr d = Inr v"
proof -
  have k: "is_mapper d k" and a: "dart_addr_ok addr" using assms(2) by simp_all
  have ok: "regs_ok (mapper_regs k d)" using assms(1) k by (simp add: dart_inv_def mapper_ok_def)
  obtain n where n: "addr = 4 * n" using a by (auto simp: dart_addr_ok_def)
  show ?thesis using a ok
    by (auto simp: apple_dart_mapper_reg_read_def Let_def n A_DART_SID_REMAP_def A_DART_SID_CONFIG_def A_DART_TTBR_def
        dart_addr_ok_def regs_ok_def)
qed

lemma dart_step_safe:
  assumes "dart_inv d" "dart_op_ok d x"
  shows "\<exists>d'. dart_step x d = Inr d' \<and> dart_inv d' \<and> (\<forall>j. is_mapper d' j \<longleftrightarrow> is_mapper d j)"
proof (cases x)
  case (DWrite k addr data)
  then show ?thesis using dart_step_write [of d k addr data] assms by fastforce
next
  case (DRead k addr)
  then show ?thesis using dart_step_read [of d k addr] assms by fastforce
next
  case (DTranslate ldq k sid addr flag)
  then show ?thesis using dart_step_translate [of d k sid ldq addr flag] assms by fastforce
qed

lemma dart_op_ok_cong: "(\<And>j. is_mapper d' j \<longleftrightarrow> is_mapper d j) \<Longrightarrow> dart_op_ok d' x \<longleftrightarrow> dart_op_ok d x"
  by (cases x) simp_all

lemma dart_run_inv: "dart_inv d \<Longrightarrow> list_all (dart_op_ok d) xs \<Longrightarrow> \<exists>d'. dart_run xs d = Inr d' \<and> dart_inv d'"
proof (induction xs arbitrary: d)
  case (Cons x xs)
  obtain d' where d': "dart_step x d = Inr d'" "dart_inv d'" "\<forall>j. is_mapper d' j \<longleftrightarrow> is_mapper d j"
    using dart_step_safe [of d x] Cons.prems by auto
  then have "list_all (dart_op_ok d') xs" using Cons.prems dart_op_ok_cong [of d' d] by (simp add: list_all_iff)
  then show ?case using Cons.IH [of d'] d' by simp
qed simp

text \<open>A device made from a node and reset is well-formed.\<close>

lemma dart_from_node_instances:
  assumes "apple_dart_from_node node = Inr d"
  shows "\<not> dart_irq d \<and> (\<exists>tags. instances d = map (dart_instance (sid_mask d)) tags)"
proof -
  have i: "\<exists>tags. is = map (dart_instance sids) tags" if "dart_instances sids bs n = Inr is" for sids bs n "is"
  proof -
    have "is = map (dart_instance sids) (map (\<lambda>i. of_le (bslice (12 * i) 4 bs)) [0..<n])"
      using that by (simp add: dart_instances_def o_def split: if_splits)
    then show ?thesis by blast
  qed
  show ?thesis using assms
    by (auto simp: apple_dart_from_node_def Let_def split: if_splits option.splits dest!: i) (rule exI, rule refl)
qed

lemma regs_ok_reset: "regs_ok (dart_reset_regs d)"
proof -
  have "list_all (\<lambda>b. b < (16 :: u8)) (map of_nat [0..<16])" "extract32 0 2 1 = 0" by code_simp+
  then show ?thesis by (simp add: regs_ok_def dart_reset_regs_def dart_zero_regs_def dart_busy_def del: upt_rec_numeral)
qed

lemma dart_from_node_reset:
  assumes "apple_dart_from_node node = Inr d"
  shows "dart_inv (apple_dart_reset d)"
proof -
  let ?d = "apple_dart_reset d"
  obtain tags where t: "\<not> dart_irq d" "instances d = map (dart_instance (sid_mask d)) tags"
    using dart_from_node_instances [OF assms] by blast
  have r: "mapper_regs k ?d = dart_reset_regs d \<and> iommus (instances ?d ! k) = map (bit (sid_mask d)) [0..<16]" if "is_mapper ?d k" for k
  proof -
    have k: "k < length tags" "di_type (dart_instance (sid_mask d) (tags ! k)) = DART_DART"
      using that by (auto simp: is_mapper_def apple_dart_reset_def t(2) split: if_splits)
    then have "iommus (dart_instance (sid_mask d) (tags ! k)) = map (bit (sid_mask d)) [0..<16]"
      by (simp add: dart_instance_def Let_def del: upt_rec_numeral split: if_splits)
    then show ?thesis using k by (simp add: mapper_regs_def apple_dart_reset_def t(2) del: upt_rec_numeral)
  qed
  have "\<not> mapper_error ?d k" for k using r [of k] by (auto simp: mapper_error_def dart_reset_regs_def dart_zero_regs_def)
  moreover have "\<not> dart_irq ?d" "sid_mask ?d = sid_mask d" using t(1) by (simp_all add: apple_dart_reset_def)
  ultimately show ?thesis using r regs_ok_reset [of d] unfolding dart_inv_def mapper_ok_def by simp
qed

text \<open>
  Property C10 (invariant). A guest that keeps its register accesses inside the arrays can not make the
  device fault: from a device made from its device tree node and reset, every sequence of register
  reads, register writes and translations, over any contents of memory, runs to its end. After it
  the arrays have their sizes, no invalidation is left busy, every remapped stream exists, and the
  interrupt line is high exactly if some mapper has an error.
\<close>

theorem dart_run_safe:
  assumes "apple_dart_from_node node = Inr d" "list_all (dart_op_ok (apple_dart_reset d)) xs"
  shows "\<exists>d'. dart_run xs (apple_dart_reset d) = Inr d' \<and> dart_inv d'"
  by (rule dart_run_inv [OF dart_from_node_reset [OF assms(1)] assms(2)])

definition dart_demo_node :: AppleDTNode where
  "dart_demo_node = DTNode [(cs ''name'', plain_prop (cs ''dart'' @ [0])), (cs ''page-size'', plain_prop (to_le 4 (0x4000 :: u32))),
     (cs ''reg'', plain_prop (replicate 16 0))] [] False"

definition dart_demo_dev :: AppleDARTState where
  "dart_demo_dev = projr (apple_dart_from_node dart_demo_node)"

lemma dart_demo_dev: "apple_dart_from_node dart_demo_node = Inr dart_demo_dev" "is_mapper (apple_dart_reset dart_demo_dev) 0"
proof -
  have "\<not> isl (apple_dart_from_node dart_demo_node)" by code_simp
  then show "apple_dart_from_node dart_demo_node = Inr dart_demo_dev"
    by (cases "apple_dart_from_node dart_demo_node") (simp_all add: dart_demo_dev_def)
  show "is_mapper (apple_dart_reset dart_demo_dev) 0" by code_simp
qed

theorem dart_run_safe_witness:
  "\<exists>d'. dart_run [DWrite 0 0x200 0x80000001, DWrite 0 0x100 0x80, DTranslate (\<lambda>_. None) 0 0 0x4000 IOMMU_RO, DRead 0 0x40]
      (apple_dart_reset dart_demo_dev) = Inr d' \<and> dart_inv d'"
  by (rule dart_run_safe [OF dart_demo_dev(1)]) (simp add: dart_demo_dev(2) dart_addr_ok_def)

text \<open>
  A guest can make the device access memory past its register arrays: the window of
  the table registers spans 272 words for an array of 64, the window of the remap registers 64 bytes
  for an array of 16, and a stream remapped to a number past 15 indexes the configuration array with
  it.
\<close>

theorem dart_window_overruns:
  assumes "dart_inv d" "is_mapper d k"
  shows "apple_dart_mapper_reg_write k 0x300 data d = Inl OutOfBounds \<and> apple_dart_mapper_reg_read k 0x300 d = Inl OutOfBounds \<and>
    apple_dart_mapper_reg_write k 0x90 data d = Inl OutOfBounds \<and>
    (\<exists>d'. apple_dart_mapper_reg_write k 0x80 0x10 d = Inr (d', []) \<and>
      apple_dart_mapper_translate ldq k 0 addr flag d' = Inl OutOfBounds)"
proof -
  have ok: "regs_ok (mapper_regs k d)" using assms by (simp add: dart_inv_def mapper_ok_def)
  have k: "k < length (instances d)" using assms(2) by (simp add: is_mapper_def)
  have b: "to_le 4 (0x10 :: u32) = [0x10, 0, 0, 0]" by code_simp
  have r: "blit 0 [0x10, 0, 0, 0] xs ! 0 = (0x10 :: u8)" for xs by (simp add: blit_def)
  show ?thesis using ok
    by (simp add: apple_dart_mapper_reg_write_def apple_dart_mapper_reg_read_def apple_dart_mapper_translate_def Let_def k b r
        A_DART_SID_REMAP_def A_DART_SID_CONFIG_def A_DART_TTBR_def regs_ok_def dart_busy_def)
qed

theorem dart_window_overruns_witness:
  "apple_dart_mapper_reg_write 0 0x300 1 (apple_dart_reset dart_demo_dev) = Inl OutOfBounds \<and>
   apple_dart_mapper_reg_read 0 0x300 (apple_dart_reset dart_demo_dev) = Inl OutOfBounds \<and>
   apple_dart_mapper_reg_write 0 0x90 1 (apple_dart_reset dart_demo_dev) = Inl OutOfBounds \<and>
   (\<exists>d'. apple_dart_mapper_reg_write 0 0x80 0x10 (apple_dart_reset dart_demo_dev) = Inr (d', []) \<and>
      apple_dart_mapper_translate (\<lambda>_. None) 0 0 0x4000 IOMMU_RO d' = Inl OutOfBounds)"
  by (rule dart_window_overruns [OF dart_from_node_reset [OF dart_demo_dev(1)] dart_demo_dev(2)])

end
