(* ===== verification/Ssi.thy ===== *)
theory Ssi
  imports Prelude
begin

text \<open>
  The synchronous serial bus, \<open>hw/ssi/ssi.c\<close>: a transfer is offered to every peripheral of the bus, and
  one with the standard chip select behaviour answers only while it is selected. The state of a
  peripheral and its transfer function are those of the device.
\<close>

datatype SSICSMode = SSI_CS_NONE | SSI_CS_LOW | SSI_CS_HIGH

text \<open>A missing \<open>transfer_raw\<close> is \<open>ssi_transfer_raw_default\<close>.\<close>

record 'd SSIPeripheralClass =
  transfer :: "'d \<Rightarrow> u32 \<Rightarrow> u32 \<times> 'd"
  set_cs :: "('d \<Rightarrow> bool \<Rightarrow> 'd) option"
  cs_polarity :: SSICSMode
  transfer_raw :: "('d \<Rightarrow> u32 \<Rightarrow> u32 \<times> 'd) option"

record 'd SSIPeripheral =
  spc :: "'d SSIPeripheralClass"
  ssi_cs :: bool
  cs_index :: u8
  ssi_dev :: 'd

type_synonym 'd SSIBus = "'d SSIPeripheral list"

definition ssi_get_cs :: "'d SSIBus \<Rightarrow> u8 \<Rightarrow> 'd SSIPeripheral option" where
  "ssi_get_cs b i = find (\<lambda>p. cs_index p = i) b"

definition ssi_bus_check_address :: "'d SSIBus \<Rightarrow> 'd SSIPeripheral \<Rightarrow> bool" where
  "ssi_bus_check_address b p \<longleftrightarrow> (case ssi_get_cs b (cs_index p) of None \<Rightarrow> True | Some _ \<Rightarrow> False)"

definition ssi_cs_default :: "bool \<Rightarrow> 'd SSIPeripheral \<Rightarrow> 'd SSIPeripheral" where
  "ssi_cs_default level p =
     (let p = (if ssi_cs p \<noteq> level
               then case set_cs (spc p) of None \<Rightarrow> p | Some f \<Rightarrow> p\<lparr>ssi_dev := f (ssi_dev p) level\<rparr>
               else p)
      in p\<lparr>ssi_cs := level\<rparr>)"

definition ssi_selected :: "'d SSIPeripheral \<Rightarrow> bool" where
  "ssi_selected p \<longleftrightarrow> (ssi_cs p \<and> cs_polarity (spc p) = SSI_CS_HIGH) \<or> (\<not> ssi_cs p \<and> cs_polarity (spc p) = SSI_CS_LOW) \<or>
     cs_polarity (spc p) = SSI_CS_NONE"

definition ssi_transfer_raw_default :: "'d SSIPeripheral \<Rightarrow> u32 \<Rightarrow> u32 \<times> 'd SSIPeripheral" where
  "ssi_transfer_raw_default p v =
     (if ssi_selected p then let (r, d) = transfer (spc p) (ssi_dev p) v in (r, p\<lparr>ssi_dev := d\<rparr>) else (0, p))"

definition ssi_transfer_raw :: "'d SSIPeripheral \<Rightarrow> u32 \<Rightarrow> u32 \<times> 'd SSIPeripheral" where
  "ssi_transfer_raw p v =
     (case transfer_raw (spc p) of None \<Rightarrow> ssi_transfer_raw_default p v
      | Some f \<Rightarrow> let (r, d) = f (ssi_dev p) v in (r, p\<lparr>ssi_dev := d\<rparr>))"

primrec ssi_transfer :: "'d SSIBus \<Rightarrow> u32 \<Rightarrow> u32 \<times> 'd SSIBus" where
  "ssi_transfer [] v = (0, [])"
| "ssi_transfer (p # ps) v = (let (r, p) = ssi_transfer_raw p v; (r', ps) = ssi_transfer ps v in (r OR r', p # ps))"

text \<open>A peripheral that is not selected neither changes nor drives the bus.\<close>

lemma ssi_transfer_unselected:
  "list_all (\<lambda>p. transfer_raw (spc p) = None \<and> \<not> ssi_selected p) ps \<Longrightarrow> ssi_transfer ps v = (0, ps)"
  by (induction ps) (simp_all add: ssi_transfer_raw_def ssi_transfer_raw_default_def)

lemma ssi_transfer_one:
  assumes "transfer_raw (spc p) = None" "ssi_selected p"
    and "list_all (\<lambda>q. transfer_raw (spc q) = None \<and> \<not> ssi_selected q) (xs @ ys)"
  shows "ssi_transfer (xs @ p # ys) v =
    (fst (transfer (spc p) (ssi_dev p) v), xs @ p\<lparr>ssi_dev := snd (transfer (spc p) (ssi_dev p) v)\<rparr> # ys)"
  using assms(3)
proof (induction xs)
  case Nil
  then show ?case using assms(1,2) ssi_transfer_unselected [of ys v]
    by (simp add: ssi_transfer_raw_def ssi_transfer_raw_default_def split_beta)
next
  case (Cons q xs)
  then show ?case by (simp add: ssi_transfer_raw_def ssi_transfer_raw_default_def)
qed

end
