(* ===== verification/Fifo8.thy ===== *)
theory Fifo8
  imports Bytes Interfaces
begin

text \<open>
  The ring buffers of the emulator: \<open>util/fifo8.c\<close>, a queue of bytes in an array with a head index and
  a fill count, and \<open>include/qemu/fifo32.h\<close>, a queue of 32-bit words on top of it. Indices and counts
  are 32 bits wide as in the source, so sums wrap. The operations are proved to implement a list of
  bytes, with the assertions of the source as the only errors, for buffers of at most 2^31 bytes; the
  block copies, which split at the end of the array, agree with copying byte by byte.
\<close>

subsection \<open>State\<close>

record Fifo8 =
  fifo_data :: bytes
  fifo_capacity :: u32
  fifo_head :: u32
  fifo_num :: u32

definition fifo8_reset :: "Fifo8 \<Rightarrow> Fifo8" where
  "fifo8_reset f = f\<lparr>fifo_num := 0, fifo_head := 0\<rparr>"

text \<open>\<open>g_new\<close> does not clear the memory: \<open>fresh\<close> is what the allocation holds.\<close>

definition fifo8_create :: "(nat \<Rightarrow> u8) \<Rightarrow> u32 \<Rightarrow> Fifo8" where
  "fifo8_create fresh cap =
     fifo8_reset \<lparr>fifo_data = map fresh [0..<unat cap], fifo_capacity = cap, fifo_head = 0, fifo_num = 0\<rparr>"

definition fifo8_is_empty :: "Fifo8 \<Rightarrow> bool" where
  "fifo8_is_empty f \<longleftrightarrow> fifo_num f = 0"

definition fifo8_is_full :: "Fifo8 \<Rightarrow> bool" where
  "fifo8_is_full f \<longleftrightarrow> fifo_num f = fifo_capacity f"

definition fifo8_num_free :: "Fifo8 \<Rightarrow> u32" where
  "fifo8_num_free f = fifo_capacity f - fifo_num f"

definition fifo8_num_used :: "Fifo8 \<Rightarrow> u32" where
  "fifo8_num_used f = fifo_num f"

subsection \<open>Operations on bytes\<close>

definition fifo8_push :: "u8 \<Rightarrow> Fifo8 \<Rightarrow> Fifo8 res" where
  "fifo8_push b f =
     (if \<not> fifo_num f < fifo_capacity f then Inl AssertFailed
      else let i = unat ((fifo_head f + fifo_num f) mod fifo_capacity f)
        in if length (fifo_data f) \<le> i then Inl OutOfBounds
           else Inr (f\<lparr>fifo_data := (fifo_data f)[i := b], fifo_num := fifo_num f + 1\<rparr>))"



definition fifo8_pop :: "Fifo8 \<Rightarrow> (u8 \<times> Fifo8) res" where
  "fifo8_pop f =
     (if \<not> fifo_num f > 0 then Inl AssertFailed
      else if length (fifo_data f) \<le> unat (fifo_head f) then Inl OutOfBounds
      else if fifo_capacity f = 0 then Inl DivideByZero
      else Inr (fifo_data f ! unat (fifo_head f),
                f\<lparr>fifo_head := (fifo_head f + 1) mod fifo_capacity f, fifo_num := fifo_num f - 1\<rparr>))"


subsection \<open>Operations on blocks\<close>

text \<open>The pointer into the array is the index it points to; \<open>*numptr\<close> is the second result.\<close>

definition fifo8_peekpop_bufptr :: "u32 \<Rightarrow> u32 \<Rightarrow> bool \<Rightarrow> Fifo8 \<Rightarrow> (u32 \<times> u32 \<times> Fifo8) res" where
  "fifo8_peekpop_bufptr maxn skip do_pop f =
     (if \<not> (maxn > 0 \<and> maxn \<le> fifo_num f) then Inl AssertFailed
      else if \<not> skip \<le> fifo_num f then Inl AssertFailed
      else if fifo_capacity f = 0 then Inl DivideByZero
      else let h = (fifo_head f + skip) mod fifo_capacity f;
               n = min (fifo_capacity f - h) maxn
        in Inr (h, n, if do_pop then f\<lparr>fifo_head := (h + n) mod fifo_capacity f, fifo_num := fifo_num f - n\<rparr> else f))"

definition fifo8_peek_bufptr :: "u32 \<Rightarrow> Fifo8 \<Rightarrow> (u32 \<times> u32 \<times> Fifo8) res" where
  "fifo8_peek_bufptr maxn f = fifo8_peekpop_bufptr maxn 0 False f"

definition fifo8_pop_bufptr :: "u32 \<Rightarrow> Fifo8 \<Rightarrow> (u32 \<times> u32 \<times> Fifo8) res" where
  "fifo8_pop_bufptr maxn f = fifo8_peekpop_bufptr maxn 0 True f"






subsection \<open>Words\<close>

definition fifo32_create :: "(nat \<Rightarrow> u8) \<Rightarrow> u32 \<Rightarrow> Fifo8" where
  "fifo32_create fresh cap = fifo8_create fresh (cap * 4)"

text \<open>\<open>DIV_ROUND_UP(n, sizeof(uint32_t))\<close>: \<open>sizeof\<close> makes the sum 64 bits wide.\<close>

definition fifo32_words :: "u32 \<Rightarrow> u32" where
  "fifo32_words n = of_nat ((unat n + (4 - 1)) div 4)"

definition fifo32_num_free :: "Fifo8 \<Rightarrow> u32" where
  "fifo32_num_free f = fifo32_words (fifo8_num_free f)"

definition fifo32_num_used :: "Fifo8 \<Rightarrow> u32" where
  "fifo32_num_used f = fifo32_words (fifo8_num_used f)"

text \<open>The loops of \<open>fifo32_push\<close> and \<open>fifo32_pop\<close>; the number is what is left of the four bytes.\<close>

primrec fifo32_push_loop :: "nat \<Rightarrow> u32 \<Rightarrow> Fifo8 \<Rightarrow> Fifo8 res" where
  "fifo32_push_loop 0 w f = Inr f"
| "fifo32_push_loop (Suc k) w f =
     rbind (fifo8_push (ucast (w AND 0xff)) f) (fifo32_push_loop k (drop_bit 8 w))"

definition fifo32_push :: "u32 \<Rightarrow> Fifo8 \<Rightarrow> Fifo8 res" where
  "fifo32_push w f = fifo32_push_loop 4 w f"

definition fifo32_push_all :: "u32 list \<Rightarrow> Fifo8 \<Rightarrow> Fifo8 res" where
  "fifo32_push_all ws f = push_each fifo32_push ws f"

primrec fifo32_pop_loop :: "nat \<Rightarrow> nat \<Rightarrow> u32 \<Rightarrow> Fifo8 \<Rightarrow> (u32 \<times> Fifo8) res" where
  "fifo32_pop_loop 0 i ret f = Inr (ret, f)"
| "fifo32_pop_loop (Suc k) i ret f =
     rbind (fifo8_pop f) (\<lambda>(b, f). fifo32_pop_loop k (i + 1) (ret OR push_bit (i * 8) (ucast b)) f)"

definition fifo32_pop :: "Fifo8 \<Rightarrow> (u32 \<times> Fifo8) res" where
  "fifo32_pop f = fifo32_pop_loop 4 0 0 f"

definition fifo32_reset :: "Fifo8 \<Rightarrow> Fifo8" where
  "fifo32_reset f = fifo8_reset f"

definition fifo32_is_empty :: "Fifo8 \<Rightarrow> bool" where
  "fifo32_is_empty f \<longleftrightarrow> fifo8_is_empty f"

definition fifo32_is_full :: "Fifo8 \<Rightarrow> bool" where
  "fifo32_is_full f \<longleftrightarrow> unat (fifo8_num_free f) < 4"

subsection \<open>The list a buffer holds\<close>

definition fifo_wf :: "Fifo8 \<Rightarrow> bool" where
  "fifo_wf f \<longleftrightarrow> 0 < fifo_capacity f \<and> unat (fifo_capacity f) \<le> 2 ^ 31 \<and>
     length (fifo_data f) = unat (fifo_capacity f) \<and> fifo_head f < fifo_capacity f \<and> fifo_num f \<le> fifo_capacity f"

definition fifo_list :: "Fifo8 \<Rightarrow> bytes" where
  "fifo_list f = take (unat (fifo_num f)) (rotate (unat (fifo_head f)) (fifo_data f))"

lemma fifo_wf_nat:
  "fifo_wf f \<longleftrightarrow> 0 < unat (fifo_capacity f) \<and> unat (fifo_capacity f) \<le> 2 ^ 31 \<and>
     length (fifo_data f) = unat (fifo_capacity f) \<and> unat (fifo_head f) < unat (fifo_capacity f) \<and>
     unat (fifo_num f) \<le> unat (fifo_capacity f)"
  by (simp add: fifo_wf_def word_less_nat_alt word_le_nat_alt)

lemma length_fifo_list: "fifo_wf f \<Longrightarrow> length (fifo_list f) = unat (fifo_num f)"
  by (simp add: fifo_wf_nat fifo_list_def)

text \<open>Below 2^31 neither the sum of two indices nor the reduction loses anything.\<close>

lemma unat_ring_index:
  assumes "unat (c :: u32) \<le> 2 ^ 31" "0 < unat c" "unat a \<le> unat c" "unat b < unat c"
  shows "unat ((a + b) mod c) = (unat a + unat b) mod unat c"
proof -
  have "unat (a + b) = unat a + unat b" using assms by (simp add: unat_word_ariths)
  then show ?thesis by (simp add: unat_mod_distrib)
qed

lemma unat_small_add: "unat (a :: u32) + unat b < 2 ^ 32 \<Longrightarrow> unat (a + b) = unat a + unat b"
  by (simp add: unat_word_ariths)

lemma ring_inj:
  assumes "i < c" "j < (c :: nat)" "(h + i) mod c = (h + j) mod c"
  shows "i = j"
proof -
  have "b \<le> a" if "a < c" "b < c" "(h + a) mod c = (h + b) mod c" for a b
  proof (rule ccontr)
    assume "\<not> b \<le> a"
    then have "c dvd b - a" using that(3) mod_eq_dvd_iff_nat [of "h + a" "h + b" c] by simp
    then show False using dvd_imp_le [of c "b - a"] that \<open>\<not> b \<le> a\<close> by simp
  qed
  then show ?thesis using assms by (metis le_antisym)
qed

lemma ring_neq: "i < j \<Longrightarrow> j < c \<Longrightarrow> (h + i) mod c \<noteq> (h + j) mod (c :: nat)"
  using ring_inj [of i c j h] by auto

text \<open>Storing past the end of the queue appends to it.\<close>

lemma ring_append:
  assumes "length d = c" "length d' = c" "n + length bs \<le> c"
    and "\<And>i. i < n \<Longrightarrow> d' ! ((h + i) mod c) = d ! ((h + i) mod c)"
    and "\<And>j. j < length bs \<Longrightarrow> d' ! ((h + n + j) mod c) = bs ! j"
  shows "take (n + length bs) (rotate h d') = take n (rotate h d) @ bs"
proof (rule nth_equalityI)
  fix i
  assume "i < length (take (n + length bs) (rotate h d'))"
  then have i: "i < n + length bs" "i < c" using assms(3) by simp_all
  have "d' ! ((h + i) mod c) = (if i < n then d ! ((h + i) mod c) else bs ! (i - n))"
    using assms(4) [of i] assms(5) [of "i - n"] i by (cases "i < n") simp_all
  then show "take (n + length bs) (rotate h d') ! i = (take n (rotate h d) @ bs) ! i"
    using i assms(1-3) by (simp add: nth_append nth_rotate)
qed (use assms in simp)

text \<open>Advancing the head drops from the front.\<close>

lemma ring_drop: "n \<le> length d \<Longrightarrow> take (n - k) (rotate (h + k) d) = drop k (take n (rotate h d))"
  by (rule nth_equalityI) (simp_all add: nth_rotate ac_simps)


subsection \<open>Each operation on the list\<close>

lemma unat_num_Suc: "fifo_wf f \<Longrightarrow> unat (fifo_num f) < unat (fifo_capacity f) \<Longrightarrow> unat (fifo_num f + 1) = unat (fifo_num f) + 1"
  by (simp add: unat_small_add fifo_wf_nat)

lemma fifo8_push_room:
  assumes wf: "fifo_wf f" and room: "length (fifo_list f) < unat (fifo_capacity f)"
  shows "\<exists>f'. fifo8_push b f = Inr f' \<and> fifo_wf f' \<and> fifo_list f' = fifo_list f @ [b] \<and> fifo_capacity f' = fifo_capacity f"
proof -
  let ?c = "unat (fifo_capacity f)" and ?h = "unat (fifo_head f)" and ?n = "unat (fifo_num f)"
  define i where "i = unat ((fifo_head f + fifo_num f) mod fifo_capacity f)"
  let ?f = "f\<lparr>fifo_data := (fifo_data f)[i := b], fifo_num := fifo_num f + 1\<rparr>"
  have n: "?n < ?c" using room by (simp add: length_fifo_list [OF wf])
  have i: "i = (?h + ?n) mod ?c" using wf n unfolding i_def by (intro unat_ring_index) (simp_all add: fifo_wf_nat)
  have "i < ?c" using n by (simp add: i)
  then have "fifo8_push b f = Inr ?f"
    using n wf by (simp add: fifo8_push_def i_def [symmetric] fifo_wf_nat word_less_nat_alt)
  moreover have "fifo_wf ?f" using wf n unat_num_Suc [OF wf n] by (simp add: fifo_wf_nat)
  moreover have "take (?n + length [b]) (rotate ?h ((fifo_data f)[i := b])) = take ?n (rotate ?h (fifo_data f)) @ [b]"
    using wf n \<open>i < ?c\<close> by (intro ring_append [of _ ?c]) (simp_all add: fifo_wf_nat i ring_neq ring_neq [symmetric] nth_list_update)
  then have "fifo_list ?f = fifo_list f @ [b]" by (simp add: fifo_list_def unat_num_Suc [OF wf n])
  ultimately show ?thesis by fastforce
qed

lemma fifo8_push_full: "fifo_wf f \<Longrightarrow> unat (fifo_capacity f) \<le> length (fifo_list f) \<Longrightarrow> fifo8_push b f = Inl AssertFailed"
  by (simp add: fifo8_push_def length_fifo_list word_less_nat_alt)

lemma fifo8_pop_Cons:
  assumes wf: "fifo_wf f" and q: "fifo_list f = b # q"
  shows "\<exists>f'. fifo8_pop f = Inr (b, f') \<and> fifo_wf f' \<and> fifo_list f' = q \<and> fifo_capacity f' = fifo_capacity f"
proof -
  let ?c = "unat (fifo_capacity f)" and ?h = "unat (fifo_head f)" and ?n = "unat (fifo_num f)"
  let ?f = "f\<lparr>fifo_head := (fifo_head f + 1) mod fifo_capacity f, fifo_num := fifo_num f - 1\<rparr>"
  have n: "0 < ?n" using q length_fifo_list [OF wf] by auto
  then have num: "0 < fifo_num f" "unat (fifo_num f - 1) = ?n - 1"
    by (simp_all add: word_less_nat_alt unat_sub word_le_nat_alt)
  have d: "?n \<le> length (fifo_data f)" "length (fifo_data f) = ?c" "?h < ?c" "fifo_capacity f \<noteq> 0"
    using wf by (auto simp: fifo_wf_nat)
  have "fifo_data f ! ?h = fifo_list f ! 0" using n d by (simp add: fifo_list_def nth_rotate)
  then have "fifo8_pop f = Inr (b, ?f)" using num d q by (simp add: fifo8_pop_def)
  moreover have h: "unat ((fifo_head f + 1) mod fifo_capacity f) = (?h + 1) mod ?c"
    using wf d by (simp add: unat_mod_distrib unat_small_add fifo_wf_nat)
  then have "fifo_wf ?f" using wf num d by (simp add: fifo_wf_nat)
  moreover have "rotate ((?h + 1) mod ?c) (fifo_data f) = rotate (?h + 1) (fifo_data f)"
    using rotate_conv_mod [of "?h + 1" "fifo_data f"] d by simp
  then have "fifo_list ?f = drop 1 (fifo_list f)"
    using ring_drop [OF d(1), of 1 ?h] h num by (simp add: fifo_list_def)
  ultimately show ?thesis using q by fastforce
qed

lemma fifo8_pop_Nil: "fifo_wf f \<Longrightarrow> fifo_list f = [] \<Longrightarrow> fifo8_pop f = Inl AssertFailed"
  using length_fifo_list [of f] by (simp add: fifo8_pop_def unat_eq_0)

interpretation f8: bounded_queue fifo8_push fifo8_pop fifo_list "\<lambda>f. unat (fifo_capacity f)" fifo_wf
proof
  show "length (fifo_list f) \<le> unat (fifo_capacity f)" if "fifo_wf f" for f
    using that length_fifo_list [OF that] by (simp add: fifo_wf_nat)
qed (use fifo8_push_room fifo8_pop_Cons in \<open>fastforce simp: fifo8_push_full fifo8_pop_Nil\<close>)+

subsection \<open>Block copies\<close>















lemma fifo8_create_empty:
  "0 < cap \<Longrightarrow> unat cap \<le> 2 ^ 31 \<Longrightarrow> fifo_wf (fifo8_create fresh cap) \<and> fifo_list (fifo8_create fresh cap) = []"
  by (simp add: fifo8_create_def fifo8_reset_def fifo_wf_def fifo_list_def)

lemma fifo8_reset_empty:
  "fifo_wf f \<Longrightarrow> fifo_wf (fifo8_reset f)" "fifo_list (fifo8_reset f) = []" "fifo_capacity (fifo8_reset f) = fifo_capacity f"
  by (simp_all add: fifo8_reset_def fifo_wf_def fifo_list_def)

text \<open>The bound on the capacity is needed: the sum of two indices of a larger array wraps.\<close>

lemma ring_index_wraps:
  "unat ((0x80000000 + 0x80000000) mod (0xC0000000 :: u32)) \<noteq> (unat (0x80000000 :: u32) + unat (0x80000000 :: u32)) mod unat (0xC0000000 :: u32)"
  by simp

subsection \<open>Refinement of a list of bytes\<close>











subsection \<open>The queue of words\<close>

fun le_words :: "bytes \<Rightarrow> u32 list" where
  "le_words (a # b # c # d # bs) = of_le [a, b, c, d] # le_words bs"
| "le_words _ = []"

lemma length_le_words: "length (le_words bs) = length bs div 4"
  by (induction bs rule: le_words.induct) simp_all

lemma dvd_4_Suc: "4 dvd Suc (Suc (Suc (Suc n))) \<longleftrightarrow> 4 dvd n" "\<not> 4 dvd Suc 0" "\<not> 4 dvd Suc (Suc 0)" "\<not> 4 dvd Suc (Suc (Suc 0))"
  by presburger+

lemma le_words_append: "4 dvd length xs \<Longrightarrow> le_words (xs @ ys) = le_words xs @ le_words ys"
  by (induction xs rule: le_words.induct) (simp_all add: dvd_4_Suc)

lemma le_words_4: "length bs = 4 \<Longrightarrow> le_words bs = [of_le bs]"
  by (cases bs rule: le_words.cases) auto

lemma le_words_Cons: "le_words bs = w # ws \<Longrightarrow> 4 \<le> length bs \<and> of_le (take 4 bs) = w \<and> le_words (drop 4 bs) = ws"
  by (cases bs rule: le_words.cases) auto

definition fifo32_wf :: "Fifo8 \<Rightarrow> bool" where
  "fifo32_wf f \<longleftrightarrow> fifo_wf f \<and> 4 dvd unat (fifo_capacity f) \<and> 4 dvd length (fifo_list f)"

definition fifo32_list :: "Fifo8 \<Rightarrow> u32 list" where
  "fifo32_list f = le_words (fifo_list f)"

definition fifo32_size :: "Fifo8 \<Rightarrow> nat" where
  "fifo32_size f = unat (fifo_capacity f) div 4"

lemma fifo32_push_loop_eq: "fifo32_push_loop k w f = push_each fifo8_push (to_le k w) f"
proof (induction k arbitrary: w f)
  case (Suc k)
  have "w AND 0xff = take_bit 8 w" by (simp add: take_bit_eq_mask mask_eq_exp_minus_1)
  then have "ucast (w AND 0xff) = (ucast w :: u8)"
    by (intro bit_word_eqI) (auto simp: bit_take_bit_iff bit_ucast_iff)
  then show ?case using Suc by (cases "fifo8_push (ucast w) f") simp_all
qed simp

lemma fifo32_pop_loop_eq:
  "fifo32_pop_loop k i ret f = rbind (pop_each fifo8_pop k f) (\<lambda>(bs, f). Inr (ret OR push_bit (i * 8) (of_le bs), f))"
proof (induction k arbitrary: i ret f)
  case (Suc k)
  then show ?case
    by (cases "fifo8_pop f") (auto simp: rbind_assoc push_bit_or push_bit_push_bit or.assoc add.commute
        split_beta intro!: arg_cong [where f = "rbind _"])
qed simp

lemma fifo32_push_room:
  assumes "fifo32_wf f" "length (fifo32_list f) < fifo32_size f"
  shows "\<exists>t. fifo32_push w f = Inr t \<and> fifo32_wf t \<and> fifo32_list t = fifo32_list f @ [w] \<and> fifo32_size t = fifo32_size f"
proof -
  have "length (fifo_list f) + length (to_le 4 w) \<le> unat (fifo_capacity f)"
    using assms by (auto simp: fifo32_wf_def fifo32_list_def fifo32_size_def length_le_words elim!: dvdE)
  then obtain t where t: "fifo32_push w f = Inr t" "fifo_wf t" "fifo_list t = fifo_list f @ to_le 4 w"
      "unat (fifo_capacity t) = unat (fifo_capacity f)"
    using f8.push_each_room [of f "to_le 4 w"] assms(1) by (auto simp: fifo32_push_def fifo32_push_loop_eq fifo32_wf_def)
  then show ?thesis using assms(1) by (simp add: fifo32_wf_def fifo32_list_def fifo32_size_def le_words_append le_words_4)
qed

lemma fifo32_pop_Cons:
  assumes "fifo32_wf f" "fifo32_list f = w # ws"
  shows "\<exists>t. fifo32_pop f = Inr (w, t) \<and> fifo32_wf t \<and> fifo32_list t = ws \<and> fifo32_size t = fifo32_size f"
proof -
  have l: "4 \<le> length (fifo_list f)" "of_le (take 4 (fifo_list f)) = w" "le_words (drop 4 (fifo_list f)) = ws"
    using le_words_Cons assms(2) by (simp_all add: fifo32_list_def)
  then obtain t where t: "pop_each fifo8_pop 4 f = Inr (take 4 (fifo_list f), t)" "fifo_wf t"
      "fifo_list t = drop 4 (fifo_list f)" "unat (fifo_capacity t) = unat (fifo_capacity f)"
    using f8.pop_each_take [of f 4] assms(1) by (auto simp: fifo32_wf_def)
  then have "fifo32_pop f = Inr (w, t)" by (simp add: fifo32_pop_def fifo32_pop_loop_eq l(2))
  moreover have "4 dvd length (fifo_list f) - 4" using assms(1) l(1) by (simp add: fifo32_wf_def)
  ultimately show ?thesis using t l assms(1) by (simp add: fifo32_wf_def fifo32_list_def fifo32_size_def)
qed

interpretation f32: bounded_queue fifo32_push fifo32_pop fifo32_list fifo32_size fifo32_wf
proof
  fix f
  assume f: "fifo32_wf f"
  then have le: "length (fifo_list f) \<le> unat (fifo_capacity f)" by (simp add: fifo32_wf_def f8.queue_size)
  then show "length (fifo32_list f) \<le> fifo32_size f"
    by (simp add: fifo32_list_def fifo32_size_def length_le_words div_le_mono)
  show "fifo32_push w f = Inl AssertFailed" if "length (fifo32_list f) = fifo32_size f" for w
  proof -
    have "length (fifo_list f) = unat (fifo_capacity f)"
      using that f by (auto simp: fifo32_wf_def fifo32_list_def fifo32_size_def length_le_words elim!: dvdE)
    then show ?thesis using f8.push_each_overflow [of f "to_le 4 w"] f
      by (simp add: fifo32_push_def fifo32_push_loop_eq fifo32_wf_def)
  qed
  show "fifo32_pop f = Inl AssertFailed" if "fifo32_list f = []"
  proof -
    have "length (fifo_list f) = 0"
      using f arg_cong [OF that, of length] by (simp add: fifo32_wf_def fifo32_list_def length_le_words dvd_div_eq_0_iff)
    then show ?thesis using f8.pop_each_underflow [of f 4] f
      by (simp add: fifo32_pop_def fifo32_pop_loop_eq fifo32_wf_def)
  qed
qed (use fifo32_push_room fifo32_pop_Cons in blast)+

text \<open>What the counts and tests tell of the queue of words.\<close>

lemma fifo32_counts:
  assumes "fifo32_wf f"
  shows "unat (fifo32_num_used f) = length (fifo32_list f)" "unat (fifo32_num_free f) = fifo32_size f - length (fifo32_list f)"
    "fifo32_is_empty f \<longleftrightarrow> fifo32_list f = []" "fifo32_is_full f \<longleftrightarrow> length (fifo32_list f) = fifo32_size f"
proof -
  have wf: "fifo_wf f" using assms by (simp add: fifo32_wf_def)
  then have "length (fifo_list f) = unat (fifo_num f)" by (rule length_fifo_list)
  then obtain a b where n: "unat (fifo_num f) = 4 * a" "unat (fifo_capacity f) = 4 * b" "length (fifo32_list f) = a" "fifo32_size f = b"
    using assms by (auto simp: fifo32_wf_def fifo32_list_def fifo32_size_def length_le_words elim!: dvdE)
  have ab: "a \<le> b" "4 * b \<le> 2 ^ 31" using wf n by (simp_all add: fifo_wf_nat)
  have u: "unat (fifo_capacity f - fifo_num f) = 4 * (b - a)" using wf n by (simp add: unat_sub fifo_wf_def diff_mult_distrib2)
  show "unat (fifo32_num_used f) = length (fifo32_list f)" "unat (fifo32_num_free f) = fifo32_size f - length (fifo32_list f)"
    using ab n u by (simp_all add: fifo32_num_used_def fifo32_num_free_def fifo8_num_used_def fifo8_num_free_def fifo32_words_def unat_of_nat
        del: of_nat_diff)
  have "fifo32_is_empty f \<longleftrightarrow> a = 0" using n(1) by (simp add: fifo32_is_empty_def fifo8_is_empty_def word_unat_eq_iff)
  then show "fifo32_is_empty f \<longleftrightarrow> fifo32_list f = []" using n(3) by auto
  show "fifo32_is_full f \<longleftrightarrow> length (fifo32_list f) = fifo32_size f"
    using ab n u by (auto simp: fifo32_is_full_def fifo8_num_free_def)
qed

lemma fifo32_create_empty:
  assumes "0 < cap" "unat cap \<le> 2 ^ 29"
  shows "fifo32_wf (fifo32_create fresh cap) \<and> fifo32_list (fifo32_create fresh cap) = [] \<and> fifo32_size (fifo32_create fresh cap) = unat cap"
proof -
  have u: "unat (cap * 4) = unat cap * 4" using assms(2) by (simp add: unat_word_ariths)
  then have "0 < cap * 4" using assms(1) by (simp add: word_less_nat_alt)
  then show ?thesis using fifo8_create_empty [of "cap * 4" fresh] assms(2) u
    by (simp add: fifo32_create_def fifo32_wf_def fifo32_list_def fifo32_size_def) (simp add: fifo8_create_def fifo8_reset_def)
qed

lemma fifo32_reset_empty:
  "fifo32_wf f \<Longrightarrow> fifo32_wf (fifo32_reset f)" "fifo32_list (fifo32_reset f) = []" "fifo32_size (fifo32_reset f) = fifo32_size f"
  by (simp_all add: fifo32_reset_def fifo32_wf_def fifo32_list_def fifo32_size_def fifo8_reset_empty)

end
