(* ===== verification/Spi.thy ===== *)
theory Spi
  imports Ssi Fifo8 Dt
begin

text \<open>
  The SPI controller, \<open>hw/ssi/apple_spi.c\<close>: a register window, two FIFOs of 16 words, transfers through
  the FIFOs or by DMA. The DMA channels are those of the DMA controller, whose functions are an argument;
  a channel is its endpoint number there. A read or write past a heap buffer, and the use of bytes of a
  buffer nothing was stored in, are faults.
\<close>

subsection \<open>Registers and state\<close>

abbreviation (input) "SPI_CTRL \<equiv> 0x000 :: hwaddr"
abbreviation (input) "SPI_CTRL_RUN \<equiv> BIT 0 :: u32"
abbreviation (input) "SPI_CTRL_TX_RESET \<equiv> BIT 2 :: u32"
abbreviation (input) "SPI_CTRL_RX_RESET \<equiv> BIT 3 :: u32"
abbreviation (input) "SPI_CFG \<equiv> 0x004 :: hwaddr"
abbreviation (input) "SPI_CFG_AGD \<equiv> BIT 0 :: u32"
abbreviation (input) "SPI_CFG_MODE x \<equiv> drop_bit 5 (x :: u32) AND 0x3"
abbreviation (input) "SPI_CFG_MODE_INVALID \<equiv> 0 :: u32"
abbreviation (input) "SPI_CFG_MODE_IRQ \<equiv> 1 :: u32"
abbreviation (input) "SPI_CFG_MODE_DMA \<equiv> 2 :: u32"
abbreviation (input) "SPI_CFG_IE_RXREADY \<equiv> BIT 7 :: u32"
abbreviation (input) "SPI_CFG_IE_TXEMPTY \<equiv> BIT 8 :: u32"
abbreviation (input) "SPI_CFG_WORD_SIZE x \<equiv> drop_bit 15 (x :: u32) AND 0x3"
abbreviation (input) "SPI_CFG_WORD_SIZE_8B \<equiv> 0 :: u32"
abbreviation (input) "SPI_CFG_WORD_SIZE_16B \<equiv> 1 :: u32"
abbreviation (input) "SPI_CFG_WORD_SIZE_32B \<equiv> 2 :: u32"
abbreviation (input) "SPI_CFG_IE_COMPLETE \<equiv> BIT 21 :: u32"
abbreviation (input) "SPI_STATUS \<equiv> 0x008 :: hwaddr"
abbreviation (input) "SPI_STATUS_RXREADY \<equiv> BIT 0 :: u32"
abbreviation (input) "SPI_STATUS_TXEMPTY \<equiv> BIT 1 :: u32"
abbreviation (input) "SPI_STATUS_RXOVERFLOW \<equiv> BIT 3 :: u32"
abbreviation (input) "SPI_STATUS_COMPLETE \<equiv> BIT 22 :: u32"
abbreviation (input) "SPI_STATUS_TXFIFO_SHIFT \<equiv> 6 :: nat"
abbreviation (input) "SPI_STATUS_TXFIFO_MASK \<equiv> push_bit 6 31 :: u32"
abbreviation (input) "SPI_STATUS_RXFIFO_SHIFT \<equiv> 11 :: nat"
abbreviation (input) "SPI_STATUS_RXFIFO_MASK \<equiv> push_bit 11 31 :: u32"
abbreviation (input) "SPI_PIN \<equiv> 0x00c :: hwaddr"
abbreviation (input) "SPI_PIN_CS \<equiv> BIT 1 :: u32"
abbreviation (input) "SPI_TXDATA \<equiv> 0x010 :: hwaddr"
abbreviation (input) "SPI_RXDATA \<equiv> 0x020 :: hwaddr"
abbreviation (input) "SPI_RXCNT \<equiv> 0x034 :: hwaddr"
abbreviation (input) "SPI_TXCNT \<equiv> 0x04c :: hwaddr"
abbreviation (input) "SPI_MAX \<equiv> 0x50 :: hwaddr"
abbreviation (input) "SPI_FIFO_DEPTH \<equiv> 16 :: u32"
abbreviation (input) "APPLE_SPI_MMIO_SIZE \<equiv> 0x4000 :: nat"

text \<open>
  The functions of the DMA controller the device calls: what is left of a channel, reading from a
  channel and writing to it.
\<close>

record 'c dma_ops =
  ch_remaining :: "nat \<Rightarrow> 'c \<Rightarrow> u64"
  ch_read :: "nat \<Rightarrow> nat \<Rightarrow> 'c \<Rightarrow> (bytes \<times> 'c) res"
  ch_write :: "nat \<Rightarrow> bytes \<Rightarrow> 'c \<Rightarrow> (nat \<times> 'c) res"

text \<open>\<open>sio\<close> is the state of the DMA controller the channel pointers refer to.\<close>

record ('c, 'd) AppleSPIState =
  ssi_bus :: "'d SSIBus"
  sio :: 'c
  tx_chan :: "nat option"
  rx_chan :: "nat option"
  spi_irq :: bool
  rx_fifo :: Fifo8
  tx_fifo :: Fifo8
  spi_regs :: "u32 list"
  tx_chan_id :: int
  rx_chan_id :: int
  dma_capable :: bool

definition REG :: "('c, 'd) AppleSPIState \<Rightarrow> hwaddr \<Rightarrow> u32" where
  "REG s a = spi_regs s ! (a div 4)"

definition set_REG :: "hwaddr \<Rightarrow> u32 \<Rightarrow> ('c, 'd) AppleSPIState \<Rightarrow> ('c, 'd) AppleSPIState" where
  "set_REG a v s = s\<lparr>spi_regs := (spi_regs s)[a div 4 := v]\<rparr>"

definition apple_spi_word_size :: "('c, 'd) AppleSPIState \<Rightarrow> u32 res" where
  "apple_spi_word_size s =
     (let w = SPI_CFG_WORD_SIZE (REG s SPI_CFG)
      in if w = SPI_CFG_WORD_SIZE_8B then Inr 1
         else if w = SPI_CFG_WORD_SIZE_16B then Inr 2
         else if w = SPI_CFG_WORD_SIZE_32B then Inr 4
         else Inl AssertFailed)"

subsection \<open>Between the FIFOs and memory\<close>

text \<open>
  The loops over a heap buffer of \<open>len\<close> bytes, of which \<open>buf\<close> were stored: one word of \<open>ws\<close> bytes at a
  time from index \<open>i\<close> on. A word that reaches past the buffer is read, or written, past it.
\<close>

function spi_push_loop :: "nat \<Rightarrow> nat \<Rightarrow> bytes \<Rightarrow> nat \<Rightarrow> Fifo8 \<Rightarrow> Fifo8 res" where
  "spi_push_loop ws len buf i f =
     (if i < len \<and> 0 < ws then
        if len < i + ws then Inl OutOfBounds
        else if length buf < i + ws then Inl UninitRead
        else rbind (fifo32_push (of_le (bslice i ws buf)) f) (spi_push_loop ws len buf (i + ws))
      else Inr f)"
  by pat_completeness auto
termination
  by (relation "measure (\<lambda>(ws, len, buf, i, f). len - i)") auto

function spi_pop_loop :: "nat \<Rightarrow> nat \<Rightarrow> nat \<Rightarrow> Fifo8 \<Rightarrow> (bytes \<times> Fifo8) res" where
  "spi_pop_loop ws len i f =
     (if i < len \<and> 0 < ws then
        rbind (fifo32_pop f) (\<lambda>(w, f).
          if len < i + ws then Inl OutOfBounds
          else rbind (spi_pop_loop ws len (i + ws) f) (\<lambda>(bs, f). Inr (to_le ws w @ bs, f)))
      else Inr ([], f))"
  by pat_completeness auto
termination
  by (relation "measure (\<lambda>(ws, len, i, f). len - i)") auto

declare spi_push_loop.simps [simp del]
declare spi_pop_loop.simps [simp del]

definition spi_set_status :: "u32 \<Rightarrow> ('c, 'd) AppleSPIState \<Rightarrow> ('c, 'd) AppleSPIState" where
  "spi_set_status m s = set_REG SPI_STATUS (REG s SPI_STATUS OR m) s"

definition apple_spi_update_xfer_tx :: "'c dma_ops \<Rightarrow> ('c, 'd) AppleSPIState \<Rightarrow> ('c, 'd) AppleSPIState res" where
  "apple_spi_update_xfer_tx ops s =
     (if \<not> fifo32_is_empty (tx_fifo s) then Inr s
      else if SPI_CFG_MODE (REG s SPI_CFG) \<noteq> SPI_CFG_MODE_DMA then Inr (spi_set_status SPI_STATUS_TXEMPTY s)
      else case tx_chan s of
          None \<Rightarrow> Inl NullDeref
        | Some ch \<Rightarrow>
            let dma_remaining = ch_remaining ops ch (sio s)
            in if dma_remaining = 0 then Inr (spi_set_status SPI_STATUS_TXEMPTY s)
               else rbind (apple_spi_word_size s) (\<lambda>word_size.
                 let dma_len = REG s SPI_TXCNT * word_size;
                     fifo_len = fifo32_num_free (tx_fifo s) * word_size;
                     dma_len = ucast (min (ucast dma_len) dma_remaining) :: u32
                 in if dma_len = 0 then Inr (spi_set_status SPI_STATUS_TXEMPTY s)
                    else let dma_len = min dma_len fifo_len
                      in if dma_len = 0 then Inr s
                         else rbind (ch_read ops ch (unat dma_len) (sio s)) (\<lambda>(buffer, c).
                           rbind (spi_push_loop (unat word_size) (unat dma_len) buffer 0 (tx_fifo s)) (\<lambda>f.
                             Inr (s\<lparr>sio := c, tx_fifo := f\<rparr>)))))"

definition apple_spi_flush_rx :: "'c dma_ops \<Rightarrow> ('c, 'd) AppleSPIState \<Rightarrow> ('c, 'd) AppleSPIState res" where
  "apple_spi_flush_rx ops s =
     (if SPI_CFG_MODE (REG s SPI_CFG) \<noteq> SPI_CFG_MODE_DMA then Inr s
      else case rx_chan s of
          None \<Rightarrow> Inl NullDeref
        | Some ch \<Rightarrow>
            let dma_remaining = ch_remaining ops ch (sio s)
            in if dma_remaining = 0 then Inr s
               else rbind (apple_spi_word_size s) (\<lambda>word_size.
                 let dma_len = min (ucast (fifo32_num_used (rx_fifo s) * word_size)) dma_remaining
                 in if dma_len = 0 then Inr s
                    else rbind (spi_pop_loop (unat word_size) (unat dma_len) 0 (rx_fifo s)) (\<lambda>(buffer, f).
                      rbind (ch_write ops ch buffer (sio s)) (\<lambda>(_, c). Inr (s\<lparr>rx_fifo := f, sio := c\<rparr>)))))"

definition apple_spi_update_xfer_rx :: "('c, 'd) AppleSPIState \<Rightarrow> ('c, 'd) AppleSPIState" where
  "apple_spi_update_xfer_rx s =
     (if fifo32_is_empty (rx_fifo s) then set_REG SPI_STATUS (REG s SPI_STATUS AND NOT SPI_STATUS_RXREADY) s
      else spi_set_status SPI_STATUS_RXREADY s)"

definition apple_spi_update_irq :: "('c, 'd) AppleSPIState \<Rightarrow> ('c, 'd) AppleSPIState" where
  "apple_spi_update_irq s =
     (let m = 0;
          m = (if REG s SPI_CFG AND SPI_CFG_IE_RXREADY \<noteq> 0 then m OR SPI_STATUS_RXREADY else m);
          m = (if REG s SPI_CFG AND SPI_CFG_IE_TXEMPTY \<noteq> 0 then m OR SPI_STATUS_TXEMPTY else m);
          m = (if REG s SPI_CFG AND SPI_CFG_IE_COMPLETE \<noteq> 0 then m OR SPI_STATUS_COMPLETE else m)
      in s\<lparr>spi_irq := REG s SPI_STATUS AND m \<noteq> 0\<rparr>)"

text \<open>
  The chip select input of the first peripheral. \<open>ssi_peripheral_realize\<close> gives one that overrides
  \<open>transfer_raw\<close> no such input, and \<open>qdev_get_gpio_in_named\<close> asserts that the input exists.
\<close>

definition apple_spi_update_cs :: "('c, 'd) AppleSPIState \<Rightarrow> ('c, 'd) AppleSPIState res" where
  "apple_spi_update_cs s =
     (case ssi_bus s of
        [] \<Rightarrow> Inr s
      | p # ps \<Rightarrow>
          if cs_polarity (spc p) = SSI_CS_NONE then Inr s
          else if \<not> Option.is_none (transfer_raw (spc p)) then Inl AssertFailed
          else Inr (s\<lparr>ssi_bus := ssi_cs_default (REG s SPI_PIN AND SPI_PIN_CS \<noteq> 0) p # ps\<rparr>))"

definition apple_spi_cs_set :: "bool \<Rightarrow> ('c, 'd) AppleSPIState \<Rightarrow> ('c, 'd) AppleSPIState res" where
  "apple_spi_cs_set level s =
     apple_spi_update_cs (set_REG SPI_PIN
       (if level then REG s SPI_PIN OR SPI_PIN_CS else REG s SPI_PIN AND NOT SPI_PIN_CS) s)"

subsection \<open>Transfers\<close>

text \<open>The bytes of a word, the lowest first; the answers are gathered with the first as the highest byte.\<close>

primrec spi_exchange :: "nat \<Rightarrow> u32 \<Rightarrow> u32 \<Rightarrow> 'd SSIBus \<Rightarrow> u32 \<times> 'd SSIBus" where
  "spi_exchange 0 tx rx b = (rx, b)"
| "spi_exchange (Suc n) tx rx b =
     (let (r, b) = ssi_transfer b (tx AND 0xff) in spi_exchange n (drop_bit 8 tx) (push_bit 8 rx OR r) b)"

primrec spi_receive :: "nat \<Rightarrow> u32 \<Rightarrow> 'd SSIBus \<Rightarrow> u32 \<times> 'd SSIBus" where
  "spi_receive 0 rx b = (rx, b)"
| "spi_receive (Suc n) rx b = (let (r, b) = ssi_transfer b 0xff in spi_receive n (push_bit 8 rx OR r) b)"

definition spi_flush_if_full :: "'c dma_ops \<Rightarrow> ('c, 'd) AppleSPIState \<Rightarrow> ('c, 'd) AppleSPIState res" where
  "spi_flush_if_full ops s = (if fifo32_is_full (rx_fifo s) then apple_spi_flush_rx ops s else Inr s)"

text \<open>Storing a received word; the first result tells that the loop is left.\<close>

definition spi_store_rx :: "'c dma_ops \<Rightarrow> u32 \<Rightarrow> ('c, 'd) AppleSPIState \<Rightarrow> (bool \<times> ('c, 'd) AppleSPIState) res" where
  "spi_store_rx ops rx s =
     rbind (spi_flush_if_full ops s) (\<lambda>s.
       if fifo32_is_full (rx_fifo s) then Inr (True, spi_set_status SPI_STATUS_RXOVERFLOW s)
       else rbind (fifo32_push rx (rx_fifo s)) (\<lambda>f.
         let s = s\<lparr>rx_fifo := f\<rparr>
         in Inr (False, apple_spi_update_xfer_rx (set_REG SPI_RXCNT (REG s SPI_RXCNT - 1) s))))"

text \<open>The bodies of the two loops of \<open>apple_spi_run\<close>, and the loops.\<close>

definition spi_tx_body :: "'c dma_ops \<Rightarrow> nat \<Rightarrow> ('c, 'd) AppleSPIState \<Rightarrow> (bool \<times> ('c, 'd) AppleSPIState) res" where
  "spi_tx_body ops ws s =
     rbind (fifo32_pop (tx_fifo s)) (\<lambda>(tx, f).
       let s = s\<lparr>tx_fifo := f\<rparr>;
           (rx, b) = spi_exchange ws tx 0 (ssi_bus s);
           s = s\<lparr>ssi_bus := b\<rparr>;
           s = set_REG SPI_TXCNT (REG s SPI_TXCNT - 1) s
       in rbind (apple_spi_update_xfer_tx ops s) (\<lambda>s.
            if REG s SPI_RXCNT > 0 then spi_store_rx ops rx s else Inr (False, s)))"

definition spi_rx_body :: "'c dma_ops \<Rightarrow> nat \<Rightarrow> ('c, 'd) AppleSPIState \<Rightarrow> (bool \<times> ('c, 'd) AppleSPIState) res" where
  "spi_rx_body ops ws s =
     (let (rx, b) = spi_receive ws 0 (ssi_bus s) in spi_store_rx ops rx (s\<lparr>ssi_bus := b\<rparr>))"

definition spi_len :: "('c, 'd) AppleSPIState \<Rightarrow> bool" where
  "spi_len s \<longleftrightarrow> length (spi_regs s) = APPLE_SPI_MMIO_SIZE div 4"

lemma REG_set_REG [simp]:
  "spi_len s \<Longrightarrow> a < APPLE_SPI_MMIO_SIZE \<Longrightarrow> REG (set_REG a v s) b = (if a div 4 = b div 4 then v else REG s b)"
  "spi_len (set_REG a v s) = spi_len s"
  by (simp_all add: spi_len_def REG_def set_REG_def div_less_iff_less_mult nth_list_update)

text \<open>The registers only the status register of which the helpers change.\<close>

definition same_regs :: "('c, 'd) AppleSPIState \<Rightarrow> ('c, 'd) AppleSPIState \<Rightarrow> bool" where
  "same_regs s t \<longleftrightarrow> length (spi_regs t) = length (spi_regs s) \<and> (\<forall>i. i \<noteq> 2 \<longrightarrow> spi_regs t ! i = spi_regs s ! i)"

lemma same_regs_refl [simp]: "same_regs s s"
  by (simp add: same_regs_def)

lemma same_regs_trans: "same_regs s t \<Longrightarrow> same_regs t u \<Longrightarrow> same_regs s u"
  by (simp add: same_regs_def)

lemma same_regs_REG: "same_regs s t \<Longrightarrow> a div 4 \<noteq> 2 \<Longrightarrow> REG t a = REG s a"
  by (simp add: same_regs_def REG_def)

lemma same_regs_len: "same_regs s t \<Longrightarrow> spi_len t = spi_len s"
  by (simp add: same_regs_def spi_len_def)

lemma same_regs_status [simp]: "same_regs s (set_REG SPI_STATUS v t) = same_regs s t" "same_regs s (spi_set_status m t) = same_regs s t"
  by (auto simp: same_regs_def set_REG_def spi_set_status_def nth_list_update)

lemma same_regs_fields [simp]:
  "same_regs s (t\<lparr>sio := c, tx_fifo := f\<rparr>) = same_regs s t" "same_regs s (t\<lparr>rx_fifo := f, sio := c\<rparr>) = same_regs s t"
  "same_regs s (t\<lparr>ssi_bus := b\<rparr>) = same_regs s t" "same_regs s (t\<lparr>rx_fifo := f\<rparr>) = same_regs s t"
  by (simp_all add: same_regs_def)

lemma same_regs_xfer_tx: "apple_spi_update_xfer_tx ops s = Inr t \<Longrightarrow> same_regs s t"
  by (auto simp: apple_spi_update_xfer_tx_def Let_def split: if_splits option.splits)

lemma same_regs_flush: "apple_spi_flush_rx ops s = Inr t \<Longrightarrow> same_regs s t"
  by (auto simp: apple_spi_flush_rx_def Let_def split: if_splits option.splits)

lemma same_regs_flush_if: "spi_flush_if_full ops s = Inr t \<Longrightarrow> same_regs s t"
  by (auto simp: spi_flush_if_full_def split: if_splits dest: same_regs_flush)

lemma same_regs_xfer_rx [simp]: "same_regs s (apple_spi_update_xfer_rx t) = same_regs s t"
  by (simp add: apple_spi_update_xfer_rx_def)

lemma store_rx_regs:
  assumes "spi_store_rx ops rx s = Inr (brk, t)" "spi_len s"
  shows "spi_len t" "a div 4 \<notin> {2, 13} \<Longrightarrow> REG t a = REG s a" "\<not> brk \<Longrightarrow> REG t SPI_RXCNT = REG s SPI_RXCNT - 1"
proof -
  obtain u where u: "spi_flush_if_full ops s = Inr u" using assms(1) by (auto simp: spi_store_rx_def)
  have su: "same_regs s u" "spi_len u" using same_regs_flush_if [OF u] assms(2) same_regs_len by auto
  consider "t = spi_set_status SPI_STATUS_RXOVERFLOW u" "brk"
    | f where "t = apple_spi_update_xfer_rx (set_REG SPI_RXCNT (REG (u\<lparr>rx_fifo := f\<rparr>) SPI_RXCNT - 1) (u\<lparr>rx_fifo := f\<rparr>))" "\<not> brk"
    using assms(1) u by (auto simp: spi_store_rx_def Let_def split: if_splits)
  then have "spi_len t \<and> (a div 4 \<notin> {2, 13} \<longrightarrow> REG t a = REG s a) \<and> (\<not> brk \<longrightarrow> REG t SPI_RXCNT = REG s SPI_RXCNT - 1)"
  proof cases
    case 1
    then have "same_regs s t" using su(1) by simp
    then show ?thesis using 1(2) assms(2) by (auto simp: same_regs_len same_regs_REG)
  next
    case 2
    let ?v = "set_REG SPI_RXCNT (REG (u\<lparr>rx_fifo := f\<rparr>) SPI_RXCNT - 1) (u\<lparr>rx_fifo := f\<rparr>)"
    have "same_regs ?v t" using 2(1) by simp
    moreover have "spi_len (u\<lparr>rx_fifo := f\<rparr>)" using su(2) by (simp add: spi_len_def)
    moreover have "REG (u\<lparr>rx_fifo := f\<rparr>) b = REG u b" for b by (simp add: REG_def)
    ultimately show ?thesis using 2(2) su by (auto simp: same_regs_len same_regs_REG)
  qed
  then show "spi_len t" "a div 4 \<notin> {2, 13} \<Longrightarrow> REG t a = REG s a" "\<not> brk \<Longrightarrow> REG t SPI_RXCNT = REG s SPI_RXCNT - 1"
    by auto
qed

lemma tx_body_regs:
  assumes "spi_tx_body ops ws s = Inr (brk, t)" "spi_len s"
  shows "spi_len t" "REG t SPI_TXCNT = REG s SPI_TXCNT - 1"
proof -
  obtain tx f where p: "fifo32_pop (tx_fifo s) = Inr (tx, f)" using assms(1) by (auto simp: spi_tx_body_def)
  obtain rx b where e: "spi_exchange ws tx 0 (ssi_bus s) = (rx, b)" by fastforce
  have r: "REG (s\<lparr>tx_fifo := f, ssi_bus := b\<rparr>) SPI_TXCNT = REG s SPI_TXCNT" by (simp add: REG_def)
  obtain u where u: "apple_spi_update_xfer_tx ops (set_REG SPI_TXCNT (REG s SPI_TXCNT - 1) (s\<lparr>tx_fifo := f, ssi_bus := b\<rparr>)) = Inr u"
      "spi_store_rx ops rx u = Inr (brk, t) \<or> t = u"
    using assms(1) by (auto simp: spi_tx_body_def Let_def p e r split: if_splits)
  let ?v = "set_REG SPI_TXCNT (REG s SPI_TXCNT - 1) (s\<lparr>tx_fifo := f, ssi_bus := b\<rparr>)"
  have l: "spi_len (s\<lparr>tx_fifo := f, ssi_bus := b\<rparr>)" using assms(2) by (simp add: spi_len_def)
  have "spi_len u" "REG u SPI_TXCNT = REG s SPI_TXCNT - 1"
    using same_regs_xfer_tx [OF u(1)] l by (simp_all add: same_regs_len same_regs_REG)
  then show "spi_len t" "REG t SPI_TXCNT = REG s SPI_TXCNT - 1"
    using u(2) store_rx_regs(1) [of ops rx u brk t] store_rx_regs(2) [of ops rx u brk t SPI_TXCNT] by auto
qed

lemma rx_body_regs:
  assumes "spi_rx_body ops ws s = Inr (brk, t)" "spi_len s"
  shows "spi_len t" "\<not> brk \<Longrightarrow> REG t SPI_RXCNT = REG s SPI_RXCNT - 1"
  using assms store_rx_regs [of ops _ "s\<lparr>ssi_bus := _\<rparr>" brk t]
  by (auto simp: spi_rx_body_def spi_len_def REG_def split: prod.splits)

declare rbind_cong [fundef_cong]

function spi_tx_loop :: "'c dma_ops \<Rightarrow> nat \<Rightarrow> ('c, 'd) AppleSPIState \<Rightarrow> ('c, 'd) AppleSPIState res" where
  "spi_tx_loop ops ws s =
     (if \<not> spi_len s then Inl OutOfBounds
      else if REG s SPI_TXCNT = 0 \<or> fifo32_is_empty (tx_fifo s) then Inr s
      else rbind (spi_tx_body ops ws s) (\<lambda>r. if fst r then Inr (snd r) else spi_tx_loop ops ws (snd r)))"
  by pat_completeness auto
termination
proof (relation "measure (\<lambda>(ops, ws, s). unat (REG s SPI_TXCNT))", goal_cases)
  case (2 ops ws s r)
  then have "REG (snd r) SPI_TXCNT = REG s SPI_TXCNT - 1" using tx_body_regs(2) [of ops ws s] by (cases r) simp
  then show ?case using 2 by (simp add: unat_minus_one unat_gt_0)
qed simp

function spi_rx_loop :: "'c dma_ops \<Rightarrow> nat \<Rightarrow> ('c, 'd) AppleSPIState \<Rightarrow> ('c, 'd) AppleSPIState res" where
  "spi_rx_loop ops ws s =
     (if \<not> spi_len s then Inl OutOfBounds
      else if fifo32_is_full (rx_fifo s) \<or> REG s SPI_RXCNT = 0 \<or> REG s SPI_CFG AND SPI_CFG_AGD = 0 then Inr s
      else rbind (spi_rx_body ops ws s) (\<lambda>r. if fst r then Inr (snd r) else spi_rx_loop ops ws (snd r)))"
  by pat_completeness auto
termination
proof (relation "measure (\<lambda>(ops, ws, s). unat (REG s SPI_RXCNT))", goal_cases)
  case (2 ops ws s r)
  then have "REG (snd r) SPI_RXCNT = REG s SPI_RXCNT - 1" using rx_body_regs(2) [of ops ws s] by (cases r) simp
  then show ?case using 2 by (simp add: unat_minus_one unat_gt_0)
qed simp

declare spi_tx_loop.simps [simp del]
declare spi_rx_loop.simps [simp del]

definition apple_spi_run :: "'c dma_ops \<Rightarrow> ('c, 'd) AppleSPIState \<Rightarrow> ('c, 'd) AppleSPIState res" where
  "apple_spi_run ops s =
     rbind (apple_spi_word_size s) (\<lambda>word_size.
       if SPI_CFG_MODE (REG s SPI_CFG) = SPI_CFG_MODE_DMA \<and> \<not> dma_capable s then Inr s
       else if SPI_CFG_MODE (REG s SPI_CFG) = SPI_CFG_MODE_INVALID \<or> REG s SPI_CTRL AND SPI_CTRL_RUN = 0 \<or>
         REG s SPI_RXCNT OR REG s SPI_TXCNT = 0 then Inr s
       else
         rbind (apple_spi_update_xfer_tx ops s) (\<lambda>s.
         rbind (spi_tx_loop ops (unat word_size) s) (\<lambda>s.
         rbind (spi_flush_if_full ops s) (\<lambda>s.
         rbind (spi_rx_loop ops (unat word_size) s) (\<lambda>s.
         rbind (apple_spi_flush_rx ops s) (\<lambda>s.
           Inr (if REG s SPI_RXCNT = 0 \<and> REG s SPI_TXCNT = 0 then spi_set_status SPI_STATUS_COMPLETE s else s)))))))"

subsection \<open>Register access\<close>

text \<open>
  The cases of the write handler: the value to store, whether the chip select is updated and whether a
  transfer is run. The old value is read before the address is checked.
\<close>

definition spi_write_case ::
  "hwaddr \<Rightarrow> u32 \<Rightarrow> ('c, 'd) AppleSPIState \<Rightarrow> (u32 \<times> bool \<times> bool \<times> ('c, 'd) AppleSPIState) res" where
  "spi_write_case addr v s =
     (if addr = SPI_CTRL then
        let (v, s) = (if v AND SPI_CTRL_TX_RESET \<noteq> 0 then (v AND NOT SPI_CTRL_TX_RESET, s\<lparr>tx_fifo := fifo32_reset (tx_fifo s)\<rparr>) else (v, s));
            (v, s) = (if v AND SPI_CTRL_RX_RESET \<noteq> 0 then (v AND NOT SPI_CTRL_RX_RESET, s\<lparr>rx_fifo := fifo32_reset (rx_fifo s)\<rparr>) else (v, s))
        in Inr (v, False, v AND SPI_CTRL_RUN \<noteq> 0, s)
      else if addr = SPI_STATUS then Inr (REG s addr AND NOT v, False, False, s)
      else if addr = SPI_PIN then Inr (v, True, False, s)
      else if addr = SPI_TXDATA then
        if fifo32_is_full (tx_fifo s) then Inr (0, False, False, s)
        else rbind (apple_spi_word_size s) (\<lambda>ws.
          rbind (fifo32_push (if ws = 1 then v AND 0xFF else if ws = 2 then v AND 0xFFFF else v) (tx_fifo s)) (\<lambda>f.
            Inr (v, False, True, s\<lparr>tx_fifo := f\<rparr>)))
      else if addr = SPI_TXCNT \<or> addr = SPI_RXCNT \<or> addr = SPI_CFG then Inr (v, False, True, s)
      else Inr (v, False, False, s))"

definition apple_spi_reg_write :: "'c dma_ops \<Rightarrow> hwaddr \<Rightarrow> u64 \<Rightarrow> ('c, 'd) AppleSPIState \<Rightarrow> ('c, 'd) AppleSPIState res" where
  "apple_spi_reg_write ops addr data s =
     (if length (spi_regs s) \<le> addr div 4 then Inl OutOfBounds
      else if addr \<ge> SPI_MAX then Inr s
      else rbind (spi_write_case addr (ucast data) s) (\<lambda>(v, cs_flg, run, s).
        let s = set_REG addr v s
        in rbind (if cs_flg then apple_spi_update_cs s else Inr s) (\<lambda>s.
             rbind (if run then apple_spi_run ops s else Inr s) (\<lambda>s. Inr (apple_spi_update_irq s)))))"

definition apple_spi_reg_read :: "'c dma_ops \<Rightarrow> hwaddr \<Rightarrow> ('c, 'd) AppleSPIState \<Rightarrow> (u64 \<times> ('c, 'd) AppleSPIState) res" where
  "apple_spi_reg_read ops addr s =
     (if addr \<ge> SPI_MAX then Inr (0, s)
      else rbind
        (if addr = SPI_RXDATA then
           if fifo32_is_empty (rx_fifo s) then Inr (0, False, s)
           else rbind (fifo32_pop (rx_fifo s)) (\<lambda>(r, f). Inr (r, fifo32_is_empty f, s\<lparr>rx_fifo := f\<rparr>))
         else if addr = SPI_STATUS then
           let v = push_bit SPI_STATUS_TXFIFO_SHIFT (fifo32_num_used (tx_fifo s)) OR
                   push_bit SPI_STATUS_RXFIFO_SHIFT (fifo32_num_used (rx_fifo s));
               m = SPI_STATUS_TXFIFO_MASK OR SPI_STATUS_RXFIFO_MASK
           in Inr ((REG s addr AND NOT m) OR (v AND m), False, s)
         else Inr (REG s addr, False, s))
        (\<lambda>(r, run, s). rbind (if run then apple_spi_run ops s else Inr s) (\<lambda>s. Inr (ucast r, apple_spi_update_irq s))))"

subsection \<open>Creation and reset\<close>

definition apple_spi_reset :: "('c, 'd) AppleSPIState \<Rightarrow> ('c, 'd) AppleSPIState" where
  "apple_spi_reset s =
     s\<lparr>spi_regs := replicate (length (spi_regs s)) 0, tx_fifo := fifo32_reset (tx_fifo s), rx_fifo := fifo32_reset (rx_fifo s)\<rparr>"

definition apple_spi_get_bus :: "('c, 'd) AppleSPIState \<Rightarrow> 'd SSIBus" where
  "apple_spi_get_bus s = ssi_bus s"

text \<open>\<open>get_ep\<close> is \<open>apple_sio_get_endpoint\<close> of the linked controller, \<open>None\<close> when none is linked.\<close>

definition apple_spi_realize :: "(int \<Rightarrow> nat option) option \<Rightarrow> ('c, 'd) AppleSPIState \<Rightarrow> ('c, 'd) AppleSPIState" where
  "apple_spi_realize get_ep s =
     (let s = s\<lparr>ssi_bus := []\<rparr>
      in case get_ep of
           None \<Rightarrow> if dma_capable s then s\<lparr>dma_capable := False\<rparr> else s
         | Some g \<Rightarrow> if dma_capable s then s\<lparr>tx_chan := g (tx_chan_id s), rx_chan := g (rx_chan_id s)\<rparr> else s)"

text \<open>\<open>fresh\<close> is what the memory of the FIFOs holds, \<open>c\<close> the DMA controller.\<close>

definition apple_spi_instance_init :: "(nat \<Rightarrow> u8) \<Rightarrow> 'c \<Rightarrow> ('c, 'd) AppleSPIState" where
  "apple_spi_instance_init fresh c =
     \<lparr>ssi_bus = [], sio = c, tx_chan = None, rx_chan = None, spi_irq = False,
      rx_fifo = fifo32_create fresh SPI_FIFO_DEPTH, tx_fifo = fifo32_create fresh SPI_FIFO_DEPTH,
      spi_regs = replicate (APPLE_SPI_MMIO_SIZE div 4) 0, tx_chan_id = 0, rx_chan_id = 0, dma_capable = False\<rparr>"

text \<open>The device and the size of its register window.\<close>

definition apple_spi_from_node :: "AppleDTNode \<Rightarrow> ('c, 'd) AppleSPIState \<Rightarrow> (u64 \<times> ('c, 'd) AppleSPIState) res" where
  "apple_spi_from_node node s =
     rbind (apple_dt_get_prop_strdup node (cs ''name'') ErrFatal) (\<lambda>_.
       case apple_dt_get_prop node (cs ''reg'') of
         None \<Rightarrow> Inl NullDeref
       | Some reg \<Rightarrow>
           if length (p_data reg) < 16 then Inl OutOfBounds
           else let window = of_le (bslice 8 8 (p_data reg)) :: u64
             in case apple_dt_get_prop node (cs ''dma-channels'') of
                  None \<Rightarrow> Inr (window, s)
                | Some ch \<Rightarrow>
                    if length (p_data ch) < 0x24 then Inl OutOfBounds
                    else Inr (window, s\<lparr>dma_capable := True,
                      tx_chan_id := sint (of_le (bslice 0 4 (p_data ch)) :: u32),
                      rx_chan_id := sint (of_le (bslice 0x20 4 (p_data ch)) :: u32)\<rparr>))"

subsection \<open>Well-formed controllers\<close>

definition spi_wf :: "('c, 'd) AppleSPIState \<Rightarrow> bool" where
  "spi_wf s \<longleftrightarrow> spi_len s \<and> fifo32_wf (tx_fifo s) \<and> fifo32_size (tx_fifo s) = 16 \<and>
     fifo32_wf (rx_fifo s) \<and> fifo32_size (rx_fifo s) = 16"

abbreviation tx_list :: "('c, 'd) AppleSPIState \<Rightarrow> u32 list" where
  "tx_list s \<equiv> fifo32_list (tx_fifo s)"

abbreviation rx_list :: "('c, 'd) AppleSPIState \<Rightarrow> u32 list" where
  "rx_list s \<equiv> fifo32_list (rx_fifo s)"

lemma REG_fields [simp]:
  "REG (s\<lparr>tx_fifo := f\<rparr>) a = REG s a" "REG (s\<lparr>rx_fifo := f\<rparr>) a = REG s a" "REG (s\<lparr>ssi_bus := b\<rparr>) a = REG s a"
  "REG (s\<lparr>sio := c\<rparr>) a = REG s a" "REG (s\<lparr>spi_irq := i\<rparr>) a = REG s a"
  by (simp_all add: REG_def)

lemma spi_len_fields [simp]:
  "spi_len (s\<lparr>tx_fifo := f\<rparr>) = spi_len s" "spi_len (s\<lparr>rx_fifo := f\<rparr>) = spi_len s" "spi_len (s\<lparr>ssi_bus := b\<rparr>) = spi_len s"
  "spi_len (s\<lparr>sio := c\<rparr>) = spi_len s" "spi_len (s\<lparr>spi_irq := i\<rparr>) = spi_len s" "spi_len (spi_set_status m s) = spi_len s"
  by (simp_all add: spi_len_def spi_set_status_def set_REG_def)

lemma set_REG_fields [simp]:
  "tx_fifo (set_REG a v s) = tx_fifo s" "rx_fifo (set_REG a v s) = rx_fifo s" "ssi_bus (set_REG a v s) = ssi_bus s"
  "sio (set_REG a v s) = sio s" "tx_chan (set_REG a v s) = tx_chan s" "rx_chan (set_REG a v s) = rx_chan s"
  "dma_capable (set_REG a v s) = dma_capable s" "spi_irq (set_REG a v s) = spi_irq s"
  by (simp_all add: set_REG_def)

lemma set_status_fields [simp]:
  "tx_fifo (spi_set_status m s) = tx_fifo s" "rx_fifo (spi_set_status m s) = rx_fifo s" "ssi_bus (spi_set_status m s) = ssi_bus s"
  "sio (spi_set_status m s) = sio s" "tx_chan (spi_set_status m s) = tx_chan s" "rx_chan (spi_set_status m s) = rx_chan s"
  "dma_capable (spi_set_status m s) = dma_capable s"
  "spi_len s \<Longrightarrow> REG (spi_set_status m s) a = (if a div 4 = 2 then REG s SPI_STATUS OR m else REG s a)"
  by (simp_all add: spi_set_status_def)

lemma xfer_rx_fields [simp]:
  "tx_fifo (apple_spi_update_xfer_rx s) = tx_fifo s" "rx_fifo (apple_spi_update_xfer_rx s) = rx_fifo s"
  "ssi_bus (apple_spi_update_xfer_rx s) = ssi_bus s" "sio (apple_spi_update_xfer_rx s) = sio s"
  "tx_chan (apple_spi_update_xfer_rx s) = tx_chan s" "rx_chan (apple_spi_update_xfer_rx s) = rx_chan s"
  "dma_capable (apple_spi_update_xfer_rx s) = dma_capable s" "spi_len (apple_spi_update_xfer_rx s) = spi_len s"
  "spi_len s \<Longrightarrow> a div 4 \<noteq> 2 \<Longrightarrow> REG (apple_spi_update_xfer_rx s) a = REG s a"
  by (simp_all add: apple_spi_update_xfer_rx_def)

lemma spi_wf_regs [simp]: "spi_wf (set_REG a v s) = spi_wf s" "spi_wf (spi_set_status m s) = spi_wf s"
    "spi_wf (apple_spi_update_xfer_rx s) = spi_wf s" "spi_wf (s\<lparr>ssi_bus := b\<rparr>) = spi_wf s" "spi_wf (s\<lparr>sio := c\<rparr>) = spi_wf s"
    "spi_wf (s\<lparr>spi_irq := i\<rparr>) = spi_wf s"
  by (simp_all add: spi_wf_def)

lemma spi_wf_fifos:
  assumes "spi_wf s"
  shows "fifo32_is_empty (tx_fifo s) \<longleftrightarrow> tx_list s = []" "fifo32_is_empty (rx_fifo s) \<longleftrightarrow> rx_list s = []"
    "fifo32_is_full (tx_fifo s) \<longleftrightarrow> length (tx_list s) = 16" "fifo32_is_full (rx_fifo s) \<longleftrightarrow> length (rx_list s) = 16"
    "length (tx_list s) \<le> 16" "length (rx_list s) \<le> 16" "spi_len s"
  using assms fifo32_counts [of "tx_fifo s"] fifo32_counts [of "rx_fifo s"] f32.queue_size [of "tx_fifo s"] f32.queue_size [of "rx_fifo s"]
  by (simp_all add: spi_wf_def)

text \<open>Words go in and out of the FIFOs in order.\<close>

lemma spi_tx_pop:
  assumes "spi_wf s" "tx_list s = w # ws"
  shows "\<exists>f. fifo32_pop (tx_fifo s) = Inr (w, f) \<and> fifo32_list f = ws \<and> spi_wf (s\<lparr>tx_fifo := f\<rparr>)"
  using f32.pop_Cons [of "tx_fifo s" w ws] assms by (auto simp: spi_wf_def)

lemma spi_rx_pop:
  assumes "spi_wf s" "rx_list s = w # ws"
  shows "\<exists>f. fifo32_pop (rx_fifo s) = Inr (w, f) \<and> fifo32_list f = ws \<and> spi_wf (s\<lparr>rx_fifo := f\<rparr>)"
  using f32.pop_Cons [of "rx_fifo s" w ws] assms by (auto simp: spi_wf_def)

lemma spi_tx_push:
  assumes "spi_wf s" "length (tx_list s) < 16"
  shows "\<exists>f. fifo32_push w (tx_fifo s) = Inr f \<and> fifo32_list f = tx_list s @ [w] \<and> spi_wf (s\<lparr>tx_fifo := f\<rparr>)"
  using f32.push_room [of "tx_fifo s" w] assms by (auto simp: spi_wf_def)

lemma spi_rx_push:
  assumes "spi_wf s" "length (rx_list s) < 16"
  shows "\<exists>f. fifo32_push w (rx_fifo s) = Inr f \<and> fifo32_list f = rx_list s @ [w] \<and> spi_wf (s\<lparr>rx_fifo := f\<rparr>)"
  using f32.push_room [of "rx_fifo s" w] assms by (auto simp: spi_wf_def)

text \<open>Storing a word while there is room.\<close>

lemma store_rx_room:
  assumes wf: "spi_wf s" and room: "length (rx_list s) < 16"
  shows "\<exists>t. spi_store_rx ops rx s = Inr (False, t) \<and> spi_wf t \<and> rx_list t = rx_list s @ [rx] \<and> tx_fifo t = tx_fifo s \<and>
    ssi_bus t = ssi_bus s \<and> sio t = sio s \<and> tx_chan t = tx_chan s \<and> rx_chan t = rx_chan s \<and> dma_capable t = dma_capable s \<and>
    (\<forall>a. a div 4 \<notin> {2, 13} \<longrightarrow> REG t a = REG s a) \<and> REG t SPI_RXCNT = REG s SPI_RXCNT - 1"
proof -
  obtain f where f: "fifo32_push rx (rx_fifo s) = Inr f" "fifo32_list f = rx_list s @ [rx]" "spi_wf (s\<lparr>rx_fifo := f\<rparr>)"
    using spi_rx_push [OF wf room] by blast
  define t where "t = apple_spi_update_xfer_rx (set_REG SPI_RXCNT (REG s SPI_RXCNT - 1) (s\<lparr>rx_fifo := f\<rparr>))"
  have "spi_store_rx ops rx s = Inr (False, t)"
    using room f(1) by (simp add: spi_store_rx_def spi_flush_if_full_def spi_wf_fifos [OF wf] t_def)
  moreover have "spi_wf t" using f(3) by (simp add: t_def)
  ultimately show ?thesis using f(2) spi_wf_fifos(7) [OF wf] by (simp add: t_def)
qed

subsection \<open>Transfers through the FIFOs\<close>

text \<open>Exchanging a list of words with the bus.\<close>

primrec exchange_words :: "nat \<Rightarrow> u32 list \<Rightarrow> 'd SSIBus \<Rightarrow> u32 list \<times> 'd SSIBus" where
  "exchange_words n [] b = ([], b)"
| "exchange_words n (w # ws) b =
     (let (r, b) = spi_exchange n w 0 b; (rs, b) = exchange_words n ws b in (r # rs, b))"

definition spi_keep :: "('c, 'd) AppleSPIState \<Rightarrow> ('c, 'd) AppleSPIState \<Rightarrow> bool" where
  "spi_keep s t \<longleftrightarrow> REG t SPI_CFG = REG s SPI_CFG \<and> REG t SPI_CTRL = REG s SPI_CTRL \<and> tx_chan t = tx_chan s \<and>
     rx_chan t = rx_chan s \<and> dma_capable t = dma_capable s"

lemma spi_keep_trans: "spi_keep s t \<Longrightarrow> spi_keep t u \<Longrightarrow> spi_keep s u"
  by (simp add: spi_keep_def)

lemma tx_body_sends:
  assumes wf: "spi_wf s" and q: "tx_list s = w # q" and e: "spi_exchange ws w 0 (ssi_bus s) = (rx, b)"
  shows "\<exists>u. spi_tx_body ops ws s = rbind (apple_spi_update_xfer_tx ops u) (\<lambda>s.
      if REG s SPI_RXCNT > 0 then spi_store_rx ops rx s else Inr (False, s)) \<and>
    spi_wf u \<and> tx_list u = q \<and> rx_fifo u = rx_fifo s \<and> ssi_bus u = b \<and> sio u = sio s \<and> spi_keep s u \<and>
    REG u SPI_TXCNT = REG s SPI_TXCNT - 1 \<and> REG u SPI_RXCNT = REG s SPI_RXCNT"
proof -
  obtain f where f: "fifo32_pop (tx_fifo s) = Inr (w, f)" "fifo32_list f = q" "spi_wf (s\<lparr>tx_fifo := f\<rparr>)"
    using spi_tx_pop [OF wf q] by blast
  define u where "u = set_REG SPI_TXCNT (REG s SPI_TXCNT - 1) (s\<lparr>tx_fifo := f, ssi_bus := b\<rparr>)"
  have "spi_wf u" using f(3) by (simp add: u_def spi_wf_def)
  moreover have "spi_len (s\<lparr>tx_fifo := f, ssi_bus := b\<rparr>)" using wf by (simp add: spi_wf_def)
  then have "tx_list u = q \<and> rx_fifo u = rx_fifo s \<and> ssi_bus u = b \<and> sio u = sio s \<and> spi_keep s u \<and>
      REG u SPI_TXCNT = REG s SPI_TXCNT - 1 \<and> REG u SPI_RXCNT = REG s SPI_RXCNT"
    using f(2) by (simp add: u_def spi_keep_def)
  moreover have "spi_tx_body ops ws s = rbind (apple_spi_update_xfer_tx ops u) (\<lambda>s.
      if REG s SPI_RXCNT > 0 then spi_store_rx ops rx s else Inr (False, s))"
    using f(1) e by (simp add: spi_tx_body_def u_def)
  ultimately show ?thesis by blast
qed

lemma xfer_tx_pio:
  "SPI_CFG_MODE (REG s SPI_CFG) \<noteq> SPI_CFG_MODE_DMA \<Longrightarrow>
   apple_spi_update_xfer_tx ops s = Inr (if fifo32_is_empty (tx_fifo s) then spi_set_status SPI_STATUS_TXEMPTY s else s)"
  by (simp add: apple_spi_update_xfer_tx_def)

lemma flush_pio:
  assumes "SPI_CFG_MODE (REG s SPI_CFG) \<noteq> SPI_CFG_MODE_DMA"
  shows "apple_spi_flush_rx ops s = Inr s" "spi_flush_if_full ops s = Inr s"
  using assms by (simp_all add: apple_spi_flush_rx_def spi_flush_if_full_def)

lemma tx_body_pio:
  assumes wf: "spi_wf s" and q: "tx_list s = w # q" and e: "spi_exchange ws w 0 (ssi_bus s) = (rx, b)"
    and pio: "SPI_CFG_MODE (REG s SPI_CFG) \<noteq> SPI_CFG_MODE_DMA" and room: "length (rx_list s) < 16" and cnt: "REG s SPI_RXCNT \<noteq> 0"
  shows "\<exists>t. spi_tx_body ops ws s = Inr (False, t) \<and> spi_wf t \<and> tx_list t = q \<and> rx_list t = rx_list s @ [rx] \<and> ssi_bus t = b \<and>
    spi_keep s t \<and> REG t SPI_TXCNT = REG s SPI_TXCNT - 1 \<and> REG t SPI_RXCNT = REG s SPI_RXCNT - 1"
proof -
  obtain u where u: "spi_tx_body ops ws s = rbind (apple_spi_update_xfer_tx ops u) (\<lambda>s.
        if REG s SPI_RXCNT > 0 then spi_store_rx ops rx s else Inr (False, s))"
      "spi_wf u" "tx_list u = q" "rx_fifo u = rx_fifo s" "ssi_bus u = b" "spi_keep s u"
      "REG u SPI_TXCNT = REG s SPI_TXCNT - 1" "REG u SPI_RXCNT = REG s SPI_RXCNT"
    using tx_body_sends [OF wf q e] by blast
  define v where "v = (if fifo32_is_empty (tx_fifo u) then spi_set_status SPI_STATUS_TXEMPTY u else u)"
  have "apple_spi_update_xfer_tx ops u = Inr v" using pio u(6) by (simp add: xfer_tx_pio v_def spi_keep_def)
  moreover have v: "spi_wf v" "tx_list v = q" "rx_fifo v = rx_fifo s" "ssi_bus v = b" "spi_keep s v"
      "REG v SPI_TXCNT = REG s SPI_TXCNT - 1" "REG v SPI_RXCNT = REG s SPI_RXCNT"
    using u spi_wf_fifos(7) [OF u(2)] by (simp_all add: v_def spi_keep_def)
  ultimately show ?thesis using u(1) store_rx_room [OF v(1), of ops rx] room cnt by (auto simp: spi_keep_def word_gt_0)
qed

lemma tx_loop_pio:
  assumes "SPI_CFG_MODE (REG s SPI_CFG) \<noteq> SPI_CFG_MODE_DMA" "spi_wf s"
    and "n = min (unat (REG s SPI_TXCNT)) (length (tx_list s))" "length (rx_list s) + n \<le> 16" "n \<le> unat (REG s SPI_RXCNT)"
  shows "\<exists>t. spi_tx_loop ops ws s = Inr t \<and> spi_wf t \<and> spi_keep s t \<and> tx_list t = drop n (tx_list s) \<and>
    (rx_list t, ssi_bus t) = apfst ((@) (rx_list s)) (exchange_words ws (take n (tx_list s)) (ssi_bus s)) \<and>
    unat (REG t SPI_TXCNT) = unat (REG s SPI_TXCNT) - n \<and> unat (REG t SPI_RXCNT) = unat (REG s SPI_RXCNT) - n"
  using assms
proof (induction n arbitrary: s)
  case 0
  then have "REG s SPI_TXCNT = 0 \<or> tx_list s = []" by (simp add: min_def unat_eq_0 split: if_splits)
  then have "spi_tx_loop ops ws s = Inr s"
    using spi_wf_fifos [OF "0.prems"(2)] by (subst spi_tx_loop.simps) auto
  then show ?case using 0 by (simp add: spi_keep_def)
next
  case (Suc n)
  then obtain w q where q: "tx_list s = w # q" by (cases "tx_list s") auto
  obtain rx b where e: "spi_exchange ws w 0 (ssi_bus s) = (rx, b)" by fastforce
  have cnt: "REG s SPI_TXCNT \<noteq> 0" "REG s SPI_RXCNT \<noteq> 0" using Suc.prems by auto
  then have m: "unat (REG s SPI_TXCNT - 1) = unat (REG s SPI_TXCNT) - 1" "unat (REG s SPI_RXCNT - 1) = unat (REG s SPI_RXCNT) - 1"
    by (simp_all add: unat_minus_one)
  obtain t where t: "spi_tx_body ops ws s = Inr (False, t)" "spi_wf t" "tx_list t = q" "rx_list t = rx_list s @ [rx]" "ssi_bus t = b"
      "spi_keep s t" "REG t SPI_TXCNT = REG s SPI_TXCNT - 1" "REG t SPI_RXCNT = REG s SPI_RXCNT - 1"
    using tx_body_pio [OF Suc.prems(2) q e Suc.prems(1) _ cnt(2), of ops] Suc.prems(4) by auto
  have "spi_tx_loop ops ws s = spi_tx_loop ops ws t"
    using spi_wf_fifos [OF Suc.prems(2)] cnt q t(1) by (subst spi_tx_loop.simps) simp
  moreover have "SPI_CFG_MODE (REG t SPI_CFG) \<noteq> SPI_CFG_MODE_DMA" using t(6) Suc.prems(1) by (simp add: spi_keep_def)
  moreover have "n = min (unat (REG t SPI_TXCNT)) (length (tx_list t))" using Suc.prems(3) q t(3,7) m by simp
  moreover have "length (rx_list t) + n \<le> 16" "n \<le> unat (REG t SPI_RXCNT)" using Suc.prems(4,5) t(4,8) m by simp_all
  ultimately show ?case using Suc.IH [of t] t m q e spi_keep_trans [OF t(6)]
    by (cases "exchange_words ws (take n q) b") auto
qed

lemma word_size_cases:
  "apple_spi_word_size s = Inr ws \<Longrightarrow> unat ws \<in> {1, 2, 4}"
  by (auto simp: apple_spi_word_size_def Let_def split: if_splits)

text \<open>
  Property C19 (functional). A run without DMA sends the words queued for transmission, as many as the
  transmit count asks for, in order to the bus, appends the answers in order to the receive queue, takes
  them off both counts, and flags completion when both counts are used up.
\<close>

theorem spi_pio_transfer:
  assumes wf: "spi_wf s" and ws: "apple_spi_word_size s = Inr ws"
    and mode: "SPI_CFG_MODE (REG s SPI_CFG) \<notin> {SPI_CFG_MODE_INVALID, SPI_CFG_MODE_DMA}" "REG s SPI_CFG AND SPI_CFG_AGD = 0"
    and run: "REG s SPI_CTRL AND SPI_CTRL_RUN \<noteq> 0" "REG s SPI_RXCNT OR REG s SPI_TXCNT \<noteq> 0"
    and n: "n = min (unat (REG s SPI_TXCNT)) (length (tx_list s))" "length (rx_list s) + n \<le> 16" "n \<le> unat (REG s SPI_RXCNT)"
  shows "\<exists>t. apple_spi_run ops s = Inr t \<and> spi_wf t \<and> tx_list t = drop n (tx_list s) \<and>
    (rx_list t, ssi_bus t) = apfst ((@) (rx_list s)) (exchange_words (unat ws) (take n (tx_list s)) (ssi_bus s)) \<and>
    unat (REG t SPI_TXCNT) = unat (REG s SPI_TXCNT) - n \<and> unat (REG t SPI_RXCNT) = unat (REG s SPI_RXCNT) - n \<and>
    (REG t SPI_TXCNT = 0 \<and> REG t SPI_RXCNT = 0 \<longrightarrow> bit (REG t SPI_STATUS) 22)"
proof -
  define u where "u = (if fifo32_is_empty (tx_fifo s) then spi_set_status SPI_STATUS_TXEMPTY s else s)"
  have u: "spi_wf u" "spi_keep s u" "tx_fifo u = tx_fifo s" "rx_fifo u = rx_fifo s" "ssi_bus u = ssi_bus s"
      "REG u SPI_TXCNT = REG s SPI_TXCNT" "REG u SPI_RXCNT = REG s SPI_RXCNT"
    using wf spi_wf_fifos(7) [OF wf] by (simp_all add: u_def spi_keep_def)
  have pio: "SPI_CFG_MODE (REG u SPI_CFG) \<noteq> SPI_CFG_MODE_DMA" using mode u(2) by (simp add: spi_keep_def)
  obtain v where v: "spi_tx_loop ops (unat ws) u = Inr v" "spi_wf v" "spi_keep u v" "tx_list v = drop n (tx_list s)"
      "(rx_list v, ssi_bus v) = apfst ((@) (rx_list s)) (exchange_words (unat ws) (take n (tx_list s)) (ssi_bus s))"
      "unat (REG v SPI_TXCNT) = unat (REG s SPI_TXCNT) - n" "unat (REG v SPI_RXCNT) = unat (REG s SPI_RXCNT) - n"
    using tx_loop_pio [OF pio u(1), of n ops "unat ws"] n u by auto
  have cfg: "REG v SPI_CFG = REG s SPI_CFG" using v(3) u(2) by (simp add: spi_keep_def)
  have "spi_rx_loop ops (unat ws) v = Inr v"
    using spi_wf_fifos(7) [OF v(2)] mode(2) cfg by (subst spi_rx_loop.simps) simp
  then have "apple_spi_run ops s = Inr (if REG v SPI_RXCNT = 0 \<and> REG v SPI_TXCNT = 0 then spi_set_status SPI_STATUS_COMPLETE v else v)"
    using ws mode run v(1) cfg by (simp add: apple_spi_run_def xfer_tx_pio u_def [symmetric] flush_pio)
  then show ?thesis using v(2,4-7) spi_wf_fifos(7) [OF v(2)]
    by (cases "REG v SPI_RXCNT = 0 \<and> REG v SPI_TXCNT = 0") (auto simp: bit_or_iff)
qed

text \<open>A peripheral that answers each byte with its complement and remembers what it got.\<close>

definition spi_demo_bus :: "u32 list SSIBus" where
  "spi_demo_bus = [\<lparr>spc = \<lparr>transfer = (\<lambda>d v. (v XOR 0xff, d @ [v])), set_cs = None, cs_polarity = SSI_CS_NONE, transfer_raw = None\<rparr>,
     ssi_cs = False, cs_index = 0, ssi_dev = []\<rparr>]"

definition spi_demo :: "u32 \<Rightarrow> u32 list \<Rightarrow> u32 \<Rightarrow> 'c \<Rightarrow> ('c, u32 list) AppleSPIState" where
  "spi_demo cfg ws cnt c = set_REG SPI_CTRL 1 (set_REG SPI_CFG cfg (set_REG SPI_TXCNT cnt (set_REG SPI_RXCNT cnt
     ((apple_spi_instance_init (\<lambda>_. 0) c)\<lparr>ssi_bus := spi_demo_bus,
        tx_fifo := projr (fifo32_push_all ws (fifo32_create (\<lambda>_. 0) SPI_FIFO_DEPTH))\<rparr>))))"

lemma spi_init_wf: "spi_wf (apple_spi_instance_init fresh c)" "tx_list (apple_spi_instance_init fresh c) = []"
    "rx_list (apple_spi_instance_init fresh c) = []"
  using fifo32_create_empty [of 16 fresh] by (simp_all add: spi_wf_def apple_spi_instance_init_def spi_len_def)

lemma spi_demo:
  assumes "length ws \<le> 16"
  shows "spi_wf (spi_demo cfg ws cnt c)" "tx_list (spi_demo cfg ws cnt c) = ws" "rx_list (spi_demo cfg ws cnt c) = []"
    "ssi_bus (spi_demo cfg ws cnt c) = spi_demo_bus" "REG (spi_demo cfg ws cnt c) SPI_CTRL = 1" "REG (spi_demo cfg ws cnt c) SPI_CFG = cfg"
    "REG (spi_demo cfg ws cnt c) SPI_TXCNT = cnt" "REG (spi_demo cfg ws cnt c) SPI_RXCNT = cnt"
    "sio (spi_demo cfg ws cnt c) = c"
proof -
  let ?i = "apple_spi_instance_init (\<lambda>_. 0) c :: ('a, u32 list) AppleSPIState"
  have i: "spi_wf ?i" "tx_list ?i = []" "rx_list ?i = []" by (rule spi_init_wf)+
  obtain f where f: "fifo32_push_all ws (tx_fifo ?i) = Inr f" "fifo32_wf f" "fifo32_list f = ws" "fifo32_size f = 16"
    using f32.push_each_room [of "tx_fifo ?i" ws] i assms by (auto simp: spi_wf_def fifo32_push_all_def)
  then have p: "projr (fifo32_push_all ws (fifo32_create (\<lambda>_. 0) SPI_FIFO_DEPTH)) = f"
    by (simp add: apple_spi_instance_init_def)
  have "spi_len ?i" using i by (simp add: spi_wf_def)
  then show "spi_wf (spi_demo cfg ws cnt c)" "tx_list (spi_demo cfg ws cnt c) = ws" "rx_list (spi_demo cfg ws cnt c) = []"
    "ssi_bus (spi_demo cfg ws cnt c) = spi_demo_bus" "REG (spi_demo cfg ws cnt c) SPI_CTRL = 1" "REG (spi_demo cfg ws cnt c) SPI_CFG = cfg"
    "REG (spi_demo cfg ws cnt c) SPI_TXCNT = cnt" "REG (spi_demo cfg ws cnt c) SPI_RXCNT = cnt"
    "sio (spi_demo cfg ws cnt c) = c"
    using i f(2-4) unfolding spi_demo_def p
    by (simp_all add: spi_wf_def) (simp_all add: apple_spi_instance_init_def)
qed

lemma spi_demo_exchange: "fst (exchange_words 1 [0x11, 0x22] spi_demo_bus) = [0xEE, 0xDD]"
  by (simp add: spi_demo_bus_def ssi_transfer_raw_def ssi_transfer_raw_default_def ssi_selected_def)

definition spi_no_dma :: "unit dma_ops" where
  "spi_no_dma = \<lparr>ch_remaining = (\<lambda>_ _. 0), ch_read = (\<lambda>_ _ c. Inr ([], c)), ch_write = (\<lambda>_ _ c. Inr (0, c))\<rparr>"

theorem spi_pio_transfer_witness:
  "\<exists>t. apple_spi_run spi_no_dma (spi_demo 0x20 [0x11, 0x22] 2 ()) = Inr t \<and> tx_list t = [] \<and> rx_list t = [0xEE, 0xDD] \<and>
     bit (REG t SPI_STATUS) 22"
proof -
  let ?s = "spi_demo 0x20 [0x11, 0x22] 2 ()"
  have l: "length [0x11, 0x22 :: u32] \<le> 16" by simp
  note d = spi_demo [OF l, of "0x20" 2 "()"]
  have ws: "apple_spi_word_size ?s = Inr 1" by (simp add: apple_spi_word_size_def d Let_def)
  have p: "SPI_CFG_MODE (REG ?s SPI_CFG) \<notin> {SPI_CFG_MODE_INVALID, SPI_CFG_MODE_DMA}" "REG ?s SPI_CFG AND SPI_CFG_AGD = 0"
      "REG ?s SPI_CTRL AND SPI_CTRL_RUN \<noteq> 0" "REG ?s SPI_RXCNT OR REG ?s SPI_TXCNT \<noteq> 0"
    unfolding d by code_simp+
  have n: "2 = min (unat (REG ?s SPI_TXCNT)) (length (tx_list ?s))" "length (rx_list ?s) + 2 \<le> 16" "2 \<le> unat (REG ?s SPI_RXCNT)"
    unfolding d by simp_all
  obtain t where t: "apple_spi_run spi_no_dma ?s = Inr t" "tx_list t = []"
      "(rx_list t, ssi_bus t) = apfst ((@) []) (exchange_words (unat (1 :: u32)) (take 2 [0x11, 0x22]) spi_demo_bus)"
      "unat (REG t SPI_TXCNT) = 0" "unat (REG t SPI_RXCNT) = 0"
      "REG t SPI_TXCNT = 0 \<and> REG t SPI_RXCNT = 0 \<longrightarrow> bit (REG t SPI_STATUS) 22"
    using spi_pio_transfer [OF d(1) ws p n, of spi_no_dma] unfolding d by auto
  have "rx_list t = fst (exchange_words 1 [0x11, 0x22] spi_demo_bus)"
    using arg_cong [OF t(3), of fst] by simp
  then show ?thesis using t(1,2,4-6) spi_demo_exchange by (simp add: unat_eq_0)
qed

subsection \<open>Register accesses without DMA\<close>

text \<open>The line the interrupt should have.\<close>

definition spi_line :: "('c, 'd) AppleSPIState \<Rightarrow> bool" where
  "spi_line s \<longleftrightarrow> bit (REG s SPI_CFG) 7 \<and> bit (REG s SPI_STATUS) 0 \<or> bit (REG s SPI_CFG) 8 \<and> bit (REG s SPI_STATUS) 1 \<or>
     bit (REG s SPI_CFG) 21 \<and> bit (REG s SPI_STATUS) 22"

lemma update_irq_line: "apple_spi_update_irq s = s\<lparr>spi_irq := spi_line s\<rparr>"
proof -
  have a: "w AND (m OR BIT n) = 0 \<longleftrightarrow> w AND m = 0 \<and> \<not> bit w n" for w m :: u32 and n
    by (simp add: bit.conj_disj_distrib or_eq_0_iff and_BIT_eq_0)
  show ?thesis
    unfolding apple_spi_update_irq_def spi_line_def Let_def a and_BIT_eq_0
    by (rule arg_cong [where f = "\<lambda>x. s\<lparr>spi_irq := x\<rparr>"]) (auto simp: a and_BIT_eq_0)
qed

definition spi_pio :: "u32 \<Rightarrow> bool" where
  "spi_pio cfg \<longleftrightarrow> SPI_CFG_MODE cfg \<noteq> SPI_CFG_MODE_DMA \<and> SPI_CFG_WORD_SIZE cfg \<noteq> 3"

lemma word_size_pio: "spi_pio (REG s SPI_CFG) \<Longrightarrow> \<exists>ws. apple_spi_word_size s = Inr ws"
proof -
  have "w AND 3 \<in> {0, 1, 2, 3}" for w :: u32
  proof -
    have "w AND 3 = take_bit 2 w" by (simp add: take_bit_eq_mask mask_eq_exp_minus_1)
    moreover have "unat (take_bit 2 w) < 4" unfolding unsigned_take_bit_eq by (simp add: take_bit_eq_mod)
    then have "unat (take_bit 2 w) \<in> {0, 1, 2, 3}" by (auto simp: less_Suc_eq numeral_eq_Suc)
    ultimately show ?thesis by (auto simp: word_unat_eq_iff)
  qed
  then show "spi_pio (REG s SPI_CFG) \<Longrightarrow> ?thesis" by (auto simp: apple_spi_word_size_def spi_pio_def Let_def)
qed

text \<open>The first peripheral has a chip select input, or is not selected by one.\<close>

definition cs_wired :: "'d SSIBus \<Rightarrow> bool" where
  "cs_wired b \<longleftrightarrow> (case map spc b of [] \<Rightarrow> True | c # _ \<Rightarrow> cs_polarity c = SSI_CS_NONE \<or> transfer_raw c = None)"

lemma spc_transfer [simp]: "map spc (snd (ssi_transfer b v)) = map spc b"
proof (induction b)
  case (Cons p ps)
  have "spc (snd (ssi_transfer_raw p v)) = spc p"
    by (simp add: ssi_transfer_raw_def ssi_transfer_raw_default_def split_beta Let_def split: option.split)
  then show ?case using Cons by (simp add: split_beta Let_def)
qed simp

lemma spc_exchange: "map spc (snd (spi_exchange n tx rx b)) = map spc b"
  by (induction n arbitrary: tx rx b) (simp_all add: split_beta Let_def)

lemma spc_receive: "map spc (snd (spi_receive n rx b)) = map spc b"
  by (induction n arbitrary: rx b) (simp_all add: split_beta Let_def)

lemma cs_wired_kept:
  "spi_exchange n tx rx b = (r, b') \<Longrightarrow> cs_wired b' = cs_wired b" "spi_receive n rx b = (r, b') \<Longrightarrow> cs_wired b' = cs_wired b"
  using spc_exchange [of n tx rx b] spc_receive [of n rx b] by (simp_all add: cs_wired_def)

definition spi_inv :: "('c, 'd) AppleSPIState \<Rightarrow> bool" where
  "spi_inv s \<longleftrightarrow> spi_wf s \<and> spi_pio (REG s SPI_CFG) \<and> cs_wired (ssi_bus s)"

text \<open>What a step of a transfer without DMA keeps.\<close>

lemma store_rx_pio:
  assumes "spi_inv s"
  shows "\<exists>brk t. spi_store_rx ops rx s = Inr (brk, t) \<and> spi_inv t"
proof -
  have wf: "spi_wf s" and pio: "SPI_CFG_MODE (REG s SPI_CFG) \<noteq> SPI_CFG_MODE_DMA" using assms by (simp_all add: spi_inv_def spi_pio_def)
  show ?thesis
  proof (cases "length (rx_list s) = 16")
    case True
    then show ?thesis using assms spi_wf_fifos [OF wf] flush_pio(2) [OF pio] by (auto simp: spi_store_rx_def spi_inv_def)
  next
    case False
    then have "length (rx_list s) < 16" using spi_wf_fifos(6) [OF wf] by simp
    then show ?thesis using store_rx_room [OF wf, of ops rx] assms by (auto simp: spi_inv_def)
  qed
qed

lemma tx_body_inv:
  assumes "spi_inv s" "tx_list s \<noteq> []"
  shows "\<exists>brk t. spi_tx_body ops ws s = Inr (brk, t) \<and> spi_inv t"
proof -
  obtain w q where q: "tx_list s = w # q" using assms(2) by (cases "tx_list s") auto
  obtain rx b where e: "spi_exchange ws w 0 (ssi_bus s) = (rx, b)" by fastforce
  have wf: "spi_wf s" using assms(1) by (simp add: spi_inv_def)
  obtain u where u: "spi_tx_body ops ws s = rbind (apple_spi_update_xfer_tx ops u) (\<lambda>s.
        if REG s SPI_RXCNT > 0 then spi_store_rx ops rx s else Inr (False, s))" "spi_wf u" "spi_keep s u" "ssi_bus u = b"
    using tx_body_sends [OF wf q e, of ops] by blast
  then have "spi_inv u" using assms(1) cs_wired_kept(1) [OF e] by (simp add: spi_inv_def spi_keep_def)
  then have v: "apple_spi_update_xfer_tx ops u = Inr v \<and> spi_inv v"
    if "v = (if fifo32_is_empty (tx_fifo u) then spi_set_status SPI_STATUS_TXEMPTY u else u)" for v
    using that spi_wf_fifos(7) [OF u(2)] by (simp add: xfer_tx_pio spi_inv_def spi_pio_def)
  then show ?thesis using u(1) store_rx_pio [where ops = ops and rx = rx] by fastforce
qed

lemma tx_loop_inv: "spi_inv s \<Longrightarrow> \<exists>t. spi_tx_loop ops ws s = Inr t \<and> spi_inv t"
proof (induction ops ws s rule: spi_tx_loop.induct)
  case (1 ops ws s)
  have wf: "spi_wf s" using "1.prems" by (simp add: spi_inv_def)
  show ?case
  proof (cases "REG s SPI_TXCNT = 0 \<or> fifo32_is_empty (tx_fifo s)")
    case False
    then obtain brk t where "spi_tx_body ops ws s = Inr (brk, t)" "spi_inv t"
      using tx_body_inv [OF "1.prems", of ops ws] spi_wf_fifos(1) [OF wf] by blast
    then show ?thesis using "1.IH" [of "(brk, t)"] False spi_wf_fifos(7) [OF wf]
      by (subst spi_tx_loop.simps) (cases brk, auto)
  next
    case True
    then show ?thesis using "1.prems" spi_wf_fifos(7) [OF wf] by (subst spi_tx_loop.simps) auto
  qed
qed

lemma rx_loop_inv: "spi_inv s \<Longrightarrow> \<exists>t. spi_rx_loop ops ws s = Inr t \<and> spi_inv t"
proof (induction ops ws s rule: spi_rx_loop.induct)
  case (1 ops ws s)
  have wf: "spi_wf s" using "1.prems" by (simp add: spi_inv_def)
  show ?case
  proof (cases "fifo32_is_full (rx_fifo s) \<or> REG s SPI_RXCNT = 0 \<or> REG s SPI_CFG AND SPI_CFG_AGD = 0")
    case False
    obtain rx b where b: "spi_receive ws 0 (ssi_bus s) = (rx, b)" by fastforce
    have "spi_inv (s\<lparr>ssi_bus := b\<rparr>)" using "1.prems" cs_wired_kept(2) [OF b] by (simp add: spi_inv_def)
    then obtain brk t where "spi_rx_body ops ws s = Inr (brk, t)" "spi_inv t"
      using store_rx_pio [of "s\<lparr>ssi_bus := b\<rparr>" ops rx] by (auto simp: spi_rx_body_def b)
    then show ?thesis using "1.IH" [of "(brk, t)"] False spi_wf_fifos(7) [OF wf]
      by (subst spi_rx_loop.simps) (cases brk, auto)
  next
    case True
    then show ?thesis using "1.prems" spi_wf_fifos(7) [OF wf] by (subst spi_rx_loop.simps) auto
  qed
qed

lemma run_inv_pio:
  assumes "spi_inv s"
  shows "\<exists>t. apple_spi_run ops s = Inr t \<and> spi_inv t"
proof -
  have flush: "apple_spi_flush_rx ops t = Inr t" "spi_flush_if_full ops t = Inr t" if "spi_inv t" for t
    using that by (simp_all add: flush_pio spi_inv_def spi_pio_def)
  obtain ws where ws: "apple_spi_word_size s = Inr ws" using word_size_pio [of s] assms by (auto simp: spi_inv_def)
  have "\<exists>u. apple_spi_update_xfer_tx ops s = Inr u \<and> spi_inv u"
    using assms spi_wf_fifos(7) [of s] by (auto simp: xfer_tx_pio spi_inv_def spi_pio_def)
  then obtain u where u: "apple_spi_update_xfer_tx ops s = Inr u" "spi_inv u" by blast
  obtain v where v: "spi_tx_loop ops (unat ws) u = Inr v" "spi_inv v" using tx_loop_inv [OF u(2)] by blast
  obtain t where t: "spi_rx_loop ops (unat ws) v = Inr t" "spi_inv t" using rx_loop_inv [OF v(2)] by blast
  have "spi_inv (spi_set_status m t)" for m using t(2) spi_wf_fifos(7) [of t] by (simp add: spi_inv_def)
  then show ?thesis using assms ws u(1) v(1) t flush(2) [OF v(2)] flush(1) [OF t(2)] by (auto simp: apple_spi_run_def)
qed

lemma write_case_inv:
  assumes "spi_inv s"
  shows "\<exists>w cs_flg run u. spi_write_case addr v s = Inr (w, cs_flg, run, u) \<and> spi_inv u \<and> (addr div 4 = 1 \<longrightarrow> w = v)"
proof -
  have wf: "spi_wf s" using assms by (simp add: spi_inv_def)
  have reset: "spi_inv (t\<lparr>tx_fifo := fifo32_reset (tx_fifo t)\<rparr>)" "spi_inv (t\<lparr>rx_fifo := fifo32_reset (rx_fifo t)\<rparr>)" if "spi_inv t" for t :: "('a, 'b) AppleSPIState"
    using that fifo32_reset_empty by (auto simp: spi_inv_def spi_wf_def)
  obtain ws where ws: "apple_spi_word_size s = Inr ws" using word_size_pio [of s] assms by (auto simp: spi_inv_def)
  consider "addr = SPI_CTRL" | "addr = SPI_TXDATA" | "addr \<noteq> SPI_CTRL" "addr \<noteq> SPI_TXDATA" by blast
  then show ?thesis
  proof cases
    case 1
    have "spi_inv (s\<lparr>tx_fifo := fifo32_reset (tx_fifo s), rx_fifo := fifo32_reset (rx_fifo s)\<rparr>)"
      using reset(2) [OF reset(1) [OF assms]] by simp
    then show ?thesis using 1 assms reset by (cases "v AND SPI_CTRL_TX_RESET = 0") (auto simp: spi_write_case_def Let_def)
  next
    case 2
    show ?thesis
    proof (cases "fifo32_is_full (tx_fifo s)")
      case False
      then have room: "length (tx_list s) < 16" using spi_wf_fifos(3,5) [OF wf] by simp
      obtain f where "fifo32_push (if ws = 1 then v AND 0xFF else if ws = 2 then v AND 0xFFFF else v) (tx_fifo s) = Inr f" "spi_wf (s\<lparr>tx_fifo := f\<rparr>)"
        using spi_tx_push [OF wf room] by blast
      then show ?thesis using 2 False ws assms by (auto simp: spi_write_case_def spi_inv_def)
    qed (use 2 assms in \<open>auto simp: spi_write_case_def\<close>)
  next
    case 3
    then show ?thesis using assms by (auto simp: spi_write_case_def)
  qed
qed

lemma update_cs_wired:
  assumes "spi_inv s"
  shows "\<exists>t. apple_spi_update_cs s = Inr t \<and> spi_inv t \<and> spi_irq t = spi_irq s \<and> (\<forall>a. REG t a = REG s a)"
proof (cases "ssi_bus s")
  case (Cons p ps)
  have "spc (ssi_cs_default l p) = spc p" for l by (simp add: ssi_cs_default_def Let_def split: option.split)
  then show ?thesis using Cons assms by (auto simp: apple_spi_update_cs_def spi_inv_def cs_wired_def REG_def)
qed (use assms in \<open>simp add: apple_spi_update_cs_def\<close>)

lemma update_cs_unwired: "\<not> cs_wired (ssi_bus s) \<Longrightarrow> apple_spi_update_cs s = Inl AssertFailed"
  by (auto simp: apple_spi_update_cs_def cs_wired_def split: list.splits)

lemma spi_inv_irq [simp]: "spi_inv (s\<lparr>spi_irq := i\<rparr>) = spi_inv s" "spi_line (s\<lparr>spi_irq := i\<rparr>) = spi_line s"
  by (simp_all add: spi_inv_def spi_line_def)

definition spi_sync :: "('c, 'd) AppleSPIState \<Rightarrow> bool" where
  "spi_sync s \<longleftrightarrow> spi_inv s \<and> spi_irq s = spi_line s"

lemma reg_write_inv:
  assumes "spi_inv s" "addr < APPLE_SPI_MMIO_SIZE" "addr div 4 = 1 \<longrightarrow> spi_pio (ucast v)"
  shows "\<exists>t. apple_spi_reg_write ops addr v s = Inr t \<and> spi_inv t \<and> (addr < SPI_MAX \<or> spi_sync s \<longrightarrow> spi_sync t)"
proof (cases "addr < SPI_MAX")
  case True
  obtain w cs_flg run u where u: "spi_write_case addr (ucast v) s = Inr (w, cs_flg, run, u)" "spi_inv u" "addr div 4 = 1 \<longrightarrow> w = ucast v"
    using write_case_inv [OF assms(1)] by blast
  have "spi_len u" using u(2) by (simp add: spi_inv_def spi_wf_def)
  then have "spi_inv (set_REG addr w u)" using u(2,3) assms(2,3) by (auto simp: spi_inv_def)
  then obtain x where x: "(if cs_flg then apple_spi_update_cs (set_REG addr w u) else Inr (set_REG addr w u)) = Inr x" "spi_inv x"
    using update_cs_wired [of "set_REG addr w u"] by (cases cs_flg) auto
  then obtain t where "(if run then apple_spi_run ops x else Inr x) = Inr t" "spi_inv t"
    using run_inv_pio [of x ops] by (cases run) auto
  moreover have "\<not> length (spi_regs s) \<le> addr div 4"
    using assms(1,2) by (auto simp: spi_inv_def spi_wf_def spi_len_def)
  ultimately show ?thesis using True u(1) x(1) by (simp add: apple_spi_reg_write_def update_irq_line spi_sync_def Let_def)
next
  case False
  then show ?thesis using assms(1,2) by (auto simp: apple_spi_reg_write_def spi_inv_def spi_wf_def spi_len_def)
qed

lemma reg_read_inv:
  assumes "spi_inv s"
  shows "\<exists>r t. apple_spi_reg_read ops addr s = Inr (r, t) \<and> spi_inv t \<and> (addr < SPI_MAX \<or> spi_sync s \<longrightarrow> spi_sync t)"
proof (cases "addr = SPI_RXDATA \<and> \<not> fifo32_is_empty (rx_fifo s)")
  case True
  have wf: "spi_wf s" using assms by (simp add: spi_inv_def)
  then obtain w q where "rx_list s = w # q" using True spi_wf_fifos(2) [OF wf] by (cases "rx_list s") auto
  then obtain f where f: "fifo32_pop (rx_fifo s) = Inr (w, f)" "spi_wf (s\<lparr>rx_fifo := f\<rparr>)" using spi_rx_pop [OF wf] by blast
  then have "spi_inv (s\<lparr>rx_fifo := f\<rparr>)" using assms by (simp add: spi_inv_def)
  then obtain t where "(if fifo32_is_empty f then apple_spi_run ops (s\<lparr>rx_fifo := f\<rparr>) else Inr (s\<lparr>rx_fifo := f\<rparr>)) = Inr t" "spi_inv t"
    using run_inv_pio [of "s\<lparr>rx_fifo := f\<rparr>" ops] by (cases "fifo32_is_empty f") auto
  then show ?thesis using True f(1) by (simp add: apple_spi_reg_read_def update_irq_line spi_sync_def)
next
  case False
  then have "\<exists>r. apple_spi_reg_read ops addr s = Inr (r, if addr < SPI_MAX then s\<lparr>spi_irq := spi_line s\<rparr> else s)"
    by (auto simp: apple_spi_reg_read_def update_irq_line Let_def simp del: rbind_eq_Inr)
  then show ?thesis using assms by (auto simp: spi_sync_def)
qed

text \<open>The accesses of a guest, the chip select input and the reset.\<close>

datatype spi_op = SpiWrite hwaddr u64 | SpiRead hwaddr | SpiCs bool | SpiReset

fun spi_step :: "'c dma_ops \<Rightarrow> spi_op \<Rightarrow> ('c, 'd) AppleSPIState \<Rightarrow> ('c, 'd) AppleSPIState res" where
  "spi_step ops (SpiWrite a v) s = apple_spi_reg_write ops a v s"
| "spi_step ops (SpiRead a) s = rbind (apple_spi_reg_read ops a s) (\<lambda>(_, t). Inr t)"
| "spi_step ops (SpiCs level) s = apple_spi_cs_set level s"
| "spi_step ops SpiReset s = Inr (apple_spi_reset s)"

fun spi_op_ok :: "spi_op \<Rightarrow> bool" where
  "spi_op_ok (SpiWrite a v) \<longleftrightarrow> a < APPLE_SPI_MMIO_SIZE \<and> (a div 4 = 1 \<longrightarrow> spi_pio (ucast v))"
| "spi_op_ok _ \<longleftrightarrow> True"

lemma spi_cs_set_inv:
  assumes "spi_inv s"
  shows "\<exists>t. apple_spi_cs_set l s = Inr t \<and> spi_inv t \<and> (spi_sync s \<longrightarrow> spi_sync t)"
proof -
  let ?u = "set_REG SPI_PIN (if l then REG s SPI_PIN OR SPI_PIN_CS else REG s SPI_PIN AND NOT SPI_PIN_CS) s"
  have "spi_len s" using assms by (simp add: spi_inv_def spi_wf_def)
  then have u: "spi_inv ?u" "spi_line ?u = spi_line s" "spi_irq ?u = spi_irq s"
    using assms by (simp_all add: spi_inv_def spi_line_def)
  obtain t where t: "apple_spi_update_cs ?u = Inr t" "spi_inv t" "spi_irq t = spi_irq ?u" "\<forall>a. REG t a = REG ?u a"
    using update_cs_wired [OF u(1)] by blast
  have "spi_line t = spi_line ?u" unfolding spi_line_def t(4) [rule_format] ..
  then show ?thesis using t(1-3) u(2,3) by (simp add: spi_sync_def apple_spi_cs_set_def)
qed

lemma spi_reset_inv: "spi_inv s \<Longrightarrow> spi_inv (apple_spi_reset s)"
  using fifo32_reset_empty by (auto simp: spi_inv_def spi_wf_def apple_spi_reset_def spi_len_def REG_def spi_pio_def)

lemma spi_step_inv:
  assumes "spi_op_ok x" "spi_inv s"
  shows "\<exists>t. spi_step ops x s = Inr t \<and> spi_inv t \<and> (x \<noteq> SpiReset \<and> spi_sync s \<longrightarrow> spi_sync t)"
proof (cases x)
  case (SpiWrite a v)
  then show ?thesis using assms reg_write_inv [OF assms(2), of a v ops] by auto
next
  case (SpiRead a)
  then show ?thesis using reg_read_inv [OF assms(2), of ops a] by auto
qed (use assms(2) spi_cs_set_inv [OF assms(2)] spi_reset_inv in auto)

interpretation spi: safe_device "spi_step ops" spi_op_ok spi_inv for ops :: "'c dma_ops"
  by unfold_locales (use spi_step_inv in blast)

interpretation spi_irq_line: safe_device "spi_step ops" "\<lambda>x. spi_op_ok x \<and> x \<noteq> SpiReset" spi_sync for ops :: "'c dma_ops"
proof
  show "\<exists>t. spi_step ops x s = Inr t \<and> spi_sync t" if "spi_op_ok x \<and> x \<noteq> SpiReset" "spi_sync s" for x and s :: "('c, 'd) AppleSPIState"
    using that spi_step_inv [of x s ops] by (auto simp: spi_sync_def)
qed

text \<open>A new controller to which peripherals were attached.\<close>

definition spi_attached :: "(int \<Rightarrow> nat option) option \<Rightarrow> (nat \<Rightarrow> u8) \<Rightarrow> 'c \<Rightarrow> 'd SSIBus \<Rightarrow> ('c, 'd) AppleSPIState" where
  "spi_attached g fresh c b = (apple_spi_realize g (apple_spi_instance_init fresh c))\<lparr>ssi_bus := b\<rparr>"

lemma spi_attached_eq: "spi_attached g fresh c b = (apple_spi_instance_init fresh c)\<lparr>ssi_bus := b\<rparr>"
  by (simp add: spi_attached_def apple_spi_realize_def apple_spi_instance_init_def Let_def split: option.split)

lemma spi_attached_sync: "cs_wired b \<Longrightarrow> spi_sync (spi_attached g fresh c b)"
  using spi_init_wf(1) [of fresh c] unfolding spi_attached_eq
  by (simp add: spi_sync_def spi_inv_def spi_pio_def spi_line_def) (simp add: REG_def apple_spi_instance_init_def)

lemma spi_attached_bus: "ssi_bus (spi_attached g fresh c b) = b" "spi_len (spi_attached g fresh c b)"
  by (simp_all add: spi_attached_eq apple_spi_instance_init_def spi_len_def)

lemma spi_unwired:
  assumes "\<not> cs_wired (ssi_bus s)" "spi_len s"
  shows "spi_step ops (SpiWrite SPI_PIN v) s = Inl AssertFailed" "spi_step ops (SpiCs l) s = Inl AssertFailed"
proof -
  have "ssi_bus (set_REG a w s) = ssi_bus s" for a w by (simp add: set_REG_def)
  then show "spi_step ops (SpiWrite SPI_PIN v) s = Inl AssertFailed" "spi_step ops (SpiCs l) s = Inl AssertFailed"
    using assms by (simp_all add: apple_spi_reg_write_def spi_write_case_def apple_spi_cs_set_def update_cs_unwired spi_len_def)
qed

text \<open>
  Property C20 (safety). From a new controller with any peripherals on its bus, the first of which has a chip
  select input or no chip select polarity, every sequence of register accesses, chip select
  changes and resets that never selects DMA or the reserved word size runs without fault, whatever the
  counts and however full the FIFOs, and keeps the FIFOs and registers well-formed. As long as the device
  is not reset, the interrupt line is high exactly when an enabled status bit is set. The condition on the
  first peripheral is needed: without it a write to the pin register, or a change of the chip select,
  fails an assertion.
\<close>

theorem spi_pio_safe:
  assumes "list_all spi_op_ok xs"
  shows "if cs_wired b
    then \<exists>t. run_res (spi_step ops) xs (spi_attached g fresh c b) = Inr t \<and> spi_wf t \<and> (SpiReset \<notin> set xs \<longrightarrow> spi_irq t = spi_line t)
    else spi_step ops (SpiWrite SPI_PIN v) (spi_attached g fresh c b) = Inl AssertFailed \<and>
      spi_step ops (SpiCs l) (spi_attached g fresh c b) = Inl AssertFailed"
proof (cases "cs_wired b")
  case True
  let ?s = "spi_attached g fresh c b"
  have s: "spi_sync ?s" using spi_attached_sync [OF True] .
  then obtain t where t: "run_res (spi_step ops) xs ?s = Inr t" "spi_inv t"
    using spi.run_safe [OF assms, of ?s ops] by (auto simp: spi_sync_def)
  moreover have "spi_sync t" if "SpiReset \<notin> set xs"
  proof -
    have "list_all (\<lambda>x. spi_op_ok x \<and> x \<noteq> SpiReset) xs" using that assms by (auto simp: list_all_iff)
    then show ?thesis using spi_irq_line.run_safe [of xs ?s ops] s t(1) by auto
  qed
  ultimately show ?thesis using True by (auto simp: spi_inv_def spi_sync_def)
next
  case False
  then show ?thesis by (simp add: spi_unwired spi_attached_bus del: spi_step.simps)
qed

text \<open>A peripheral with a chip select polarity and its own \<open>transfer_raw\<close>.\<close>

definition spi_raw_bus :: "unit SSIBus" where
  "spi_raw_bus = [\<lparr>spc = \<lparr>transfer = (\<lambda>d v. (0, d)), set_cs = None, cs_polarity = SSI_CS_LOW, transfer_raw = Some (\<lambda>d v. (v, d))\<rparr>,
     ssi_cs = False, cs_index = 0, ssi_dev = ()\<rparr>]"

theorem spi_pio_safe_witness:
  "(\<exists>t. run_res (spi_step spi_no_dma) [SpiWrite SPI_CFG 0x120, SpiWrite SPI_CTRL 1, SpiWrite SPI_TXCNT 1, SpiWrite SPI_TXDATA 0x55,
        SpiRead SPI_RXDATA] (spi_attached None (\<lambda>_. 0) () spi_demo_bus) = Inr t \<and> spi_irq t = spi_line t) \<and>
   spi_step spi_no_dma (SpiCs True) (spi_attached None (\<lambda>_. 0) () spi_raw_bus) = Inl AssertFailed"
proof -
  let ?xs = "[SpiWrite SPI_CFG 0x120, SpiWrite SPI_CTRL 1, SpiWrite SPI_TXCNT 1, SpiWrite SPI_TXDATA 0x55, SpiRead SPI_RXDATA]"
  have x: "list_all spi_op_ok ?xs" unfolding spi_pio_def by code_simp
  have w: "cs_wired spi_demo_bus" "\<not> cs_wired spi_raw_bus" by (simp_all add: cs_wired_def spi_demo_bus_def spi_raw_bus_def)
  have r: "SpiReset \<notin> set ?xs" by simp
  show ?thesis
    using spi_pio_safe [OF x, where ops = spi_no_dma and g = None and fresh = "\<lambda>_. 0" and c = "()" and b = spi_demo_bus]
      spi_pio_safe [OF x, where ops = spi_no_dma and g = None and fresh = "\<lambda>_. 0" and c = "()" and b = spi_raw_bus and l = True] w r
    by (simp del: spi_step.simps run_res.simps) blast
qed

subsection \<open>The reserved word size\<close>

text \<open>
  Selecting the reserved word size in the configuration register fails an assertion, in whatever state the
  controller is and whether or not it is running.
\<close>

theorem spi_word_size_assert:
  assumes "spi_wf s" "SPI_CFG_WORD_SIZE (ucast v) = 3"
  shows "apple_spi_reg_write ops SPI_CFG v s = Inl AssertFailed"
proof -
  have l: "spi_len s" using assms(1) by (simp add: spi_wf_def)
  then have "apple_spi_word_size (set_REG SPI_CFG (ucast v) s) = Inl AssertFailed"
    using assms(2) by (simp add: apple_spi_word_size_def)
  then show ?thesis using l by (simp add: apple_spi_reg_write_def spi_write_case_def apple_spi_run_def spi_len_def)
qed

theorem spi_word_size_assert_witness:
  "apple_spi_reg_write spi_no_dma SPI_CFG 0x18000 (apple_spi_instance_init (\<lambda>_. 0) () :: (unit, unit) AppleSPIState) = Inl AssertFailed"
  by (rule spi_word_size_assert [OF spi_init_wf(1)]) code_simp

text \<open>A reset clears the status without lowering the interrupt line.\<close>

lemma spi_reset_line:
  assumes "spi_wf s"
  shows "spi_irq (apple_spi_reset s) = spi_irq s" "\<not> spi_line (apple_spi_reset s)"
  using assms by (simp_all add: apple_spi_reset_def spi_line_def REG_def spi_wf_def spi_len_def)

end
