(* ===== verification/Iov.thy ===== *)
theory Iov
  imports Bytes
begin

text \<open>
  Scatter-gather lists: the copies between a buffer and a vector of memory pieces of \<open>util/iov.c\<close>, and
  the list of guest segments of \<open>system/dma-helpers.c\<close>. Memory is a function from addresses to bytes.
  The copies, which skip whole pieces and then go piece by piece, are proved to be a copy of a slice of
  the addresses of the vector, in order.
\<close>

type_synonym memory = "u64 \<Rightarrow> u8"

subsection \<open>Memory\<close>

definition mem_read :: "memory \<Rightarrow> u64 \<Rightarrow> nat \<Rightarrow> bytes" where
  "mem_read mem a n = map (\<lambda>i. mem (a + of_nat i)) [0..<n]"

text \<open>Storing bytes at a list of addresses, one after the other.\<close>

primrec mem_put :: "u64 list \<Rightarrow> bytes \<Rightarrow> memory \<Rightarrow> memory" where
  "mem_put [] bs mem = mem"
| "mem_put (a # as) bs mem = (case bs of [] \<Rightarrow> mem | b # bs \<Rightarrow> mem_put as bs (mem(a := b)))"

definition span :: "u64 \<Rightarrow> nat \<Rightarrow> u64 list" where
  "span a n = map (\<lambda>i. a + of_nat i) [0..<n]"

definition mem_write :: "u64 \<Rightarrow> bytes \<Rightarrow> memory \<Rightarrow> memory" where
  "mem_write a bs mem = mem_put (span a (length bs)) bs mem"

subsection \<open>Vectors\<close>

record iovec =
  iov_base :: u64
  iov_len :: nat

text \<open>A \<open>QEMUIOVector\<close> is its pieces; its \<open>size\<close> field, kept by \<open>qemu_iovec_add\<close>, is their \<open>iov_size\<close>.\<close>

type_synonym QEMUIOVector = "iovec list"

definition qemu_iovec_init :: QEMUIOVector where
  "qemu_iovec_init = []"

definition qemu_iovec_add :: "u64 \<Rightarrow> nat \<Rightarrow> QEMUIOVector \<Rightarrow> QEMUIOVector" where
  "qemu_iovec_add base len q = q @ [\<lparr>iov_base = base, iov_len = len\<rparr>]"

definition qemu_iovec_destroy :: "QEMUIOVector \<Rightarrow> QEMUIOVector" where
  "qemu_iovec_destroy q = []"

fun iov_size :: "iovec list \<Rightarrow> nat" where
  "iov_size [] = 0"
| "iov_size (v # vs) = iov_len v + iov_size vs"

text \<open>
  The loops over the pieces. \<open>n\<close> is \<open>bytes - done\<close>; the bytes copied to the buffer are the result, their
  number is the return value. \<open>iov_from_buf_full\<close> takes what is left of the buffer.
\<close>

fun iov_to_buf_full :: "iovec list \<Rightarrow> nat \<Rightarrow> memory \<Rightarrow> nat \<Rightarrow> bytes" where
  "iov_to_buf_full [] off mem n = []"
| "iov_to_buf_full (v # vs) off mem n =
     (if off = 0 \<and> n = 0 then []
      else if off < iov_len v then
        let len = min (iov_len v - off) n
        in mem_read mem (iov_base v + of_nat off) len @ iov_to_buf_full vs 0 mem (n - len)
      else iov_to_buf_full vs (off - iov_len v) mem n)"

fun iov_from_buf_full :: "iovec list \<Rightarrow> nat \<Rightarrow> bytes \<Rightarrow> memory \<Rightarrow> nat \<times> memory" where
  "iov_from_buf_full [] off bs mem = (0, mem)"
| "iov_from_buf_full (v # vs) off bs mem =
     (if off = 0 \<and> bs = [] then (0, mem)
      else if off < iov_len v then
        let len = min (iov_len v - off) (length bs);
            (n, mem) = iov_from_buf_full vs 0 (drop len bs) (mem_write (iov_base v + of_nat off) (take len bs) mem)
        in (len + n, mem)
      else iov_from_buf_full vs (off - iov_len v) bs mem)"

fun iov_memset :: "iovec list \<Rightarrow> nat \<Rightarrow> u8 \<Rightarrow> nat \<Rightarrow> memory \<Rightarrow> nat \<times> memory" where
  "iov_memset [] off c n mem = (0, mem)"
| "iov_memset (v # vs) off c n mem =
     (if off = 0 \<and> n = 0 then (0, mem)
      else if off < iov_len v then
        let len = min (iov_len v - off) n;
            (d, mem) = iov_memset vs 0 c (n - len) (mem_write (iov_base v + of_nat off) (replicate len c) mem)
        in (len + d, mem)
      else iov_memset vs (off - iov_len v) c n mem)"

definition qemu_iovec_to_buf :: "QEMUIOVector \<Rightarrow> nat \<Rightarrow> memory \<Rightarrow> nat \<Rightarrow> bytes" where
  "qemu_iovec_to_buf q off mem n = iov_to_buf_full q off mem n"

definition qemu_iovec_from_buf :: "QEMUIOVector \<Rightarrow> nat \<Rightarrow> bytes \<Rightarrow> memory \<Rightarrow> nat \<times> memory" where
  "qemu_iovec_from_buf q off bs mem = iov_from_buf_full q off bs mem"

definition qemu_iovec_memset :: "QEMUIOVector \<Rightarrow> nat \<Rightarrow> u8 \<Rightarrow> nat \<Rightarrow> memory \<Rightarrow> nat \<times> memory" where
  "qemu_iovec_memset q off c n mem = iov_memset q off c n mem"

subsection \<open>Lists of guest segments\<close>

record ScatterGatherEntry =
  sg_base :: u64
  sg_len :: u64

record QEMUSGList =
  sg :: "ScatterGatherEntry list"
  sg_size :: u64

definition qemu_sglist_init :: QEMUSGList where
  "qemu_sglist_init = \<lparr>sg = [], sg_size = 0\<rparr>"

definition qemu_sglist_add :: "u64 \<Rightarrow> u64 \<Rightarrow> QEMUSGList \<Rightarrow> QEMUSGList" where
  "qemu_sglist_add base len q = q\<lparr>sg := sg q @ [\<lparr>sg_base = base, sg_len = len\<rparr>], sg_size := sg_size q + len\<rparr>"

subsection \<open>The copies as slices\<close>

definition iov_addrs :: "iovec list \<Rightarrow> u64 list" where
  "iov_addrs vs = concat (map (\<lambda>v. span (iov_base v) (iov_len v)) vs)"

lemma length_span [simp]: "length (span a n) = n"
  by (simp add: span_def)

lemma nth_span [simp]: "i < n \<Longrightarrow> span a n ! i = a + of_nat i"
  by (simp add: span_def)

lemma span_0 [simp]: "span a 0 = []"
  by (simp add: span_def)

lemma span_drop: "drop k (span a n) = span (a + of_nat k) (n - k)"
  by (rule nth_equalityI) (simp_all add: add.assoc)

lemma span_take: "take k (span a n) = span a (min k n)"
  by (rule nth_equalityI) (simp_all add: span_def)

lemma span_add: "span a (m + n) = span a m @ span (a + of_nat m) n"
  using append_take_drop_id [of m "span a (m + n)"] by (simp add: span_drop span_take)

lemma mem_read_span: "mem_read mem a n = map mem (span a n)"
  by (simp add: mem_read_def span_def)

lemma iov_addrs_simps [simp]:
  "iov_addrs [] = []" "iov_addrs (v # vs) = span (iov_base v) (iov_len v) @ iov_addrs vs"
  "iov_addrs (vs @ ws) = iov_addrs vs @ iov_addrs ws"
  by (simp_all add: iov_addrs_def)

lemma length_iov_addrs: "length (iov_addrs vs) = iov_size vs"
  by (induction vs) simp_all

lemma iov_to_buf_slice: "iov_to_buf_full vs off mem n = map mem (take n (drop off (iov_addrs vs)))"
proof (induction vs arbitrary: off n)
  case (Cons v vs)
  show ?case
  proof (cases "off < iov_len v")
    case True
    then show ?thesis by (auto simp: Cons mem_read_span span_drop span_take min_def Let_def)
  next
    case False
    then show ?thesis by (simp add: Cons)
  qed
qed simp

lemma mem_put_append: "length as = length xs \<Longrightarrow> mem_put (as @ bs) (xs @ ys) mem = mem_put bs ys (mem_put as xs mem)"
  by (induction as xs arbitrary: mem rule: list_induct2) simp_all

lemma mem_put_short: "mem_put as xs mem = mem_put (take (length xs) as) xs mem"
proof (induction as arbitrary: xs mem)
  case (Cons a as)
  then show ?case by (cases xs) (simp, metis length_Cons list.simps(5) mem_put.simps(2) take_Suc_Cons)
qed simp

lemma mem_put_Nil [simp]: "mem_put as [] mem = mem"
  by (cases as) simp_all

lemma mem_put_other: "a \<notin> set as \<Longrightarrow> mem_put as xs mem a = mem a"
proof (induction as arbitrary: xs mem)
  case (Cons b as)
  then show ?case by (cases xs) simp_all
qed simp

lemma mem_put_nth: "distinct as \<Longrightarrow> i < length as \<Longrightarrow> i < length xs \<Longrightarrow> mem_put as xs mem (as ! i) = xs ! i"
proof (induction as arbitrary: xs mem i)
  case (Cons b as)
  then show ?case by (cases xs; cases i) (simp_all add: mem_put_other)
qed simp

lemma iov_from_buf_slice:
  "iov_from_buf_full vs off bs mem = (min (length bs) (iov_size vs - off), mem_put (drop off (iov_addrs vs)) bs mem)"
proof (induction vs arbitrary: off bs mem)
  case (Cons v vs)
  show ?case
  proof (cases "off < iov_len v")
    case True
    define len where "len = min (iov_len v - off) (length bs)"
    have "mem_put (span (iov_base v + of_nat off) (iov_len v - off) @ iov_addrs vs) bs mem =
        mem_put (iov_addrs vs) (drop len bs) (mem_write (iov_base v + of_nat off) (take len bs) mem)"
    proof (cases "length bs \<le> iov_len v - off")
      case True
      then have "len = length bs" by (simp add: len_def)
      then show ?thesis using mem_put_short [of "span (iov_base v + of_nat off) (iov_len v - off) @ iov_addrs vs" bs mem] True
        by (simp add: mem_write_def span_take min_def)
    next
      case False
      then have "len = iov_len v - off" "len \<le> length bs" by (simp_all add: len_def)
      then show ?thesis using mem_put_append [of "span (iov_base v + of_nat off) len" "take len bs" "iov_addrs vs" "drop len bs" mem]
        by (simp add: mem_write_def)
    qed
    then show ?thesis using True by (auto simp: Cons Let_def len_def [symmetric] span_drop) (auto simp: len_def add.commute)
  next
    case False
    then show ?thesis by (simp add: Cons add.commute)
  qed
qed simp

lemma iov_memset_eq: "iov_memset vs off c n mem = iov_from_buf_full vs off (replicate n c) mem"
  by (induction vs arbitrary: off n mem) (auto simp: Let_def min_def)

lemma mem_put_cong: "m a = m' a \<Longrightarrow> mem_put as xs m a = mem_put as xs m' a"
proof (induction as arbitrary: xs m m')
  case (Cons b as)
  have "mem_put as ys (m(b := x)) a = mem_put as ys (m'(b := x)) a" for x ys
    by (rule Cons.IH [of "m(b := x)" "m'(b := x)"]) (simp add: Cons.prems)
  then show ?case using Cons.prems by (cases xs) (simp, simp only: mem_put.simps list.case)
qed simp

lemma mem_put_split:
  "length as \<le> length xs \<Longrightarrow> mem_put (as @ bs) xs mem = mem_put bs (drop (length as) xs) (mem_put as xs mem)"
proof -
  assume "length as \<le> length xs"
  then have l: "length as = length (take (length as) xs)" by simp
  show ?thesis
    using mem_put_append [OF l, of bs "drop (length as) xs" mem] mem_put_append [OF l, of "[]" "drop (length as) xs" mem] by simp
qed

end
