(* ===== verification/Sio.thy ===== *)
theory Sio
  imports Rtkit Dt Iov
begin

text \<open>
  The Smart IO DMA controller, \<open>hw/dma/apple_sio.c\<close>: a co-processor whose user endpoint takes commands
  that queue scatter-gather buffers on DMA endpoints, and the functions other devices call to read
  from, or write to, the buffers of an endpoint. The memory the controller reaches is a function; which
  accesses to it succeed, and how much of a range can be mapped at once, is an argument, and mapped
  memory is accessed in place. An endpoint is its index in \<open>eps\<close>. The calls for other devices are proved
  to move the bytes of the queued segments in order, each once.
\<close>

subsection \<open>Constants and state\<close>

abbreviation (input) "SIO_NUM_EPS \<equiv> 0xDC :: nat"
abbreviation (input) "OP_PING \<equiv> 1 :: u8"
abbreviation (input) "OP_GET_PARAM \<equiv> 2 :: u8"
abbreviation (input) "OP_SET_PARAM \<equiv> 3 :: u8"
abbreviation (input) "OP_CONFIGURE \<equiv> 5 :: u8"
abbreviation (input) "OP_MAP \<equiv> 6 :: u8"
abbreviation (input) "OP_QUERY \<equiv> 7 :: u8"
abbreviation (input) "OP_STOP \<equiv> 8 :: u8"
abbreviation (input) "OP_ACK \<equiv> 101 :: u8"
abbreviation (input) "OP_GET_PARAM_RESP \<equiv> 103 :: u8"
abbreviation (input) "OP_COMPLETE \<equiv> 104 :: u8"
abbreviation (input) "OP_QUERY_OK \<equiv> 105 :: u8"
abbreviation (input) "OP_SYNC_ERROR \<equiv> 2 :: u8"
abbreviation (input) "EP_CONTROL \<equiv> 0 :: u8"
abbreviation (input) "EP_PERF \<equiv> 3 :: u8"
abbreviation (input) "PARAM_PROTOCOL_VERSION \<equiv> 0 :: u8"
abbreviation (input) "PARAM_SEGMENT_BASE \<equiv> 1 :: u8"
abbreviation (input) "PARAM_SEGMENT_SIZE \<equiv> 2 :: u8"
abbreviation (input) "PARAM_RESPONSE_BASE \<equiv> 11 :: u8"
abbreviation (input) "NANOSECONDS_PER_SECOND \<equiv> 1000000000 :: u64"

record SIODMAConfig =
  cfg_xfer :: u32
  cfg_timeout :: u32
  cfg_fifo :: u32
  cfg_trigger :: u32
  cfg_limit :: u32
  cfg_field_14 :: u32
  cfg_field_18 :: u32

record SIODMASegment =
  seg_addr :: u64
  seg_len :: u32

record SIODMABuffer =
  segments :: "SIODMASegment list"
  sgl :: QEMUSGList
  buf_iov :: QEMUIOVector
  buf_tag :: u8
  mapped :: bool
  segment_count :: u32
  completed :: u64
  start_timestamp :: u64

datatype DMADirection = DMA_DIRECTION_TO_DEVICE | DMA_DIRECTION_FROM_DEVICE

record AppleSIODMAEndpoint =
  config :: SIODMAConfig
  direction :: DMADirection
  ep_id :: u8
  buffers :: "SIODMABuffer list"

record AppleSIOState = "unit AppleRTKit" +
  dma_as :: memory
  eps :: "AppleSIODMAEndpoint list"
  sio_protocol_version :: u32
  segment_size :: u32
  segment_base :: u64
  resp_base :: u64
  gtimer_freq :: u64

text \<open>
  \<open>bus_ok\<close>: an access of this length at this address succeeds. \<open>bus_map\<close>: how many bytes can be mapped
  from this address on when this many are asked for, 0 when \<open>dma_memory_map\<close> fails.
\<close>

record dma_bus =
  bus_ok :: "u64 \<Rightarrow> nat \<Rightarrow> bool"
  bus_map :: "u64 \<Rightarrow> u64 \<Rightarrow> u64"

definition dma_memory_read :: "dma_bus \<Rightarrow> u64 \<Rightarrow> nat \<Rightarrow> memory \<Rightarrow> bytes option" where
  "dma_memory_read bus a n mem = (if bus_ok bus a n then Some (mem_read mem a n) else None)"

definition stq_le_dma :: "dma_bus \<Rightarrow> u64 \<Rightarrow> u64 \<Rightarrow> memory \<Rightarrow> memory" where
  "stq_le_dma bus a v mem = (if bus_ok bus a 8 then mem_write a (to_le 8 v) mem else mem)"

subsection \<open>Messages\<close>

record SIOMessage =
  m_ep :: u8
  m_tag :: u8
  m_op :: u8
  m_param :: u8
  m_data :: u32

definition sio_raw :: "SIOMessage \<Rightarrow> u64" where
  "sio_raw m = of_le ([m_ep m, m_tag m, m_op m, m_param m] @ to_le 4 (m_data m))"

definition sio_of_raw :: "u64 \<Rightarrow> SIOMessage" where
  "sio_of_raw r = (let bs = to_le 8 r
     in \<lparr>m_ep = bs ! 0, m_tag = bs ! 1, m_op = bs ! 2, m_param = bs ! 3, m_data = of_le (drop 4 bs)\<rparr>)"

definition sio_msg0 :: SIOMessage where
  "sio_msg0 = \<lparr>m_ep = 0, m_tag = 0, m_op = 0, m_param = 0, m_data = 0\<rparr>"

subsection \<open>Buffers\<close>

definition upd_ep :: "nat \<Rightarrow> (AppleSIODMAEndpoint \<Rightarrow> AppleSIODMAEndpoint) \<Rightarrow> AppleSIOState \<Rightarrow> AppleSIOState" where
  "upd_ep i f s = s\<lparr>eps := (eps s)[i := f (eps s ! i)]\<rparr>"

text \<open>
  Freeing the buffer at a position of the queue. Mapped memory is accessed in place, so unmapping it
  changes nothing.
\<close>

definition apple_sio_dma_destroy_buffer :: "nat \<Rightarrow> AppleSIODMAEndpoint \<Rightarrow> AppleSIODMAEndpoint" where
  "apple_sio_dma_destroy_buffer k e = e\<lparr>buffers := take k (buffers e) @ drop (Suc k) (buffers e)\<rparr>"

definition apple_sio_get_cur_ts :: "u64 \<Rightarrow> AppleSIOState \<Rightarrow> u64 res" where
  "apple_sio_get_cur_ts now s =
     (if NANOSECONDS_PER_SECOND > gtimer_freq s then
        if gtimer_freq s = 0 then Inl DivideByZero else Inr (now div (NANOSECONDS_PER_SECOND div gtimer_freq s))
      else Inr (now div 1))"

text \<open>\<open>QTAILQ_FOREACH_SAFE\<close> with \<open>apple_sio_dma_destroy_buffer\<close>: the first buffer, as often as there are buffers.\<close>

definition apple_sio_dma_del_buffers :: "AppleSIODMAEndpoint \<Rightarrow> AppleSIODMAEndpoint" where
  "apple_sio_dma_del_buffers e = (apple_sio_dma_destroy_buffer 0 ^^ length (buffers e)) e"

definition apple_sio_dma_stop :: "nat \<Rightarrow> AppleSIOState \<Rightarrow> AppleSIOState res" where
  "apple_sio_dma_stop i s =
     (let s = upd_ep i apple_sio_dma_del_buffers s
      in apple_rtkit_send_user_msg EP_CONTROL (sio_raw (sio_msg0\<lparr>m_op := OP_COMPLETE, m_ep := ep_id (eps s ! i)\<rparr>)) s)"

text \<open>The \<open>int\<close> expression of the response slot; a tag of 0 makes it negative.\<close>

definition sio_resp_off :: "u8 \<Rightarrow> u8 \<Rightarrow> u64" where
  "sio_resp_off t i = of_int (((int (unat t) - 1) + int (unat i) * 0x20) * 0x10)"

definition apple_sio_dma_writeback :: "dma_bus \<Rightarrow> u64 \<Rightarrow> nat \<Rightarrow> SIODMABuffer \<Rightarrow> AppleSIOState \<Rightarrow> AppleSIOState res" where
  "apple_sio_dma_writeback bus now i buf s =
     rbind (apple_sio_get_cur_ts now s) (\<lambda>end_timestamp.
       let e = eps s ! i;
           resp_off = sio_resp_off (buf_tag buf) (ep_id e);
           s = s\<lparr>dma_as := stq_le_dma bus (resp_base s + resp_off) (start_timestamp buf) (dma_as s)\<rparr>;
           s = s\<lparr>dma_as := stq_le_dma bus (resp_base s + resp_off + 8) end_timestamp (dma_as s)\<rparr>;
           m = \<lparr>m_ep = ep_id e, m_tag = buf_tag buf, m_op = OP_COMPLETE, m_param = BIT 7, m_data = ucast (completed buf)\<rparr>;
           s = upd_ep i (apple_sio_dma_destroy_buffer 0) s
       in apple_rtkit_send_user_msg EP_CONTROL (sio_raw m) s)"

text \<open>The inner loop of \<open>apple_sio_dma_map_buf\<close>, over one segment, and the outer one; \<open>None\<close> is a failed mapping.\<close>

function sio_map_seg :: "dma_bus \<Rightarrow> u64 \<Rightarrow> u64 \<Rightarrow> QEMUIOVector \<Rightarrow> QEMUIOVector option" where
  "sio_map_seg bus base len q =
     (if len = 0 then Some q
      else let xlen = min (bus_map bus base len) len
        in if xlen = 0 then None
           else sio_map_seg bus (base + xlen) (len - xlen) (qemu_iovec_add base (unat xlen) q))"
  by pat_completeness auto
termination
  by (relation "measure (\<lambda>(bus, base, len, q). unat len)")
    (auto simp: unat_sub unat_gt_0 min_def word_le_nat_alt split: if_splits)

declare sio_map_seg.simps [simp del]

primrec sio_map_segs :: "dma_bus \<Rightarrow> ScatterGatherEntry list \<Rightarrow> QEMUIOVector \<Rightarrow> QEMUIOVector option" where
  "sio_map_segs bus [] q = Some q"
| "sio_map_segs bus (e # es) q = Option.bind (sio_map_seg bus (sg_base e) (sg_len e) q) (sio_map_segs bus es)"

definition apple_sio_dma_map_buf :: "dma_bus \<Rightarrow> SIODMABuffer \<Rightarrow> bool \<times> SIODMABuffer" where
  "apple_sio_dma_map_buf bus buf =
     (if mapped buf then (True, buf)
      else case sio_map_segs bus (take (unat (segment_count buf)) (sg (sgl buf))) qemu_iovec_init of
             None \<Rightarrow> (False, buf\<lparr>buf_iov := qemu_iovec_destroy (buf_iov buf)\<rparr>)
           | Some q \<Rightarrow> (True, buf\<lparr>buf_iov := q, mapped := True\<rparr>))"

subsection \<open>Reading and writing an endpoint\<close>

declare rbind_cong [fundef_cong]

lemma upd_ep_simps [simp]:
  "eps (upd_ep i f s) = (eps s)[i := f (eps s ! i)]" "gtimer_freq (upd_ep i f s) = gtimer_freq s"
  "dma_as (upd_ep i f s) = dma_as s" "resp_base (upd_ep i f s) = resp_base s" "mbox (upd_ep i f s) = mbox s"
  "segment_base (upd_ep i f s) = segment_base s"
  by (simp_all add: upd_ep_def)

lemma send_user_msg_0: "apple_rtkit_send_user_msg EP_CONTROL d s = Inr (apple_rtkit_send_msg 32 d s)"
  by (simp add: apple_rtkit_send_user_msg_def)

lemma send_msg_sio [simp]:
  fixes s :: AppleSIOState
  shows "eps (apple_rtkit_send_msg e d s) = eps s" "gtimer_freq (apple_rtkit_send_msg e d s) = gtimer_freq s"
    "dma_as (apple_rtkit_send_msg e d s) = dma_as s" "resp_base (apple_rtkit_send_msg e d s) = resp_base s"
    "segment_base (apple_rtkit_send_msg e d s) = segment_base s"
  by (simp_all add: apple_rtkit_send_msg_def apple_a7iop_send_ap_def)

lemma writeback_eps:
  "apple_sio_dma_writeback bus now i buf s = Inr t \<Longrightarrow> eps t = (eps s)[i := apple_sio_dma_destroy_buffer 0 (eps s ! i)]"
  by (auto simp: apple_sio_dma_writeback_def Let_def send_user_msg_0)

definition set_first :: "nat \<Rightarrow> SIODMABuffer \<Rightarrow> AppleSIOState \<Rightarrow> AppleSIOState" where
  "set_first i buf s = upd_ep i (\<lambda>e. e\<lparr>buffers := buf # tl (buffers e)\<rparr>) s"

lemma eps_set_first [simp]:
  "eps (set_first i buf s) = (eps s)[i := (eps s ! i)\<lparr>buffers := buf # tl (buffers (eps s ! i))\<rparr>]"
  by (simp add: set_first_def)

lemma to_buf_empty:
  "qemu_iovec_to_buf q off mem n = [] \<Longrightarrow> 0 < n \<Longrightarrow> iov_size q \<le> off"
  by (simp add: qemu_iovec_to_buf_def iov_to_buf_slice length_iov_addrs)

lemma length_to_buf: "length (qemu_iovec_to_buf q off mem n) \<le> n"
  by (simp add: qemu_iovec_to_buf_def iov_to_buf_slice)

lemma from_buf_none: "fst (qemu_iovec_from_buf q off bs mem) = 0 \<Longrightarrow> bs \<noteq> [] \<Longrightarrow> iov_size q \<le> off"
  by (simp add: qemu_iovec_from_buf_def iov_from_buf_slice min_def split: if_splits)

text \<open>
  The loop of \<open>apple_sio_dma_read\<close>: \<open>n\<close> is \<open>len - actual_len\<close>, not 0 while it runs. It ends because an
  iteration copies a byte or removes a buffer.
\<close>

function sio_read_loop :: "dma_bus \<Rightarrow> u64 \<Rightarrow> nat \<Rightarrow> nat \<Rightarrow> AppleSIOState \<Rightarrow> (bytes \<times> AppleSIOState) res" where
  "sio_read_loop bus now i n s =
     (if length (eps s) \<le> i then Inl OutOfBounds
      else if n = 0 \<or> buffers (eps s ! i) = [] then Inr ([], s)
      else let r = apple_sio_dma_map_buf bus (hd (buffers (eps s ! i))); buf = snd r; s = set_first i buf s
        in if \<not> fst r then Inr ([], s)
           else let out = qemu_iovec_to_buf (buf_iov buf) (unat (completed buf)) (dma_as s) n;
                    buf = buf\<lparr>completed := completed buf + of_nat (length out)\<rparr>;
                    s = set_first i buf s
             in rbind (if iov_size (buf_iov buf) \<le> unat (completed buf) then apple_sio_dma_writeback bus now i buf s else Inr s)
                  (\<lambda>s. rbind (sio_read_loop bus now i (n - length out) s) (\<lambda>(outs, s). Inr (out @ outs, s))))"
  by pat_completeness auto

termination
proof (relation "measure (\<lambda>(bus, now, i, n, s). length (buffers (eps s ! i)) + n)", goal_cases)
  case (2 bus now i n s r buf t out buf' u v)
  let ?bs = "buffers (eps s ! i)"
  have i: "i < length (eps s)" and bs: "0 < length ?bs" and n: "0 < n" using 2 by auto
  have u: "eps u = (eps s)[i := (eps s ! i)\<lparr>buffers := buf' # tl ?bs\<rparr>]" using 2 i by simp
  show ?case
  proof (cases "iov_size (buf_iov buf') \<le> unat (completed buf')")
    case True
    then have "eps v = (eps u)[i := apple_sio_dma_destroy_buffer 0 (eps u ! i)]" using 2 by (auto dest: writeback_eps)
    then show ?thesis using i bs u by (cases ?bs) (simp_all add: apple_sio_dma_destroy_buffer_def)
  next
    case False
    then have "v = u" using 2 by simp
    have "out \<noteq> []"
    proof
      assume "out = []"
      then have "iov_size (buf_iov buf) \<le> unat (completed buf)" using 2 n by (metis to_buf_empty)
      then show False using False 2 \<open>out = []\<close> by simp
    qed
    then show ?thesis using \<open>v = u\<close> i bs u n by simp
  qed
qed simp

declare sio_read_loop.simps [simp del]

definition apple_sio_dma_read :: "dma_bus \<Rightarrow> u64 \<Rightarrow> nat \<Rightarrow> nat \<Rightarrow> AppleSIOState \<Rightarrow> (bytes \<times> AppleSIOState) res" where
  "apple_sio_dma_read bus now i len s =
     (if direction (eps s ! i) \<noteq> DMA_DIRECTION_TO_DEVICE then Inl AssertFailed
      else if len = 0 then Inr ([], s)
      else sio_read_loop bus now i len s)"

text \<open>The loop of \<open>apple_sio_dma_write\<close>, with what is left of the buffer; the first result is \<open>actual_len\<close>.\<close>

function sio_write_loop :: "dma_bus \<Rightarrow> u64 \<Rightarrow> nat \<Rightarrow> bytes \<Rightarrow> AppleSIOState \<Rightarrow> (nat \<times> AppleSIOState) res" where
  "sio_write_loop bus now i bs s =
     (if length (eps s) \<le> i then Inl OutOfBounds
      else if bs = [] \<or> buffers (eps s ! i) = [] then Inr (0, s)
      else let r = apple_sio_dma_map_buf bus (hd (buffers (eps s ! i))); buf = snd r; s = set_first i buf s
        in if \<not> fst r then Inr (0, s)
           else let w = qemu_iovec_from_buf (buf_iov buf) (unat (completed buf)) bs (dma_as s);
                    buf = buf\<lparr>completed := completed buf + of_nat (fst w)\<rparr>;
                    s = set_first i buf (s\<lparr>dma_as := snd w\<rparr>)
             in rbind (if iov_size (buf_iov buf) \<le> unat (completed buf) then apple_sio_dma_writeback bus now i buf s else Inr s)
                  (\<lambda>s. rbind (sio_write_loop bus now i (drop (fst w) bs) s) (\<lambda>(n, s). Inr (fst w + n, s))))"
  by pat_completeness auto

termination
proof (relation "measure (\<lambda>(bus, now, i, bs, s). length (buffers (eps s ! i)) + length bs)", goal_cases)
  case (2 bus now i xs s r buf t w buf' u v)
  let ?bs = "buffers (eps s ! i)"
  have i: "i < length (eps s)" and bs: "0 < length ?bs" and n: "xs \<noteq> []" using 2 by auto
  have u: "eps u = (eps s)[i := (eps s ! i)\<lparr>buffers := buf' # tl ?bs\<rparr>]" using 2 i by simp
  show ?case
  proof (cases "iov_size (buf_iov buf') \<le> unat (completed buf')")
    case True
    then have "eps v = (eps u)[i := apple_sio_dma_destroy_buffer 0 (eps u ! i)]" using 2 by (auto dest: writeback_eps)
    then show ?thesis using i bs u by (cases ?bs) (simp_all add: apple_sio_dma_destroy_buffer_def)
  next
    case False
    then have "v = u" using 2 by simp
    have "fst w \<noteq> 0"
    proof
      assume "fst w = 0"
      then have "iov_size (buf_iov buf) \<le> unat (completed buf)" using 2 n by (metis from_buf_none)
      then show False using False 2 \<open>fst w = 0\<close> by simp
    qed
    then show ?thesis using \<open>v = u\<close> i bs u n by simp
  qed
qed simp

declare sio_write_loop.simps [simp del]

definition apple_sio_dma_write :: "dma_bus \<Rightarrow> u64 \<Rightarrow> nat \<Rightarrow> bytes \<Rightarrow> AppleSIOState \<Rightarrow> (nat \<times> AppleSIOState) res" where
  "apple_sio_dma_write bus now i bs s =
     (if direction (eps s ! i) \<noteq> DMA_DIRECTION_FROM_DEVICE then Inl AssertFailed
      else if bs = [] then Inr (0, s)
      else sio_write_loop bus now i bs s)"

definition apple_sio_dma_remaining_locked :: "AppleSIODMAEndpoint \<Rightarrow> u64" where
  "apple_sio_dma_remaining_locked e = fold (\<lambda>buf len. len + (sg_size (sgl buf) - completed buf)) (buffers e) 0"

definition apple_sio_dma_remaining :: "nat \<Rightarrow> AppleSIOState \<Rightarrow> u64" where
  "apple_sio_dma_remaining i s = apple_sio_dma_remaining_locked (eps s ! i)"

subsection \<open>Commands\<close>

definition apple_sio_control_get_param :: "u8 \<Rightarrow> SIOMessage \<Rightarrow> AppleSIOState \<Rightarrow> SIOMessage" where
  "apple_sio_control_get_param param reply s =
     (if param = PARAM_PROTOCOL_VERSION then reply\<lparr>m_data := sio_protocol_version s, m_op := OP_GET_PARAM_RESP\<rparr>
      else reply\<lparr>m_op := OP_SYNC_ERROR\<rparr>)"

text \<open>\<open>value << 12\<close> is a 32-bit shift, widened afterwards.\<close>

definition apple_sio_control_set_param :: "u8 \<Rightarrow> u32 \<Rightarrow> SIOMessage \<Rightarrow> AppleSIOState \<Rightarrow> SIOMessage \<times> AppleSIOState" where
  "apple_sio_control_set_param param val reply s =
     (reply\<lparr>m_op := OP_ACK\<rparr>,
      if param = PARAM_SEGMENT_BASE then s\<lparr>segment_base := ucast (push_bit 12 val)\<rparr>
      else if param = PARAM_SEGMENT_SIZE then s\<lparr>segment_size := val\<rparr>
      else if param = PARAM_RESPONSE_BASE then s\<lparr>resp_base := ucast (push_bit 12 val)\<rparr>
      else s)"

definition apple_sio_control :: "SIOMessage \<Rightarrow> AppleSIOState \<Rightarrow> AppleSIOState res" where
  "apple_sio_control m s =
     (let reply = sio_msg0\<lparr>m_ep := m_ep m, m_tag := m_tag m\<rparr>;
          (reply, s) = (if m_op m = OP_GET_PARAM then (apple_sio_control_get_param (m_param m) reply s, s)
                        else if m_op m = OP_SET_PARAM then apple_sio_control_set_param (m_param m) (m_data m) reply s
                        else (reply, s))
      in apple_rtkit_send_user_msg EP_CONTROL (sio_raw reply) s)"

definition sio_config_of :: "bytes \<Rightarrow> SIODMAConfig" where
  "sio_config_of bs = \<lparr>cfg_xfer = of_le (bslice 0 4 bs), cfg_timeout = of_le (bslice 4 4 bs), cfg_fifo = of_le (bslice 8 4 bs),
     cfg_trigger = of_le (bslice 12 4 bs), cfg_limit = of_le (bslice 16 4 bs), cfg_field_14 = of_le (bslice 20 4 bs),
     cfg_field_18 = of_le (bslice 24 4 bs)\<rparr>"

definition sio_segment_of :: "bytes \<Rightarrow> SIODMASegment" where
  "sio_segment_of bs = \<lparr>seg_addr = of_le (bslice 0 8 bs), seg_len = of_le (bslice 8 4 bs)\<rparr>"

definition sio_build_sgl :: "SIODMASegment list \<Rightarrow> QEMUSGList" where
  "sio_build_sgl segs = fold (\<lambda>e. qemu_sglist_add (seg_addr e) (ucast (seg_len e))) segs qemu_sglist_init"

text \<open>The buffer \<open>OP_MAP\<close> builds from the segments read from memory.\<close>

definition sio_new_buffer :: "u8 \<Rightarrow> u32 \<Rightarrow> bytes \<Rightarrow> u64 \<Rightarrow> SIODMABuffer" where
  "sio_new_buffer t cnt bs ts =
     (let segs = map (\<lambda>k. sio_segment_of (bslice (12 * k) 12 bs)) [0..<unat cnt]
      in \<lparr>segments = segs, sgl = sio_build_sgl segs, buf_iov = [], buf_tag = t, mapped = False,
          segment_count = cnt, completed = 0, start_timestamp = ts\<rparr>)"

definition sio_dma_map :: "dma_bus \<Rightarrow> u64 \<Rightarrow> nat \<Rightarrow> SIOMessage \<Rightarrow> AppleSIOState \<Rightarrow> (u8 \<times> AppleSIOState) res" where
  "sio_dma_map bus now i m s =
     (if m_param m \<noteq> 0 then Inl AssertFailed
      else let segment_addr = segment_base s + ucast (m_data m * 0xC)
        in case dma_memory_read bus (segment_addr + 0x3C) 4 (dma_as s) of
             None \<Rightarrow> Inr (OP_SYNC_ERROR, s)
           | Some hd4 \<Rightarrow>
               let cnt = of_le hd4 :: u32
               in case dma_memory_read bus (segment_addr + 0x48) (unat cnt * 12) (dma_as s) of
                    None \<Rightarrow> Inr (OP_SYNC_ERROR, s)
                  | Some bs \<Rightarrow> rbind (apple_sio_get_cur_ts now s) (\<lambda>ts.
                      Inr (OP_ACK, upd_ep i (\<lambda>e. e\<lparr>buffers := buffers e @ [sio_new_buffer (m_tag m) cnt bs ts]\<rparr>) s)))"

definition apple_sio_dma :: "dma_bus \<Rightarrow> u64 \<Rightarrow> nat \<Rightarrow> SIOMessage \<Rightarrow> AppleSIOState \<Rightarrow> AppleSIOState res" where
  "apple_sio_dma bus now i m s =
     (let reply = sio_msg0\<lparr>m_ep := m_ep m, m_tag := m_tag m\<rparr>;
          send = (\<lambda>reply s. apple_rtkit_send_user_msg EP_CONTROL (sio_raw reply) s)
      in if m_op m = OP_PING then send (reply\<lparr>m_op := OP_ACK\<rparr>) s
         else if m_op m = OP_CONFIGURE then
           case dma_memory_read bus (segment_base s + ucast (m_data m * 0xC)) 28 (dma_as s) of
             None \<Rightarrow> send (reply\<lparr>m_op := OP_SYNC_ERROR\<rparr>) s
           | Some bs \<Rightarrow> send (reply\<lparr>m_op := OP_ACK\<rparr>) (upd_ep i (\<lambda>e. e\<lparr>config := sio_config_of bs\<rparr>) s)
         else if m_op m = OP_MAP then
           rbind (sio_dma_map bus now i m s) (\<lambda>(op, s). send (reply\<lparr>m_op := op\<rparr>) s)
         else if m_op m = OP_QUERY then
           if buffers (eps s ! i) = [] then send (reply\<lparr>m_op := OP_SYNC_ERROR\<rparr>) s
           else send (reply\<lparr>m_op := OP_QUERY_OK, m_data := ucast (apple_sio_dma_remaining_locked (eps s ! i))\<rparr>) s
         else if m_op m = OP_STOP then
           rbind (send (reply\<lparr>m_op := OP_ACK\<rparr>) s) (apple_sio_dma_stop i)
         else send (reply\<lparr>m_op := OP_SYNC_ERROR\<rparr>) s)"

text \<open>The control endpoint also serves the performance endpoint; the device's own endpoint number is not used.\<close>

definition apple_sio_handle_endpoint :: "dma_bus \<Rightarrow> u64 \<Rightarrow> u8 \<Rightarrow> u64 \<Rightarrow> AppleSIOState \<Rightarrow> AppleSIOState res" where
  "apple_sio_handle_endpoint bus now ep msg s =
     (let m = sio_of_raw msg
      in if m_ep m = EP_CONTROL \<or> m_ep m = EP_PERF then apple_sio_control m s
         else if SIO_NUM_EPS \<le> unat (m_ep m) then Inr s
         else apple_sio_dma bus now (unat (m_ep m)) m s)"

definition apple_sio_get_endpoint :: "AppleSIOState \<Rightarrow> int \<Rightarrow> nat option" where
  "apple_sio_get_endpoint s ep = (if ep \<le> 3 \<or> ep \<ge> int SIO_NUM_EPS then None else Some (nat ep))"

definition apple_sio_get_endpoint_from_node :: "AppleSIOState \<Rightarrow> AppleDTNode \<Rightarrow> int \<Rightarrow> nat option res" where
  "apple_sio_get_endpoint_from_node s node idx =
     (case apple_dt_get_prop node (cs ''dma-channels'') of
        None \<Rightarrow> Inr None
      | Some prop \<Rightarrow>
          if idx \<ge> int (unat (p_len prop) div 32) then Inr None
          else if idx < 0 then Inl OutOfBounds
          else Inr (apple_sio_get_endpoint s (sint (of_le (bslice (4 * (8 * nat idx)) 4 (p_data prop)) :: u32))))"

definition ascv2_core_reg_write :: "hwaddr \<Rightarrow> u64 \<Rightarrow> AppleSIOState \<Rightarrow> AppleSIOState" where
  "ascv2_core_reg_write addr data s = s"

definition ascv2_core_reg_read :: "hwaddr \<Rightarrow> AppleSIOState \<Rightarrow> u64" where
  "ascv2_core_reg_read addr s = 0"

subsection \<open>Creation, reset and migration\<close>

definition sio_zero_config :: SIODMAConfig where
  "sio_zero_config = \<lparr>cfg_xfer = 0, cfg_timeout = 0, cfg_fifo = 0, cfg_trigger = 0, cfg_limit = 0, cfg_field_14 = 0, cfg_field_18 = 0\<rparr>"

text \<open>The new endpoint array is zero; \<open>mem\<close> is the memory of the linked region.\<close>

definition apple_sio_realize :: "memory \<Rightarrow> AppleSIOState \<Rightarrow> AppleSIOState" where
  "apple_sio_realize mem s = s\<lparr>dma_as := mem,
     eps := map (\<lambda>i. \<lparr>config = sio_zero_config,
       direction = (if bit i 0 then DMA_DIRECTION_FROM_DEVICE else DMA_DIRECTION_TO_DEVICE),
       ep_id = of_nat i, buffers = []\<rparr>) [0..<SIO_NUM_EPS]\<rparr>"

text \<open>The response base is not reset.\<close>

definition apple_sio_reset_hold :: "AppleSIOState \<Rightarrow> AppleSIOState" where
  "apple_sio_reset_hold s =
     (let s = (apple_rtkit_reset_hold s)\<lparr>segment_base := 0, segment_size := 0\<rparr>
      in s\<lparr>eps := map (\<lambda>e. (apple_sio_dma_del_buffers e)\<lparr>config := sio_zero_config\<rparr>) (eps s)\<rparr>)"

definition vmstate_apple_sio_dma_endpoint_pre_load :: "AppleSIODMAEndpoint \<Rightarrow> AppleSIODMAEndpoint" where
  "vmstate_apple_sio_dma_endpoint_pre_load e = apple_sio_dma_del_buffers e"

definition sio_post_load_buffer :: "dma_bus \<Rightarrow> SIODMABuffer \<Rightarrow> SIODMABuffer" where
  "sio_post_load_buffer bus buf =
     (let buf = buf\<lparr>sgl := sio_build_sgl (take (unat (segment_count buf)) (segments buf))\<rparr>
      in if mapped buf
         then (snd (apple_sio_dma_map_buf bus (buf\<lparr>mapped := False\<rparr>)))\<lparr>completed := completed buf\<rparr>
         else buf)"

definition vmstate_apple_sio_dma_endpoint_post_load :: "dma_bus \<Rightarrow> AppleSIODMAEndpoint \<Rightarrow> AppleSIODMAEndpoint" where
  "vmstate_apple_sio_dma_endpoint_post_load bus e = e\<lparr>buffers := map (sio_post_load_buffer bus) (buffers e)\<rparr>"

text \<open>The device, before it is realised, and the node with the properties of its child set.\<close>

definition apple_sio_from_node :: "AppleDTNode \<Rightarrow> u32 \<Rightarrow> u64 \<Rightarrow> (AppleSIOState \<times> AppleDTNode) res" where
  "apple_sio_from_node node version freq =
     (if freq = 0 then Inl AssertFailed
      else case apple_dt_get_node node (cs ''iop-sio-nub'') of
          Some [k] \<Rightarrow>
            (case apple_dt_get_prop node (cs ''reg'') of
               None \<Rightarrow> Inl AssertFailed
             | Some prop \<Rightarrow>
                 if length (p_data prop) < 32 then Inl OutOfBounds
                 else rbind (apple_rtkit_init ''SIO'') (\<lambda>r.
                   rbind (apple_rtkit_register_user_ep 0 (Some (Client ())) r) (\<lambda>r.
                   rbind (apple_dt_set_prop_u32 (children node ! k) (cs ''pre-loaded'') 1) (\<lambda>child.
                   rbind (apple_dt_set_prop_u32 child (cs ''running'') 1) (\<lambda>child.
                     Inr (\<lparr>iop_role = iop_role r, mbox = mbox r, cpu_status = cpu_status r, cpu_ctrl = cpu_ctrl r,
                           ep0_status = ep0_status r, protocol_version = protocol_version r, endpoints = endpoints r,
                           rollcall = rollcall r, dma_as = (\<lambda>_. 0), eps = [], sio_protocol_version = version,
                           segment_size = 0, segment_base = 0, resp_base = 0, gtimer_freq = freq\<rparr>,
                          set_children ((children node)[k := child]) node))))))
        | _ \<Rightarrow> Inl AssertFailed)"

subsection \<open>The bytes of a buffer\<close>

definition buf_addrs :: "SIODMABuffer \<Rightarrow> u64 list" where
  "buf_addrs buf = concat (map (\<lambda>e. span (sg_base e) (unat (sg_len e))) (sg (sgl buf)))"

text \<open>What is still to be moved: of a buffer, and of an endpoint.\<close>

definition pend :: "SIODMABuffer \<Rightarrow> u64 list" where
  "pend buf = drop (unat (completed buf)) (buf_addrs buf)"

definition ep_pend :: "AppleSIODMAEndpoint \<Rightarrow> u64 list" where
  "ep_pend e = concat (map pend (buffers e))"

definition buf_ok :: "SIODMABuffer \<Rightarrow> bool" where
  "buf_ok buf \<longleftrightarrow> length (sg (sgl buf)) = unat (segment_count buf) \<and> length (buf_addrs buf) = unat (sg_size (sgl buf)) \<and>
     completed buf \<le> sg_size (sgl buf) \<and> (mapped buf \<longrightarrow> iov_addrs (buf_iov buf) = buf_addrs buf)"

definition sio_wf :: "AppleSIOState \<Rightarrow> bool" where
  "sio_wf s \<longleftrightarrow> length (eps s) = SIO_NUM_EPS \<and> 0 < gtimer_freq s \<and>
     (\<forall>i < SIO_NUM_EPS. ep_id (eps s ! i) = of_nat i \<and> list_all buf_ok (buffers (eps s ! i)) \<and>
        direction (eps s ! i) = (if bit i 0 then DMA_DIRECTION_FROM_DEVICE else DMA_DIRECTION_TO_DEVICE))"

text \<open>Whatever range is asked for, some of it can be mapped.\<close>

definition maps_all :: "dma_bus \<Rightarrow> bool" where
  "maps_all bus \<longleftrightarrow> (\<forall>a n. n \<noteq> 0 \<longrightarrow> bus_map bus a n \<noteq> 0)"

lemma map_seg_addrs:
  "sio_map_seg bus base len q = Some r \<Longrightarrow> iov_addrs r = iov_addrs q @ span base (unat len)"
proof (induction bus base len q arbitrary: r rule: sio_map_seg.induct)
  case (1 bus base len q)
  define x where "x = min (bus_map bus base len) len"
  show ?case
  proof (cases "len = 0")
    case False
    then have x: "x \<noteq> 0" "sio_map_seg bus (base + x) (len - x) (qemu_iovec_add base (unat x) q) = Some r"
      using "1.prems" unfolding sio_map_seg.simps [of bus base len q] x_def by (auto simp: Let_def split: if_splits)
    have "x \<le> len" by (simp add: x_def)
    then have "unat len = unat x + unat (len - x)" by (simp add: unat_sub word_le_nat_alt)
    then show ?thesis using "1.IH" [OF False x_def x(1), of r] x(2) span_add [of base "unat x" "unat (len - x)"]
      by (simp add: qemu_iovec_add_def)
  qed (use "1.prems" in \<open>simp add: sio_map_seg.simps\<close>)
qed

lemma map_seg_total: "maps_all bus \<Longrightarrow> \<exists>r. sio_map_seg bus base len q = Some r"
proof (induction bus base len q rule: sio_map_seg.induct)
  case (1 bus base len q)
  then show ?case by (subst sio_map_seg.simps) (auto simp: Let_def maps_all_def min_def)
qed

lemma map_segs_addrs:
  "sio_map_segs bus es q = Some r \<Longrightarrow> iov_addrs r = iov_addrs q @ concat (map (\<lambda>e. span (sg_base e) (unat (sg_len e))) es)"
  by (induction es arbitrary: q) (auto simp: Option.bind_eq_Some_conv dest!: map_seg_addrs)

lemma map_segs_total: "maps_all bus \<Longrightarrow> \<exists>r. sio_map_segs bus es q = Some r"
proof (induction es arbitrary: q)
  case (Cons e es)
  then show ?case using map_seg_total [of bus "sg_base e" "sg_len e" q] by auto
qed simp

lemma map_buf_total:
  assumes "maps_all bus" "buf_ok buf"
  shows "\<exists>b. apple_sio_dma_map_buf bus buf = (True, b) \<and> iov_addrs (buf_iov b) = buf_addrs buf \<and>
    sgl b = sgl buf \<and> completed b = completed buf \<and> buf_tag b = buf_tag buf \<and> segment_count b = segment_count buf"
proof (cases "mapped buf")
  case False
  obtain q where q: "sio_map_segs bus (sg (sgl buf)) qemu_iovec_init = Some q" using map_segs_total [OF assms(1)] by blast
  then show ?thesis using False assms(2) map_segs_addrs [OF q]
    by (simp add: apple_sio_dma_map_buf_def buf_ok_def buf_addrs_def qemu_iovec_init_def)
qed (use assms in \<open>simp add: apple_sio_dma_map_buf_def buf_ok_def\<close>)

subsection \<open>One iteration\<close>

text \<open>The slot of the response area a buffer's timestamps go to, and the message that tells its completion.\<close>

definition resp_slot :: "AppleSIOState \<Rightarrow> nat \<Rightarrow> SIODMABuffer \<Rightarrow> u64 set" where
  "resp_slot s i b = set (span (resp_base s + sio_resp_off (buf_tag b) (of_nat i)) 16)"

definition ep_slots :: "AppleSIOState \<Rightarrow> nat \<Rightarrow> u64 set" where
  "ep_slots s i = (\<Union>b \<in> set (buffers (eps s ! i)). resp_slot s i b)"

definition complete_msg :: "nat \<Rightarrow> SIODMABuffer \<Rightarrow> message" where
  "complete_msg i b = apple_rtkit_construct_msg 32 (sio_raw
     \<lparr>m_ep = of_nat i, m_tag = buf_tag b, m_op = OP_COMPLETE, m_param = BIT 7, m_data = ucast (sg_size (sgl b))\<rparr>)"

definition sio_frame :: "nat \<Rightarrow> AppleSIOState \<Rightarrow> AppleSIOState \<Rightarrow> bool" where
  "sio_frame i s t \<longleftrightarrow> (\<forall>j. j \<noteq> i \<longrightarrow> eps t ! j = eps s ! j) \<and> resp_base t = resp_base s \<and> ep_slots t i \<subseteq> ep_slots s i \<and>
     ap_dir_en (mbox t IOP) = ap_dir_en (mbox s IOP)"

definition told :: "AppleSIOState \<Rightarrow> message list \<Rightarrow> AppleSIOState \<Rightarrow> bool" where
  "told s ms t \<longleftrightarrow> (ap_dir_en (mbox s IOP) \<longrightarrow> inbox (mbox t AP) = inbox (mbox s AP) @ ms)"

lemma sio_frame_trans: "sio_frame i s t \<Longrightarrow> sio_frame i t u \<Longrightarrow> sio_frame i s u"
  by (auto simp: sio_frame_def)

lemma told_trans: "told s ms t \<Longrightarrow> told t ns u \<Longrightarrow> ap_dir_en (mbox t IOP) = ap_dir_en (mbox s IOP) \<Longrightarrow> told s (ms @ ns) u"
  by (simp add: told_def)

lemma wf_bufs: "sio_wf s \<Longrightarrow> i < SIO_NUM_EPS \<Longrightarrow> list_all buf_ok (buffers (eps s ! i))"
  by (simp add: sio_wf_def)

lemma wf_upd_ep:
  assumes "sio_wf s" "list_all buf_ok bs" "i < SIO_NUM_EPS"
  shows "sio_wf (upd_ep i (\<lambda>e. e\<lparr>buffers := bs\<rparr>) s)"
  using assms by (auto simp: sio_wf_def nth_list_update)

lemma writeback_first:
  assumes wf: "sio_wf s" and i: "i < SIO_NUM_EPS" and b: "buffers (eps s ! i) = b # bs"
  shows "\<exists>t. apple_sio_dma_writeback bus now i b s = Inr t \<and> sio_wf t \<and> eps t = (eps s)[i := (eps s ! i)\<lparr>buffers := bs\<rparr>] \<and>
    (\<forall>a. a \<notin> resp_slot s i b \<longrightarrow> dma_as t a = dma_as s a) \<and> resp_base t = resp_base s \<and>
    ap_dir_en (mbox t IOP) = ap_dir_en (mbox s IOP) \<and>
    (completed b = sg_size (sgl b) \<longrightarrow> told s [complete_msg i b] t)"
proof -
  let ?off = "resp_base s + sio_resp_off (buf_tag b) (of_nat i)"
  have id: "ep_id (eps s ! i) = of_nat i" and len: "i < length (eps s)" and f: "0 < gtimer_freq s" using wf i by (auto simp: sio_wf_def)
  have "\<exists>ts. apple_sio_get_cur_ts now s = Inr ts" using f by (simp add: apple_sio_get_cur_ts_def)
  then obtain ts where ts: "apple_sio_get_cur_ts now s = Inr ts" by blast
  define mem where "mem = stq_le_dma bus (?off + 8) ts (stq_le_dma bus ?off (start_timestamp b) (dma_as s))"
  define m where "m = \<lparr>m_ep = of_nat i, m_tag = buf_tag b, m_op = OP_COMPLETE, m_param = BIT 7, m_data = ucast (completed b)\<rparr>"
  define t where "t = apple_rtkit_send_msg 32 (sio_raw m) (upd_ep i (\<lambda>e. e\<lparr>buffers := bs\<rparr>) (s\<lparr>dma_as := mem\<rparr>))"
  have "upd_ep i (apple_sio_dma_destroy_buffer 0) (s\<lparr>dma_as := mem\<rparr>) = upd_ep i (\<lambda>e. e\<lparr>buffers := bs\<rparr>) (s\<lparr>dma_as := mem\<rparr>)"
    by (simp add: upd_ep_def apple_sio_dma_destroy_buffer_def b)
  then have "apple_sio_dma_writeback bus now i b s = Inr t"
    by (simp add: apple_sio_dma_writeback_def ts Let_def id send_user_msg_0 t_def mem_def m_def)
  moreover have "span ?off 16 = span ?off 8 @ span (?off + 8) 8" using span_add [of ?off 8 8] by simp
  then have "dma_as t a = dma_as s a" if "a \<notin> resp_slot s i b" for a
    using that by (auto simp: t_def mem_def stq_le_dma_def mem_write_def mem_put_other resp_slot_def)
  moreover have "list_all buf_ok bs" using wf_bufs [OF wf i] b by simp
  then have "sio_wf t" using wf_upd_ep [of "s\<lparr>dma_as := mem\<rparr>" bs i] wf i by (simp add: t_def sio_wf_def)
  moreover have "told s [complete_msg i b] t" if "completed b = sg_size (sgl b)"
    using that send_ap_mbox [of "upd_ep i (\<lambda>e. e\<lparr>buffers := bs\<rparr>) (s\<lparr>dma_as := mem\<rparr>)"]
    by (simp add: told_def t_def apple_rtkit_send_msg_def complete_msg_def m_def)
  moreover have "ap_dir_en (mbox t IOP) = ap_dir_en (mbox s IOP)"
    by (simp add: t_def apple_rtkit_send_msg_def apple_a7iop_send_ap_def apple_a7iop_mailbox_send_ap_def)
  ultimately show ?thesis by (auto simp: t_def)
qed

lemma pend_facts:
  assumes "buf_ok b"
  shows "unat (completed b) + length (pend b) = unat (sg_size (sgl b))" "length (buf_addrs b) = unat (sg_size (sgl b))"
  using assms by (simp_all add: buf_ok_def pend_def word_le_nat_alt)

text \<open>
  The common end of an iteration of both loops: \<open>k\<close> bytes of the first buffer were moved, and it is
  completed if it has no more.
\<close>

lemma sio_advance:
  fixes mem :: memory
  assumes wf: "sio_wf s" and i: "i < SIO_NUM_EPS" and b: "buffers (eps s ! i) = b # bs"
    and c: "iov_addrs (buf_iov c) = buf_addrs b" "sgl c = sgl b" "completed c = completed b" "buf_tag c = buf_tag b"
      "segment_count c = segment_count b"
    and k: "k \<le> length (pend b)"
  defines "d \<equiv> c\<lparr>completed := completed c + of_nat k\<rparr>"
  defines "u \<equiv> set_first i d (s\<lparr>dma_as := mem\<rparr>)"
  shows "\<exists>v. (if iov_size (buf_iov d) \<le> unat (completed d) then apple_sio_dma_writeback bus now i d u else Inr u) = Inr v \<and>
    sio_wf v \<and> sio_frame i s v \<and> (\<forall>a. a \<notin> ep_slots s i \<longrightarrow> dma_as v a = mem a) \<and>
    (if k = length (pend b) then buffers (eps v ! i) = bs \<and> told s [complete_msg i b] v
     else ep_pend (eps v ! i) = drop k (ep_pend (eps s ! i)) \<and> told s [] v)"
proof -
  have ok: "buf_ok b" "list_all buf_ok bs" using wf_bufs [OF wf i] b by simp_all
  note p = pend_facts [OF ok(1)]
  have i': "i < length (eps s)" using wf i by (simp add: sio_wf_def)
  have lt: "unat (sg_size (sgl b)) < 2 ^ 64" using unsigned_less [of "sg_size (sgl b)"] by simp
  have kk: "unat (of_nat k :: u64) = k" using k p lt by (simp add: unat_of_nat)
  have cd: "unat (completed d) = unat (completed b) + k"
    using k p lt kk c(3) by (simp add: d_def unat_word_ariths)
  have d: "pend d = drop k (pend b)" "buf_ok d" "resp_slot t i d = resp_slot t i b" for t
    using k p cd c ok(1) by (auto simp: d_def pend_def buf_addrs_def buf_ok_def resp_slot_def word_le_nat_alt add.commute)
  have sz: "iov_size (buf_iov d) = length (buf_addrs b)" using c(1) length_iov_addrs [of "buf_iov c"] by (simp add: d_def)
  have u: "buffers (eps u ! i) = d # bs" "eps u = (eps s)[i := (eps s ! i)\<lparr>buffers := d # bs\<rparr>]" "dma_as u = mem"
      "resp_base u = resp_base s" "mbox u = mbox s"
    using i' b by (simp_all add: u_def set_first_def upd_ep_def)
  have wfu: "sio_wf u" using wf_upd_ep [of "s\<lparr>dma_as := mem\<rparr>" "d # bs" i] wf i d(2) ok(2) b
    by (simp add: u_def set_first_def sio_wf_def)
  show ?thesis
  proof (cases "k = length (pend b)")
    case True
    then have full: "iov_size (buf_iov d) \<le> unat (completed d)" "completed d = sg_size (sgl d)"
      using sz cd p c(2) by (simp_all add: word_unat_eq_iff d_def)
    obtain v where v: "apple_sio_dma_writeback bus now i d u = Inr v" "sio_wf v" "eps v = (eps u)[i := (eps u ! i)\<lparr>buffers := bs\<rparr>]"
        "\<forall>a. a \<notin> resp_slot u i d \<longrightarrow> dma_as v a = dma_as u a" "resp_base v = resp_base u"
        "ap_dir_en (mbox v IOP) = ap_dir_en (mbox u IOP)" "told u [complete_msg i d] v"
      using writeback_first [OF wfu i u(1), of bus now] full(2) by blast
    have e: "eps v = (eps s)[i := (eps s ! i)\<lparr>buffers := bs\<rparr>]" using v(3) u(2) i' by simp
    have "complete_msg i d = complete_msg i b" using c by (simp add: complete_msg_def d_def)
    moreover have "resp_slot u i d \<subseteq> ep_slots s i" using b u(4) d(3) by (auto simp: ep_slots_def resp_slot_def)
    moreover have "ep_slots v i \<subseteq> ep_slots s i" using e b i' v(5) u(4) by (auto simp: ep_slots_def resp_slot_def)
    ultimately show ?thesis using True full(1) v e u i' by (auto simp: sio_frame_def told_def)
  next
    case False
    then have "\<not> iov_size (buf_iov d) \<le> unat (completed d)" using sz cd p k by simp
    moreover have "sio_frame i s u" using u i' b d(3) by (auto simp: sio_frame_def ep_slots_def resp_slot_def)
    moreover have "ep_pend (eps u ! i) = drop k (ep_pend (eps s ! i))" using u(1) b d(1) k by (simp add: ep_pend_def)
    ultimately show ?thesis using False wfu u by (auto simp: told_def)
  qed
qed

subsection \<open>An endpoint as a stream\<close>

text \<open>The buffers that moving \<open>n\<close> bytes completes.\<close>

fun sio_finished :: "nat \<Rightarrow> SIODMABuffer list \<Rightarrow> SIODMABuffer list" where
  "sio_finished n [] = []"
| "sio_finished n (b # bs) =
     (if n = 0 \<or> n < length (pend b) then [] else b # sio_finished (n - length (pend b)) bs)"

lemma set_first_twice [simp]:
  "i < length (eps s) \<Longrightarrow> set_first i x ((set_first i y s)\<lparr>dma_as := m\<rparr>) = set_first i x (s\<lparr>dma_as := m\<rparr>)"
  "i < length (eps s) \<Longrightarrow> set_first i x (set_first i y s) = set_first i x s"
  by (simp_all add: set_first_def upd_ep_def)

lemma dma_as_set_first [simp]: "dma_as (set_first i b s) = dma_as s"
  by (simp add: set_first_def)

lemma sio_finished_0 [simp]: "sio_finished 0 bs = []"
  by (cases bs) simp_all

lemma read_stop:
  "sio_wf s \<Longrightarrow> i < SIO_NUM_EPS \<Longrightarrow> n = 0 \<or> buffers (eps s ! i) = [] \<Longrightarrow> sio_read_loop bus now i n s = Inr ([], s)"
  by (subst sio_read_loop.simps) (auto simp: sio_wf_def)

text \<open>What an iteration leaves: the queue without the \<open>k\<close> bytes moved from its first buffer.\<close>

definition moved :: "nat \<Rightarrow> nat \<Rightarrow> AppleSIOState \<Rightarrow> memory \<Rightarrow> AppleSIOState \<Rightarrow> bool" where
  "moved i k s mem v \<longleftrightarrow> sio_wf v \<and> sio_frame i s v \<and> (\<forall>a. a \<notin> ep_slots s i \<longrightarrow> dma_as v a = mem a) \<and>
     (if k = length (pend (hd (buffers (eps s ! i))))
      then buffers (eps v ! i) = tl (buffers (eps s ! i)) \<and> told s [complete_msg i (hd (buffers (eps s ! i)))] v
      else ep_pend (eps v ! i) = drop k (ep_pend (eps s ! i)) \<and> told s [] v)"

lemma sio_read_step:
  assumes "maps_all bus" and wf: "sio_wf s" and i: "i < SIO_NUM_EPS" and b: "buffers (eps s ! i) = b # bs" and n: "n \<noteq> 0"
  defines "k \<equiv> min n (length (pend b))"
  shows "\<exists>v. moved i k s (dma_as s) v \<and> sio_read_loop bus now i n s =
    rbind (sio_read_loop bus now i (n - k) v) (\<lambda>(outs, t). Inr (map (dma_as s) (take n (pend b)) @ outs, t))"
proof -
  have "buf_ok b" using wf_bufs [OF wf i] b by simp
  then obtain c where c: "apple_sio_dma_map_buf bus b = (True, c)" "iov_addrs (buf_iov c) = buf_addrs b" "sgl c = sgl b"
      "completed c = completed b" "buf_tag c = buf_tag b" "segment_count c = segment_count b"
    using map_buf_total [OF assms(1)] by blast
  define d where "d = c\<lparr>completed := completed c + of_nat k\<rparr>"
  have dd: "buf_iov d = buf_iov c" "completed d = completed c + of_nat k" by (simp_all add: d_def)
  have out: "qemu_iovec_to_buf (buf_iov c) (unat (completed c)) (dma_as s) n = map (dma_as s) (take n (pend b))"
    by (simp add: qemu_iovec_to_buf_def iov_to_buf_slice c pend_def)
  have ss: "s\<lparr>dma_as := dma_as s\<rparr> = s" and k: "k \<le> length (pend b)" and i': "i < length (eps s)"
    using wf i by (simp_all add: k_def sio_wf_def)
  obtain v where v: "(if iov_size (buf_iov d) \<le> unat (completed d) then apple_sio_dma_writeback bus now i d (set_first i d s)
        else Inr (set_first i d s)) = Inr v" "moved i k s (dma_as s) v"
    using sio_advance [OF wf i b c(2-6) k, of bus now "dma_as s", unfolded ss, folded d_def] b by (auto simp: moved_def)
  have "sio_read_loop bus now i n s =
      rbind (sio_read_loop bus now i (n - k) v) (\<lambda>(outs, t). Inr (map (dma_as s) (take n (pend b)) @ outs, t))"
    using n i' b c(1) v(1) [unfolded dd]
    by (subst sio_read_loop.simps) (simp add: Let_def out min.commute k_def [symmetric] d_def [symmetric] split: if_splits)
  then show ?thesis using v(2) by blast
qed

lemma sio_read_loop_stream:
  assumes "maps_all bus" "sio_wf s" "i < SIO_NUM_EPS" "ep_slots s i \<inter> set (ep_pend (eps s ! i)) = {}"
  shows "\<exists>t. sio_read_loop bus now i n s = Inr (map (dma_as s) (take n (ep_pend (eps s ! i))), t) \<and> sio_wf t \<and>
    sio_frame i s t \<and> ep_pend (eps t ! i) = drop n (ep_pend (eps s ! i)) \<and>
    (\<forall>a. a \<notin> ep_slots s i \<longrightarrow> dma_as t a = dma_as s a) \<and>
    told s (map (complete_msg i) (sio_finished n (buffers (eps s ! i)))) t"
  using assms(2,4)
proof (induction "buffers (eps s ! i)" arbitrary: s n)
  case Nil
  then show ?case using read_stop [OF Nil.prems(1) assms(3), of n bus now]
    by (simp add: ep_pend_def sio_frame_def told_def)
next
  case (Cons b bs)
  have b: "buffers (eps s ! i) = b # bs" using Cons.hyps(2) by simp
  then have P: "ep_pend (eps s ! i) = pend b @ concat (map pend bs)" by (simp add: ep_pend_def)
  consider "n = 0" | "0 < n" "length (pend b) \<le> n" | "n < length (pend b)" "n \<noteq> 0" by linarith
  then show ?case
  proof cases
    case 1
    then show ?thesis using read_stop [OF Cons.prems(1) assms(3), of n bus now] Cons.prems(1)
      by (simp add: sio_frame_def told_def)
  next
    case 2
    let ?n = "n - length (pend b)"
    obtain v where v: "sio_wf v" "sio_frame i s v" "\<forall>a. a \<notin> ep_slots s i \<longrightarrow> dma_as v a = dma_as s a" "buffers (eps v ! i) = bs"
        "told s [complete_msg i b] v"
        "sio_read_loop bus now i n s = rbind (sio_read_loop bus now i ?n v) (\<lambda>(outs, t). Inr (map (dma_as s) (pend b) @ outs, t))"
      using sio_read_step [OF assms(1) Cons.prems(1) assms(3) b, of n now] 2 b by (auto simp: moved_def)
    have Pv: "ep_pend (eps v ! i) = concat (map pend bs)" using v(4) by (simp add: ep_pend_def)
    have clear: "ep_slots v i \<inter> set (ep_pend (eps v ! i)) = {}" using v(2) Cons.prems(2) Pv P by (auto simp: sio_frame_def)
    obtain t where t: "sio_read_loop bus now i ?n v = Inr (map (dma_as v) (take ?n (ep_pend (eps v ! i))), t)" "sio_wf t"
        "sio_frame i v t" "ep_pend (eps t ! i) = drop ?n (ep_pend (eps v ! i))" "\<forall>a. a \<notin> ep_slots v i \<longrightarrow> dma_as t a = dma_as v a"
        "told v (map (complete_msg i) (sio_finished ?n (buffers (eps v ! i)))) t"
      using Cons.hyps(1) [OF v(4) [symmetric] v(1) clear, of ?n] by blast
    have "map (dma_as v) (take ?n (ep_pend (eps v ! i))) = map (dma_as s) (take ?n (ep_pend (eps v ! i)))"
      using v(3) Cons.prems(2) Pv P by (intro map_cong) (auto dest!: in_set_takeD)
    then have "sio_read_loop bus now i n s = Inr (map (dma_as s) (take n (ep_pend (eps s ! i))), t)"
      using v(6) t(1) 2 P Pv by simp
    moreover have "told s (map (complete_msg i) (sio_finished n (buffers (eps s ! i)))) t"
      using told_trans [OF v(5) t(6)] v(2,4) b 2 by (simp add: sio_frame_def)
    moreover have "dma_as t a = dma_as s a" if "a \<notin> ep_slots s i" for a
      using that t(5) v(2,3) by (auto simp: sio_frame_def)
    ultimately show ?thesis using t(2,4) sio_frame_trans [OF v(2) t(3)] P Pv 2 by auto
  next
    case 3
    obtain v where v: "sio_wf v" "sio_frame i s v" "\<forall>a. a \<notin> ep_slots s i \<longrightarrow> dma_as v a = dma_as s a"
        "ep_pend (eps v ! i) = drop n (ep_pend (eps s ! i))" "told s [] v"
        "sio_read_loop bus now i n s = rbind (sio_read_loop bus now i 0 v) (\<lambda>(outs, t). Inr (map (dma_as s) (take n (pend b)) @ outs, t))"
      using sio_read_step [OF assms(1) Cons.prems(1) assms(3) b, of n now] 3 b by (auto simp: moved_def)
    then show ?thesis using read_stop [OF v(1) assms(3), of 0 bus now] P b 3 by auto
  qed
qed

lemma write_stop:
  "sio_wf s \<Longrightarrow> i < SIO_NUM_EPS \<Longrightarrow> xs = [] \<or> buffers (eps s ! i) = [] \<Longrightarrow> sio_write_loop bus now i xs s = Inr (0, s)"
  by (subst sio_write_loop.simps) (auto simp: sio_wf_def)

lemma sio_write_step:
  assumes "maps_all bus" and wf: "sio_wf s" and i: "i < SIO_NUM_EPS" and b: "buffers (eps s ! i) = b # bs" and n: "xs \<noteq> []"
  defines "k \<equiv> min (length xs) (length (pend b))"
  shows "\<exists>v. moved i k s (mem_put (pend b) xs (dma_as s)) v \<and> sio_write_loop bus now i xs s =
    rbind (sio_write_loop bus now i (drop k xs) v) (\<lambda>(m, t). Inr (k + m, t))"
proof -
  let ?mem = "mem_put (pend b) xs (dma_as s)"
  have "buf_ok b" using wf_bufs [OF wf i] b by simp
  then obtain c where c: "apple_sio_dma_map_buf bus b = (True, c)" "iov_addrs (buf_iov c) = buf_addrs b" "sgl c = sgl b"
      "completed c = completed b" "buf_tag c = buf_tag b" "segment_count c = segment_count b"
    using map_buf_total [OF assms(1)] by blast
  define d where "d = c\<lparr>completed := completed c + of_nat k\<rparr>"
  have dd: "buf_iov d = buf_iov c" "completed d = completed c + of_nat k" by (simp_all add: d_def)
  have "length (pend b) = iov_size (buf_iov c) - unat (completed c)"
    using length_iov_addrs [of "buf_iov c"] c by (simp add: pend_def)
  then have w: "qemu_iovec_from_buf (buf_iov c) (unat (completed c)) xs (dma_as s) = (k, ?mem)"
    by (simp add: qemu_iovec_from_buf_def iov_from_buf_slice k_def pend_def c)
  have k: "k \<le> length (pend b)" and i': "i < length (eps s)" using wf i by (simp_all add: k_def sio_wf_def)
  obtain v where v: "(if iov_size (buf_iov d) \<le> unat (completed d) then apple_sio_dma_writeback bus now i d (set_first i d (s\<lparr>dma_as := ?mem\<rparr>))
        else Inr (set_first i d (s\<lparr>dma_as := ?mem\<rparr>))) = Inr v" "moved i k s ?mem v"
    using sio_advance [OF wf i b c(2-6) k, of bus now ?mem, folded d_def] b by (auto simp: moved_def)
  have "sio_write_loop bus now i xs s = rbind (sio_write_loop bus now i (drop k xs) v) (\<lambda>(m, t). Inr (k + m, t))"
    using n i' b c(1) v(1) [unfolded dd]
    by (subst sio_write_loop.simps) (simp add: Let_def w d_def [symmetric] split: if_splits)
  then show ?thesis using v(2) by blast
qed

lemma sio_write_loop_stream:
  assumes "maps_all bus" "sio_wf s" "i < SIO_NUM_EPS"
  shows "\<exists>t. sio_write_loop bus now i xs s = Inr (min (length xs) (length (ep_pend (eps s ! i))), t) \<and> sio_wf t \<and>
    sio_frame i s t \<and> ep_pend (eps t ! i) = drop (length xs) (ep_pend (eps s ! i)) \<and>
    (\<forall>a. a \<notin> ep_slots s i \<longrightarrow> dma_as t a = mem_put (ep_pend (eps s ! i)) xs (dma_as s) a) \<and>
    told s (map (complete_msg i) (sio_finished (length xs) (buffers (eps s ! i)))) t"
  using assms(2)
proof (induction "buffers (eps s ! i)" arbitrary: s xs)
  case Nil
  then show ?case using write_stop [OF Nil.prems assms(3), of xs bus now]
    by (simp add: ep_pend_def sio_frame_def told_def)
next
  case (Cons b bs)
  have b: "buffers (eps s ! i) = b # bs" using Cons.hyps(2) by simp
  then have P: "ep_pend (eps s ! i) = pend b @ concat (map pend bs)" by (simp add: ep_pend_def)
  consider "xs = []" | "xs \<noteq> []" "length (pend b) \<le> length xs" | "length xs < length (pend b)" "xs \<noteq> []" by fastforce
  then show ?case
  proof cases
    case 1
    then show ?thesis using write_stop [OF Cons.prems assms(3), of xs bus now] Cons.prems
      by (simp add: sio_frame_def told_def)
  next
    case 2
    let ?xs = "drop (length (pend b)) xs"
    obtain v where v: "sio_wf v" "sio_frame i s v" "\<forall>a. a \<notin> ep_slots s i \<longrightarrow> dma_as v a = mem_put (pend b) xs (dma_as s) a"
        "buffers (eps v ! i) = bs" "told s [complete_msg i b] v"
        "sio_write_loop bus now i xs s = rbind (sio_write_loop bus now i ?xs v) (\<lambda>(m, t). Inr (length (pend b) + m, t))"
      using sio_write_step [OF assms(1) Cons.prems assms(3) b 2(1), of now] 2 b by (auto simp: moved_def)
    have Pv: "ep_pend (eps v ! i) = concat (map pend bs)" using v(4) by (simp add: ep_pend_def)
    obtain t where t: "sio_write_loop bus now i ?xs v = Inr (min (length ?xs) (length (ep_pend (eps v ! i))), t)" "sio_wf t"
        "sio_frame i v t" "ep_pend (eps t ! i) = drop (length ?xs) (ep_pend (eps v ! i))"
        "\<forall>a. a \<notin> ep_slots v i \<longrightarrow> dma_as t a = mem_put (ep_pend (eps v ! i)) ?xs (dma_as v) a"
        "told v (map (complete_msg i) (sio_finished (length ?xs) (buffers (eps v ! i)))) t"
      using Cons.hyps(1) [OF v(4) [symmetric] v(1), of ?xs] by blast
    have "dma_as t a = mem_put (ep_pend (eps s ! i)) xs (dma_as s) a" if "a \<notin> ep_slots s i" for a
    proof -
      have "a \<notin> ep_slots v i" using that v(2) by (auto simp: sio_frame_def)
      then have "dma_as t a = mem_put (concat (map pend bs)) ?xs (dma_as v) a" using t(5) Pv by simp
      also have "\<dots> = mem_put (concat (map pend bs)) ?xs (mem_put (pend b) xs (dma_as s)) a"
        using v(3) that by (intro mem_put_cong) simp
      finally show ?thesis using mem_put_split [OF 2(2), of "concat (map pend bs)" "dma_as s"] by (simp add: P)
    qed
    moreover have "told s (map (complete_msg i) (sio_finished (length xs) (buffers (eps s ! i)))) t"
      using told_trans [OF v(5) t(6)] v(2,4) b 2 by (simp add: sio_frame_def)
    moreover have "sio_write_loop bus now i xs s = Inr (min (length xs) (length (ep_pend (eps s ! i))), t)"
    proof -
      have "length (pend b) + min (length xs - length (pend b)) N = min (length xs) (length (pend b) + N)" for N
        using 2(2) by linarith
      then show ?thesis using v(6) t(1) P Pv by simp
    qed
    moreover have "ep_pend (eps t ! i) = drop (length xs) (ep_pend (eps s ! i))" using t(4) P Pv 2 by simp
    ultimately show ?thesis using t(2) sio_frame_trans [OF v(2) t(3)] by blast
  next
    case 3
    obtain v where v: "sio_wf v" "sio_frame i s v" "\<forall>a. a \<notin> ep_slots s i \<longrightarrow> dma_as v a = mem_put (pend b) xs (dma_as s) a"
        "ep_pend (eps v ! i) = drop (length xs) (ep_pend (eps s ! i))" "told s [] v"
        "sio_write_loop bus now i xs s = rbind (sio_write_loop bus now i [] v) (\<lambda>(m, t). Inr (length xs + m, t))"
      using sio_write_step [OF assms(1) Cons.prems assms(3) b 3(2), of now] 3 b by (auto simp: moved_def)
    have "mem_put (pend b @ concat (map pend bs)) xs (dma_as s) = mem_put (pend b) xs (dma_as s)"
      using mem_put_short [of "pend b @ concat (map pend bs)" xs "dma_as s"] mem_put_short [of "pend b" xs "dma_as s"] 3 by simp
    then have "\<forall>a. a \<notin> ep_slots s i \<longrightarrow> dma_as v a = mem_put (ep_pend (eps s ! i)) xs (dma_as s) a" using v(3) P by simp
    moreover have "sio_write_loop bus now i xs s = Inr (min (length xs) (length (ep_pend (eps s ! i))), v)"
      using v(6) write_stop [OF v(1) assms(3), of "[]" bus now] P 3 by simp
    moreover have "told s (map (complete_msg i) (sio_finished (length xs) (buffers (eps s ! i)))) v" using v(5) b 3 by simp
    ultimately show ?thesis using v(1,2,4) by blast
  qed
qed

lemma realize_wf: "0 < gtimer_freq s \<Longrightarrow> sio_wf (apple_sio_realize mem s)"
  by (simp add: sio_wf_def apple_sio_realize_def del: upt_rec_numeral)

text \<open>A controller with one buffer of two segments queued, of which one byte was moved.\<close>

definition sio_demo_bus :: dma_bus where
  "sio_demo_bus = \<lparr>bus_ok = (\<lambda>_ _. True), bus_map = (\<lambda>_ n. n)\<rparr>"

definition sio_demo0 :: "memory \<Rightarrow> AppleSIOState" where
  "sio_demo0 mem = apple_sio_realize mem
     \<lparr>iop_role = ''SIO'', mbox = (\<lambda>_. (apple_a7iop_mailbox_new ''SIO'' False)\<lparr>ap_dir_en := True\<rparr>), cpu_status = 0, cpu_ctrl = 0,
      ep0_status = 0, protocol_version = 0, endpoints = Map.empty, rollcall = [], dma_as = mem, eps = [],
      sio_protocol_version = 9, segment_size = 0, segment_base = 0x1000, resp_base = 0x8000, gtimer_freq = 24000000\<rparr>"

definition sio_demo_buf :: SIODMABuffer where
  "sio_demo_buf = \<lparr>segments = [], sgl = \<lparr>sg = [\<lparr>sg_base = 0x2000, sg_len = 3\<rparr>, \<lparr>sg_base = 0x3000, sg_len = 2\<rparr>], sg_size = 5\<rparr>,
     buf_iov = [], buf_tag = 1, mapped = False, segment_count = 2, completed = 1, start_timestamp = 0\<rparr>"

definition sio_demo :: "nat \<Rightarrow> AppleSIOState" where
  "sio_demo i = upd_ep i (\<lambda>e. e\<lparr>buffers := [sio_demo_buf]\<rparr>) (sio_demo0 ucast)"

lemma maps_all_demo: "maps_all sio_demo_bus"
  by (simp add: maps_all_def sio_demo_bus_def)

lemma sio_demo_buf: "buf_ok sio_demo_buf" "pend sio_demo_buf = [0x2001, 0x2002, 0x3000, 0x3001]"
  by code_simp+

lemma sio_demo0: "sio_wf (sio_demo0 mem)" "resp_base (sio_demo0 mem) = 0x8000" "dma_as (sio_demo0 mem) = mem"
    "segment_base (sio_demo0 mem) = 0x1000" "ap_dir_en (mbox (sio_demo0 mem) IOP)"
    "i < SIO_NUM_EPS \<Longrightarrow> buffers (eps (sio_demo0 mem) ! i) = []"
  unfolding sio_demo0_def by (rule realize_wf, simp) (simp_all add: apple_sio_realize_def del: upt_rec_numeral)

lemma sio_demo:
  assumes "i < SIO_NUM_EPS"
  shows "sio_wf (sio_demo i)" "buffers (eps (sio_demo i) ! i) = [sio_demo_buf]" "ep_pend (eps (sio_demo i) ! i) = [0x2001, 0x2002, 0x3000, 0x3001]"
    "resp_base (sio_demo i) = 0x8000" "dma_as (sio_demo i) = ucast"
proof -
  show "sio_wf (sio_demo i)" unfolding sio_demo_def
    using wf_upd_ep [OF sio_demo0(1) _ assms, of "[sio_demo_buf]"] by (simp add: sio_demo_buf(1))
  have "i < length (eps (sio_demo0 ucast))" using assms sio_demo0(1) [of ucast] by (simp add: sio_wf_def)
  then show b: "buffers (eps (sio_demo i) ! i) = [sio_demo_buf]" by (simp add: sio_demo_def)
  show "ep_pend (eps (sio_demo i) ! i) = [0x2001, 0x2002, 0x3000, 0x3001]" unfolding ep_pend_def b by (simp add: sio_demo_buf(2))
qed (simp_all add: sio_demo_def sio_demo0)

lemma sio_demo_slots: "ep_slots (sio_demo 4) 4 \<inter> set (ep_pend (eps (sio_demo 4) ! 4)) = {}"
    "ep_slots (sio_demo 5) 5 \<inter> set (ep_pend (eps (sio_demo 5) ! 5)) = {}"
proof -
  have "list_all (\<lambda>a. a \<notin> set (span 0x8800 16) \<and> a \<notin> set (span 0x8A00 16)) [0x2001, 0x2002, 0x3000, 0x3001]" by code_simp
  then show "ep_slots (sio_demo 4) 4 \<inter> set (ep_pend (eps (sio_demo 4) ! 4)) = {}"
      "ep_slots (sio_demo 5) 5 \<inter> set (ep_pend (eps (sio_demo 5) ! 5)) = {}"
    by (simp_all add: ep_slots_def sio_demo resp_slot_def sio_demo_buf_def sio_resp_off_def)
qed

text \<open>
  Property C13 (refinement). On a bus that can map every range, and with the response slots apart from
  the data, a read on an endpoint that feeds a device returns the next bytes of the queued segments, in
  the order they were queued and each once, as many as are asked for or left. It leaves the rest of the
  queue, the other endpoints and all memory but the response slots as they were, and tells the
  application processor of exactly the buffers it completed, in order.
\<close>

theorem sio_dma_read_stream:
  assumes "maps_all bus" "sio_wf s" "i < SIO_NUM_EPS" "\<not> bit i 0" "ep_slots s i \<inter> set (ep_pend (eps s ! i)) = {}"
  shows "\<exists>t. apple_sio_dma_read bus now i n s = Inr (map (dma_as s) (take n (ep_pend (eps s ! i))), t) \<and> sio_wf t \<and>
    ep_pend (eps t ! i) = drop n (ep_pend (eps s ! i)) \<and> (\<forall>j. j \<noteq> i \<longrightarrow> eps t ! j = eps s ! j) \<and>
    (\<forall>a. a \<notin> ep_slots s i \<longrightarrow> dma_as t a = dma_as s a) \<and>
    (ap_dir_en (mbox s IOP) \<longrightarrow>
      inbox (mbox t AP) = inbox (mbox s AP) @ map (complete_msg i) (sio_finished n (buffers (eps s ! i))))"
proof -
  have "direction (eps s ! i) = DMA_DIRECTION_TO_DEVICE" using assms(2-4) by (simp add: sio_wf_def)
  then have r: "apple_sio_dma_read bus now i n s = (if n = 0 then Inr ([], s) else sio_read_loop bus now i n s)"
    by (simp add: apple_sio_dma_read_def)
  show ?thesis
    using sio_read_loop_stream [OF assms(1-3,5), of now n] assms(2) unfolding r
    by (cases "n = 0") (auto simp: sio_frame_def told_def)
qed

theorem sio_dma_read_stream_witness:
  "\<exists>t. apple_sio_dma_read sio_demo_bus 0 4 3 (sio_demo 4) = Inr ([1, 2, 0], t) \<and> ep_pend (eps t ! 4) = [0x3001]"
  using sio_dma_read_stream [OF maps_all_demo sio_demo(1) _ _ sio_demo_slots(1), of 0 3] by (auto simp: sio_demo)

text \<open>
  Property C14 (refinement). On a bus that can map every range, a write on an endpoint that drains a
  device stores the bytes at the next addresses of the queued segments, in order, as many as fit, and
  changes no other memory but the response slots; it tells the application processor of exactly the
  buffers it filled.
\<close>

theorem sio_dma_write_stream:
  assumes "maps_all bus" "sio_wf s" "i < SIO_NUM_EPS" "bit i 0" "distinct (ep_pend (eps s ! i))"
    and "ep_slots s i \<inter> set (ep_pend (eps s ! i)) = {}"
  shows "\<exists>t. apple_sio_dma_write bus now i xs s = Inr (min (length xs) (length (ep_pend (eps s ! i))), t) \<and> sio_wf t \<and>
    ep_pend (eps t ! i) = drop (length xs) (ep_pend (eps s ! i)) \<and> (\<forall>j. j \<noteq> i \<longrightarrow> eps t ! j = eps s ! j) \<and>
    map (dma_as t) (take (length xs) (ep_pend (eps s ! i))) = take (length (ep_pend (eps s ! i))) xs \<and>
    (\<forall>a. a \<notin> ep_slots s i \<union> set (ep_pend (eps s ! i)) \<longrightarrow> dma_as t a = dma_as s a) \<and>
    (ap_dir_en (mbox s IOP) \<longrightarrow>
      inbox (mbox t AP) = inbox (mbox s AP) @ map (complete_msg i) (sio_finished (length xs) (buffers (eps s ! i))))"
proof -
  let ?P = "ep_pend (eps s ! i)"
  have "direction (eps s ! i) = DMA_DIRECTION_FROM_DEVICE" using assms(2-4) by (simp add: sio_wf_def)
  then have r: "apple_sio_dma_write bus now i xs s = (if xs = [] then Inr (0, s) else sio_write_loop bus now i xs s)"
    by (simp add: apple_sio_dma_write_def)
  have m: "mem_put ?P xs (dma_as s) (?P ! k) = xs ! k" if "k < length ?P" "k < length xs" for k
    using assms(5) that by (rule mem_put_nth)
  obtain t where t: "sio_write_loop bus now i xs s = Inr (min (length xs) (length ?P), t)" "sio_wf t" "sio_frame i s t"
      "ep_pend (eps t ! i) = drop (length xs) ?P" "\<forall>a. a \<notin> ep_slots s i \<longrightarrow> dma_as t a = mem_put ?P xs (dma_as s) a"
      "told s (map (complete_msg i) (sio_finished (length xs) (buffers (eps s ! i)))) t"
    using sio_write_loop_stream [OF assms(1-3), of now xs] by blast
  have "dma_as t (?P ! k) = xs ! k" if "k < length ?P" "k < length xs" for k
    using t(5) m [OF that] that assms(6) by (metis disjoint_iff nth_mem)
  then have "map (dma_as t) (take (length xs) ?P) = take (length ?P) xs" by (intro nth_equalityI) simp_all
  moreover have "dma_as t a = dma_as s a" if "a \<notin> ep_slots s i \<union> set ?P" for a
    using that t(5) by (simp add: mem_put_other)
  ultimately show ?thesis using t assms(2) unfolding r
    by (cases "xs = []") (auto simp: sio_frame_def told_def)
qed

theorem sio_dma_write_stream_witness:
  "\<exists>t. apple_sio_dma_write sio_demo_bus 0 5 [7, 8, 9] (sio_demo 5) = Inr (3, t) \<and>
     map (dma_as t) [0x2001, 0x2002, 0x3000] = [7, 8, 9] \<and> ep_pend (eps t ! 5) = [0x3001]"
  using sio_dma_write_stream [OF maps_all_demo sio_demo(1) _ _ _ sio_demo_slots(2), of 0 "[7, 8, 9]"]
  by (auto simp: sio_demo bit_numeral_rec)

subsection \<open>Commands keep the controller well-formed\<close>

lemma sio_raw_of_raw [simp]: "sio_raw (sio_of_raw r) = r"
proof -
  let ?bs = "to_le 8 r"
  have "[?bs ! 0, ?bs ! 1, ?bs ! 2, ?bs ! 3] = take 4 ?bs" by (rule nth_equalityI) (auto simp: less_Suc_eq numeral_eq_Suc)
  moreover have "to_le 4 (of_le (drop 4 ?bs) :: u32) = drop 4 ?bs" by (rule to_le_of_le) simp_all
  ultimately show ?thesis by (simp add: sio_raw_def sio_of_raw_def Let_def)
qed

lemma sio_of_raw_raw [simp]: "sio_of_raw (sio_raw m) = m"
proof -
  have "to_le 8 (of_le ([m_ep m, m_tag m, m_op m, m_param m] @ to_le 4 (m_data m)) :: u64) =
      [m_ep m, m_tag m, m_op m, m_param m] @ to_le 4 (m_data m)"
    by (rule to_le_of_le) simp_all
  then show ?thesis by (simp add: sio_of_raw_def sio_raw_def Let_def)
qed

lemma build_sgl:
  "sg (fold (\<lambda>e. qemu_sglist_add (seg_addr e) (ucast (seg_len e))) segs q) =
     sg q @ map (\<lambda>e. \<lparr>sg_base = seg_addr e, sg_len = ucast (seg_len e)\<rparr>) segs"
  "sg_size (fold (\<lambda>e. qemu_sglist_add (seg_addr e) (ucast (seg_len e))) segs q) =
     sg_size q + of_nat (sum_list (map (\<lambda>e. unat (seg_len e)) segs))"
proof (induction segs arbitrary: q)
  case (Cons e segs)
  case 2
  have "(ucast (seg_len e) :: u64) = of_nat (unat (seg_len e))" by (simp add: unsigned_of_nat)
  then show ?case using Cons(2) by (simp add: qemu_sglist_add_def add.assoc)
qed (simp_all add: qemu_sglist_add_def)

lemma unat_u32_le: "unat (w :: u32) \<le> 2 ^ 32 - 1"
proof -
  have "unat w < 2 ^ LENGTH(32)" by (rule unsigned_less)
  then show ?thesis by simp
qed

lemma sum_seg_len: "length segs \<le> n \<Longrightarrow> sum_list (map (\<lambda>e. unat (seg_len e)) segs) \<le> n * (2 ^ 32 - 1)"
proof (induction segs arbitrary: n)
  case (Cons e segs)
  show ?case using unat_u32_le [of "seg_len e"] Cons.IH [of "n - 1"] Cons.prems by (cases n) simp_all
qed simp

lemma new_buffer_ok: "buf_ok (sio_new_buffer t cnt bs ts)"
proof -
  define segs where "segs = map (\<lambda>k. sio_segment_of (bslice (12 * k) 12 bs)) [0..<unat cnt]"
  let ?n = "sum_list (map (\<lambda>e. unat (seg_len e)) segs)"
  have "?n \<le> unat cnt * (2 ^ 32 - 1)" by (rule sum_seg_len) (simp add: segs_def)
  also have "\<dots> \<le> (2 ^ 32 - 1) * (2 ^ 32 - 1)" using unat_u32_le [of cnt] by (intro mult_right_mono) simp_all
  finally have "unat (of_nat ?n :: u64) = ?n" by (simp add: unat_of_nat)
  then have sz: "unat (sg_size (sio_build_sgl segs)) = ?n"
    by (simp add: sio_build_sgl_def build_sgl qemu_sglist_init_def)
  have "unat (ucast (seg_len e) :: u64) = unat (seg_len e)" for e :: SIODMASegment
    using unat_u32_le [of "seg_len e"] by (simp add: unsigned_ucast_eq take_bit_nat_eq_self)
  then have l: "map (\<lambda>e. unat (sg_len e)) (sg (sio_build_sgl segs)) = map (\<lambda>e. unat (seg_len e)) segs"
    by (simp add: sio_build_sgl_def build_sgl qemu_sglist_init_def)
  define b where "b = sio_new_buffer t cnt bs ts"
  have b: "sgl b = sio_build_sgl segs" "completed b = 0" "\<not> mapped b" "segment_count b = cnt"
    by (simp_all add: b_def sio_new_buffer_def Let_def segs_def)
  have "length (sg (sgl b)) = length segs" using arg_cong [OF l, of length] b(1) by simp
  moreover have "length (buf_addrs b) = ?n" using l b(1) by (simp add: buf_addrs_def length_concat o_def)
  ultimately have "buf_ok b" using b sz by (simp add: buf_ok_def segs_def)
  then show ?thesis by (simp add: b_def)
qed

lemma wf_send [simp]: "sio_wf (apple_rtkit_send_msg e d s) = sio_wf s"
  by (simp add: sio_wf_def)

lemma del_buffers: "apple_sio_dma_del_buffers e = e\<lparr>buffers := []\<rparr>"
proof -
  have "(apple_sio_dma_destroy_buffer 0 ^^ length bs) (e\<lparr>buffers := bs\<rparr>) = e\<lparr>buffers := []\<rparr>" for bs
  proof (induction bs)
    case (Cons b bs)
    have "apple_sio_dma_destroy_buffer 0 (e\<lparr>buffers := b # bs\<rparr>) = e\<lparr>buffers := bs\<rparr>" by (simp add: apple_sio_dma_destroy_buffer_def)
    then show ?case using Cons by (simp add: funpow_Suc_right del: funpow.simps)
  qed simp
  from this [of "buffers e"] show ?thesis by (simp add: apple_sio_dma_del_buffers_def)
qed

lemma wf_upd_config: "sio_wf s \<Longrightarrow> i < SIO_NUM_EPS \<Longrightarrow> sio_wf (upd_ep i (\<lambda>e. e\<lparr>config := c\<rparr>) s)"
  by (auto simp: sio_wf_def nth_list_update)

lemma wf_control: "sio_wf s \<Longrightarrow> \<exists>t. apple_sio_control m s = Inr t \<and> sio_wf t"
  by (auto simp: apple_sio_control_def apple_sio_control_set_param_def send_user_msg_0 Let_def sio_wf_def)

lemma cur_ts: "sio_wf s \<Longrightarrow> \<exists>ts. apple_sio_get_cur_ts now s = Inr ts"
  by (simp add: apple_sio_get_cur_ts_def sio_wf_def word_gt_0)

lemma wf_dma_map:
  assumes wf: "sio_wf s" and i: "i < SIO_NUM_EPS" and "m_param m = 0"
  shows "\<exists>op t. sio_dma_map bus now i m s = Inr (op, t) \<and> sio_wf t"
proof -
  obtain ts where ts: "apple_sio_get_cur_ts now s = Inr ts" using cur_ts [OF wf] by blast
  have "sio_wf (upd_ep i (\<lambda>e. e\<lparr>buffers := buffers e @ [b]\<rparr>) s)" if "buf_ok b" for b
    using wf_upd_ep [OF wf _ i, of "buffers (eps s ! i) @ [b]"] wf_bufs [OF wf i] that by (simp add: upd_ep_def)
  then show ?thesis using wf assms(3) ts new_buffer_ok by (auto simp: sio_dma_map_def Let_def split: option.split)
qed

lemma wf_dma:
  assumes wf: "sio_wf s" and i: "i < SIO_NUM_EPS" and p: "m_op m = OP_MAP \<longrightarrow> m_param m = 0"
  shows "\<exists>t. apple_sio_dma bus now i m s = Inr t \<and> sio_wf t"
proof -
  have stop: "sio_wf (upd_ep i apple_sio_dma_del_buffers s)" if "sio_wf s" for s
    using wf_upd_ep [OF that, of "[]" i] i by (simp add: upd_ep_def del_buffers)
  obtain op t where "m_op m = OP_MAP \<Longrightarrow> sio_dma_map bus now i m s = Inr (op, t) \<and> sio_wf t"
    using wf_dma_map [OF wf i, of m bus now] p by (cases "m_op m = OP_MAP") auto
  then show ?thesis using wf stop wf_upd_config [OF wf i]
    by (auto simp: apple_sio_dma_def Let_def send_user_msg_0 apple_sio_dma_stop_def split: option.split)
qed

text \<open>
  Property C18 (safety). Whatever message the guest sends to the controller, handling it keeps the
  controller well-formed, except for a map command with a parameter other than 0, which fails an
  assertion: the only message that stops the emulator. (Allocating memory is taken to succeed.)
\<close>

theorem sio_messages_safe:
  fixes msg :: u64
  assumes "sio_wf s"
  defines "m \<equiv> sio_of_raw msg"
  shows "if m_ep m \<notin> {EP_CONTROL, EP_PERF} \<and> unat (m_ep m) < SIO_NUM_EPS \<and> m_op m = OP_MAP \<and> m_param m \<noteq> 0
    then apple_sio_handle_endpoint bus now ep msg s = Inl AssertFailed
    else \<exists>t. apple_sio_handle_endpoint bus now ep msg s = Inr t \<and> sio_wf t"
proof (cases "m_ep m \<in> {EP_CONTROL, EP_PERF} \<or> SIO_NUM_EPS \<le> unat (m_ep m)")
  case True
  then show ?thesis using wf_control [OF assms(1), of m] assms(1)
    by (auto simp: apple_sio_handle_endpoint_def m_def [symmetric])
next
  case False
  then have "apple_sio_handle_endpoint bus now ep msg s = apple_sio_dma bus now (unat (m_ep m)) m s"
    by (simp add: apple_sio_handle_endpoint_def m_def [symmetric])
  moreover have "apple_sio_dma bus now (unat (m_ep m)) m s = Inl AssertFailed" if "m_op m = OP_MAP" "m_param m \<noteq> 0"
    using that by (simp add: apple_sio_dma_def Let_def sio_dma_map_def)
  moreover have "\<exists>t. apple_sio_dma bus now (unat (m_ep m)) m s = Inr t \<and> sio_wf t" if "\<not> (m_op m = OP_MAP \<and> m_param m \<noteq> 0)"
    using that False by (intro wf_dma [OF assms(1)]) auto
  ultimately show ?thesis using False by auto
qed

lemma reset_wf: "sio_wf s \<Longrightarrow> sio_wf (apple_sio_reset_hold s)"
  by (simp add: sio_wf_def apple_sio_reset_hold_def apple_rtkit_reset_hold_def apple_a7iop_reset_def del_buffers Let_def)

text \<open>The addresses of the segments described in memory from \<open>a\<close> on.\<close>

definition seg_table :: "memory \<Rightarrow> u64 \<Rightarrow> nat \<Rightarrow> u64 list" where
  "seg_table mem a n = concat (map (\<lambda>k. span (of_le (mem_read mem (a + of_nat (12 * k)) 8))
     (unat (of_le (mem_read mem (a + of_nat (12 * k) + 8) 4) :: u32))) [0..<n])"

lemma bslice_mem_read: "off + n \<le> len \<Longrightarrow> bslice off n (mem_read mem a len) = mem_read mem (a + of_nat off) n"
  by (simp add: mem_read_span bslice_def take_map drop_map span_drop span_take min.absorb1 le_diff_conv2)

lemma new_buffer_addrs:
  "buf_addrs (sio_new_buffer t cnt (mem_read mem a (unat cnt * 12)) ts) = seg_table mem a (unat cnt)"
proof -
  have b: "bslice (12 * k) 12 (mem_read mem a (unat cnt * 12)) = mem_read mem (a + of_nat (12 * k)) 12" if "k < unat cnt" for k
    using that by (intro bslice_mem_read) simp
  have "bslice 0 8 (mem_read mem c 12) = mem_read mem c 8" "bslice 8 4 (mem_read mem c 12) = mem_read mem (c + 8) 4" for c
    using bslice_mem_read [of 0 8 12 mem c] bslice_mem_read [of 8 4 12 mem c] by simp_all
  moreover have "unat (ucast (w :: u32) :: u64) = unat w" for w
    using unat_u32_le [of w] by (simp add: unsigned_ucast_eq take_bit_nat_eq_self)
  ultimately show ?thesis
    unfolding buf_addrs_def seg_table_def sio_new_buffer_def Let_def sio_build_sgl_def
    by (auto simp: build_sgl qemu_sglist_init_def sio_segment_of_def b o_def intro!: arg_cong [where f = concat] map_cong)
qed

text \<open>
  Property C23 (functional). A map command on a DMA endpoint reads the number of segments and the
  segments from the descriptor in memory and appends exactly their addresses to what the endpoint still
  has to move, and acknowledges with the tag of the command; it touches no other endpoint and no memory.
\<close>

theorem sio_map_queues:
  fixes d :: u32
  assumes wf: "sio_wf s" and i: "i < SIO_NUM_EPS" "i \<notin> {0, 3}" and dir: "ap_dir_en (mbox s IOP)"
  defines "a \<equiv> segment_base s + ucast (d * 0xC)"
  defines "n \<equiv> unat (of_le (mem_read (dma_as s) (a + 0x3C) 4) :: u32)"
  assumes bus: "bus_ok bus (a + 0x3C) 4" "bus_ok bus (a + 0x48) (n * 12)"
  shows "\<exists>t. apple_sio_handle_endpoint bus now ep (sio_raw \<lparr>m_ep = of_nat i, m_tag = g, m_op = OP_MAP, m_param = 0, m_data = d\<rparr>) s = Inr t \<and>
    ep_pend (eps t ! i) = ep_pend (eps s ! i) @ seg_table (dma_as s) (a + 0x48) n \<and>
    (\<forall>j. j \<noteq> i \<longrightarrow> eps t ! j = eps s ! j) \<and> dma_as t = dma_as s \<and>
    inbox (mbox t AP) = inbox (mbox s AP) @
      [apple_rtkit_construct_msg 32 (sio_raw \<lparr>m_ep = of_nat i, m_tag = g, m_op = OP_ACK, m_param = 0, m_data = 0\<rparr>)]"
proof -
  let ?m = "\<lparr>m_ep = of_nat i, m_tag = g, m_op = OP_MAP, m_param = 0, m_data = d\<rparr>"
  let ?cnt = "of_le (mem_read (dma_as s) (a + 0x3C) 4) :: u32"
  have i': "unat (of_nat i :: u8) = i" "(of_nat i :: u8) \<noteq> 0" "(of_nat i :: u8) \<noteq> 3" "i < length (eps s)"
    using i wf by (auto simp: unat_of_nat sio_wf_def word_unat_eq_iff)
  obtain ts where ts: "apple_sio_get_cur_ts now s = Inr ts" using cur_ts [OF wf] by blast
  define b where "b = sio_new_buffer g ?cnt (mem_read (dma_as s) (a + 0x48) (n * 12)) ts"
  define u where "u = upd_ep i (\<lambda>e. e\<lparr>buffers := buffers e @ [b]\<rparr>) s"
  have "sio_dma_map bus now i ?m s = Inr (OP_ACK, u)"
    using bus ts by (simp add: sio_dma_map_def dma_memory_read_def a_def [symmetric] n_def [symmetric] b_def u_def)
  then have "apple_sio_handle_endpoint bus now ep (sio_raw ?m) s =
      Inr (apple_rtkit_send_msg 32 (sio_raw \<lparr>m_ep = of_nat i, m_tag = g, m_op = OP_ACK, m_param = 0, m_data = 0\<rparr>) u)"
    using i i' by (simp add: apple_sio_handle_endpoint_def apple_sio_dma_def Let_def send_user_msg_0 sio_msg0_def)
  moreover have "pend b = seg_table (dma_as s) (a + 0x48) n"
    using new_buffer_addrs [of g ?cnt "dma_as s" "a + 0x48" ts] by (simp add: pend_def b_def n_def) (simp add: sio_new_buffer_def Let_def)
  then have "ep_pend (eps u ! i) = ep_pend (eps s ! i) @ seg_table (dma_as s) (a + 0x48) n"
    using i'(4) by (simp add: u_def ep_pend_def)
  moreover have "ap_dir_en (mbox u IOP)" "inbox (mbox u AP) = inbox (mbox s AP)" "dma_as u = dma_as s"
    "\<forall>j. j \<noteq> i \<longrightarrow> eps u ! j = eps s ! j" using dir by (simp_all add: u_def)
  ultimately show ?thesis by (simp add: apple_rtkit_send_msg_def send_ap_mbox) (simp add: apple_a7iop_send_ap_def)
qed

definition sio_demo_mem :: memory where
  "sio_demo_mem = (\<lambda>a. if a = 0x103C then 2 else if a = 0x1049 then 0x20 else if a = 0x1050 then 3
     else if a = 0x1055 then 0x30 else if a = 0x105C then 2 else 0)"

theorem sio_map_queues_witness:
  "\<exists>t. apple_sio_handle_endpoint sio_demo_bus 0 0 (sio_raw \<lparr>m_ep = of_nat 4, m_tag = 1, m_op = OP_MAP, m_param = 0, m_data = 0\<rparr>)
     (sio_demo0 sio_demo_mem) = Inr t \<and> ep_pend (eps t ! 4) = [0x2000, 0x2001, 0x2002, 0x3000, 0x3001]"
proof -
  have "of_le (mem_read sio_demo_mem 0x103C 4) = (2 :: u32)"
    by code_simp
  moreover have "seg_table sio_demo_mem 0x1048 2 = [0x2000, 0x2001, 0x2002, 0x3000, 0x3001]"
    by code_simp
  moreover have "ep_pend (eps (sio_demo0 sio_demo_mem) ! 4) = []" by (simp add: ep_pend_def sio_demo0)
  ultimately show ?thesis
    using sio_map_queues [where s = "sio_demo0 sio_demo_mem" and i = 4 and d = 0 and bus = sio_demo_bus and now = 0 and ep = 0 and g = 1]
    by (auto simp: sio_demo0 sio_demo_bus_def)
qed

theorem sio_messages_safe_witness:
  "apple_sio_handle_endpoint sio_demo_bus 0 0 (sio_raw \<lparr>m_ep = 4, m_tag = 1, m_op = OP_MAP, m_param = 1, m_data = 0\<rparr>) (sio_demo 4) =
     Inl AssertFailed"
  using sio_messages_safe [OF sio_demo(1), of 4 "sio_raw \<lparr>m_ep = 4, m_tag = 1, m_op = OP_MAP, m_param = 1, m_data = 0\<rparr>" sio_demo_bus 0 0]
  by simp

end
