(* ===== verification/Spi_Dma.thy ===== *)
theory Spi_Dma
  imports Spi Sio
begin

text \<open>
  Transfers of the SPI controller with DMA. What the controller needs of the two channels it is wired to is
  the locale \<open>dma_port\<close>: a stream of bytes to take from, and room for bytes to append. Inside it a whole
  transfer is proved once; the locale is interpreted on the endpoints of the DMA controller.
\<close>

subsection \<open>Words and bytes\<close>

primrec le_chunks :: "nat \<Rightarrow> nat \<Rightarrow> bytes \<Rightarrow> u32 list" where
  "le_chunks ws 0 bs = []"
| "le_chunks ws (Suc n) bs = of_le (take ws bs) # le_chunks ws n (drop ws bs)"

definition le_bytes :: "nat \<Rightarrow> u32 list \<Rightarrow> bytes" where
  "le_bytes ws qs = concat (map (to_le ws) qs)"

lemma length_le_chunks [simp]: "length (le_chunks ws n bs) = n"
  by (induction n arbitrary: bs) simp_all

lemma length_le_bytes [simp]: "length (le_bytes ws qs) = length qs * ws"
  by (induction qs) (simp_all add: le_bytes_def)

lemma le_bytes_append [simp]: "le_bytes ws (ps @ qs) = le_bytes ws ps @ le_bytes ws qs" "le_bytes ws [] = []"
    "le_bytes ws (q # qs) = to_le ws q @ le_bytes ws qs"
  by (simp_all add: le_bytes_def)

lemma le_chunks_add: "le_chunks ws (m + n) bs = le_chunks ws m bs @ le_chunks ws n (drop (m * ws) bs)"
  by (induction m arbitrary: bs) (simp_all add: add.commute)

lemma le_chunks_take: "n * ws \<le> m \<Longrightarrow> le_chunks ws n (take m bs) = le_chunks ws n bs"
proof (induction n arbitrary: bs m)
  case (Suc n)
  have "le_chunks ws n (drop ws (take m bs)) = le_chunks ws n (drop ws bs)"
    using Suc.IH [of "m - ws" "drop ws bs"] Suc.prems by (simp add: drop_take)
  then show ?case using Suc.prems by (simp add: min_def)
qed simp

text \<open>The loops between the FIFOs and a buffer move whole words, in order.\<close>

lemma push_loop_chunks:
  assumes "0 < ws" "i + n * ws = len" "len \<le> length buf" "fifo32_wf f" "length (fifo32_list f) + n \<le> fifo32_size f"
  shows "\<exists>g. spi_push_loop ws len buf i f = Inr g \<and> fifo32_wf g \<and> fifo32_list g = fifo32_list f @ le_chunks ws n (drop i buf) \<and>
    fifo32_size g = fifo32_size f"
  using assms(2,4,5)
proof (induction n arbitrary: i f)
  case (Suc n)
  obtain h where h: "fifo32_push (of_le (bslice i ws buf)) f = Inr h" "fifo32_wf h" "fifo32_list h = fifo32_list f @ [of_le (bslice i ws buf)]"
      "fifo32_size h = fifo32_size f"
    using f32.push_room [of f "of_le (bslice i ws buf)"] Suc.prems by auto
  obtain g where g: "spi_push_loop ws len buf (i + ws) h = Inr g" "fifo32_wf g"
      "fifo32_list g = fifo32_list h @ le_chunks ws n (drop (i + ws) buf)" "fifo32_size g = fifo32_size h"
    using Suc.IH [of "i + ws" h] Suc.prems h by auto
  have "spi_push_loop ws len buf i f = Inr g"
    using Suc.prems assms(1,3) h(1) g(1) by (subst spi_push_loop.simps) simp
  then show ?case using g h by (simp add: bslice_def add.commute)
qed (use assms in \<open>simp add: spi_push_loop.simps\<close>)

lemma pop_loop_chunks:
  assumes "0 < ws" "i + length qs * ws = len" "fifo32_wf f" "fifo32_list f = qs @ rest"
  shows "\<exists>g. spi_pop_loop ws len i f = Inr (le_bytes ws qs, g) \<and> fifo32_wf g \<and> fifo32_list g = rest \<and> fifo32_size g = fifo32_size f"
  using assms(2-)
proof (induction qs arbitrary: i f)
  case (Cons q qs)
  obtain h where h: "fifo32_pop f = Inr (q, h)" "fifo32_wf h" "fifo32_list h = qs @ rest" "fifo32_size h = fifo32_size f"
    using f32.pop_Cons [of f q "qs @ rest"] Cons.prems by auto
  obtain g where g: "spi_pop_loop ws len (i + ws) h = Inr (le_bytes ws qs, g)" "fifo32_wf g" "fifo32_list g = rest" "fifo32_size g = fifo32_size h"
    using Cons.IH [of "i + ws" h] Cons.prems h by auto
  have "spi_pop_loop ws len i f = Inr (le_bytes ws (q # qs), g)"
    using Cons.prems assms(1) h(1) g(1) by (subst spi_pop_loop.simps) simp
  then show ?case using g h by simp
qed (use assms(1) in \<open>simp add: spi_pop_loop.simps\<close>)

lemma pop_loop_overrun:
  assumes "0 < ws" "fifo32_wf f" "i < len" "\<not> ws dvd len - i" "len - i < length (fifo32_list f) * ws"
  shows "spi_pop_loop ws len i f = Inl OutOfBounds"
  using assms(2-)
proof (induction "fifo32_list f" arbitrary: i f)
  case (Cons q qs)
  obtain h where h: "fifo32_pop f = Inr (q, h)" "fifo32_wf h" "fifo32_list h = qs"
    using f32.pop_Cons [of f q qs] Cons.prems Cons.hyps(2) by auto
  show ?case
  proof (cases "len < i + ws")
    case True
    then show ?thesis using h Cons.prems assms(1) by (subst spi_pop_loop.simps) simp
  next
    case False
    have "len - i = (len - (i + ws)) + ws" using False by simp
    then have "\<not> ws dvd len - (i + ws)" using Cons.prems(3) by (metis dvd_add_left_iff dvd_refl)
    moreover then have "i + ws < len" using False by (cases "len = i + ws") auto
    moreover have "len - (i + ws) < length (fifo32_list h) * ws" using Cons.prems(4) h(3) False unfolding Cons.hyps(2) [symmetric] by simp
    ultimately show ?thesis using h Cons.hyps(1) [of h "i + ws"] False Cons.prems assms(1) by (subst spi_pop_loop.simps) simp
  qed
qed simp

subsection \<open>A controller wired to two channels\<close>

definition dma_mode :: "nat \<Rightarrow> nat \<Rightarrow> u32 \<Rightarrow> ('c, 'd) AppleSPIState \<Rightarrow> bool" where
  "dma_mode a b ws s \<longleftrightarrow> spi_wf s \<and> SPI_CFG_MODE (REG s SPI_CFG) = SPI_CFG_MODE_DMA \<and> tx_chan s = Some a \<and> rx_chan s = Some b \<and>
     apple_spi_word_size s = Inr ws"

lemma dma_mode_keep: "dma_mode a b ws s \<Longrightarrow> spi_wf t \<Longrightarrow> spi_keep s t \<Longrightarrow> dma_mode a b ws t"
  by (simp add: dma_mode_def spi_keep_def apple_spi_word_size_def)

lemma dma_mode_ws: "dma_mode a b ws s \<Longrightarrow> 0 < unat ws \<and> unat ws \<le> 4"
  using word_size_cases [of s ws] by (auto simp: dma_mode_def)

lemma spi_keep_same: "same_regs s t \<Longrightarrow> tx_chan t = tx_chan s \<Longrightarrow> rx_chan t = rx_chan s \<Longrightarrow> dma_capable t = dma_capable s \<Longrightarrow> spi_keep s t"
  by (simp add: spi_keep_def same_regs_REG)

locale dma_port =
  fixes ops :: "'c dma_ops" and a b :: nat and inp :: "'c \<Rightarrow> bytes" and room :: "'c \<Rightarrow> nat" and got :: "'c \<Rightarrow> bytes"
    and ok :: "'c \<Rightarrow> bool"
  assumes rem_tx: "ok c \<Longrightarrow> unat (ch_remaining ops a c) = length (inp c)"
    and rem_rx: "ok c \<Longrightarrow> unat (ch_remaining ops b c) = room c"
    and read_tx: "ok c \<Longrightarrow> n \<le> length (inp c) \<Longrightarrow>
      \<exists>d. ch_read ops a n c = Inr (take n (inp c), d) \<and> ok d \<and> inp d = drop n (inp c) \<and> room d = room c \<and> got d = got c"
    and write_rx: "ok c \<Longrightarrow> length bs \<le> room c \<Longrightarrow>
      \<exists>d. ch_write ops b bs c = Inr (length bs, d) \<and> ok d \<and> inp d = inp c \<and> room d = room c - length bs \<and> got d = got c @ bs"
begin

text \<open>Filling the empty transmit FIFO takes the words the count still asks for, at most 16.\<close>

lemma refill:
  assumes m: "dma_mode a b ws s" and c: "ok (sio s)" and e: "tx_list s = []"
    and k: "unat (REG s SPI_TXCNT) * unat ws \<le> length (inp (sio s))" "unat (REG s SPI_TXCNT) * unat ws < 2 ^ 32"
  defines "n \<equiv> min (unat (REG s SPI_TXCNT)) 16"
  shows "\<exists>t. apple_spi_update_xfer_tx ops s = Inr t \<and> dma_mode a b ws t \<and> same_regs s t \<and> spi_keep s t \<and> ok (sio t) \<and> rx_fifo t = rx_fifo s \<and>
    ssi_bus t = ssi_bus s \<and> tx_list t = le_chunks (unat ws) n (inp (sio s)) \<and> inp (sio t) = drop (n * unat ws) (inp (sio s)) \<and>
    room (sio t) = room (sio s) \<and> got (sio t) = got (sio s)"
proof -
  have wf: "spi_wf s" and f: "fifo32_wf (tx_fifo s)" "fifo32_size (tx_fifo s) = 16" and ws: "0 < unat ws" "unat ws \<le> 4"
    using m dma_mode_ws by (auto simp: dma_mode_def spi_wf_def)
  let ?cnt = "REG s SPI_TXCNT"
  let ?rem = "ch_remaining ops a (sio s)"
  have rem: "unat ?rem = length (inp (sio s))" by (rule rem_tx [OF c])
  have free: "unat (fifo32_num_free (tx_fifo s) * ws) = 16 * unat ws"
    using fifo32_counts(2) [OF f(1)] f(2) e ws by (simp add: unat_word_ariths)
  have cnt: "unat (?cnt * ws) = unat ?cnt * unat ws" using k(2) by (simp add: unat_word_ariths)
  define len where "len = (ucast (min (ucast (?cnt * ws)) ?rem) :: u32)"
  have "(ucast (?cnt * ws) :: u64) \<le> ?rem"
    using cnt k rem by (simp add: word_le_nat_alt unsigned_ucast_eq take_bit_nat_eq_self)
  then have "len = ?cnt * ws" by (simp add: len_def min_def)
  then have len: "unat len = unat ?cnt * unat ws" using cnt by simp
  show ?thesis
  proof (cases "?cnt = 0")
    case True
    have "apple_spi_update_xfer_tx ops s = Inr (spi_set_status SPI_STATUS_TXEMPTY s)"
      using m True spi_wf_fifos(1) [OF wf] e by (auto simp: apple_spi_update_xfer_tx_def dma_mode_def Let_def)
    moreover have "spi_keep s (spi_set_status SPI_STATUS_TXEMPTY s)" using spi_wf_fifos(7) [OF wf] by (simp add: spi_keep_def)
    ultimately show ?thesis using True c e m wf dma_mode_keep [OF m] by (simp add: n_def)
  next
    case False
    then have n0: "0 < n" by (simp add: n_def unat_gt_0)
    have lens: "unat (min len (fifo32_num_free (tx_fifo s) * ws)) = n * unat ws"
      using len free by (auto simp: n_def min_def word_le_nat_alt)
    have nz: "len \<noteq> 0" "?rem \<noteq> 0" "min len (fifo32_num_free (tx_fifo s) * ws) \<noteq> 0"
      using lens len False n0 ws k(1) rem by (auto simp: word_unat_eq_iff)
    have "n * unat ws \<le> unat ?cnt * unat ws" by (simp add: n_def)
    then have nk: "n * unat ws \<le> length (inp (sio s))" using k(1) by (rule le_trans)
    then obtain d where d: "ch_read ops a (n * unat ws) (sio s) = Inr (take (n * unat ws) (inp (sio s)), d)" "ok d"
        "inp d = drop (n * unat ws) (inp (sio s))" "room d = room (sio s)" "got d = got (sio s)"
      using read_tx [OF c nk] by blast
    obtain g where g: "spi_push_loop (unat ws) (n * unat ws) (take (n * unat ws) (inp (sio s))) 0 (tx_fifo s) = Inr g" "fifo32_wf g"
        "fifo32_list g = le_chunks (unat ws) n (inp (sio s))" "fifo32_size g = 16"
      using push_loop_chunks [OF ws(1), of 0 n "n * unat ws" "take (n * unat ws) (inp (sio s))" "tx_fifo s"] f e nk
      by (auto simp: le_chunks_take n_def)
    have "apple_spi_update_xfer_tx ops s = Inr (s\<lparr>sio := d, tx_fifo := g\<rparr>)"
      using m False spi_wf_fifos(1) [OF wf] e nz lens d(1) g(1)
      by (simp add: apple_spi_update_xfer_tx_def dma_mode_def Let_def len_def [symmetric])
    moreover have "spi_wf (s\<lparr>sio := d, tx_fifo := g\<rparr>)" using wf g by (simp add: spi_wf_def spi_len_def)
    ultimately show ?thesis using d g dma_mode_keep [OF m, of "s\<lparr>sio := d, tx_fifo := g\<rparr>"]
      by (simp add: spi_keep_def REG_def)
  qed
qed

text \<open>Flushing the receive FIFO appends all of its words.\<close>

lemma flush_all:
  assumes m: "dma_mode a b ws s" and c: "ok (sio s)" and r: "length (rx_list s) * unat ws \<le> room (sio s)"
  shows "\<exists>t. apple_spi_flush_rx ops s = Inr t \<and> dma_mode a b ws t \<and> same_regs s t \<and> spi_keep s t \<and> ok (sio t) \<and> tx_fifo t = tx_fifo s \<and>
    ssi_bus t = ssi_bus s \<and> rx_list t = [] \<and> inp (sio t) = inp (sio s) \<and> got (sio t) = got (sio s) @ le_bytes (unat ws) (rx_list s) \<and>
    room (sio t) = room (sio s) - length (rx_list s) * unat ws"
proof -
  have wf: "spi_wf s" and f: "fifo32_wf (rx_fifo s)" "fifo32_size (rx_fifo s) = 16" and ws: "0 < unat ws" "unat ws \<le> 4"
    using m dma_mode_ws by (auto simp: dma_mode_def spi_wf_def)
  let ?n = "length (rx_list s)"
  let ?rem = "ch_remaining ops b (sio s)"
  have n: "?n \<le> 16" by (rule spi_wf_fifos(6) [OF wf])
  have rem: "unat ?rem = room (sio s)" by (rule rem_rx [OF c])
  have "?n * unat ws \<le> 16 * 4" using n ws(2) by (rule mult_le_mono)
  then have used: "unat (fifo32_num_used (rx_fifo s) * ws) = ?n * unat ws"
    using fifo32_counts(1) [OF f(1)] by (simp add: unat_word_ariths)
  define len where "len = min (ucast (fifo32_num_used (rx_fifo s) * ws)) ?rem"
  have len: "unat len = ?n * unat ws"
    using used r rem unat_u32_le [of "fifo32_num_used (rx_fifo s) * ws"]
    by (auto simp: len_def min_def word_le_nat_alt unsigned_ucast_eq take_bit_nat_eq_self split: if_splits)
  show ?thesis
  proof (cases "?n = 0")
    case True
    then have "apple_spi_flush_rx ops s = Inr s"
      using m len by (auto simp: apple_spi_flush_rx_def dma_mode_def Let_def len_def [symmetric] word_unat_eq_iff [of len])
    then show ?thesis using True c m by (simp add: spi_keep_def)
  next
    case False
    then have p: "0 < ?n * unat ws" using ws(1) by simp
    have nz: "len \<noteq> 0" "?rem \<noteq> 0" using len rem p less_le_trans [OF p r] by (auto simp: word_unat_eq_iff)
    obtain g where g: "spi_pop_loop (unat ws) (?n * unat ws) 0 (rx_fifo s) = Inr (le_bytes (unat ws) (rx_list s), g)" "fifo32_wf g"
        "fifo32_list g = []" "fifo32_size g = 16"
      using pop_loop_chunks [OF ws(1), of 0 "rx_list s" "?n * unat ws" "rx_fifo s" "[]"] f by auto
    obtain d where d: "ch_write ops b (le_bytes (unat ws) (rx_list s)) (sio s) = Inr (?n * unat ws, d)" "ok d" "inp d = inp (sio s)"
        "room d = room (sio s) - ?n * unat ws" "got d = got (sio s) @ le_bytes (unat ws) (rx_list s)"
      using write_rx [OF c, of "le_bytes (unat ws) (rx_list s)"] r by auto
    have "apple_spi_flush_rx ops s = Inr (s\<lparr>rx_fifo := g, sio := d\<rparr>)"
      using m nz len d(1) g(1) by (simp add: apple_spi_flush_rx_def dma_mode_def Let_def len_def [symmetric])
    moreover have "spi_wf (s\<lparr>rx_fifo := g, sio := d\<rparr>)" using wf g by (simp add: spi_wf_def spi_len_def)
    ultimately show ?thesis using d g dma_mode_keep [OF m, of "s\<lparr>rx_fifo := g, sio := d\<rparr>"]
      by (simp add: spi_keep_def REG_def)
  qed
qed

text \<open>
  A received word goes to the FIFO, which is flushed first when it is full: what was written and what
  waits in the FIFO is one stream.
\<close>

lemma store_rx_dma:
  assumes m: "dma_mode a b ws s" and c: "ok (sio s)" and r: "length (rx_list s) * unat ws \<le> room (sio s)"
  shows "\<exists>t. spi_store_rx ops rx s = Inr (False, t) \<and> dma_mode a b ws t \<and> ok (sio t) \<and> spi_keep s t \<and> tx_fifo t = tx_fifo s \<and>
    ssi_bus t = ssi_bus s \<and> inp (sio t) = inp (sio s) \<and> REG t SPI_TXCNT = REG s SPI_TXCNT \<and> REG t SPI_RXCNT = REG s SPI_RXCNT - 1 \<and>
    got (sio t) @ le_bytes (unat ws) (rx_list t) = got (sio s) @ le_bytes (unat ws) (rx_list s @ [rx]) \<and>
    room (sio t) + length (got (sio t)) = room (sio s) + length (got (sio s))"
proof -
  have wf: "spi_wf s" using m by (simp add: dma_mode_def)
  obtain u where u: "spi_flush_if_full ops s = Inr u" "dma_mode a b ws u" "same_regs s u" "spi_keep s u" "ok (sio u)" "tx_fifo u = tx_fifo s"
      "ssi_bus u = ssi_bus s" "inp (sio u) = inp (sio s)" "length (rx_list u) < 16"
      "got (sio u) @ le_bytes (unat ws) (rx_list u) = got (sio s) @ le_bytes (unat ws) (rx_list s)"
      "room (sio u) + length (got (sio u)) = room (sio s) + length (got (sio s))"
  proof (cases "fifo32_is_full (rx_fifo s)")
    case True
    then show ?thesis using flush_all [OF m c r] r by (auto simp: spi_flush_if_full_def intro: that)
  next
    case False
    then have "length (rx_list s) < 16" using spi_wf_fifos(4,6) [OF wf] by simp
    then show ?thesis using False m c by (intro that [of s]) (simp_all add: spi_flush_if_full_def spi_keep_def)
  qed
  have wu: "spi_wf u" using u(2) by (simp add: dma_mode_def)
  obtain t where t: "spi_store_rx ops rx u = Inr (False, t)" "spi_wf t" "rx_list t = rx_list u @ [rx]" "tx_fifo t = tx_fifo u"
      "ssi_bus t = ssi_bus u" "sio t = sio u" "spi_keep u t" "REG t SPI_TXCNT = REG u SPI_TXCNT" "REG t SPI_RXCNT = REG u SPI_RXCNT - 1"
    using store_rx_room [OF wu u(9), of ops rx] by (auto simp: spi_keep_def)
  have "spi_flush_if_full ops u = Inr u" using u(9) spi_wf_fifos(4) [OF wu] by (simp add: spi_flush_if_full_def)
  then have "spi_store_rx ops rx s = spi_store_rx ops rx u" using u(1) by (simp add: spi_store_rx_def)
  moreover have "REG u SPI_TXCNT = REG s SPI_TXCNT" "REG u SPI_RXCNT = REG s SPI_RXCNT" using u(3) by (simp_all add: same_regs_REG)
  ultimately show ?thesis using t u dma_mode_keep [OF u(2) t(2,7)] spi_keep_trans [OF u(4) t(7)] by (simp flip: append_assoc)
qed

text \<open>What is queued and what is still to be read stay the words the count asks for.\<close>

lemma refill_step:
  assumes m: "dma_mode a b ws s" and c: "ok (sio s)" and k: "unat (REG s SPI_TXCNT) = k" "length (tx_list s) \<le> k" "k * unat ws < 2 ^ 32"
    and l: "(k - length (tx_list s)) * unat ws \<le> length (inp (sio s))"
  shows "\<exists>t. apple_spi_update_xfer_tx ops s = Inr t \<and> dma_mode a b ws t \<and> ok (sio t) \<and> spi_keep s t \<and> same_regs s t \<and> rx_fifo t = rx_fifo s \<and>
    ssi_bus t = ssi_bus s \<and> (tx_list t = [] \<longrightarrow> k = 0) \<and> length (tx_list t) \<le> k \<and> room (sio t) = room (sio s) \<and> got (sio t) = got (sio s) \<and>
    (k - length (tx_list t)) * unat ws \<le> length (inp (sio t)) \<and>
    tx_list t @ le_chunks (unat ws) (k - length (tx_list t)) (inp (sio t)) =
      tx_list s @ le_chunks (unat ws) (k - length (tx_list s)) (inp (sio s)) \<and>
    drop ((k - length (tx_list t)) * unat ws) (inp (sio t)) = drop ((k - length (tx_list s)) * unat ws) (inp (sio s))"
proof (cases "tx_list s = []")
  case True
  let ?n = "min k 16"
  obtain t where t: "apple_spi_update_xfer_tx ops s = Inr t" "dma_mode a b ws t" "same_regs s t" "spi_keep s t" "ok (sio t)" "rx_fifo t = rx_fifo s"
      "ssi_bus t = ssi_bus s" "tx_list t = le_chunks (unat ws) ?n (inp (sio s))" "inp (sio t) = drop (?n * unat ws) (inp (sio s))"
      "room (sio t) = room (sio s)" "got (sio t) = got (sio s)"
    using refill [OF m c True] k l True by auto
  have n: "length (tx_list t) = ?n" "?n + (k - ?n) = k" using t(8) by simp_all
  have kw: "(k - ?n) * unat ws + ?n * unat ws = k * unat ws" unfolding add_mult_distrib [symmetric] by (simp add: add.commute)
  have "tx_list t @ le_chunks (unat ws) (k - ?n) (inp (sio t)) = le_chunks (unat ws) k (inp (sio s))"
    using le_chunks_add [of "unat ws" ?n "k - ?n" "inp (sio s)"] unfolding n(2) t(8,9) by simp
  moreover have "drop ((k - ?n) * unat ws) (inp (sio t)) = drop (k * unat ws) (inp (sio s))" unfolding t(9) drop_drop kw ..
  moreover have "(k - ?n) * unat ws \<le> length (inp (sio t))" using kw l True unfolding t(9) by simp
  moreover have "tx_list t = [] \<longrightarrow> k = 0" using n by auto
  ultimately show ?thesis using t(1-7,10,11) n(1) True by simp
next
  case False
  have "apple_spi_update_xfer_tx ops s = Inr s"
    using m False spi_wf_fifos(1) [of s] by (simp add: apple_spi_update_xfer_tx_def dma_mode_def)
  then show ?thesis using False m c k l by (simp add: spi_keep_def)
qed

text \<open>
  The state of a transfer: \<open>k\<close> words are still to be sent, the queued ones first; the answers fit. \<open>total\<close> is
  what the receive channel has and will have room for.
\<close>

lemma tx_loop_dma:
  assumes "dma_mode a b ws s" "ok (sio s)" "unat (REG s SPI_TXCNT) = k" "REG s SPI_RXCNT = REG s SPI_TXCNT"
    and "length (tx_list s) \<le> k" "tx_list s = [] \<longrightarrow> k = 0" "(k - length (tx_list s)) * unat ws \<le> length (inp (sio s))" "k * unat ws < 2 ^ 32"
    and "(length (rx_list s) + k) * unat ws \<le> room (sio s)"
  shows "\<exists>t. spi_tx_loop ops (unat ws) s = Inr t \<and> dma_mode a b ws t \<and> ok (sio t) \<and> spi_keep s t \<and> REG t SPI_TXCNT = 0 \<and> REG t SPI_RXCNT = 0 \<and>
    tx_list t = [] \<and> inp (sio t) = drop ((k - length (tx_list s)) * unat ws) (inp (sio s)) \<and>
    (got (sio t) @ le_bytes (unat ws) (rx_list t), ssi_bus t) = apfst (\<lambda>rs. got (sio s) @ le_bytes (unat ws) (rx_list s @ rs))
      (exchange_words (unat ws) (tx_list s @ le_chunks (unat ws) (k - length (tx_list s)) (inp (sio s))) (ssi_bus s)) \<and>
    length (rx_list t) * unat ws \<le> room (sio t)"
  using assms
proof (induction k arbitrary: s)
  case 0
  then have "tx_list s = []" "REG s SPI_TXCNT = 0" by (simp_all add: unat_eq_0)
  moreover have "spi_len s" using "0.prems"(1) by (simp add: dma_mode_def spi_wf_def)
  ultimately have "spi_tx_loop ops (unat ws) s = Inr s" by (subst spi_tx_loop.simps) simp
  then show ?case using 0 by (simp add: spi_keep_def unat_eq_0)
next
  case (Suc k)
  note pr = Suc.prems
  have wf: "spi_wf s" using pr(1) by (simp add: dma_mode_def)
  obtain w q where q: "tx_list s = w # q" using pr(6) by (cases "tx_list s") auto
  obtain rx bus where e: "spi_exchange (unat ws) w 0 (ssi_bus s) = (rx, bus)" by fastforce
  have cnt0: "REG s SPI_TXCNT \<noteq> 0" using pr(3) by auto
  then have cnt: "REG s SPI_TXCNT \<noteq> 0" "unat (REG s SPI_TXCNT - 1) = k" using pr(3) by (simp_all add: unat_minus_one)
  obtain u where u: "spi_tx_body ops (unat ws) s = rbind (apple_spi_update_xfer_tx ops u) (\<lambda>s.
        if REG s SPI_RXCNT > 0 then spi_store_rx ops rx s else Inr (False, s))"
      "spi_wf u" "tx_list u = q" "rx_fifo u = rx_fifo s" "ssi_bus u = bus" "sio u = sio s" "spi_keep s u"
      "REG u SPI_TXCNT = REG s SPI_TXCNT - 1" "REG u SPI_RXCNT = REG s SPI_RXCNT"
    using tx_body_sends [OF wf q e] by blast
  have mu: "dma_mode a b ws u" using dma_mode_keep [OF pr(1) u(2,7)] .
  obtain v where v: "apple_spi_update_xfer_tx ops u = Inr v" "dma_mode a b ws v" "ok (sio v)" "spi_keep u v" "same_regs u v" "rx_fifo v = rx_fifo s"
      "ssi_bus v = bus" "tx_list v = [] \<longrightarrow> k = 0" "length (tx_list v) \<le> k" "room (sio v) = room (sio s)" "got (sio v) = got (sio s)"
      "(k - length (tx_list v)) * unat ws \<le> length (inp (sio v))"
      "tx_list v @ le_chunks (unat ws) (k - length (tx_list v)) (inp (sio v)) = q @ le_chunks (unat ws) (k - length q) (inp (sio s))"
      "drop ((k - length (tx_list v)) * unat ws) (inp (sio v)) = drop ((k - length q) * unat ws) (inp (sio s))"
    using refill_step [OF mu, of k] u pr q cnt by (auto simp: algebra_simps)
  have r: "length (rx_list v) * unat ws \<le> room (sio v)" using pr(9) v(6,10) by (simp add: add_mult_distrib)
  obtain t where t: "spi_store_rx ops rx v = Inr (False, t)" "dma_mode a b ws t" "ok (sio t)" "spi_keep v t" "tx_fifo t = tx_fifo v"
      "ssi_bus t = ssi_bus v" "inp (sio t) = inp (sio v)" "REG t SPI_TXCNT = REG v SPI_TXCNT" "REG t SPI_RXCNT = REG v SPI_RXCNT - 1"
      "got (sio t) @ le_bytes (unat ws) (rx_list t) = got (sio v) @ le_bytes (unat ws) (rx_list v @ [rx])"
      "room (sio t) + length (got (sio t)) = room (sio v) + length (got (sio v))"
    using store_rx_dma [OF v(2,3) r] by blast
  have regs: "REG v SPI_TXCNT = REG s SPI_TXCNT - 1" "REG v SPI_RXCNT = REG s SPI_RXCNT" using v(5) u(8,9) by (simp_all add: same_regs_REG)
  have "spi_tx_body ops (unat ws) s = Inr (False, t)" using u(1) v(1) t(1) regs(2) pr(4) cnt(1) by (simp add: word_gt_0)
  then have loop: "spi_tx_loop ops (unat ws) s = spi_tx_loop ops (unat ws) t"
    using spi_wf_fifos [OF wf] cnt q by (subst spi_tx_loop.simps) simp
  have fit: "(length (rx_list t) + k) * unat ws \<le> room (sio t)"
  proof -
    have "length (got (sio t)) + length (rx_list t) * unat ws = length (got (sio v)) + (length (rx_list v) + 1) * unat ws"
      using arg_cong [OF t(10), of length] by (simp add: algebra_simps)
    then show ?thesis using t(11) pr(9) v(6,10) by (simp add: algebra_simps)
  qed
  have "unat (REG t SPI_TXCNT) = k" "REG t SPI_RXCNT = REG t SPI_TXCNT" using t(8,9) regs cnt(2) pr(4) by simp_all
  then obtain x where x: "spi_tx_loop ops (unat ws) t = Inr x" "dma_mode a b ws x" "ok (sio x)" "spi_keep t x" "REG x SPI_TXCNT = 0" "REG x SPI_RXCNT = 0"
      "tx_list x = []" "inp (sio x) = drop ((k - length (tx_list t)) * unat ws) (inp (sio t))"
      "(got (sio x) @ le_bytes (unat ws) (rx_list x), ssi_bus x) = apfst (\<lambda>rs. got (sio t) @ le_bytes (unat ws) (rx_list t @ rs))
        (exchange_words (unat ws) (tx_list t @ le_chunks (unat ws) (k - length (tx_list t)) (inp (sio t))) (ssi_bus t))"
      "length (rx_list x) * unat ws \<le> room (sio x)"
    using Suc.IH [OF t(2,3)] t(5,7) v(8,9,12) pr(8) fit by auto
  have W: "tx_list t @ le_chunks (unat ws) (k - length (tx_list t)) (inp (sio t)) = q @ le_chunks (unat ws) (k - length q) (inp (sio s))"
    using t(5,7) v(13) by simp
  obtain rs bus' where ex: "exchange_words (unat ws) (q @ le_chunks (unat ws) (k - length q) (inp (sio s))) bus = (rs, bus')" by fastforce
  have "got (sio t) @ le_bytes (unat ws) (rx_list t @ rs) = got (sio s) @ le_bytes (unat ws) (rx_list s @ rx # rs)"
    using t(10) v(6,11) by (simp flip: append_assoc)
  then have "(got (sio x) @ le_bytes (unat ws) (rx_list x), ssi_bus x) = apfst (\<lambda>rs. got (sio s) @ le_bytes (unat ws) (rx_list s @ rs))
      (exchange_words (unat ws) (tx_list s @ le_chunks (unat ws) (Suc k - length (tx_list s)) (inp (sio s))) (ssi_bus s))"
    using x(9) e q t(6) v(7) ex unfolding W by simp
  moreover have "inp (sio x) = drop ((Suc k - length (tx_list s)) * unat ws) (inp (sio s))" using x(8) t(5,7) v(14) q by simp
  moreover have "spi_keep s x" using spi_keep_trans u(7) v(4) t(4) x(4) by blast
  ultimately show ?case using loop x by auto
qed

lemma run_dma:
  assumes m: "dma_mode a b ws s" "dma_capable s" and c: "ok (sio s)" and e: "tx_list s = []" "rx_list s = []"
    and go: "REG s SPI_CTRL AND SPI_CTRL_RUN \<noteq> 0" "REG s SPI_RXCNT = REG s SPI_TXCNT" "REG s SPI_TXCNT \<noteq> 0"
  defines "n \<equiv> unat (REG s SPI_TXCNT)"
  assumes l: "n * unat ws < 2 ^ 32" "n * unat ws \<le> length (inp (sio s))" "n * unat ws \<le> room (sio s)"
  shows "\<exists>t. apple_spi_run ops s = Inr t \<and> dma_mode a b ws t \<and> ok (sio t) \<and> tx_list t = [] \<and> rx_list t = [] \<and>
    REG t SPI_TXCNT = 0 \<and> REG t SPI_RXCNT = 0 \<and> bit (REG t SPI_STATUS) 22 \<and> inp (sio t) = drop (n * unat ws) (inp (sio s)) \<and>
    (got (sio t), ssi_bus t) = apfst (\<lambda>rs. got (sio s) @ le_bytes (unat ws) rs)
      (exchange_words (unat ws) (le_chunks (unat ws) n (inp (sio s))) (ssi_bus s))"
proof -
  obtain u where u: "apple_spi_update_xfer_tx ops s = Inr u" "dma_mode a b ws u" "ok (sio u)" "same_regs s u" "rx_fifo u = rx_fifo s"
      "ssi_bus u = ssi_bus s" "tx_list u = [] \<longrightarrow> n = 0" "length (tx_list u) \<le> n" "room (sio u) = room (sio s)" "got (sio u) = got (sio s)"
      "(n - length (tx_list u)) * unat ws \<le> length (inp (sio u))"
      "tx_list u @ le_chunks (unat ws) (n - length (tx_list u)) (inp (sio u)) = le_chunks (unat ws) n (inp (sio s))"
      "drop ((n - length (tx_list u)) * unat ws) (inp (sio u)) = drop (n * unat ws) (inp (sio s))"
    using refill_step [OF m(1) c, of n] e l n_def by auto
  have ru: "unat (REG u SPI_TXCNT) = n" "REG u SPI_RXCNT = REG u SPI_TXCNT" using u(4) go(2) by (simp_all add: same_regs_REG n_def)
  obtain v where v: "spi_tx_loop ops (unat ws) u = Inr v" "dma_mode a b ws v" "ok (sio v)" "REG v SPI_TXCNT = 0" "REG v SPI_RXCNT = 0"
      "tx_list v = []" "inp (sio v) = drop (n * unat ws) (inp (sio s))"
      "(got (sio v) @ le_bytes (unat ws) (rx_list v), ssi_bus v) = apfst (\<lambda>rs. got (sio s) @ le_bytes (unat ws) rs)
        (exchange_words (unat ws) (le_chunks (unat ws) n (inp (sio s))) (ssi_bus s))"
      "length (rx_list v) * unat ws \<le> room (sio v)"
    using tx_loop_dma [OF u(2,3) ru u(8,7,11) l(1)] u(5,6,9,10,12,13) e(2) l(3) by auto
  obtain x where x: "spi_flush_if_full ops v = Inr x" "dma_mode a b ws x" "ok (sio x)" "same_regs v x" "tx_fifo x = tx_fifo v" "ssi_bus x = ssi_bus v"
      "inp (sio x) = inp (sio v)" "got (sio x) @ le_bytes (unat ws) (rx_list x) = got (sio v) @ le_bytes (unat ws) (rx_list v)"
      "length (rx_list x) * unat ws \<le> room (sio x)"
    using flush_all [OF v(2,3,9)] v(2,3,9) by (cases "fifo32_is_full (rx_fifo v)") (auto simp: spi_flush_if_full_def intro: that)
  have rx: "REG x SPI_TXCNT = 0" "REG x SPI_RXCNT = 0" "spi_len x" using x(2,4) v(4,5) by (simp_all add: same_regs_REG dma_mode_def spi_wf_def)
  then have loop: "spi_rx_loop ops (unat ws) x = Inr x" by (subst spi_rx_loop.simps) simp
  obtain y where y: "apple_spi_flush_rx ops x = Inr y" "dma_mode a b ws y" "same_regs x y" "ok (sio y)" "tx_fifo y = tx_fifo x" "ssi_bus y = ssi_bus x"
      "rx_list y = []" "inp (sio y) = inp (sio x)" "got (sio y) = got (sio x) @ le_bytes (unat ws) (rx_list x)"
    using flush_all [OF x(2,3,9)] by blast
  have ry: "REG y SPI_TXCNT = 0" "REG y SPI_RXCNT = 0" "spi_len y" using y(2,3) rx by (simp_all add: same_regs_REG dma_mode_def spi_wf_def)
  let ?t = "spi_set_status SPI_STATUS_COMPLETE y"
  have "apple_spi_run ops s = Inr ?t"
    using m go u(1) v(1) x(1) loop y(1) ry by (simp add: apple_spi_run_def dma_mode_def or_eq_0_iff)
  moreover have "dma_mode a b ws ?t" using y(2) dma_mode_keep [OF y(2), of ?t] ry(3) by (simp add: spi_keep_def dma_mode_def)
  ultimately show ?thesis using y v x ry by (simp add: bit_or_iff)
qed

end

subsection \<open>The endpoints of the DMA controller\<close>

definition sio_ops :: "dma_bus \<Rightarrow> u64 \<Rightarrow> AppleSIOState dma_ops" where
  "sio_ops bus now = \<lparr>ch_remaining = apple_sio_dma_remaining, ch_read = apple_sio_dma_read bus now, ch_write = apple_sio_dma_write bus now\<rparr>"

lemma dma_read_loop:
  "sio_wf s \<Longrightarrow> i < SIO_NUM_EPS \<Longrightarrow> \<not> bit i 0 \<Longrightarrow> apple_sio_dma_read bus now i n s = sio_read_loop bus now i n s"
  using read_stop [of s i 0 bus now] by (simp add: apple_sio_dma_read_def sio_wf_def)

lemma dma_write_loop:
  "sio_wf s \<Longrightarrow> i < SIO_NUM_EPS \<Longrightarrow> bit i 0 \<Longrightarrow> apple_sio_dma_write bus now i bs s = sio_write_loop bus now i bs s"
  using write_stop [of s i "[]" bus now] by (simp add: apple_sio_dma_write_def sio_wf_def)

lemma remaining_pend:
  assumes "sio_wf s" "i < SIO_NUM_EPS"
  shows "apple_sio_dma_remaining i s = of_nat (length (ep_pend (eps s ! i)))"
proof -
  have "fold (\<lambda>b len. len + (sg_size (sgl b) - completed b)) bs x = x + of_nat (length (concat (map pend bs)))"
    if "list_all buf_ok bs" for bs x
    using that
  proof (induction bs arbitrary: x)
    case (Cons b bs)
    then have "of_nat (unat (completed b) + length (pend b)) = sg_size (sgl b)" using pend_facts(1) [of b] by simp
    then have "sg_size (sgl b) - completed b = of_nat (length (pend b))" by (simp add: algebra_simps)
    then show ?case using Cons by (simp add: add.assoc)
  qed simp
  then show ?thesis using wf_bufs [OF assms]
    by (simp add: apple_sio_dma_remaining_def apple_sio_dma_remaining_locked_def ep_pend_def)
qed

text \<open>
  A pair of endpoints that still have to move a final part of \<open>A\<close> and of \<open>R\<close>, with the memory they read, the
  memory they write and the response slots apart.
\<close>

definition sio_port :: "dma_bus \<Rightarrow> nat \<Rightarrow> nat \<Rightarrow> u64 list \<Rightarrow> u64 list \<Rightarrow> AppleSIOState \<Rightarrow> bool" where
  "sio_port bus i j A R c \<longleftrightarrow> maps_all bus \<and> sio_wf c \<and> i < SIO_NUM_EPS \<and> \<not> bit i 0 \<and> j < SIO_NUM_EPS \<and> bit j 0 \<and>
     (\<exists>m \<le> length A. ep_pend (eps c ! i) = drop m A) \<and> (\<exists>k \<le> length R. ep_pend (eps c ! j) = drop k R) \<and>
     distinct R \<and> set A \<inter> set R = {} \<and> (ep_slots c i \<union> ep_slots c j) \<inter> (set A \<union> set R) = {} \<and> length A < 2 ^ 64 \<and> length R < 2 ^ 64"

definition sio_inp :: "nat \<Rightarrow> AppleSIOState \<Rightarrow> bytes" where
  "sio_inp i c = map (dma_as c) (ep_pend (eps c ! i))"

definition sio_room :: "nat \<Rightarrow> AppleSIOState \<Rightarrow> nat" where
  "sio_room j c = length (ep_pend (eps c ! j))"

definition sio_got :: "nat \<Rightarrow> u64 list \<Rightarrow> AppleSIOState \<Rightarrow> bytes" where
  "sio_got j R c = map (dma_as c) (take (length R - sio_room j c) R)"

lemma slots_frame: "sio_frame i s t \<Longrightarrow> j \<noteq> i \<Longrightarrow> ep_slots t j = ep_slots s j \<and> eps t ! j = eps s ! j"
  by (simp add: sio_frame_def ep_slots_def resp_slot_def)

lemma sio_port_read:
  assumes ok: "sio_port bus i j A R c" and n: "n \<le> length (sio_inp i c)"
  shows "\<exists>d. apple_sio_dma_read bus now i n c = Inr (take n (sio_inp i c), d) \<and> sio_port bus i j A R d \<and> sio_inp i d = drop n (sio_inp i c) \<and>
    sio_room j d = sio_room j c \<and> sio_got j R d = sio_got j R c"
proof -
  have p: "maps_all bus" "sio_wf c" "i < SIO_NUM_EPS" "\<not> bit i 0" "j \<noteq> i" using ok by (auto simp: sio_port_def)
  obtain m where m: "ep_pend (eps c ! i) = drop m A" "m \<le> length A" using ok by (auto simp: sio_port_def)
  then have AP: "set (ep_pend (eps c ! i)) \<subseteq> set A" by (simp add: set_drop_subset)
  have "ep_slots c i \<inter> set (ep_pend (eps c ! i)) = {}" using ok AP by (auto simp: sio_port_def)
  then obtain d where d: "sio_read_loop bus now i n c = Inr (map (dma_as c) (take n (ep_pend (eps c ! i))), d)" "sio_wf d" "sio_frame i c d"
      "ep_pend (eps d ! i) = drop n (ep_pend (eps c ! i))" "\<forall>a. a \<notin> ep_slots c i \<longrightarrow> dma_as d a = dma_as c a"
    using sio_read_loop_stream [OF p(1-3), of now n] by blast
  have mem: "dma_as d a = dma_as c a" if "a \<in> set A \<union> set R" for a using that ok d(5) by (auto simp: sio_port_def)
  have j: "ep_slots d j = ep_slots c j" "eps d ! j = eps c ! j" using slots_frame [OF d(3) p(5)] by simp_all
  have "\<exists>m' \<le> length A. ep_pend (eps d ! i) = drop m' A"
    using n m d(4) by (intro exI [of _ "m + n"]) (simp add: sio_inp_def add.commute)
  moreover have "ep_slots d i \<subseteq> ep_slots c i" using d(3) by (simp add: sio_frame_def)
  ultimately have "sio_port bus i j A R d" using ok d(2) j unfolding sio_port_def by auto
  moreover have "sio_inp i d = drop n (sio_inp i c)"
    unfolding sio_inp_def d(4) drop_map using AP set_drop_subset [of n "ep_pend (eps c ! i)"] by (intro map_cong) (auto intro!: mem)
  moreover have "sio_room j d = sio_room j c" using j by (simp add: sio_room_def)
  moreover have "sio_got j R d = sio_got j R c" unfolding sio_got_def \<open>sio_room j d = sio_room j c\<close>
    by (intro map_cong) (auto intro!: mem dest: in_set_takeD)
  ultimately show ?thesis using d(1) dma_read_loop [OF p(2-4), of bus now n] by (simp add: sio_inp_def take_map)
qed

lemma sio_port_write:
  assumes ok: "sio_port bus i j A R c" and n: "length bs \<le> sio_room j c"
  shows "\<exists>d. apple_sio_dma_write bus now j bs c = Inr (length bs, d) \<and> sio_port bus i j A R d \<and> sio_inp i d = sio_inp i c \<and>
    sio_room j d = sio_room j c - length bs \<and> sio_got j R d = sio_got j R c @ bs"
proof -
  have p: "maps_all bus" "sio_wf c" "j < SIO_NUM_EPS" "bit j 0" "i \<noteq> j" "distinct R" using ok by (auto simp: sio_port_def)
  obtain k where k: "ep_pend (eps c ! j) = drop k R" "k \<le> length R" using ok by (auto simp: sio_port_def)
  let ?P = "drop k R"
  have room: "sio_room j c = length R - k" using k by (simp add: sio_room_def)
  obtain d where d: "sio_write_loop bus now j bs c = Inr (length bs, d)" "sio_wf d" "sio_frame j c d"
      "ep_pend (eps d ! j) = drop (length bs) ?P" "\<forall>a. a \<notin> ep_slots c j \<longrightarrow> dma_as d a = mem_put ?P bs (dma_as c) a"
    using sio_write_loop_stream [OF p(1-3), of now bs] n k by (auto simp: sio_room_def)
  have memP: "dma_as d a = mem_put ?P bs (dma_as c) a" if "a \<in> set A \<union> set R" for a using that ok d(5) by (auto simp: sio_port_def)
  have mem: "dma_as d a = dma_as c a" if "a \<in> set A \<union> set R" "a \<notin> set ?P" for a using memP [OF that(1)] that(2) by (simp add: mem_put_other)
  have i: "ep_slots d i = ep_slots c i" "eps d ! i = eps c ! i" using slots_frame [OF d(3) p(5)] by simp_all
  have "\<exists>k' \<le> length R. ep_pend (eps d ! j) = drop k' R"
    using n room k(2) d(4) by (intro exI [of _ "k + length bs"]) (simp add: add.commute)
  moreover have "ep_slots d j \<subseteq> ep_slots c j" using d(3) by (simp add: sio_frame_def)
  ultimately have "sio_port bus i j A R d" using ok d(2) i unfolding sio_port_def by auto
  moreover have "sio_inp i d = sio_inp i c"
  proof -
    have "set (ep_pend (eps c ! i)) \<subseteq> set A" using ok by (auto simp: sio_port_def dest: in_set_dropD)
    then show ?thesis unfolding sio_inp_def i(2) using ok by (intro map_cong) (auto simp: sio_port_def intro!: mem dest: in_set_dropD)
  qed
  moreover have rd: "sio_room j d = sio_room j c - length bs" using d(4) room by (simp add: sio_room_def)
  moreover have "sio_got j R d = sio_got j R c @ bs"
  proof -
    have "length R - sio_room j d = k + length bs" "length R - sio_room j c = k" using rd room n k(2) by simp_all
    moreover have "set (take k R) \<inter> set ?P = {}" using p(6) by (intro set_take_disj_set_drop_if_distinct) simp_all
    then have "map (dma_as d) (take k R) = map (dma_as c) (take k R)"
      by (intro map_cong) (auto intro!: mem dest: in_set_takeD)
    moreover have "map (dma_as d) (take (length bs) ?P) = bs"
    proof (rule nth_equalityI)
      fix x assume "x < length (map (dma_as d) (take (length bs) ?P))"
      then have x: "x < length ?P" "x < length bs" by simp_all
      then have "?P ! x \<in> set R" using nth_mem [OF x(1)] by (meson in_set_dropD)
      then show "map (dma_as d) (take (length bs) ?P) ! x = bs ! x" using x memP [of "?P ! x"] mem_put_nth [of ?P x bs "dma_as c"] p(6) by simp
    qed (use n room in simp)
    ultimately show ?thesis unfolding sio_got_def by (simp add: take_add)
  qed
  ultimately show ?thesis using d(1) dma_write_loop [OF p(2-4), of bus now bs] by auto
qed

interpretation sio_dma: dma_port "sio_ops bus now" i j "sio_inp i" "sio_room j" "sio_got j R" "sio_port bus i j A R"
  for bus now i j A R
proof
  fix c assume ok: "sio_port bus i j A R c"
  have "length (ep_pend (eps c ! i)) < 2 ^ 64" "length (ep_pend (eps c ! j)) < 2 ^ 64" using ok by (auto simp: sio_port_def)
  then show "unat (ch_remaining (sio_ops bus now) i c) = length (sio_inp i c)" "unat (ch_remaining (sio_ops bus now) j c) = sio_room j c"
    using ok remaining_pend [of c] by (simp_all add: sio_ops_def sio_inp_def sio_room_def sio_port_def unat_of_nat)
qed (use sio_port_read sio_port_write in \<open>auto simp: sio_ops_def\<close>)

text \<open>A controller wired to the endpoints 4 and 5, with words waiting in its receive FIFO.\<close>

definition spi_demo_dma :: "u32 \<Rightarrow> u32 list \<Rightarrow> u32 \<Rightarrow> 'c \<Rightarrow> ('c, u32 list) AppleSPIState" where
  "spi_demo_dma cfg rs cnt c = (spi_demo cfg [] cnt c)\<lparr>tx_chan := Some 4, rx_chan := Some 5, dma_capable := True,
     rx_fifo := projr (fifo32_push_all rs (fifo32_create (\<lambda>_. 0) SPI_FIFO_DEPTH))\<rparr>"

lemma spi_demo_dma:
  assumes "length rs \<le> 16"
  shows "spi_wf (spi_demo_dma cfg rs cnt c)" "tx_list (spi_demo_dma cfg rs cnt c) = []" "rx_list (spi_demo_dma cfg rs cnt c) = rs"
    "ssi_bus (spi_demo_dma cfg rs cnt c) = spi_demo_bus" "sio (spi_demo_dma cfg rs cnt c) = c"
    "tx_chan (spi_demo_dma cfg rs cnt c) = Some 4" "rx_chan (spi_demo_dma cfg rs cnt c) = Some 5" "dma_capable (spi_demo_dma cfg rs cnt c)"
    "REG (spi_demo_dma cfg rs cnt c) a = REG (spi_demo cfg [] cnt c) a"
proof -
  note d = spi_demo [of "[]" cfg cnt c, simplified]
  have f: "fifo32_wf (fifo32_create (\<lambda>_. 0) 16)" "fifo32_list (fifo32_create (\<lambda>_. 0) 16) = []" "fifo32_size (fifo32_create (\<lambda>_. 0) 16) = 16"
    using fifo32_create_empty [of 16 "\<lambda>_. 0"] by simp_all
  then obtain g where g: "fifo32_push_all rs (fifo32_create (\<lambda>_. 0) 16) = Inr g" "fifo32_wf g" "fifo32_list g = rs" "fifo32_size g = 16"
    using f32.push_each_room [of "fifo32_create (\<lambda>_. 0) 16" rs] assms by (auto simp: fifo32_push_all_def)
  show "spi_wf (spi_demo_dma cfg rs cnt c)" using d(1) g by (simp add: spi_demo_dma_def spi_wf_def spi_len_def)
  show "tx_list (spi_demo_dma cfg rs cnt c) = []" "rx_list (spi_demo_dma cfg rs cnt c) = rs"
    "ssi_bus (spi_demo_dma cfg rs cnt c) = spi_demo_bus" "sio (spi_demo_dma cfg rs cnt c) = c"
    "tx_chan (spi_demo_dma cfg rs cnt c) = Some 4" "rx_chan (spi_demo_dma cfg rs cnt c) = Some 5" "dma_capable (spi_demo_dma cfg rs cnt c)"
    "REG (spi_demo_dma cfg rs cnt c) a = REG (spi_demo cfg [] cnt c) a"
    using d g by (simp_all add: spi_demo_dma_def REG_def)
qed

lemma spi_demo_dma_mode:
  assumes "length rs \<le> 16" "SPI_CFG_MODE cfg = SPI_CFG_MODE_DMA" "SPI_CFG_WORD_SIZE cfg = (if ws = 1 then 0 else 1)" "ws = 1 \<or> ws = 2"
  shows "dma_mode 4 5 ws (spi_demo_dma cfg rs cnt c)"
proof -
  note d = spi_demo [of "[]" cfg cnt c, simplified]
  show ?thesis using assms(2-4) spi_demo_dma [OF assms(1), of cfg cnt c]
    by (auto simp: dma_mode_def apple_spi_word_size_def d Let_def)
qed

subsection \<open>A count that does not match the segments\<close>

text \<open>
  When the room left on the receive channel is not a whole number of words and the FIFO holds more than
  that, flushing allocates a buffer of the room and writes a word past its end.
\<close>

theorem spi_flush_overrun:
  assumes m: "dma_mode a b ws s" and r: "\<not> unat ws dvd unat (ch_remaining ops b (sio s))"
    "unat (ch_remaining ops b (sio s)) < length (rx_list s) * unat ws"
  shows "apple_spi_flush_rx ops s = Inl OutOfBounds"
proof -
  have wf: "spi_wf s" and f: "fifo32_wf (rx_fifo s)" and ws: "0 < unat ws" "unat ws \<le> 4"
    using m dma_mode_ws by (auto simp: dma_mode_def spi_wf_def)
  let ?rem = "ch_remaining ops b (sio s)"
  have "length (rx_list s) * unat ws \<le> 16 * 4" using spi_wf_fifos(6) [OF wf] ws(2) by (rule mult_le_mono)
  then have "unat (fifo32_num_used (rx_fifo s) * ws) = length (rx_list s) * unat ws"
    using fifo32_counts(1) [OF f] by (simp add: unat_word_ariths)
  then have "min (ucast (fifo32_num_used (rx_fifo s) * ws)) ?rem = ?rem"
    using r(2) unat_u32_le [of "fifo32_num_used (rx_fifo s) * ws"]
    by (simp add: min_def word_le_nat_alt unsigned_ucast_eq take_bit_nat_eq_self)
  moreover have nz: "?rem \<noteq> 0" using r(1) by auto
  moreover have "spi_pop_loop (unat ws) (unat ?rem) 0 (rx_fifo s) = Inl OutOfBounds"
    using pop_loop_overrun [OF ws(1) f, of 0 "unat ?rem"] r nz by (simp add: unat_gt_0)
  ultimately show ?thesis using m by (simp add: apple_spi_flush_rx_def dma_mode_def Let_def)
qed

theorem spi_flush_overrun_witness:
  "apple_spi_flush_rx (spi_no_dma\<lparr>ch_remaining := \<lambda>_ _. 3\<rparr>) (spi_demo_dma 0x8040 [1, 2] 2 ()) = Inl OutOfBounds"
proof (rule spi_flush_overrun)
  show "dma_mode 4 5 2 (spi_demo_dma 0x8040 [1, 2] 2 ())" by (rule spi_demo_dma_mode) (simp, code_simp+)
  show "\<not> unat (2 :: u32) dvd unat (ch_remaining (spi_no_dma\<lparr>ch_remaining := \<lambda>_ _. 3\<rparr>) 5 (sio (spi_demo_dma 0x8040 [1, 2] 2 ())))"
    by simp
  show "unat (ch_remaining (spi_no_dma\<lparr>ch_remaining := \<lambda>_ _. 3\<rparr>) 5 (sio (spi_demo_dma 0x8040 [1, 2] 2 ()))) <
      length (rx_list (spi_demo_dma 0x8040 [1, 2] 2 ())) * unat (2 :: u32)"
    using spi_demo_dma(3) [of "[1, 2]" "0x8040" 2 "()"] by simp
qed

lemma pair_eq_apfst: "(x, y) = apfst f p \<longleftrightarrow> x = f (fst p) \<and> y = snd p"
  by (cases p) simp

lemma length_exchange_words: "length (fst (exchange_words n ws b)) = length ws"
  by (induction ws arbitrary: b) (simp_all add: case_prod_unfold Let_def)

lemma drop_by_length: "m \<le> length xs \<Longrightarrow> n \<le> length xs \<Longrightarrow> length (drop m xs) = length xs - n \<Longrightarrow> drop m xs = drop n xs"
  by (metis diff_diff_cancel length_drop)

end
