(* ===== verification/Gpio.thy ===== *)
theory Gpio
  imports Bitops Interfaces Dt
begin

text \<open>
  The GPIO controller, \<open>hw/gpio/apple_gpio.c\<close>: pins with a configuration word each, input levels with the
  levels before, and a bit array of pending interrupts per interrupt group. The arrays are lists of their
  allocated size; an access past one is a fault. Interrupt and output lines are their levels.
\<close>

abbreviation (input) "GPIO_MAX_PIN_NR \<equiv> 512 :: nat"
abbreviation (input) "GPIO_MAX_INT_GRP_NR \<equiv> 0x7 :: nat"
abbreviation (input) "REG_GPIOCFG n \<equiv> 0x000 + (n :: nat) * 4 :: hwaddr"
abbreviation (input) "REG_GPIOINT g n \<equiv> 0x800 + (g :: nat) * 0x40 + ((n :: nat) + 31) div 32 * 4 :: hwaddr"
abbreviation (input) "REG_GPIO_NPL_IN_EN \<equiv> 0xC48 :: hwaddr"
abbreviation (input) "DATA_1 \<equiv> 1 :: u32"
abbreviation (input) "CFG_GP_IN \<equiv> 0 :: u32"
abbreviation (input) "CFG_GP_OUT \<equiv> 2 :: u32"
abbreviation (input) "CFG_INT_LVL_HI \<equiv> 4 :: u32"
abbreviation (input) "CFG_INT_LVL_LO \<equiv> 6 :: u32"
abbreviation (input) "CFG_INT_EDG_RIS \<equiv> 8 :: u32"
abbreviation (input) "CFG_INT_EDG_FAL \<equiv> 10 :: u32"
abbreviation (input) "CFG_INT_EDG_ANY \<equiv> 12 :: u32"
abbreviation (input) "CFG_DISABLE \<equiv> 14 :: u32"
abbreviation (input) "CFG_MASK \<equiv> 14 :: u32"
abbreviation (input) "FUNC_GPIO \<equiv> 0 :: u32"
abbreviation (input) "FUNC_ALT0 \<equiv> 0x20 :: u32"
abbreviation (input) "FUNC_MASK \<equiv> 0x60 :: u32"
abbreviation (input) "INTR_GRP_SHIFT \<equiv> 16 :: nat"
abbreviation (input) "INT_MASKED \<equiv> 0x70000 :: u32"
abbreviation (input) "CFG_DISABLED \<equiv> FUNC_GPIO OR CFG_DISABLE OR INT_MASKED"
abbreviation (input) "CFG_FUNC0 \<equiv> 0x200 OR FUNC_ALT0 OR INT_MASKED"

record AppleGPIOState =
  pin_count :: nat
  irq_group_count :: nat
  gpio_irqs :: "bool list"
  gpio_out :: "bool list"
  gpio_cfg :: "u32 list"
  int_config :: "u32 list"
  gpio_in :: "u32 list"
  in_old :: "u32 list"
  npl :: u32

text \<open>A call with a pointer into an array, \<open>f(&xs[base])\<close>.\<close>

definition at_ptr :: "nat \<Rightarrow> ('a list \<Rightarrow> 'a list) \<Rightarrow> 'a list \<Rightarrow> 'a list" where
  "at_ptr base f xs = take base xs @ f (drop base xs)"

text \<open>Setting or clearing the pending bit of a pin in a group, and the line of a group.\<close>

definition gpio_int_bit :: "(nat \<Rightarrow> u32 list \<Rightarrow> u32 list) \<Rightarrow> nat \<Rightarrow> nat \<Rightarrow> AppleGPIOState \<Rightarrow> AppleGPIOState res" where
  "gpio_int_bit f irqgrp pin s =
     (if length (int_config s) \<le> irqgrp * pin_count s + pin div 32 then Inl OutOfBounds
      else Inr (s\<lparr>int_config := at_ptr (irqgrp * pin_count s) (f pin) (int_config s)\<rparr>))"

definition gpio_any_pending :: "nat \<Rightarrow> AppleGPIOState \<Rightarrow> bool" where
  "gpio_any_pending irqgrp s \<longleftrightarrow> find_first_bit32 (drop (irqgrp * pin_count s) (int_config s)) (pin_count s) \<noteq> pin_count s"

definition gpio_set_group_irq :: "nat \<Rightarrow> AppleGPIOState \<Rightarrow> AppleGPIOState res" where
  "gpio_set_group_irq irqgrp s =
     (if length (gpio_irqs s) \<le> irqgrp \<or> length (int_config s) < irqgrp * pin_count s + (pin_count s + 31) div 32 then Inl OutOfBounds
      else Inr (s\<lparr>gpio_irqs := (gpio_irqs s)[irqgrp := gpio_any_pending irqgrp s]\<rparr>))"

definition gpio_group :: "u32 \<Rightarrow> nat" where
  "gpio_group v = unat (drop_bit INTR_GRP_SHIFT (v AND INT_MASKED))"

text \<open>The two halves of a configuration change: the interrupt of the pin, then its word and its output line.\<close>

definition gpio_pin_int :: "nat \<Rightarrow> u32 \<Rightarrow> AppleGPIOState \<Rightarrow> AppleGPIOState res" where
  "gpio_pin_int pin v s =
     (if v AND INT_MASKED \<noteq> INT_MASKED then
        rbind (gpio_int_bit clear_bit32 (gpio_group v) pin s) (\<lambda>s.
        rbind
          (if v AND CFG_MASK = CFG_INT_LVL_HI then
             if test_bit32 pin (gpio_in s) \<noteq> 0 then gpio_int_bit set_bit32 (gpio_group v) pin s else Inr s
           else if v AND CFG_MASK = CFG_INT_LVL_LO then
             if test_bit32 pin (gpio_in s) = 0 then gpio_int_bit set_bit32 (gpio_group v) pin s else Inr s
           else Inr s)
          (gpio_set_group_irq (gpio_group v)))
      else Inr s)"

definition gpio_pin_out :: "nat \<Rightarrow> u32 \<Rightarrow> AppleGPIOState \<Rightarrow> AppleGPIOState res" where
  "gpio_pin_out pin v s =
     (if length (gpio_cfg s) \<le> pin \<or> length (gpio_out s) \<le> pin then Inl OutOfBounds
      else let s = s\<lparr>gpio_cfg := (gpio_cfg s)[pin := v]\<rparr>
        in Inr
          (if v AND FUNC_MASK \<noteq> 0 then
             if v AND FUNC_MASK = FUNC_ALT0 then
               if v AND CFG_MASK = CFG_DISABLE then s
               else s\<lparr>gpio_cfg := (gpio_cfg s)[pin := if v AND CFG_MASK = CFG_GP_OUT then v AND NOT DATA_1 else v OR DATA_1],
                      gpio_out := (gpio_out s)[pin := True]\<rparr>
             else s
           else if v AND CFG_MASK = CFG_GP_OUT then s\<lparr>gpio_out := (gpio_out s)[pin := v AND DATA_1 \<noteq> 0]\<rparr>
           else s\<lparr>gpio_out := (gpio_out s)[pin := True]\<rparr>))"

definition apple_gpio_update_pincfg :: "nat \<Rightarrow> u32 \<Rightarrow> AppleGPIOState \<Rightarrow> AppleGPIOState res" where
  "apple_gpio_update_pincfg pin v s = rbind (gpio_pin_int pin v s) (gpio_pin_out pin v)"

text \<open>Whether a new level of a pin raises its interrupt, by its configuration and its level before.\<close>

definition gpio_triggers :: "u32 \<Rightarrow> bool \<Rightarrow> bool \<Rightarrow> bool" where
  "gpio_triggers cfg old level \<longleftrightarrow>
     (let m = cfg AND CFG_MASK
      in if m = CFG_GP_IN \<or> m = CFG_GP_OUT then False
         else if m = CFG_INT_LVL_HI then level
         else if m = CFG_INT_LVL_LO then \<not> level
         else if m = CFG_INT_EDG_RIS then \<not> old \<and> level
         else if m = CFG_INT_EDG_FAL then old \<and> \<not> level
         else if m = CFG_INT_EDG_ANY then old \<noteq> level
         else False)"

definition apple_gpio_set :: "nat \<Rightarrow> bool \<Rightarrow> AppleGPIOState \<Rightarrow> AppleGPIOState res" where
  "apple_gpio_set pin level s =
     (if pin_count s \<le> pin then Inr s
      else if length (gpio_in s) \<le> pin div 32 \<or> length (in_old s) \<le> pin div 32 \<or> length (gpio_cfg s) \<le> pin then Inl OutOfBounds
      else let s = s\<lparr>gpio_in := (if level then set_bit32 pin (gpio_in s) else clear_bit32 pin (gpio_in s))\<rparr>;
               cfg = gpio_cfg s ! pin
        in rbind
             (if cfg AND INT_MASKED \<noteq> INT_MASKED \<and> gpio_triggers cfg (test_bit32 pin (in_old s) \<noteq> 0) level
              then gpio_int_bit set_bit32 (gpio_group cfg) pin s else Inr s)
             (\<lambda>s. let s = s\<lparr>in_old := (in_old s)[pin div 32 := gpio_in s ! (pin div 32)]\<rparr>
                  in if cfg AND INT_MASKED \<noteq> INT_MASKED then gpio_set_group_irq (gpio_group cfg) s else Inr s))"

definition apple_gpio_reset :: "AppleGPIOState \<Rightarrow> AppleGPIOState" where
  "apple_gpio_reset s =
     s\<lparr>gpio_cfg := for_upd (pin_count s) (\<lambda>_ _. CFG_DISABLED) (gpio_cfg s), int_config := replicate (length (int_config s)) 0,
       in_old := replicate (length (in_old s)) 0, gpio_in := replicate (length (gpio_in s)) 0\<rparr>"

definition apple_gpio_cfg_write :: "nat \<Rightarrow> u32 \<Rightarrow> AppleGPIOState \<Rightarrow> AppleGPIOState res" where
  "apple_gpio_cfg_write pin v s = (if pin_count s \<le> pin then Inr s else apple_gpio_update_pincfg pin v s)"

definition apple_gpio_cfg_read :: "nat \<Rightarrow> AppleGPIOState \<Rightarrow> u32" where
  "apple_gpio_cfg_read pin s =
     (if pin_count s \<le> pin then 0
      else let v = gpio_cfg s ! pin;
               v = (if v AND FUNC_MASK = FUNC_GPIO then (v AND NOT DATA_1) OR test_bit32 pin (gpio_in s) else v)
        in if v AND CFG_FUNC0 = CFG_FUNC0 \<and> v AND CFG_MASK = CFG_DISABLE then (v OR DATA_1) AND NOT (test_bit32 pin (gpio_in s)) else v)"

definition apple_gpio_int_write :: "nat \<Rightarrow> hwaddr \<Rightarrow> u32 \<Rightarrow> AppleGPIOState \<Rightarrow> AppleGPIOState res" where
  "apple_gpio_int_write g addr v s =
     (if irq_group_count s \<le> g then Inr s
      else let i = g * pin_count s + (addr - REG_GPIOINT g 0) div 4
        in if length (int_config s) \<le> i then Inl OutOfBounds
           else let s = s\<lparr>int_config := (int_config s)[i := int_config s ! i AND NOT v]\<rparr>
             in if gpio_any_pending g s then Inr s
                else if length (gpio_irqs s) \<le> g then Inl OutOfBounds
                else Inr (s\<lparr>gpio_irqs := (gpio_irqs s)[g := False]\<rparr>))"

definition apple_gpio_int_read :: "nat \<Rightarrow> hwaddr \<Rightarrow> AppleGPIOState \<Rightarrow> u32 res" where
  "apple_gpio_int_read g addr s =
     (if irq_group_count s \<le> g then Inr 0
      else let i = g * pin_count s + (addr - REG_GPIOINT g 0) div 4
        in if length (int_config s) \<le> i then Inl OutOfBounds else Inr (int_config s ! i))"

definition apple_gpio_reg_write :: "hwaddr \<Rightarrow> u64 \<Rightarrow> AppleGPIOState \<Rightarrow> AppleGPIOState res" where
  "apple_gpio_reg_write addr data s =
     (if addr \<le> REG_GPIOCFG (GPIO_MAX_PIN_NR - 1) then apple_gpio_cfg_write ((addr - REG_GPIOCFG 0) div 4) (ucast data) s
      else if REG_GPIOINT 0 0 \<le> addr \<and> addr \<le> REG_GPIOINT GPIO_MAX_INT_GRP_NR (GPIO_MAX_PIN_NR - 1)
      then apple_gpio_int_write ((addr - REG_GPIOINT 0 0) div 64) addr (ucast data) s
      else if addr = REG_GPIO_NPL_IN_EN then Inr (s\<lparr>npl := ucast data\<rparr>)
      else Inr s)"

definition apple_gpio_reg_read :: "hwaddr \<Rightarrow> AppleGPIOState \<Rightarrow> u64 res" where
  "apple_gpio_reg_read addr s =
     (if addr \<le> REG_GPIOCFG (GPIO_MAX_PIN_NR - 1) then Inr (ucast (apple_gpio_cfg_read ((addr - REG_GPIOCFG 0) div 4) s))
      else if REG_GPIOINT 0 0 \<le> addr \<and> addr \<le> REG_GPIOINT GPIO_MAX_INT_GRP_NR (GPIO_MAX_PIN_NR - 1)
      then rbind (apple_gpio_int_read ((addr - REG_GPIOINT 0 0) div 64) addr s) (\<lambda>r. Inr (ucast r))
      else if addr = REG_GPIO_NPL_IN_EN then Inr (ucast (npl s))
      else if addr = 0xC4C then Inr 0xFF
      else Inr 0)"

text \<open>The length of the interrupt array is computed in 32 bits.\<close>

definition apple_gpio_new :: "u32 \<Rightarrow> u32 \<Rightarrow> AppleGPIOState res" where
  "apple_gpio_new pins groups =
     (if \<not> unat pins < GPIO_MAX_PIN_NR then Inl AssertFailed
      else Inr \<lparr>pin_count = unat pins, irq_group_count = unat groups, gpio_irqs = replicate (unat groups) False,
        gpio_out = replicate (unat pins) False, gpio_cfg = replicate (unat pins) 0, int_config = replicate (unat (groups * pins)) 0,
        gpio_in = replicate ((unat pins + 31) div 32) 0, in_old = replicate ((unat pins + 31) div 32) 0, npl = 0\<rparr>)"

text \<open>The controller and the size of its register window.\<close>

definition apple_gpio_from_node :: "AppleDTNode \<Rightarrow> (u64 \<times> AppleGPIOState) res" where
  "apple_gpio_from_node node =
     (case apple_dt_get_prop node (cs ''reg'') of
        None \<Rightarrow> Inl AssertFailed
      | Some reg \<Rightarrow>
          rbind (apple_dt_get_prop_str node (cs ''name'') ErrFatal) (\<lambda>_.
          if length (p_data reg) < 16 then Inl OutOfBounds
          else rbind (apple_dt_get_prop_u32 node (cs ''#gpio-pins'') ErrFatal) (\<lambda>(pins, _).
            rbind (apple_dt_get_prop_u32 node (cs ''#gpio-int-groups'') ErrFatal) (\<lambda>(groups, _).
              rbind (apple_gpio_new pins groups) (\<lambda>s. Inr (of_le (bslice 8 8 (p_data reg)), s))))))"

subsection \<open>Pending interrupts\<close>

text \<open>The level of a pin, and whether its interrupt is pending in a group.\<close>

abbreviation pin_level :: "AppleGPIOState \<Rightarrow> nat \<Rightarrow> bool" where
  "pin_level s \<equiv> bm_bit (gpio_in s)"

definition gpio_pending :: "AppleGPIOState \<Rightarrow> nat \<Rightarrow> nat \<Rightarrow> bool" where
  "gpio_pending s g p \<longleftrightarrow> bm_bit (int_config s) (32 * (g * pin_count s) + p)"

text \<open>
  The arrays have the sizes the controller was created with, and the old levels are those of the last
  change: they differ from the current ones only inside \<open>apple_gpio_set\<close>.
\<close>

definition gpio_wf :: "AppleGPIOState \<Rightarrow> bool" where
  "gpio_wf s \<longleftrightarrow> length (int_config s) = irq_group_count s * pin_count s \<and> length (gpio_irqs s) = irq_group_count s \<and>
     length (gpio_out s) = pin_count s \<and> length (gpio_cfg s) = pin_count s \<and> length (gpio_in s) = (pin_count s + 31) div 32 \<and>
     in_old s = gpio_in s \<and> list_all (\<lambda>c. c AND INT_MASKED = INT_MASKED \<or> gpio_group c < irq_group_count s) (gpio_cfg s)"

definition gpio_lines :: "AppleGPIOState \<Rightarrow> bool" where
  "gpio_lines s \<longleftrightarrow> (\<forall>g < irq_group_count s. gpio_irqs s ! g \<longleftrightarrow> (\<exists>p < pin_count s. gpio_pending s g p))"

lemma bm_bit_drop: "b \<le> length xs \<Longrightarrow> bm_bit (drop b xs) p = bm_bit xs (32 * b + p)"
  by (simp add: bm_bit_def add.commute)

lemma at_ptr_bit:
  assumes "b + p div 32 < length xs"
  shows "at_ptr b (set_bit32 p) xs = set_bit32 (32 * b + p) xs" "at_ptr b (clear_bit32 p) xs = clear_bit32 (32 * b + p) xs"
  using assms by (simp_all add: at_ptr_def set_bit32_def clear_bit32_def drop_update_swap [symmetric] upd_conv_take_nth_drop take_add add.commute)

lemma group_index:
  assumes "p < n" "q < n"
  shows "g * n + p = h * n + q \<longleftrightarrow> g = h \<and> p = (q :: nat)"
proof -
  have "(g * n + p) div n = g" "(g * n + p) mod n = p" if "p < n" for g p using that by simp_all
  from this [OF assms(1), of g] this [OF assms(2), of h] show ?thesis by metis
qed

lemma pending_index: "p < n \<Longrightarrow> q < n \<Longrightarrow> 32 * (g * n) + p = 32 * (h * n) + q \<longleftrightarrow> g = h \<and> p = (q :: nat)"
  using group_index [of p n q "32 * g" "32 * h"] by (simp add: mult.assoc)

lemma group_fits:
  assumes "g < m"
  shows "g * n + n \<le> m * (n :: nat)" "k < n \<Longrightarrow> g * n + k < m * n"
proof -
  show "g * n + n \<le> m * n" using mult_le_mono1 [of "Suc g" m n] assms by simp
  then show "k < n \<Longrightarrow> g * n + k < m * n" by linarith
qed

lemma any_pending:
  assumes "gpio_wf s" "g < irq_group_count s"
  shows "gpio_any_pending g s \<longleftrightarrow> (\<exists>p < pin_count s. gpio_pending s g p)"
proof -
  have "g * pin_count s \<le> length (int_config s)" using assms by (simp add: gpio_wf_def)
  then have "bm_bit (drop (g * pin_count s) (int_config s)) p = gpio_pending s g p" for p by (simp add: gpio_pending_def bm_bit_drop)
  then have "next_bit_spec (gpio_pending s g) (pin_count s) 0 (find_first_bit32 (drop (g * pin_count s) (int_config s)) (pin_count s))"
    using find_first_bit32_spec [of "drop (g * pin_count s) (int_config s)" "pin_count s"] by (simp add: next_bit_spec_def)
  then show ?thesis unfolding gpio_any_pending_def
    by (cases "find_first_bit32 (drop (g * pin_count s) (int_config s)) (pin_count s) < pin_count s") (auto simp: next_bit_spec_def)
qed

lemma int_bit_ok:
  assumes "gpio_wf s" "g < irq_group_count s" "p < pin_count s"
  shows "gpio_int_bit set_bit32 g p s = Inr (s\<lparr>int_config := set_bit32 (32 * (g * pin_count s) + p) (int_config s)\<rparr>)"
    "gpio_int_bit clear_bit32 g p s = Inr (s\<lparr>int_config := clear_bit32 (32 * (g * pin_count s) + p) (int_config s)\<rparr>)"
proof -
  have "g * pin_count s + p div 32 < length (int_config s)"
    using assms group_fits(2) [of g "irq_group_count s" "p div 32" "pin_count s"] by (simp add: gpio_wf_def)
  then show "gpio_int_bit set_bit32 g p s = Inr (s\<lparr>int_config := set_bit32 (32 * (g * pin_count s) + p) (int_config s)\<rparr>)"
    "gpio_int_bit clear_bit32 g p s = Inr (s\<lparr>int_config := clear_bit32 (32 * (g * pin_count s) + p) (int_config s)\<rparr>)"
    by (simp_all add: gpio_int_bit_def at_ptr_bit)
qed

text \<open>Every update of a pending bit ends with the line of its group.\<close>

definition gpio_sets :: "nat \<Rightarrow> nat \<Rightarrow> bool \<Rightarrow> AppleGPIOState \<Rightarrow> AppleGPIOState \<Rightarrow> bool" where
  "gpio_sets g p b s t \<longleftrightarrow> (\<forall>h q. q < pin_count s \<longrightarrow> gpio_pending t h q = (if h = g \<and> q = p then b else gpio_pending s h q))"

lemma group_irq_ok:
  assumes wf: "gpio_wf s" and g: "g < irq_group_count s" and p: "p < pin_count s"
    and s': "s' = s\<lparr>gpio_in := ins, int_config := cfg, in_old := ins\<rparr>" "length cfg = length (int_config s)" "length ins = length (gpio_in s)"
    and b: "gpio_sets g p b s s'"
  shows "\<exists>t. gpio_set_group_irq g s' = Inr t \<and> gpio_wf t \<and> (gpio_lines s \<longrightarrow> gpio_lines t) \<and> gpio_sets g p b s t \<and>
    (\<exists>l. t = s'\<lparr>gpio_irqs := l\<rparr>)"
proof -
  have wf': "gpio_wf s'" using wf s' by (simp add: gpio_wf_def)
  have n: "pin_count s' = pin_count s" "irq_group_count s' = irq_group_count s" "gpio_irqs s' = gpio_irqs s" using s' by simp_all
  define t where "t = s'\<lparr>gpio_irqs := (gpio_irqs s')[g := gpio_any_pending g s']\<rparr>"
  have "(pin_count s + 31) div 32 \<le> pin_count s" using p by linarith
  then have "g * pin_count s + (pin_count s + 31) div 32 \<le> length (int_config s')"
    using group_fits(1) [OF g, of "pin_count s"] wf s' by (simp add: gpio_wf_def)
  then have "gpio_set_group_irq g s' = Inr t" using wf' g n by (auto simp: gpio_set_group_irq_def t_def gpio_wf_def)
  moreover have pt: "gpio_pending t h q = gpio_pending s' h q" for h q by (simp add: gpio_pending_def t_def)
  moreover have "gpio_lines t" if "gpio_lines s"
    unfolding gpio_lines_def
  proof (intro allI impI)
    fix h assume h: "h < irq_group_count t"
    have len: "length (gpio_irqs s) = irq_group_count s" using wf by (simp add: gpio_wf_def)
    show "gpio_irqs t ! h \<longleftrightarrow> (\<exists>p < pin_count t. gpio_pending t h p)"
    proof (cases "h = g")
      case True
      then show ?thesis using any_pending [OF wf', of g] h len n pt by (simp add: t_def)
    next
      case False
      then show ?thesis using that b h n pt by (auto simp: t_def gpio_lines_def gpio_sets_def)
    qed
  qed
  moreover have "gpio_wf t" using wf' by (simp add: gpio_wf_def t_def)
  ultimately show ?thesis using b by (auto simp: gpio_sets_def t_def)
qed

lemma gpio_sets_bit:
  assumes wf: "gpio_wf s" and g: "g < irq_group_count s" and p: "p < pin_count s"
  shows "gpio_sets g p True s (s\<lparr>int_config := set_bit32 (32 * (g * pin_count s) + p) (int_config s)\<rparr>)"
    "gpio_sets g p False s (s\<lparr>int_config := clear_bit32 (32 * (g * pin_count s) + p) (int_config s)\<rparr>)"
proof -
  have "32 * (g * pin_count s) + p < 32 * length (int_config s)"
    using wf group_fits(2) [OF g p] p by (simp add: gpio_wf_def)
  then show "gpio_sets g p True s (s\<lparr>int_config := set_bit32 (32 * (g * pin_count s) + p) (int_config s)\<rparr>)"
    "gpio_sets g p False s (s\<lparr>int_config := clear_bit32 (32 * (g * pin_count s) + p) (int_config s)\<rparr>)"
    using p by (auto simp: gpio_sets_def gpio_pending_def bm_bit_set_bit32 bm_bit_clear_bit32 pending_index)
qed

lemma gpio_sets_same: "gpio_sets g p (gpio_pending s g p) s (s\<lparr>gpio_in := i, in_old := j\<rparr>)"
  by (simp add: gpio_sets_def gpio_pending_def)

subsection \<open>Level changes\<close>

lemma gpio_set_effect:
  fixes level :: bool
  assumes wf: "gpio_wf s" and pin: "pin < pin_count s"
  defines "cfg \<equiv> gpio_cfg s ! pin"
  defines "b \<equiv> gpio_pending s (gpio_group cfg) pin \<or> cfg AND INT_MASKED \<noteq> INT_MASKED \<and> gpio_triggers cfg (pin_level s pin) level"
  shows "\<exists>t. apple_gpio_set pin level s = Inr t \<and> gpio_wf t \<and> (gpio_lines s \<longrightarrow> gpio_lines t) \<and>
    gpio_sets (gpio_group cfg) pin b s t \<and> (\<forall>q. pin_level t q = (if q = pin then level else pin_level s q)) \<and>
    pin_count t = pin_count s \<and> irq_group_count t = irq_group_count s \<and> gpio_cfg t = gpio_cfg s \<and> gpio_out t = gpio_out s"
proof -
  let ?in = "if level then set_bit32 pin (gpio_in s) else clear_bit32 pin (gpio_in s)"
  let ?g = "gpio_group cfg"
  have len: "pin div 32 < length (gpio_in s)" "in_old s = gpio_in s" "length (gpio_cfg s) = pin_count s"
    using wf pin by (auto simp: gpio_wf_def)
  then have lin: "pin < 32 * length (gpio_in s)" by linarith
  have upd: "(gpio_in s)[pin div 32 := ?in ! (pin div 32)] = ?in" "length ?in = length (gpio_in s)"
    using len(1) by (simp_all add: set_bit32_def clear_bit32_def)
  have lev: "bm_bit ?in q = (if q = pin then level else pin_level s q)" for q
    using lin by (auto simp: bm_bit_set_bit32 bm_bit_clear_bit32)
  show ?thesis
  proof (cases "cfg AND INT_MASKED = INT_MASKED")
    case True
    let ?t = "s\<lparr>gpio_in := ?in, in_old := ?in\<rparr>"
    have "apple_gpio_set pin level s = Inr ?t"
      using True len upd pin by (simp add: apple_gpio_set_def Let_def cfg_def)
    moreover have "gpio_wf ?t" "gpio_lines s \<longrightarrow> gpio_lines ?t" using wf upd(2) by (simp_all add: gpio_wf_def gpio_lines_def gpio_pending_def)
    moreover have "b = gpio_pending s ?g pin" using True by (simp add: b_def)
    ultimately show ?thesis using gpio_sets_same [of ?g pin s] lev by simp
  next
    case False
    then have g: "?g < irq_group_count s" using wf pin by (auto simp: gpio_wf_def cfg_def list_all_length)
    let ?trig = "gpio_triggers cfg (pin_level s pin) level"
    let ?c = "if ?trig then set_bit32 (32 * (?g * pin_count s) + pin) (int_config s) else int_config s"
    let ?u = "s\<lparr>gpio_in := ?in, int_config := ?c, in_old := ?in\<rparr>"
    have "?g * pin_count s + pin div 32 < length (int_config s)"
      using wf group_fits(2) [OF g, of "pin div 32" "pin_count s"] pin by (simp add: gpio_wf_def)
    then have run: "apple_gpio_set pin level s = gpio_set_group_irq ?g ?u"
      using False len upd pin
      by (cases ?trig) (simp_all add: apple_gpio_set_def Let_def cfg_def [symmetric] gpio_int_bit_def at_ptr_bit)
    have "length ?c = length (int_config s)" by (simp add: set_bit32_def)
    moreover have "gpio_sets ?g pin b s ?u"
      using gpio_sets_bit(1) [OF wf g pin] gpio_sets_same [of ?g pin s] False
      by (cases ?trig) (auto simp: gpio_sets_def b_def gpio_pending_def)
    ultimately show ?thesis using group_irq_ok [OF wf g pin refl, of ?c ?in b] upd(2) lev unfolding run by auto
  qed
qed

subsection \<open>Register accesses\<close>

text \<open>The data bit of a configuration word does not matter to its interrupt group.\<close>

lemma cfg_data_bit:
  "(v OR DATA_1) AND INT_MASKED = v AND INT_MASKED" "(v AND NOT DATA_1) AND INT_MASKED = v AND INT_MASKED"
  "gpio_group (v OR DATA_1) = gpio_group v" "gpio_group (v AND NOT DATA_1) = gpio_group v"
proof -
  have "(1 AND 0x70000 :: u32) = 0" "(NOT 1 AND 0x70000 :: u32) = 0x70000" by code_simp+
  then show m: "(v OR DATA_1) AND INT_MASKED = v AND INT_MASKED" "(v AND NOT DATA_1) AND INT_MASKED = v AND INT_MASKED"
    by (simp_all add: bit.conj_disj_distrib2 and.assoc)
  then show "gpio_group (v OR DATA_1) = gpio_group v" "gpio_group (v AND NOT DATA_1) = gpio_group v"
    by (simp_all add: gpio_group_def)
qed

definition gpio_cfg_ok :: "nat \<Rightarrow> u32 \<Rightarrow> bool" where
  "gpio_cfg_ok n c \<longleftrightarrow> c AND INT_MASKED = INT_MASKED \<or> gpio_group c < n"

lemma gpio_cfg_ok_data: "gpio_cfg_ok n (v OR DATA_1) = gpio_cfg_ok n v" "gpio_cfg_ok n (v AND NOT DATA_1) = gpio_cfg_ok n v"
  by (simp_all only: gpio_cfg_ok_def cfg_data_bit)

lemma wf_set_cfg:
  assumes "gpio_wf s" "gpio_cfg_ok (irq_group_count s) v"
  shows "gpio_wf (s\<lparr>gpio_cfg := (gpio_cfg s)[pin := v]\<rparr>)"
  using assms set_update_subset_insert [of "gpio_cfg s" pin v] by (auto simp: gpio_wf_def list_all_iff gpio_cfg_ok_def)

lemma pin_out_ok:
  assumes wf: "gpio_wf s" and pin: "pin < pin_count s" and ok: "gpio_cfg_ok (irq_group_count s) v"
  shows "\<exists>t. gpio_pin_out pin v s = Inr t \<and> gpio_wf t \<and> (gpio_lines s \<longrightarrow> gpio_lines t) \<and> gpio_pending t = gpio_pending s \<and>
    gpio_in t = gpio_in s \<and> pin_count t = pin_count s \<and> irq_group_count t = irq_group_count s"
proof -
  have len: "pin < length (gpio_cfg s)" "pin < length (gpio_out s)" using wf pin by (simp_all add: gpio_wf_def)
  have "\<exists>c out. gpio_pin_out pin v s = Inr (s\<lparr>gpio_cfg := (gpio_cfg s)[pin := c], gpio_out := out\<rparr>) \<and>
      c \<in> {v, v OR DATA_1, v AND NOT DATA_1} \<and> length out = length (gpio_out s)"
  proof (cases "v AND FUNC_MASK \<noteq> 0 \<and> (v AND FUNC_MASK \<noteq> FUNC_ALT0 \<or> v AND CFG_MASK = CFG_DISABLE)")
    case True
    then have "gpio_pin_out pin v s = Inr (s\<lparr>gpio_cfg := (gpio_cfg s)[pin := v], gpio_out := gpio_out s\<rparr>)"
      using len by (auto simp: gpio_pin_out_def Let_def)
    then show ?thesis by (intro exI [of _ v] exI [of _ "gpio_out s"]) simp
  next
    case False
    then have "gpio_pin_out pin v s = Inr (s\<lparr>gpio_cfg := (gpio_cfg s)[pin := if v AND FUNC_MASK = 0 then v
          else if v AND CFG_MASK = CFG_GP_OUT then v AND NOT DATA_1 else v OR DATA_1],
        gpio_out := (gpio_out s)[pin := v AND FUNC_MASK = 0 \<and> v AND CFG_MASK = CFG_GP_OUT \<longrightarrow> v AND DATA_1 \<noteq> 0]\<rparr>)"
      using len by (auto simp: gpio_pin_out_def Let_def)
    then show ?thesis by (intro exI conjI, assumption) simp_all
  qed
  then obtain c out where c: "gpio_pin_out pin v s = Inr (s\<lparr>gpio_cfg := (gpio_cfg s)[pin := c], gpio_out := out\<rparr>)"
      "c \<in> {v, v OR DATA_1, v AND NOT DATA_1}" "length out = length (gpio_out s)" by blast
  let ?t = "s\<lparr>gpio_cfg := (gpio_cfg s)[pin := c], gpio_out := out\<rparr>"
  have "gpio_cfg_ok (irq_group_count s) c" using c(2) ok gpio_cfg_ok_data by auto
  then have "gpio_wf ?t" using wf_set_cfg [OF wf, of c pin] c(3) by (simp add: gpio_wf_def)
  moreover have "gpio_pending ?t = gpio_pending s" by (simp add: gpio_pending_def fun_eq_iff)
  ultimately show ?thesis using c(1) by (auto simp: gpio_lines_def)
qed

text \<open>What a configuration leaves pending for a pin: a level interrupt whose level is there already.\<close>

definition gpio_cfg_pending :: "u32 \<Rightarrow> bool \<Rightarrow> bool \<Rightarrow> bool" where
  "gpio_cfg_pending v old level \<longleftrightarrow> (if v AND INT_MASKED = INT_MASKED then old
     else v AND CFG_MASK = CFG_INT_LVL_HI \<and> level \<or> v AND CFG_MASK = CFG_INT_LVL_LO \<and> \<not> level)"

lemma pin_int_ok:
  assumes wf: "gpio_wf s" and pin: "pin < pin_count s" and ok: "gpio_cfg_ok (irq_group_count s) v"
  defines "b \<equiv> gpio_cfg_pending v (gpio_pending s (gpio_group v) pin) (pin_level s pin)"
  shows "\<exists>t. gpio_pin_int pin v s = Inr t \<and> gpio_wf t \<and> (gpio_lines s \<longrightarrow> gpio_lines t) \<and> gpio_sets (gpio_group v) pin b s t \<and>
    gpio_in t = gpio_in s \<and> pin_count t = pin_count s \<and> irq_group_count t = irq_group_count s"
proof (cases "v AND INT_MASKED = INT_MASKED")
  case True
  then show ?thesis using wf by (simp add: gpio_pin_int_def gpio_sets_def b_def gpio_cfg_pending_def)
next
  case False
  let ?g = "gpio_group v"
  let ?i = "32 * (?g * pin_count s) + pin"
  have g: "?g < irq_group_count s" using False ok by (simp add: gpio_cfg_ok_def)
  let ?u = "s\<lparr>int_config := clear_bit32 ?i (int_config s)\<rparr>"
  let ?c = "if b then set_bit32 ?i (clear_bit32 ?i (int_config s)) else clear_bit32 ?i (int_config s)"
  let ?w = "s\<lparr>gpio_in := gpio_in s, int_config := ?c, in_old := gpio_in s\<rparr>"
  have wu: "gpio_wf ?u" using wf by (simp add: gpio_wf_def clear_bit32_def)
  have w: "?w = s\<lparr>int_config := ?c\<rparr>" using wf by (cases s) (simp add: gpio_wf_def)
  have c: "length ?c = length (int_config s)" by (simp add: set_bit32_def clear_bit32_def)
  have "gpio_sets ?g pin b s ?w" unfolding w
    using gpio_sets_bit(1) [OF wu, of ?g pin] gpio_sets_bit(2) [OF wf g pin] g pin by (cases b) (simp_all add: gpio_sets_def gpio_pending_def)
  then obtain t where t: "gpio_set_group_irq ?g ?w = Inr t" "gpio_wf t" "gpio_lines s \<longrightarrow> gpio_lines t" "gpio_sets ?g pin b s t"
      "\<exists>l. t = ?w\<lparr>gpio_irqs := l\<rparr>"
    using group_irq_ok [OF wf g pin refl c, of "gpio_in s" b] by blast
  have "gpio_int_bit set_bit32 ?g pin ?u = Inr (s\<lparr>int_config := set_bit32 ?i (clear_bit32 ?i (int_config s))\<rparr>)"
    using int_bit_ok(1) [OF wu, of ?g pin] g pin by simp
  then have "gpio_pin_int pin v s = gpio_set_group_irq ?g (s\<lparr>int_config := ?c\<rparr>)"
    using False int_bit_ok(2) [OF wf g pin] by (auto simp: gpio_pin_int_def b_def gpio_cfg_pending_def)
  then show ?thesis using t unfolding w by auto
qed

lemma pincfg_effect:
  assumes wf: "gpio_wf s" and pin: "pin < pin_count s" and ok: "gpio_cfg_ok (irq_group_count s) v"
  shows "\<exists>t. apple_gpio_update_pincfg pin v s = Inr t \<and> gpio_wf t \<and> (gpio_lines s \<longrightarrow> gpio_lines t) \<and>
    gpio_sets (gpio_group v) pin (gpio_cfg_pending v (gpio_pending s (gpio_group v) pin) (pin_level s pin)) s t \<and>
    gpio_in t = gpio_in s \<and> pin_count t = pin_count s \<and> irq_group_count t = irq_group_count s"
proof -
  obtain u where u: "gpio_pin_int pin v s = Inr u" "gpio_wf u" "gpio_lines s \<longrightarrow> gpio_lines u"
      "gpio_sets (gpio_group v) pin (gpio_cfg_pending v (gpio_pending s (gpio_group v) pin) (pin_level s pin)) s u"
      "gpio_in u = gpio_in s" "pin_count u = pin_count s" "irq_group_count u = irq_group_count s"
    using pin_int_ok [OF wf pin ok] by blast
  then show ?thesis using pin_out_ok [of u pin v] pin ok by (auto simp: apple_gpio_update_pincfg_def gpio_sets_def)
qed

text \<open>Acknowledging clears exactly the bits written as 1 and lowers the line when none is left.\<close>

lemma int_write_effect:
  assumes wf: "gpio_wf s" and g: "g < irq_group_count s" and o: "k < 16" "16 \<le> pin_count s"
  shows "\<exists>t. apple_gpio_int_write g (REG_GPIOINT g 0 + 4 * k) v s = Inr t \<and> gpio_wf t \<and> (gpio_lines s \<longrightarrow> gpio_lines t) \<and>
    pin_count t = pin_count s \<and> irq_group_count t = irq_group_count s \<and> gpio_in t = gpio_in s \<and>
    (\<forall>h q. q < pin_count s \<longrightarrow> gpio_pending t h q \<longleftrightarrow> gpio_pending s h q \<and> \<not> (h = g \<and> q div 32 = k \<and> bit v (q mod 32)))"
proof -
  let ?i = "g * pin_count s + k"
  let ?u = "s\<lparr>int_config := (int_config s)[?i := int_config s ! ?i AND NOT v]\<rparr>"
  define t where "t = (if gpio_any_pending g ?u then ?u else ?u\<lparr>gpio_irqs := (gpio_irqs s)[g := False]\<rparr>)"
  have t: "gpio_irqs t = (if gpio_any_pending g ?u then gpio_irqs s else (gpio_irqs s)[g := False])" "pin_count t = pin_count s"
      "irq_group_count t = irq_group_count s" "gpio_in t = gpio_in s" "gpio_pending t = gpio_pending ?u"
    by (simp_all add: t_def gpio_pending_def fun_eq_iff)
  have len: "?i < length (int_config s)" "g < length (gpio_irqs s)"
    using wf g group_fits(2) [OF g, of k "pin_count s"] o by (simp_all add: gpio_wf_def)
  have wu: "gpio_wf ?u" using wf by (simp add: gpio_wf_def)
  have p: "gpio_pending ?u h q \<longleftrightarrow> gpio_pending s h q \<and> \<not> (h = g \<and> q div 32 = k \<and> bit v (q mod 32))" if "q < pin_count s" for h q
  proof -
    have "h * pin_count s + q div 32 = ?i \<longleftrightarrow> h = g \<and> q div 32 = k"
      using group_index [of "q div 32" "pin_count s" k h g] that o by auto
    then show ?thesis using bm_bit_word_andnot [OF len(1), of v "32 * (h * pin_count s) + q"] by (simp add: gpio_pending_def)
  qed
  have "gpio_irqs t ! h \<longleftrightarrow> (\<exists>p < pin_count s. gpio_pending t h p)" if "gpio_lines s" "h < irq_group_count s" for h
  proof (cases "h = g")
    case True
    then show ?thesis using any_pending [OF wu, of g] that len(2) p t(1,5) by (auto simp: gpio_lines_def)
  next
    case False
    then show ?thesis using that p t(1,5) by (auto simp: gpio_lines_def)
  qed
  then have "gpio_lines s \<longrightarrow> gpio_lines t" using t by (simp add: gpio_lines_def)
  moreover have "gpio_wf t" using wu by (simp add: gpio_wf_def t_def)
  moreover have "apple_gpio_int_write g (REG_GPIOINT g 0 + 4 * k) v s = Inr t"
    using g len by (simp add: apple_gpio_int_write_def Let_def t_def)
  ultimately show ?thesis using p t by auto
qed

subsection \<open>Sequences of operations\<close>

datatype gpio_op = GpioPin nat bool | GpioWrite hwaddr u64 | GpioRead hwaddr | GpioReset

fun gpio_step :: "gpio_op \<Rightarrow> AppleGPIOState \<Rightarrow> AppleGPIOState res" where
  "gpio_step (GpioPin pin level) s = apple_gpio_set pin level s"
| "gpio_step (GpioWrite a v) s = apple_gpio_reg_write a v s"
| "gpio_step (GpioRead a) s = rbind (apple_gpio_reg_read a s) (\<lambda>_. Inr s)"
| "gpio_step GpioReset s = Inr (apple_gpio_reset s)"

text \<open>Accesses are aligned, and a configuration written names a group the controller has, or none.\<close>

fun gpio_op_ok :: "nat \<Rightarrow> gpio_op \<Rightarrow> bool" where
  "gpio_op_ok n (GpioWrite a v) \<longleftrightarrow> a mod 4 = 0 \<and> (a < 0x800 \<longrightarrow> gpio_cfg_ok n (ucast v))"
| "gpio_op_ok n (GpioRead a) \<longleftrightarrow> a mod 4 = 0"
| "gpio_op_ok n _ \<longleftrightarrow> True"

definition gpio_inv :: "nat \<Rightarrow> AppleGPIOState \<Rightarrow> bool" where
  "gpio_inv n s \<longleftrightarrow> gpio_wf s \<and> 16 \<le> pin_count s \<and> irq_group_count s = n"

lemma int_addr:
  assumes "REG_GPIOINT 0 0 \<le> a" "a mod 4 = 0"
  obtains k where "a = REG_GPIOINT ((a - REG_GPIOINT 0 0) div 64) 0 + 4 * k" "k < 16"
proof
  show "(a - REG_GPIOINT 0 0) mod 64 div 4 < 16" by simp
  have "4 dvd a - 0x800" using assms by (auto intro: dvd_diff_nat)
  then have "4 dvd (a - 0x800) mod 64" by (simp add: dvd_mod)
  then have "4 * ((a - 0x800) mod 64 div 4) = (a - 0x800) mod 64" by simp
  moreover have "a - 0x800 = (a - 0x800) div 64 * 64 + (a - 0x800) mod 64" by simp
  ultimately show "a = REG_GPIOINT ((a - REG_GPIOINT 0 0) div 64) 0 + 4 * ((a - REG_GPIOINT 0 0) mod 64 div 4)"
    using assms(1) by simp
qed

lemma reg_write_ok:
  assumes inv: "gpio_inv n s" and a: "a mod 4 = 0" "a < 0x800 \<longrightarrow> gpio_cfg_ok n (ucast v)"
  shows "\<exists>t. apple_gpio_reg_write a v s = Inr t \<and> gpio_inv n t \<and> (gpio_lines s \<longrightarrow> gpio_lines t)"
proof -
  have wf: "gpio_wf s" "16 \<le> pin_count s" "irq_group_count s = n" using inv by (simp_all add: gpio_inv_def)
  consider (cfg) "a < 0x800" | (int) "0x800 \<le> a" "a \<le> 0xA00" | (other) "0xA00 < a" by linarith
  then show ?thesis
  proof cases
    case cfg
    then have le: "a \<le> 0x7FC" using a(1) by presburger
    show ?thesis
    proof (cases "a div 4 < pin_count s")
      case True
      then show ?thesis using pincfg_effect [OF wf(1), of "a div 4" "ucast v"] a(2) cfg le wf
        by (auto simp: apple_gpio_reg_write_def apple_gpio_cfg_write_def gpio_inv_def)
    qed (use le inv in \<open>simp add: apple_gpio_reg_write_def apple_gpio_cfg_write_def\<close>)
  next
    case int
    let ?g = "(a - REG_GPIOINT 0 0) div 64"
    have eq: "apple_gpio_reg_write a v s = apple_gpio_int_write ?g a (ucast v) s" using int by (simp add: apple_gpio_reg_write_def)
    show ?thesis
    proof (cases "?g < n")
      case True
      obtain k where "a = REG_GPIOINT ?g 0 + 4 * k" "k < 16" using int_addr [of a] int(1) a(1) by auto
      then show ?thesis using int_write_effect [OF wf(1), of ?g k "ucast v"] True wf unfolding eq by (auto simp: gpio_inv_def)
    qed (use inv wf in \<open>simp add: eq apple_gpio_int_write_def\<close>)
  next
    case other
    then show ?thesis using inv by (auto simp: apple_gpio_reg_write_def gpio_inv_def gpio_wf_def gpio_lines_def gpio_pending_def)
  qed
qed

lemma reg_read_ok:
  assumes inv: "gpio_inv n s" and a: "a mod 4 = 0"
  shows "\<exists>r. apple_gpio_reg_read a s = Inr r"
proof (cases "0x7FC < a \<and> 0x800 \<le> a \<and> a \<le> 0xA00 \<and> (a - REG_GPIOINT 0 0) div 64 < n")
  case True
  let ?g = "(a - REG_GPIOINT 0 0) div 64"
  obtain k where k: "a = REG_GPIOINT ?g 0 + 4 * k" "k < 16" using int_addr [of a] True a by auto
  then have "(a - REG_GPIOINT ?g 0) div 4 = k" by simp
  then show ?thesis using True k(2) inv group_fits(2) [of ?g n k "pin_count s"]
    by (auto simp: apple_gpio_reg_read_def apple_gpio_int_read_def gpio_inv_def gpio_wf_def Let_def)
qed (use inv in \<open>auto simp: apple_gpio_reg_read_def apple_gpio_int_read_def gpio_inv_def\<close>)

lemma reset_ok: "gpio_inv n s \<Longrightarrow> gpio_inv n (apple_gpio_reset s)"
proof -
  have "(14 OR 0x70000 :: u32) AND 0x70000 = 0x70000" by code_simp
  then show "gpio_inv n s \<Longrightarrow> gpio_inv n (apple_gpio_reset s)"
    by (auto simp: gpio_inv_def gpio_wf_def apple_gpio_reset_def list_all_length)
qed

lemma gpio_step_ok:
  assumes "gpio_op_ok n x" "gpio_inv n s"
  shows "\<exists>t. gpio_step x s = Inr t \<and> gpio_inv n t \<and> (x \<noteq> GpioReset \<and> gpio_lines s \<longrightarrow> gpio_lines t)"
proof (cases x)
  case (GpioPin pin level)
  then show ?thesis using gpio_set_effect [of s pin level] assms(2)
    by (cases "pin < pin_count s") (auto simp: gpio_inv_def apple_gpio_set_def)
next
  case (GpioWrite a v)
  then show ?thesis using reg_write_ok [OF assms(2), of a v] assms(1) by auto
next
  case (GpioRead a)
  then show ?thesis using reg_read_ok [OF assms(2), of a] assms by auto
qed (use assms(2) reset_ok in auto)

interpretation gpio: safe_device gpio_step "gpio_op_ok n" "gpio_inv n" for n
  by unfold_locales (use gpio_step_ok in blast)

interpretation gpio_line: safe_device gpio_step "\<lambda>x. gpio_op_ok n x \<and> x \<noteq> GpioReset" "\<lambda>s. gpio_inv n s \<and> gpio_lines s" for n
  by unfold_locales (use gpio_step_ok in blast)

lemma gpio_new_ok:
  assumes "16 \<le> unat pins" "unat pins < GPIO_MAX_PIN_NR" "0 < groups" "unat groups * unat pins < 2 ^ 32"
  shows "\<exists>s. apple_gpio_new pins groups = Inr s \<and> gpio_inv (unat groups) s \<and> gpio_lines s"
proof -
  have "unat (groups * pins) = unat groups * unat pins" using assms(4) by (simp add: unat_word_ariths)
  moreover have "0 < unat groups" using assms(3) by (simp add: word_gt_0 unat_gt_0)
  moreover have "bm_bit (replicate m 0) i = False" if "i div 32 < m" for m i using that by (simp add: bm_bit_def)
  moreover have "(32 * (g * unat pins) + p) div 32 < unat groups * unat pins" if "g < unat groups" "p < unat pins" for g p
    using group_fits(2) [OF that(1), of "p div 32" "unat pins"] that(2) by simp
  ultimately show ?thesis using assms(1,2)
    by (auto simp: apple_gpio_new_def gpio_inv_def gpio_wf_def gpio_lines_def gpio_pending_def gpio_group_def list_all_length)
qed

text \<open>
  Property C17 (invariant). From a new controller with at least 16 pins, every sequence of level changes
  of its pins, aligned register accesses that only configure groups the controller has, and resets runs
  without fault and keeps the arrays well-formed. As long as the device is not reset, the line of a group
  is high exactly when an interrupt of one of the pins is pending in it.
\<close>

theorem gpio_run_safe:
  assumes "16 \<le> unat pins" "unat pins < GPIO_MAX_PIN_NR" "0 < groups" "unat groups * unat pins < 2 ^ 32"
    and "list_all (gpio_op_ok (unat groups)) xs"
  shows "\<exists>s t. apple_gpio_new pins groups = Inr s \<and> run_res gpio_step xs s = Inr t \<and> gpio_wf t \<and>
    (GpioReset \<notin> set xs \<longrightarrow> gpio_lines t)"
proof -
  obtain s where s: "apple_gpio_new pins groups = Inr s" "gpio_inv (unat groups) s" "gpio_lines s" using gpio_new_ok [OF assms(1-4)] by blast
  obtain t where t: "run_res gpio_step xs s = Inr t" "gpio_inv (unat groups) t" using gpio.run_safe [OF assms(5) s(2)] by blast
  have "gpio_lines t" if "GpioReset \<notin> set xs"
  proof -
    have "list_all (\<lambda>x. gpio_op_ok (unat groups) x \<and> x \<noteq> GpioReset) xs" using that assms(5) by (auto simp: list_all_iff)
    then show ?thesis using gpio_line.run_safe [of "unat groups" xs s] s t(1) by auto
  qed
  then show ?thesis using s(1) t by (auto simp: gpio_inv_def)
qed

theorem gpio_run_safe_witness:
  "\<exists>s t. apple_gpio_new 32 2 = Inr s \<and> run_res gpio_step [GpioWrite 0x14 0x10208, GpioPin 5 True, GpioRead 0x840, GpioWrite 0x840 0x20] s = Inr t \<and>
     gpio_lines t"
proof -
  have "list_all (gpio_op_ok (unat (2 :: u32))) [GpioWrite 0x14 0x10208, GpioPin 5 True, GpioRead 0x840, GpioWrite 0x840 0x20]"
    unfolding gpio_op_ok.simps gpio_cfg_ok_def gpio_group_def by code_simp
  from gpio_run_safe [OF _ _ _ _ this, of 32] show ?thesis by auto
qed

text \<open>
  Property C21 (functional). However the level of a pin changes, its interrupt is pending afterwards exactly if it was before or one
  of the changes triggers it: a high or low level, a rising or falling edge or any edge between one level
  and the next, as its configuration says. A masked pin never triggers, and no other interrupt changes.
\<close>

theorem gpio_level_changes:
  fixes ls :: "bool list"
  assumes "gpio_wf s" "pin < pin_count s"
  defines "cfg \<equiv> gpio_cfg s ! pin"
  shows "\<exists>t. run_res gpio_step (map (GpioPin pin) ls) s = Inr t \<and> gpio_wf t \<and> pin_level t pin = last (pin_level s pin # ls) \<and>
    (\<forall>g p. p < pin_count s \<longrightarrow> gpio_pending t g p \<longleftrightarrow> gpio_pending s g p \<or>
       p = pin \<and> g = gpio_group cfg \<and> cfg AND INT_MASKED \<noteq> INT_MASKED \<and>
       list_ex (\<lambda>(a, b). gpio_triggers cfg a b) (zip (pin_level s pin # ls) ls))"
  using assms(1,2) unfolding cfg_def
proof (induction ls arbitrary: s)
  case (Cons l ls)
  let ?cfg = "gpio_cfg s ! pin"
  obtain u where u: "apple_gpio_set pin l s = Inr u" "gpio_wf u" "\<forall>q. pin_level u q = (if q = pin then l else pin_level s q)"
      "gpio_sets (gpio_group ?cfg) pin (gpio_pending s (gpio_group ?cfg) pin \<or> ?cfg AND INT_MASKED \<noteq> INT_MASKED \<and> gpio_triggers ?cfg (pin_level s pin) l) s u"
      "pin_count u = pin_count s" "gpio_cfg u = gpio_cfg s"
    using gpio_set_effect [OF Cons.prems, of l] by blast
  show ?case using Cons.IH [of u] Cons.prems(2) u by (auto simp: gpio_sets_def)
qed simp

text \<open>A controller with pin 5 configured for rising edges in group 1.\<close>

definition gpio_demo :: AppleGPIOState where
  "gpio_demo = projr (rbind (apple_gpio_new 32 2) (apple_gpio_reg_write 0x14 0x10208))"

theorem gpio_level_changes_witness:
  "\<exists>t. run_res gpio_step (map (GpioPin 5) [True, False]) gpio_demo = Inr t \<and> gpio_pending t 1 5 \<and> \<not> pin_level t 5 \<and> \<not> gpio_pending t 1 6"
proof -
  have wf: "gpio_wf gpio_demo" "5 < pin_count gpio_demo" by code_simp+
  have facts: "gpio_group (gpio_cfg gpio_demo ! 5) = 1" "gpio_cfg gpio_demo ! 5 AND INT_MASKED \<noteq> INT_MASKED" "6 < pin_count gpio_demo"
      "gpio_triggers (gpio_cfg gpio_demo ! 5) False True" "pin_level gpio_demo 5 = False" "gpio_pending gpio_demo 1 6 = False"
    by code_simp+
  show ?thesis using gpio_level_changes [OF wf, of "[True, False]"] facts wf(2) by auto
qed

text \<open>
  The group of a configuration is not checked: for one the controller does not
  have, setting up the interrupt of the pin accesses the pending bits past their array.
\<close>

theorem gpio_group_unchecked:
  assumes wf: "gpio_wf s" and pin: "pin < pin_count s" "pin < GPIO_MAX_PIN_NR"
    and v: "ucast v AND INT_MASKED \<noteq> INT_MASKED" "irq_group_count s \<le> gpio_group (ucast v)"
  shows "apple_gpio_reg_write (REG_GPIOCFG pin) v s = Inl OutOfBounds"
proof -
  have "length (int_config s) \<le> gpio_group (ucast v) * pin_count s + pin div 32"
    using wf by (auto simp: gpio_wf_def intro!: trans_le_add1 mult_le_mono1 [OF v(2)])
  then have "apple_gpio_update_pincfg pin (ucast v) s = Inl OutOfBounds"
    using v(1) by (simp add: apple_gpio_update_pincfg_def gpio_pin_int_def gpio_int_bit_def)
  then show ?thesis using pin by (simp add: apple_gpio_reg_write_def apple_gpio_cfg_write_def)
qed

theorem gpio_group_unchecked_witness: "apple_gpio_reg_write (REG_GPIOCFG 5) 0x60208 gpio_demo = Inl OutOfBounds"
  by (rule gpio_group_unchecked) code_simp+

end
