(* ===== verification/Wdt.thy ===== *)
theory Wdt
  imports Interfaces Dt
begin

text \<open>
  The watchdog, \<open>hw/watchdog/apple_wdt.c\<close>. Its two counters are differences to the virtual clock, and a
  single timer is armed for the next time anything is due. \<open>now\<close> is the virtual clock in nanoseconds; the
  timer is its expiry time. Performing the watchdog action is a result of the timer callback.
\<close>

abbreviation (input) "REG_CHIP_WDOG_TMR \<equiv> 0x0 :: hwaddr"
abbreviation (input) "REG_CHIP_WDOG_CTL \<equiv> 0xc :: hwaddr"
abbreviation (input) "REG_SYS_WDOG_TMR \<equiv> 0x10 :: hwaddr"
abbreviation (input) "WDOG_CTL_EN_IRQ \<equiv> BIT 0 :: u32"
abbreviation (input) "WDOG_CTL_ACK_IRQ \<equiv> BIT 1 :: u32"
abbreviation (input) "WDOG_CTL_EN_RESET \<equiv> BIT 2 :: u32"
abbreviation (input) "WDOG_CNTFRQ_HZ \<equiv> 24000000 :: u64"
abbreviation (input) "REG_SIZE \<equiv> 0x44 :: nat"
abbreviation (input) "NS_PER_SECOND \<equiv> 1000000000 :: u64"

record AppleWDTState =
  wdt_irq :: bool
  wdt_timer :: "u64 option"
  cnt_period_ns :: u64
  cntfrq_hz :: u64
  wdt_raw :: "u32 list"
  wdt_scratch :: u32

abbreviation chip_timer :: "AppleWDTState \<Rightarrow> u32" where "chip_timer s \<equiv> wdt_raw s ! 0"
abbreviation chip_reset_counter :: "AppleWDTState \<Rightarrow> u32" where "chip_reset_counter s \<equiv> wdt_raw s ! 1"
abbreviation chip_interrupt_counter :: "AppleWDTState \<Rightarrow> u32" where "chip_interrupt_counter s \<equiv> wdt_raw s ! 2"
abbreviation chip_control :: "AppleWDTState \<Rightarrow> u32" where "chip_control s \<equiv> wdt_raw s ! 3"
abbreviation sys_timer :: "AppleWDTState \<Rightarrow> u32" where "sys_timer s \<equiv> wdt_raw s ! 4"
abbreviation sys_reset_counter :: "AppleWDTState \<Rightarrow> u32" where "sys_reset_counter s \<equiv> wdt_raw s ! 5"
abbreviation sys_control :: "AppleWDTState \<Rightarrow> u32" where "sys_control s \<equiv> wdt_raw s ! 7"

text \<open>The result is an \<open>unsigned int\<close>.\<close>

definition wdog_cntfrq_period_ns :: "AppleWDTState \<Rightarrow> u32 res" where
  "wdog_cntfrq_period_ns s =
     (if NS_PER_SECOND > cntfrq_hz s
      then if cntfrq_hz s = 0 then Inl DivideByZero else Inr (ucast (NS_PER_SECOND div cntfrq_hz s))
      else Inr 1)"

definition wdt_get_clock :: "u64 \<Rightarrow> AppleWDTState \<Rightarrow> u32 res" where
  "wdt_get_clock now s = (if cnt_period_ns s = 0 then Inl DivideByZero else Inr (ucast (now div cnt_period_ns s)))"

definition wdt_get_chip_timer :: "u64 \<Rightarrow> AppleWDTState \<Rightarrow> u32 res" where
  "wdt_get_chip_timer now s = rbind (wdt_get_clock now s) (\<lambda>c. Inr (c - chip_timer s))"

definition wdt_get_sys_timer :: "u64 \<Rightarrow> AppleWDTState \<Rightarrow> u32 res" where
  "wdt_get_sys_timer now s = rbind (wdt_get_clock now s) (\<lambda>c. Inr (c - sys_timer s))"

definition apple_wdt_reset :: "AppleWDTState \<Rightarrow> AppleWDTState" where
  "apple_wdt_reset s = s\<lparr>wdt_raw := replicate (length (wdt_raw s)) 0\<rparr>"

text \<open>The first result tells that the watchdog action was performed; then the timer is not armed again.\<close>

definition wdt_update :: "u64 \<Rightarrow> AppleWDTState \<Rightarrow> (bool \<times> AppleWDTState) res" where
  "wdt_update now s =
     rbind (wdt_get_chip_timer now s) (\<lambda>chip_tmr.
     rbind (wdt_get_sys_timer now s) (\<lambda>sys_tmr.
       if chip_control s AND WDOG_CTL_EN_RESET \<noteq> 0 \<and> chip_tmr \<ge> chip_reset_counter s then Inr (True, apple_wdt_reset s)
       else let expiry = 0xffffffff :: u64;
                expiry = (if chip_control s AND WDOG_CTL_EN_RESET \<noteq> 0 then min expiry (ucast (chip_reset_counter s - chip_tmr)) else expiry)
         in if sys_control s AND WDOG_CTL_EN_RESET \<noteq> 0 \<and> sys_tmr \<ge> sys_reset_counter s then Inr (True, apple_wdt_reset s)
            else let expiry = (if sys_control s AND WDOG_CTL_EN_RESET \<noteq> 0 then min expiry (ucast (sys_reset_counter s - sys_tmr)) else expiry);
                     (expiry, s) =
                       (if chip_control s AND WDOG_CTL_EN_IRQ \<noteq> 0 then
                          if chip_tmr \<ge> chip_interrupt_counter s then
                            if chip_control s AND WDOG_CTL_ACK_IRQ = 0
                            then (expiry, s\<lparr>wdt_raw := (wdt_raw s)[3 := chip_control s OR WDOG_CTL_ACK_IRQ], wdt_irq := True\<rparr>)
                            else (expiry, s)
                          else (min expiry (ucast (chip_interrupt_counter s - chip_tmr)), s)
                        else (expiry, s))
              in Inr (False, s\<lparr>wdt_timer := Some (now + expiry * cnt_period_ns s)\<rparr>)))"

definition wdt_reg_write :: "u64 \<Rightarrow> hwaddr \<Rightarrow> u64 \<Rightarrow> AppleWDTState \<Rightarrow> AppleWDTState res" where
  "wdt_reg_write now addr data s =
     (if addr \<ge> REG_SIZE then Inr s
      else if length (wdt_raw s) \<le> addr div 4 then Inl OutOfBounds
      else rbind
        (if addr = REG_CHIP_WDOG_TMR \<or> addr = REG_SYS_WDOG_TMR then rbind (wdt_get_clock now s) (\<lambda>c. Inr (c - ucast data, s))
         else if addr = REG_CHIP_WDOG_CTL then
           Inr (ucast data AND NOT WDOG_CTL_ACK_IRQ, if ucast data AND WDOG_CTL_ACK_IRQ \<noteq> 0 then s\<lparr>wdt_irq := False\<rparr> else s)
         else Inr (ucast data, s))
        (\<lambda>(v, s). Inr (s\<lparr>wdt_raw := (wdt_raw s)[addr div 4 := v], wdt_timer := Some now\<rparr>)))"

definition wdt_reg_read :: "u64 \<Rightarrow> hwaddr \<Rightarrow> AppleWDTState \<Rightarrow> u64 res" where
  "wdt_reg_read now addr s =
     (if addr \<ge> REG_SIZE then Inr 0
      else if length (wdt_raw s) \<le> addr div 4 then Inl OutOfBounds
      else rbind
        (if addr = REG_CHIP_WDOG_TMR then wdt_get_chip_timer now s
         else if addr = REG_SYS_WDOG_TMR then wdt_get_sys_timer now s
         else Inr (wdt_raw s ! (addr div 4)))
        (\<lambda>v. Inr (ucast v)))"

definition apple_wdt_realize :: "AppleWDTState \<Rightarrow> AppleWDTState res" where
  "apple_wdt_realize s =
     (let s = s\<lparr>cntfrq_hz := WDOG_CNTFRQ_HZ\<rparr>
      in rbind (wdog_cntfrq_period_ns s) (\<lambda>p. Inr (apple_wdt_reset (s\<lparr>cnt_period_ns := ucast p, wdt_timer := None\<rparr>))))"

definition apple_wdt_unrealize :: "AppleWDTState \<Rightarrow> AppleWDTState" where
  "apple_wdt_unrealize s = s\<lparr>wdt_timer := None\<rparr>"

text \<open>The device, the size of its register window and the changed node.\<close>

definition apple_wdt_from_node :: "AppleDTNode \<Rightarrow> (AppleWDTState \<times> u64 \<times> AppleDTNode) res" where
  "apple_wdt_from_node node =
     rbind (apple_dt_set_prop_u32 node (cs ''wdt-version'') 1) (\<lambda>node.
       case apple_dt_get_prop node (cs ''reg'') of
         None \<Rightarrow> Inl AssertFailed
       | Some prop \<Rightarrow>
           if length (p_data prop) < 16 then Inl OutOfBounds
           else Inr (\<lparr>wdt_irq = False, wdt_timer = None, cnt_period_ns = 0, cntfrq_hz = 0, wdt_raw = replicate (REG_SIZE div 4) 0, wdt_scratch = 0\<rparr>,
             of_le (bslice 8 8 (p_data prop)), node))"

subsection \<open>The clock\<close>

definition wdt_wf :: "AppleWDTState \<Rightarrow> bool" where
  "wdt_wf s \<longleftrightarrow> length (wdt_raw s) = REG_SIZE div 4 \<and> 0 < cnt_period_ns s \<and> cnt_period_ns s \<le> 1000"

text \<open>Ticks between two times, and a counter that was started at \<open>start\<close>.\<close>

definition wdt_ticks :: "AppleWDTState \<Rightarrow> u64 \<Rightarrow> nat" where
  "wdt_ticks s now = unat now div unat (cnt_period_ns s)"

definition wdt_count :: "AppleWDTState \<Rightarrow> u32 \<Rightarrow> u64 \<Rightarrow> u32" where
  "wdt_count s start now = of_nat (wdt_ticks s now) - start"

lemma wdt_clock:
  assumes "wdt_wf s"
  shows "wdt_get_clock now s = Inr (of_nat (wdt_ticks s now))" "wdt_get_chip_timer now s = Inr (wdt_count s (chip_timer s) now)"
    "wdt_get_sys_timer now s = Inr (wdt_count s (sys_timer s) now)"
proof -
  have "(ucast (now div cnt_period_ns s) :: u32) = of_nat (unat (now div cnt_period_ns s))"
    by (simp only: of_nat_unat)
  also have "\<dots> = of_nat (wdt_ticks s now)" by (simp add: wdt_ticks_def unat_div_distrib)
  finally show "wdt_get_clock now s = Inr (of_nat (wdt_ticks s now))" using assms by (auto simp: wdt_get_clock_def wdt_wf_def)
  then show "wdt_get_chip_timer now s = Inr (wdt_count s (chip_timer s) now)" "wdt_get_sys_timer now s = Inr (wdt_count s (sys_timer s) now)"
    by (simp_all add: wdt_get_chip_timer_def wdt_get_sys_timer_def wdt_count_def)
qed

lemma wdt_count_add:
  assumes "now \<le> t"
  shows "wdt_count s c t = wdt_count s c now + of_nat (wdt_ticks s t - wdt_ticks s now)"
proof -
  have "wdt_ticks s now \<le> wdt_ticks s t" using assms by (simp add: wdt_ticks_def word_le_nat_alt div_le_mono)
  then have "wdt_ticks s t = wdt_ticks s now + (wdt_ticks s t - wdt_ticks s now)" by simp
  then have "(of_nat (wdt_ticks s t) :: u32) = of_nat (wdt_ticks s now) + of_nat (wdt_ticks s t - wdt_ticks s now)"
    by (metis of_nat_add)
  then show ?thesis by (simp add: wdt_count_def algebra_simps)
qed

lemma wdt_ticks_mono: "now \<le> t \<Longrightarrow> wdt_ticks s now \<le> wdt_ticks s t"
  by (simp add: wdt_ticks_def word_le_nat_alt div_le_mono)

lemma wdt_count_unat:
  assumes "now \<le> t" "unat (wdt_count s c now) + (wdt_ticks s t - wdt_ticks s now) < 2 ^ 32"
  shows "unat (wdt_count s c t) = unat (wdt_count s c now) + (wdt_ticks s t - wdt_ticks s now)"
  using assms by (simp add: wdt_count_add [OF assms(1)] unat_word_ariths unat_of_nat take_bit_eq_mod)

text \<open>The time a number of ticks later, without overflow of the clock.\<close>

definition wdt_after :: "AppleWDTState \<Rightarrow> u64 \<Rightarrow> u64 \<Rightarrow> u64" where
  "wdt_after s now n = now + n * cnt_period_ns s"

lemma wdt_after:
  assumes "wdt_wf s" "unat now < 2 ^ 63" "n \<le> 0xffffffff"
  shows "unat (wdt_after s now n) = unat now + unat n * unat (cnt_period_ns s)"
    "now \<le> wdt_after s now n" "wdt_ticks s (wdt_after s now n) = wdt_ticks s now + unat n"
    "n \<noteq> 0 \<Longrightarrow> now < wdt_after s now n"
proof -
  have p: "0 < unat (cnt_period_ns s)" "unat (cnt_period_ns s) \<le> 1000" and n: "unat n \<le> 0xffffffff"
    using assms by (simp_all add: wdt_wf_def word_le_nat_alt word_less_nat_alt)
  have b: "unat n * unat (cnt_period_ns s) \<le> 0xffffffff * 1000" by (rule mult_le_mono [OF n p(2)])
  show *: "unat (wdt_after s now n) = unat now + unat n * unat (cnt_period_ns s)"
    using b assms(2) by (simp add: wdt_after_def unat_word_ariths)
  show "now \<le> wdt_after s now n" by (simp add: word_le_nat_alt *)
  show "wdt_ticks s (wdt_after s now n) = wdt_ticks s now + unat n" using p(1) by (simp add: wdt_ticks_def *)
  show "now < wdt_after s now n" if "n \<noteq> 0"
    using that p(1) by (simp add: word_less_nat_alt * unat_gt_0)
qed

subsection \<open>What the timer callback does\<close>

text \<open>Whether the watchdog action is due, and whether anything is.\<close>

definition wdt_bite :: "AppleWDTState \<Rightarrow> u64 \<Rightarrow> bool" where
  "wdt_bite s now \<longleftrightarrow>
     chip_control s AND WDOG_CTL_EN_RESET \<noteq> 0 \<and> chip_reset_counter s \<le> wdt_count s (chip_timer s) now \<or>
     sys_control s AND WDOG_CTL_EN_RESET \<noteq> 0 \<and> sys_reset_counter s \<le> wdt_count s (sys_timer s) now"

definition wdt_bark :: "AppleWDTState \<Rightarrow> u64 \<Rightarrow> bool" where
  "wdt_bark s now \<longleftrightarrow>
     chip_control s AND WDOG_CTL_EN_IRQ \<noteq> 0 \<and> chip_control s AND WDOG_CTL_ACK_IRQ = 0 \<and>
     chip_interrupt_counter s \<le> wdt_count s (chip_timer s) now"

text \<open>The ticks a counter still needs to reach its limit.\<close>

definition wdt_left :: "bool \<Rightarrow> u32 \<Rightarrow> u32 \<Rightarrow> u64" where
  "wdt_left en limit cnt = (if en \<and> cnt < limit then ucast (limit - cnt) else 0xffffffff)"

definition wdt_left_reset :: "AppleWDTState \<Rightarrow> u64 \<Rightarrow> u64" where
  "wdt_left_reset s now =
     min (wdt_left (chip_control s AND WDOG_CTL_EN_RESET \<noteq> 0) (chip_reset_counter s) (wdt_count s (chip_timer s) now))
       (wdt_left (sys_control s AND WDOG_CTL_EN_RESET \<noteq> 0) (sys_reset_counter s) (wdt_count s (sys_timer s) now))"

definition wdt_left_irq :: "AppleWDTState \<Rightarrow> u64 \<Rightarrow> u64" where
  "wdt_left_irq s now = wdt_left (chip_control s AND WDOG_CTL_EN_IRQ \<noteq> 0) (chip_interrupt_counter s) (wdt_count s (chip_timer s) now)"

definition wdt_raise :: "u64 \<Rightarrow> AppleWDTState \<Rightarrow> AppleWDTState" where
  "wdt_raise now s =
     (if wdt_bark s now then s\<lparr>wdt_raw := (wdt_raw s)[3 := chip_control s OR WDOG_CTL_ACK_IRQ], wdt_irq := True\<rparr> else s)"

lemma wdt_left_max: "wdt_left en l c \<le> 0xffffffff"
proof -
  have "unat (l - c) < 2 ^ 32" using unsigned_less [of "l - c"] by simp
  then show ?thesis by (simp add: wdt_left_def word_le_nat_alt unsigned_ucast_eq take_bit_nat_eq_self)
qed

lemma wdt_left_min:
  "min (wdt_left en l c) 0xffffffff = wdt_left en l c" "min 0xffffffff (wdt_left en l c) = wdt_left en l c"
  "min (min (wdt_left en l c) w) 0xffffffff = min (wdt_left en l c) w"
  using wdt_left_max [of en l c] by (auto simp: min_def)

lemma wdt_left_simps:
  "\<not> en \<Longrightarrow> wdt_left en l c = 0xffffffff" "l \<le> c \<Longrightarrow> wdt_left en l c = 0xffffffff"
  "en \<Longrightarrow> \<not> l \<le> c \<Longrightarrow> ucast (l - c) = wdt_left en l c"
  by (auto simp: wdt_left_def)

lemma wdt_update_eq:
  assumes "wdt_wf s"
  shows "wdt_update now s =
    (if wdt_bite s now then Inr (True, apple_wdt_reset s)
     else Inr (False, (wdt_raise now s)\<lparr>wdt_timer := Some (wdt_after s now (min (wdt_left_reset s now) (wdt_left_irq s now)))\<rparr>))"
  unfolding wdt_update_def wdt_clock [OF assms] rbind_simps Let_def wdt_bite_def wdt_raise_def wdt_bark_def wdt_left_reset_def
    wdt_left_irq_def wdt_after_def
  by (auto simp: wdt_left_simps wdt_left_min)

lemma wdt_left_unat:
  assumes "c < l"
  shows "unat (wdt_left True l c) = unat l - unat c"
proof -
  have "unat (l - c) < 2 ^ 32" using unsigned_less [of "l - c", where 'a = nat] by simp
  then have "unat (wdt_left True l c) = unat (l - c)"
    using assms by (simp add: wdt_left_def unsigned_ucast_eq take_bit_nat_eq_self)
  then show ?thesis using assms by (simp add: unat_sub)
qed

lemma wdt_left_pos: "wdt_left en l c \<noteq> 0"
proof (cases "en \<and> c < l")
  case True
  then have "unat (wdt_left en l c) \<noteq> 0" by (simp add: wdt_left_unat word_less_nat_alt)
  then show ?thesis by auto
qed (auto simp: wdt_left_def)

text \<open>A counter reaches its limit exactly when the ticks it still needs have passed.\<close>

lemma wdt_left_reach:
  assumes "now \<le> t" "wdt_count s c now < l" "wdt_ticks s t - wdt_ticks s now \<le> unat (wdt_left True l (wdt_count s c now))"
  shows "l \<le> wdt_count s c t \<longleftrightarrow> wdt_ticks s t - wdt_ticks s now = unat (wdt_left True l (wdt_count s c now))" (is ?A)
    "\<not> l \<le> wdt_count s c t \<Longrightarrow>
       unat (wdt_left True l (wdt_count s c t)) = unat (wdt_left True l (wdt_count s c now)) - (wdt_ticks s t - wdt_ticks s now)"
proof -
  have l: "unat l < 2 ^ 32" using unsigned_less [of l, where 'a = nat] by simp
  have n: "unat (wdt_left True l (wdt_count s c now)) = unat l - unat (wdt_count s c now)" by (rule wdt_left_unat [OF assms(2)])
  have c: "unat (wdt_count s c t) = unat (wdt_count s c now) + (wdt_ticks s t - wdt_ticks s now)"
    using assms(2,3) l n by (intro wdt_count_unat [OF assms(1)]) (simp add: word_less_nat_alt)
  show ?A using assms(2,3) n c by (auto simp: word_le_nat_alt word_less_nat_alt)
  show "unat (wdt_left True l (wdt_count s c t)) = unat (wdt_left True l (wdt_count s c now)) - (wdt_ticks s t - wdt_ticks s now)"
    if "\<not> l \<le> wdt_count s c t"
    using that n c by (simp add: wdt_left_unat not_le)
qed

text \<open>The callback only changes the acknowledge bit, the line and the timer.\<close>

lemma wdt_raise:
  assumes "wdt_wf s"
  shows "wdt_wf (wdt_raise now s)" "cnt_period_ns (wdt_raise now s) = cnt_period_ns s"
    "chip_timer (wdt_raise now s) = chip_timer s" "sys_timer (wdt_raise now s) = sys_timer s"
    "chip_reset_counter (wdt_raise now s) = chip_reset_counter s" "sys_reset_counter (wdt_raise now s) = sys_reset_counter s"
    "chip_interrupt_counter (wdt_raise now s) = chip_interrupt_counter s" "sys_control (wdt_raise now s) = sys_control s"
    "chip_control (wdt_raise now s) = (if wdt_bark s now then chip_control s OR WDOG_CTL_ACK_IRQ else chip_control s)"
  using assms by (auto simp: wdt_raise_def wdt_wf_def nth_list_update)

lemma wdt_ack_bit:
  "(x OR WDOG_CTL_ACK_IRQ) AND WDOG_CTL_EN_RESET = x AND WDOG_CTL_EN_RESET"
  "(x OR WDOG_CTL_ACK_IRQ) AND WDOG_CTL_EN_IRQ = x AND WDOG_CTL_EN_IRQ"
  "(x OR WDOG_CTL_ACK_IRQ) AND WDOG_CTL_ACK_IRQ \<noteq> 0"
  by (simp_all add: BIT_def bit.conj_disj_distrib2)

lemma wdt_after_raise:
  fixes now D
  assumes "wdt_wf s"
  defines "t \<equiv> (wdt_raise now s)\<lparr>wdt_timer := D\<rparr>"
  shows "wdt_wf t" "wdt_bite t x = wdt_bite s x" "wdt_left_reset t x = wdt_left_reset s x" "wdt_left_irq t x = wdt_left_irq s x"
    "wdt_ticks t x = wdt_ticks s x" "wdt_count t c x = wdt_count s c x" "cnt_period_ns t = cnt_period_ns s"
    "wdt_after t x n = wdt_after s x n"
  using wdt_raise [OF assms(1), of now]
  by (auto simp: t_def wdt_wf_def wdt_bite_def wdt_left_reset_def wdt_left_irq_def wdt_ticks_def wdt_count_def wdt_after_def wdt_ack_bit [unfolded One_nat_def])

lemma unat_min: "unat (min a b) = min (unat a) (unat b)"
  by (simp add: min_def word_le_nat_alt)

lemma wdt_left_reset_le: "wdt_left_reset s now \<le> 0xffffffff" "wdt_left_irq s now \<le> 0xffffffff"
  "min (wdt_left_reset s now) (wdt_left_irq s now) \<le> 0xffffffff"
  by (auto simp: wdt_left_reset_def wdt_left_irq_def wdt_left_max min_le_iff_disj)

lemma wdt_bite_later:
  assumes "\<not> wdt_bite s now" "now \<le> t" "chip_control s AND WDOG_CTL_EN_RESET \<noteq> 0"
    "wdt_ticks s t - wdt_ticks s now \<le> unat (wdt_left_reset s now)"
  shows "wdt_bite s t \<longleftrightarrow> wdt_ticks s t - wdt_ticks s now = unat (wdt_left_reset s now)" (is ?A)
    "\<not> wdt_bite s t \<Longrightarrow> unat (wdt_left_reset s t) = unat (wdt_left_reset s now) - (wdt_ticks s t - wdt_ticks s now)"
proof -
  let ?d = "wdt_ticks s t - wdt_ticks s now"
  let ?c = "\<lambda>x. wdt_left True (chip_reset_counter s) (wdt_count s (chip_timer s) x)"
  let ?y = "\<lambda>x. wdt_left True (sys_reset_counter s) (wdt_count s (sys_timer s) x)"
  let ?en = "sys_control s AND WDOG_CTL_EN_RESET \<noteq> 0"
  have lr: "unat (wdt_left_reset s x) = (if ?en then min (unat (?c x)) (unat (?y x)) else unat (?c x))" for x
    using assms(3) by (simp add: wdt_left_reset_def unat_min wdt_left_simps(1) wdt_left_min flip: unat_min)
  have c: "wdt_count s (chip_timer s) now < chip_reset_counter s" and y: "?en \<Longrightarrow> wdt_count s (sys_timer s) now < sys_reset_counter s"
    using assms(1,3) by (auto simp: wdt_bite_def not_le)
  have d: "?d \<le> unat (?c now)" "?en \<Longrightarrow> ?d \<le> unat (?y now)" using assms(4) by (auto simp: lr split: if_splits)
  note C = wdt_left_reach [OF assms(2) c d(1)] and Y = wdt_left_reach [OF assms(2) y d(2)]
  have b: "wdt_bite s t \<longleftrightarrow> ?d = unat (?c now) \<or> ?en \<and> ?d = unat (?y now)"
    using assms(3) C(1) Y(1) by (auto simp: wdt_bite_def)
  show ?A using d by (auto simp: b lr min_def)
  show "unat (wdt_left_reset s t) = unat (wdt_left_reset s now) - ?d" if n: "\<not> wdt_bite s t"
  proof -
    have "\<not> chip_reset_counter s \<le> wdt_count s (chip_timer s) t" "?en \<Longrightarrow> \<not> sys_reset_counter s \<le> wdt_count s (sys_timer s) t"
      using n assms(3) by (auto simp: wdt_bite_def)
    then show ?thesis using C(2) Y(2) d by (auto simp: lr min_def)
  qed
qed

text \<open>The timer callback called at its expiry times until the watchdog action is performed.\<close>

fun wdt_wait :: "nat \<Rightarrow> u64 \<Rightarrow> AppleWDTState \<Rightarrow> u64 option" where
  "wdt_wait 0 now s = None"
| "wdt_wait (Suc n) now s =
     (case wdt_update now s of
        Inl _ \<Rightarrow> None
      | Inr (True, _) \<Rightarrow> Some now
      | Inr (False, t) \<Rightarrow> (case wdt_timer t of None \<Rightarrow> None | Some D \<Rightarrow> wdt_wait n D t))"

lemma wdt_wait_step:
  assumes "wdt_wf s"
  shows "wdt_wait (Suc n) now s =
    (if wdt_bite s now then Some now
     else let D = wdt_after s now (min (wdt_left_reset s now) (wdt_left_irq s now))
       in wdt_wait n D ((wdt_raise now s)\<lparr>wdt_timer := Some D\<rparr>))"
  using wdt_update_eq [OF assms, of now] by (simp add: Let_def)

lemma wdt_irq_later:
  assumes "wdt_wf s" "unat now < 2 ^ 63" "wdt_left_irq s now < 0xffffffff"
  shows "wdt_left_irq s (wdt_after s now (wdt_left_irq s now)) = 0xffffffff"
proof -
  let ?D = "wdt_after s now (wdt_left_irq s now)" and ?c = "wdt_count s (chip_timer s)"
  have en: "chip_control s AND WDOG_CTL_EN_IRQ \<noteq> 0" and c: "?c now < chip_interrupt_counter s"
    using assms(3) by (auto simp: wdt_left_irq_def wdt_left_def split: if_splits)
  have l: "wdt_left_irq s now = wdt_left True (chip_interrupt_counter s) (?c now)" using en by (simp add: wdt_left_irq_def)
  note a = wdt_after [OF assms(1,2) wdt_left_reset_le(2), of s now]
  have "chip_interrupt_counter s \<le> ?c ?D"
    using wdt_left_reach(1) [OF a(2) c] a(3) by (simp add: l)
  then show ?thesis by (simp add: wdt_left_irq_def wdt_left_simps(2))
qed

lemma wdt_left_reset_later:
  assumes "wdt_wf s" "unat now < 2 ^ 63" "\<not> wdt_bite s now" "chip_control s AND WDOG_CTL_EN_RESET \<noteq> 0" "n \<le> wdt_left_reset s now"
  shows "wdt_bite s (wdt_after s now n) \<longleftrightarrow> n = wdt_left_reset s now"
    "n \<noteq> wdt_left_reset s now \<Longrightarrow> wdt_left_reset s (wdt_after s now n) = wdt_left_reset s now - n"
proof -
  have n: "n \<le> 0xffffffff" using assms(5) wdt_left_reset_le(1) by (rule order_trans)
  note a = wdt_after [OF assms(1,2) n]
  have le: "unat n \<le> unat (wdt_left_reset s now)" using assms(5) by (simp add: word_le_nat_alt)
  note b = wdt_bite_later [OF assms(3) a(2) assms(4)]
  show A: "wdt_bite s (wdt_after s now n) \<longleftrightarrow> n = wdt_left_reset s now" using b(1) le by (simp add: a(3) word_unat_eq_iff)
  show "wdt_left_reset s (wdt_after s now n) = wdt_left_reset s now - n" if "n \<noteq> wdt_left_reset s now"
    using b(2) le that A assms(5) by (simp add: a(3) word_unat_eq_iff unat_sub)
qed

lemma wdt_wait_bites:
  assumes "wdt_wf s" "unat now < 2 ^ 62" "\<not> wdt_bite s now" "chip_control s AND WDOG_CTL_EN_RESET \<noteq> 0"
  shows "wdt_wait 3 now s = Some (wdt_after s now (wdt_left_reset s now))"
proof -
  let ?R = "wdt_left_reset s now" and ?I = "wdt_left_irq s now"
  have now: "unat now < 2 ^ 63" using assms(2) by simp
  note L = wdt_left_reset_later [OF assms(1) now assms(3,4)]
  show ?thesis
  proof (cases "?R \<le> ?I")
    case True
    then have m: "min ?R ?I = ?R" by (rule min_absorb1)
    show ?thesis
      by (simp add: numeral_3_eq_3 wdt_wait_step [OF assms(1)] assms(3) Let_def m wdt_wait_step [OF wdt_after_raise(1) [OF assms(1)]]
          wdt_after_raise(2) [OF assms(1)] L(1) del: wdt_wait.simps)
  next
    case False
    then have m: "min ?R ?I = ?I" "?I \<le> ?R" "?I \<noteq> ?R" by simp_all
    let ?D = "wdt_after s now ?I"
    have "?I < 0xffffffff" using False wdt_left_reset_le(1) [of s now] by (simp add: not_le order_less_le_trans)
    note I = wdt_irq_later [OF assms(1) now this]
    have D: "min (wdt_left_reset s ?D) (wdt_left_irq s ?D) = ?R - ?I" "\<not> wdt_bite s ?D"
      using L [OF m(2)] m(3) wdt_left_reset_le(1) [of s ?D] I by (simp_all add: min_absorb1)
    have E: "wdt_after s ?D (?R - ?I) = wdt_after s now ?R" by (simp add: wdt_after_def algebra_simps)
    have bite: "wdt_bite s (wdt_after s now ?R)" by (simp add: L(1))
    show ?thesis
      apply (simp add: numeral_3_eq_3 wdt_wait_step [OF assms(1)] assms(3) Let_def m(1) del: wdt_wait.simps)
      apply (simp add: wdt_wait_step [OF wdt_after_raise(1) [OF assms(1)]] wdt_after_raise [OF assms(1)] D E Let_def del: wdt_wait.simps)
      apply (simp add: wdt_wait_step [OF wdt_after_raise(1) [OF wdt_after_raise(1) [OF assms(1)]]] wdt_after_raise [OF wdt_after_raise(1) [OF assms(1)]] 
        wdt_after_raise [OF assms(1)] bite del: wdt_wait.simps)
      done
  qed
qed

text \<open>
  Property C16 (liveness). With the chip reset enabled, the timer callback performs the watchdog action after at most three calls,
  at a time at which it is due; and it was not due one tick period, or more, before that time.
\<close>

lemma wdt_bites:
  assumes "wdt_wf s" "unat now < 2 ^ 62" "chip_control s AND WDOG_CTL_EN_RESET \<noteq> 0"
  shows "\<exists>T. wdt_wait 3 now s = Some T \<and> now \<le> T \<and> wdt_bite s T \<and>
    (\<forall>x. now \<le> x \<and> unat x + unat (cnt_period_ns s) \<le> unat T \<longrightarrow> \<not> wdt_bite s x)"
proof (cases "wdt_bite s now")
  case True
  have "wdt_wait 3 now s = Some now" using True by (simp add: numeral_3_eq_3 wdt_wait_step [OF assms(1)] del: wdt_wait.simps)
  moreover have "0 < unat (cnt_period_ns s)" using assms(1) by (simp add: wdt_wf_def word_less_nat_alt)
  ultimately show ?thesis using True by (auto simp: word_le_nat_alt)
next
  case False
  let ?R = "wdt_left_reset s now"
  let ?T = "wdt_after s now ?R"
  have now: "unat now < 2 ^ 63" using assms(2) by simp
  note a = wdt_after [OF assms(1) now wdt_left_reset_le(1), of s now]
  have bite: "wdt_bite s ?T" using wdt_left_reset_later(1) [OF assms(1) now False assms(3) order_refl] by simp
  have "\<not> wdt_bite s x" if x: "now \<le> x" "unat x + unat (cnt_period_ns s) \<le> unat ?T" for x
  proof -
    have p: "0 < unat (cnt_period_ns s)" using assms(1) by (simp add: wdt_wf_def word_less_nat_alt)
    have "Suc (wdt_ticks s x) = (unat x + unat (cnt_period_ns s)) div unat (cnt_period_ns s)"
      using p by (simp only: wdt_ticks_def div_add_self2 [OF neq0_conv [THEN iffD2, OF p]] Suc_eq_plus1)
    also have "\<dots> \<le> wdt_ticks s ?T" unfolding wdt_ticks_def by (rule div_le_mono [OF x(2)])
    finally have "wdt_ticks s x - wdt_ticks s now < unat ?R"
      using wdt_ticks_mono [OF x(1), of s] by (simp add: a(3))
    then show ?thesis using wdt_bite_later(1) [OF False x(1) assms(3)] by simp
  qed
  then show ?thesis using wdt_wait_bites [OF assms(1,2) False assms(3)] a(2) bite by blast
qed

definition wdt_demo :: AppleWDTState where
  "wdt_demo = \<lparr>wdt_irq = False, wdt_timer = None, cnt_period_ns = 41, cntfrq_hz = WDOG_CNTFRQ_HZ,
     wdt_raw = [0, 100, 50, 5, 0, 0, 0, 0, 0, 0, 0, 0, 0, 0, 0, 0, 0], wdt_scratch = 0\<rparr>"

lemma wdt_bites_witness:
  "wdt_wf wdt_demo \<and> unat (1000 :: u64) < 2 ^ 62 \<and> chip_control wdt_demo AND WDOG_CTL_EN_RESET \<noteq> 0 \<and>
   (\<exists>T. wdt_wait 3 1000 wdt_demo = Some T \<and> 1000 \<le> T \<and> wdt_bite wdt_demo T \<and>
     (\<forall>x. 1000 \<le> x \<and> unat x + unat (cnt_period_ns wdt_demo) \<le> unat T \<longrightarrow> \<not> wdt_bite wdt_demo x))"
proof -
  have h: "wdt_wf wdt_demo" "unat (1000 :: u64) < 2 ^ 62" "chip_control wdt_demo AND WDOG_CTL_EN_RESET \<noteq> 0"
    by (code_simp, simp, code_simp)
  show ?thesis using h wdt_bites [OF h] by blast
qed

subsection \<open>Register accesses\<close>

lemma wdt_reg_timer:
  assumes "wdt_wf s" "addr = REG_CHIP_WDOG_TMR \<or> addr = REG_SYS_WDOG_TMR"
  shows "wdt_reg_write now addr v s =
      Inr (s\<lparr>wdt_raw := (wdt_raw s)[addr div 4 := of_nat (wdt_ticks s now) - ucast v], wdt_timer := Some now\<rparr>)"
    "wdt_reg_read now addr s = Inr (ucast (wdt_count s (wdt_raw s ! (addr div 4)) now))"
  using assms(2) assms(1) by (auto simp: wdt_reg_write_def wdt_reg_read_def wdt_clock(1) [OF assms(1)] wdt_clock(2,3) [OF assms(1)] wdt_wf_def)

text \<open>
  A counter that is written reads back as the written number plus the ticks that have passed since, modulo
  \<open>2 ^ 32\<close>; the write arms the timer for at once.
\<close>

lemma wdt_timer_roundtrip:
  assumes "wdt_wf s" "addr = REG_CHIP_WDOG_TMR \<or> addr = REG_SYS_WDOG_TMR" "now \<le> later"
  shows "\<exists>t. wdt_reg_write now addr v s = Inr t \<and> wdt_timer t = Some now \<and> wdt_wf t \<and>
    wdt_reg_read later addr t = Inr (ucast (ucast v + of_nat (wdt_ticks s later - wdt_ticks s now) :: u32))"
proof -
  let ?t = "s\<lparr>wdt_raw := (wdt_raw s)[addr div 4 := of_nat (wdt_ticks s now) - ucast v], wdt_timer := Some now\<rparr>"
  have wf: "wdt_wf ?t" using assms(1) by (simp add: wdt_wf_def)
  have tk: "wdt_ticks ?t x = wdt_ticks s x" for x by (simp add: wdt_ticks_def)
  have "addr div 4 < length (wdt_raw s)" using assms(1,2) by (auto simp: wdt_wf_def)
  then have "wdt_reg_read later addr ?t = Inr (ucast (wdt_count ?t (of_nat (wdt_ticks s now) - ucast v) later))"
    using wdt_reg_timer(2) [OF wf assms(2), of later] by simp
  also have "wdt_count ?t (of_nat (wdt_ticks s now) - ucast v) later = ucast v + of_nat (wdt_ticks s later - wdt_ticks s now)"
    unfolding wdt_count_add [OF assms(3)] tk by (simp add: wdt_count_def tk)
  finally show ?thesis using wdt_reg_timer(1) [OF assms(1,2)] wf by simp
qed

lemma wdt_timer_roundtrip_witness:
  "wdt_wf wdt_demo \<and>
   (\<exists>t. wdt_reg_write 1000 REG_SYS_WDOG_TMR 7 wdt_demo = Inr t \<and> wdt_timer t = Some 1000 \<and> wdt_wf t \<and>
     wdt_reg_read 5000 REG_SYS_WDOG_TMR t = Inr (ucast (ucast (7 :: u64) + of_nat (wdt_ticks wdt_demo 5000 - wdt_ticks wdt_demo 1000) :: u32)))"
proof -
  have h: "wdt_wf wdt_demo" by code_simp
  have "REG_SYS_WDOG_TMR = REG_CHIP_WDOG_TMR \<or> REG_SYS_WDOG_TMR = REG_SYS_WDOG_TMR" by simp
  moreover have "(1000 :: u64) \<le> 5000" by simp
  ultimately show ?thesis using h wdt_timer_roundtrip [OF h] by blast
qed

text \<open>
  Property C38 (functional). A guest that writes 0 to the chip counter restarts the watchdog: the callback armed by the write performs the
  action exactly the reset counter's number of ticks after the write.
\<close>

lemma wdt_kick:
  assumes "wdt_wf s" "unat now < 2 ^ 62" "chip_control s AND WDOG_CTL_EN_RESET \<noteq> 0" "sys_control s AND WDOG_CTL_EN_RESET = 0"
    "chip_reset_counter s \<noteq> 0" "wdt_reg_write now REG_CHIP_WDOG_TMR 0 s = Inr t"
  shows "\<exists>T. wdt_wait 3 now t = Some T \<and> unat T = unat now + unat (chip_reset_counter s) * unat (cnt_period_ns s)"
proof -
  have t: "t = s\<lparr>wdt_raw := (wdt_raw s)[0 := of_nat (wdt_ticks s now)], wdt_timer := Some now\<rparr>"
    using assms(6) wdt_reg_timer(1) [OF assms(1), of REG_CHIP_WDOG_TMR now 0] by simp
  have wf: "wdt_wf t" and len: "0 < length (wdt_raw s)" using assms(1) by (auto simp: t wdt_wf_def)
  have regs: "chip_control t = chip_control s" "sys_control t = sys_control s" "chip_reset_counter t = chip_reset_counter s"
    "cnt_period_ns t = cnt_period_ns s" by (simp_all add: t)
  have c: "wdt_count t (chip_timer t) now = 0" using len by (simp add: t wdt_count_def wdt_ticks_def)
  have pos: "0 < chip_reset_counter s" using assms(5) by (simp add: word_neq_0_conv)
  have nb: "\<not> wdt_bite t now" using assms(4) pos by (auto simp: wdt_bite_def regs c simp del: One_nat_def dest: leD)
  have "wdt_left_reset t now = wdt_left True (chip_reset_counter s) 0"
    using assms(3,4) by (simp add: wdt_left_reset_def regs c wdt_left_simps(1) wdt_left_min del: One_nat_def)
  then have "unat (wdt_left_reset t now) = unat (chip_reset_counter s)" using wdt_left_unat [OF pos] by simp
  then show ?thesis
    using wdt_wait_bites [OF wf assms(2) nb] wdt_after(1) [OF wf _ wdt_left_reset_le(1), of now t now] assms(2,3) by (simp add: regs)
qed

lemma wdt_kick_witness:
  "\<exists>t T. wdt_reg_write 1000 REG_CHIP_WDOG_TMR 0 wdt_demo = Inr t \<and> wdt_wait 3 1000 t = Some T \<and>
    unat T = unat (1000 :: u64) + unat (chip_reset_counter wdt_demo) * unat (cnt_period_ns wdt_demo)"
proof -
  have h: "wdt_wf wdt_demo" "chip_control wdt_demo AND WDOG_CTL_EN_RESET \<noteq> 0" "sys_control wdt_demo AND WDOG_CTL_EN_RESET = 0"
    "chip_reset_counter wdt_demo \<noteq> 0" by code_simp+
  have "\<exists>t. wdt_reg_write 1000 REG_CHIP_WDOG_TMR 0 wdt_demo = Inr t" using wdt_reg_timer(1) [OF h(1)] by blast
  then obtain t where t: "wdt_reg_write 1000 REG_CHIP_WDOG_TMR 0 wdt_demo = Inr t" by blast
  have "unat (1000 :: u64) < 2 ^ 62" by simp
  then show ?thesis using t wdt_kick [OF h(1) _ h(2-4) t] by blast
qed

subsection \<open>Any sequence of operations\<close>

datatype wdt_op = WdtTimer u64 | WdtWrite u64 hwaddr u64 | WdtRead u64 hwaddr | WdtReset

fun wdt_step :: "wdt_op \<Rightarrow> AppleWDTState \<Rightarrow> AppleWDTState res" where
  "wdt_step (WdtTimer now) s = rbind (wdt_update now s) (\<lambda>(_, s). Inr s)"
| "wdt_step (WdtWrite now a v) s = wdt_reg_write now a v s"
| "wdt_step (WdtRead now a) s = rbind (wdt_reg_read now a s) (\<lambda>_. Inr s)"
| "wdt_step WdtReset s = Inr (apple_wdt_reset s)"

text \<open>An interrupt that waits for its acknowledgement is on the line.\<close>

definition wdt_inv :: "AppleWDTState \<Rightarrow> bool" where
  "wdt_inv s \<longleftrightarrow> wdt_wf s \<and> (chip_control s AND WDOG_CTL_ACK_IRQ \<noteq> 0 \<longrightarrow> wdt_irq s)"

lemma wdt_reset_inv: "wdt_wf s \<Longrightarrow> wdt_inv (apple_wdt_reset s)"
  by (simp add: wdt_inv_def wdt_wf_def apple_wdt_reset_def)

lemma wdt_update_inv:
  assumes "wdt_inv s"
  shows "\<exists>b t. wdt_update now s = Inr (b, t) \<and> wdt_inv t"
proof -
  have wf: "wdt_wf s" using assms by (simp add: wdt_inv_def)
  have "wdt_inv ((wdt_raise now s)\<lparr>wdt_timer := D\<rparr>)" for D
    using assms wdt_after_raise(1) [OF wf] by (auto simp: wdt_inv_def wdt_raise_def)
  then show ?thesis by (auto simp: wdt_update_eq [OF wf] wdt_reset_inv [OF wf])
qed

lemma wdt_write_inv:
  assumes "wdt_inv s" "a mod 4 = 0"
  shows "\<exists>t. wdt_reg_write now a v s = Inr t \<and> wdt_inv t"
proof -
  have wf: "wdt_wf s" using assms by (simp add: wdt_inv_def)
  have ack: "(x AND NOT WDOG_CTL_ACK_IRQ) AND WDOG_CTL_ACK_IRQ = 0" for x :: u32 by (simp add: and.assoc)
  have three: "a div 4 = 3 \<longleftrightarrow> a = REG_CHIP_WDOG_CTL" using assms(2) by auto
  show ?thesis
    using assms(1) ack three by (auto simp: wdt_reg_write_def wdt_clock(1) [OF wf] wdt_inv_def wdt_wf_def nth_list_update)
qed

interpretation wdt: safe_device wdt_step
  "\<lambda>x. case x of WdtWrite _ a _ \<Rightarrow> a mod 4 = 0 | WdtRead _ a \<Rightarrow> a mod 4 = 0 | _ \<Rightarrow> True" wdt_inv
proof
  fix x s assume h: "case x of WdtWrite _ a _ \<Rightarrow> a mod 4 = 0 | WdtRead _ a \<Rightarrow> a mod 4 = 0 | _ \<Rightarrow> True" "wdt_inv s"
  then have wf: "wdt_wf s" by (simp add: wdt_inv_def)
  show "\<exists>t. wdt_step x s = Inr t \<and> wdt_inv t"
  proof (cases x)
    case (WdtTimer now)
    then show ?thesis using wdt_update_inv [OF h(2), of now] by auto
  next
    case (WdtWrite now a v)
    then show ?thesis using wdt_write_inv [OF h(2)] h(1) by simp
  next
    case (WdtRead now a)
    then show ?thesis using h(2) by (auto simp: wdt_reg_read_def wdt_clock(2,3) [OF wf] wf [unfolded wdt_wf_def])
  next
    case WdtReset
    then show ?thesis using wdt_reset_inv [OF wf] by simp
  qed
qed

lemma wdt_realize: "length (wdt_raw s) = REG_SIZE div 4 \<Longrightarrow> \<exists>t. apple_wdt_realize s = Inr t \<and> wdt_inv t \<and> cnt_period_ns t = 41"
  by (simp add: apple_wdt_realize_def Let_def wdog_cntfrq_period_ns_def wdt_inv_def wdt_wf_def apple_wdt_reset_def)

text \<open>
  Property C39 (safety). From a realised watchdog, no sequence of aligned register accesses, timer callbacks and resets faults, and an
  interrupt that waits for its acknowledgement is always on the line.
\<close>

lemma wdt_run_safe:
  assumes "length (wdt_raw s) = REG_SIZE div 4"
    "\<forall>x \<in> set xs. case x of WdtWrite _ a _ \<Rightarrow> a mod 4 = 0 | WdtRead _ a \<Rightarrow> a mod 4 = 0 | _ \<Rightarrow> True"
  shows "\<exists>t. rbind (apple_wdt_realize s) (run_res wdt_step xs) = Inr t \<and> wdt_wf t \<and>
    (chip_control t AND WDOG_CTL_ACK_IRQ \<noteq> 0 \<longrightarrow> wdt_irq t)"
proof -
  obtain t where t: "apple_wdt_realize s = Inr t" "wdt_inv t" using wdt_realize [OF assms(1)] by blast
  have "list_all (\<lambda>x. case x of WdtWrite _ a _ \<Rightarrow> a mod 4 = 0 | WdtRead _ a \<Rightarrow> a mod 4 = 0 | _ \<Rightarrow> True) xs"
    using assms(2) by (simp add: list_all_iff)
  then show ?thesis using wdt.run_safe [OF _ t(2)] t(1) by (simp add: wdt_inv_def del: rbind_eq_Inr)
qed

lemma wdt_run_safe_witness:
  "\<exists>t. rbind (apple_wdt_realize wdt_demo) (run_res wdt_step [WdtWrite 10 REG_CHIP_WDOG_CTL 5, WdtTimer 20, WdtRead 30 0, WdtReset]) = Inr t \<and>
    wdt_wf t \<and> (chip_control t AND WDOG_CTL_ACK_IRQ \<noteq> 0 \<longrightarrow> wdt_irq t)"
  by (rule wdt_run_safe) (simp_all add: wdt_demo_def)

end
