(* ===== verification/Spmi.thy ===== *)
theory Spmi
  imports Bitops Interfaces Fifo8 Dt
begin

text \<open>
  The SPMI bus, \<open>hw/spmi/core.c\<close>, and its controller, \<open>hw/spmi/apple_spmi.c\<close>. The guest pushes a request
  and, for a write, its data to a register; the controller runs the transfer on the bus and queues the answer
  in a word FIFO, which the guest pops. The state of a slave and its functions are those of the device; a
  pointer to a slave is its position among the children of the bus.
\<close>

abbreviation (input) "SPMI_CMD_EXT_WRITE \<equiv> 0x00 :: u8"
abbreviation (input) "SPMI_CMD_EXT_READ \<equiv> 0x20 :: u8"
abbreviation (input) "SPMI_CMD_EXT_WRITEL \<equiv> 0x30 :: u8"
abbreviation (input) "SPMI_CMD_EXT_READL \<equiv> 0x38 :: u8"

text \<open>The results of the functions are \<open>int\<close>; \<open>recv\<close> also returns the buffer it was given, filled.\<close>

record 'd SPMISlaveClass =
  sc_send :: "(bytes \<Rightarrow> u8 \<Rightarrow> 'd \<Rightarrow> (int \<times> 'd) res) option"
  sc_recv :: "(bytes \<Rightarrow> u8 \<Rightarrow> 'd \<Rightarrow> (int \<times> bytes \<times> 'd) res) option"
  sc_command :: "(u8 \<Rightarrow> u16 \<Rightarrow> 'd \<Rightarrow> (int \<times> 'd) res) option"
  sc_finish :: "('d \<Rightarrow> 'd) option"

record 'd SPMISlave =
  slave_class :: "'d SPMISlaveClass"
  spmi_sid :: u8
  slave_dev :: 'd

record 'd SPMIBus =
  bus_children :: "'d SPMISlave list"
  current_dev :: "nat option"
  saved_sid :: u8

definition upd_slave :: "nat \<Rightarrow> 'd \<Rightarrow> 'd SPMIBus \<Rightarrow> 'd SPMIBus" where
  "upd_slave i d b = b\<lparr>bus_children := (bus_children b)[i := (bus_children b ! i)\<lparr>slave_dev := d\<rparr>]\<rparr>"

definition spmi_bus_pre_save :: "'d SPMIBus \<Rightarrow> 'd SPMIBus" where
  "spmi_bus_pre_save b =
     (let b = b\<lparr>saved_sid := - 1\<rparr>
      in case current_dev b of None \<Rightarrow> b | Some i \<Rightarrow> b\<lparr>saved_sid := spmi_sid (bus_children b ! i)\<rparr>)"

definition spmi_slave_post_load :: "nat \<Rightarrow> 'd SPMIBus \<Rightarrow> 'd SPMIBus" where
  "spmi_slave_post_load i b = (if saved_sid b = spmi_sid (bus_children b ! i) then b\<lparr>current_dev := Some i\<rparr> else b)"

definition spmi_init_bus :: "'d SPMIBus" where
  "spmi_init_bus = \<lparr>bus_children = [], current_dev = None, saved_sid = 0\<rparr>"

text \<open>A realised slave becomes the first child.\<close>

definition spmi_slave_realize_and_unref :: "'d SPMISlave \<Rightarrow> 'd SPMIBus \<Rightarrow> 'd SPMIBus" where
  "spmi_slave_realize_and_unref dev b = b\<lparr>bus_children := dev # bus_children b, current_dev := map_option Suc (current_dev b)\<rparr>"

definition spmi_set_slave_sid :: "'d SPMISlave \<Rightarrow> u8 \<Rightarrow> 'd SPMISlave" where
  "spmi_set_slave_sid dev s = dev\<lparr>spmi_sid := s\<rparr>"

definition spmi_bus_busy :: "'d SPMIBus \<Rightarrow> bool" where
  "spmi_bus_busy b \<longleftrightarrow> current_dev b \<noteq> None"

text \<open>The scan of the children: the last one with the number is taken.\<close>

definition spmi_scan :: "u8 \<Rightarrow> 'd SPMISlave list \<Rightarrow> nat option" where
  "spmi_scan s kids = fold (\<lambda>i cur. if spmi_sid (kids ! i) = s then Some i else cur) [0..<length kids] None"

definition spmi_end_transfer :: "'d SPMIBus \<Rightarrow> 'd SPMIBus" where
  "spmi_end_transfer b =
     (case current_dev b of None \<Rightarrow> b
      | Some i \<Rightarrow> (case sc_finish (slave_class (bus_children b ! i)) of None \<Rightarrow> b
                   | Some f \<Rightarrow> upd_slave i (f (slave_dev (bus_children b ! i))) b))"

definition spmi_start_transfer :: "'d SPMIBus \<Rightarrow> u8 \<Rightarrow> u8 \<Rightarrow> u16 \<Rightarrow> (int \<times> 'd SPMIBus) res" where
  "spmi_start_transfer b s opcode address =
     (let bus_scanned = (current_dev b = None);
          b = (if bus_scanned then b\<lparr>current_dev := spmi_scan s (bus_children b)\<rparr> else b)
      in case current_dev b of None \<Rightarrow> Inr (1, b)
         | Some i \<Rightarrow>
             (case sc_command (slave_class (bus_children b ! i)) of None \<Rightarrow> Inr (0, b)
              | Some f \<Rightarrow> rbind (f opcode address (slave_dev (bus_children b ! i))) (\<lambda>(rv, d).
                  let b = upd_slave i d b
                  in if rv \<noteq> 0 then Inr (rv, if bus_scanned then spmi_end_transfer b else b) else Inr (0, b))))"

text \<open>\<open>spmi_send_recv\<close> with its two directions.\<close>

definition spmi_send :: "'d SPMIBus \<Rightarrow> bytes \<Rightarrow> u8 \<Rightarrow> (int \<times> 'd SPMIBus) res" where
  "spmi_send b data len =
     (case current_dev b of None \<Rightarrow> Inr (0, b)
      | Some i \<Rightarrow> (case sc_send (slave_class (bus_children b ! i)) of None \<Rightarrow> Inr (- 1, b)
                   | Some f \<Rightarrow> rbind (f data len (slave_dev (bus_children b ! i))) (\<lambda>(ret, d). Inr (ret, upd_slave i d b))))"

definition spmi_recv :: "'d SPMIBus \<Rightarrow> bytes \<Rightarrow> u8 \<Rightarrow> (int \<times> bytes \<times> 'd SPMIBus) res" where
  "spmi_recv b data len =
     (case current_dev b of None \<Rightarrow> Inr (0, data, b)
      | Some i \<Rightarrow> (case sc_recv (slave_class (bus_children b ! i)) of None \<Rightarrow> Inr (- 1, data, b)
                   | Some f \<Rightarrow> rbind (f data len (slave_dev (bus_children b ! i))) (\<lambda>(ret, data, d). Inr (ret, data, upd_slave i d b))))"

subsection \<open>The controller\<close>

abbreviation (input) "SPMI_QUEUE_DEPTH \<equiv> 0x100 :: u32"
abbreviation (input) "SPMI_CONTROL_QUEUE_RESET \<equiv> 0x14 :: hwaddr"
abbreviation (input) "SPMI_CONTROL_QUEUE_RESET_REQ \<equiv> BIT 0 :: u32"
abbreviation (input) "SPMI_CONTROL_QUEUE_RESET_RSP \<equiv> BIT 1 :: u32"
abbreviation (input) "SPMI_QUEUE_STATUS \<equiv> 0x0 :: hwaddr"
abbreviation (input) "SPMI_QUEUE_STATUS_REQ_EMPTY \<equiv> BIT 8 :: u32"
abbreviation (input) "SPMI_QUEUE_STATUS_RSP_EMPTY \<equiv> BIT 24 :: u32"
abbreviation (input) "SPMI_REQ_QUEUE_PUSH \<equiv> 0x4 :: hwaddr"
abbreviation (input) "SPMI_REQ_FINAL \<equiv> BIT 15 :: u32"
abbreviation (input) "SPMI_RSP_QUEUE_POP \<equiv> 0x8 :: hwaddr"
abbreviation (input) "SPMI_RSP_ACK_SHIFT \<equiv> 16 :: nat"
abbreviation (input) "SPMI_NUM_IRQ_BANK \<equiv> 9 :: nat"
abbreviation (input) "SPMI_NUM_IRQ \<equiv> 9 * 32 :: nat"
abbreviation (input) "SPMI_RESP_IRQ \<equiv> 0xc0 :: u32"

definition SPMI_REQ_SID :: "u32 \<Rightarrow> u8" where "SPMI_REQ_SID x = ucast (drop_bit 8 x AND 0xf)"

definition SPMI_INT_STATUS_V0 :: "nat \<Rightarrow> nat" where "SPMI_INT_STATUS_V0 b = 0x40 + b * 4"

definition SPMI_INT_STATUS_V1 :: "nat \<Rightarrow> nat" where "SPMI_INT_STATUS_V1 b = 0x60 + b * 4"

definition SPMI_INT_ENAB :: "nat \<Rightarrow> nat" where "SPMI_INT_ENAB b = 0x20 + b * 4"

record 'd AppleSPMIState =
  spmi_bus :: "'d SPMIBus"
  spmi_irq :: bool
  resp_fifo :: Fifo8
  control_reg :: "u32 list"
  queue_reg :: "u32 list"
  fault_reg :: "u32 list"
  fault_counter_reg :: "u32 list"
  resp_intr_index :: u32
  reg_vers :: u32
  spmi_data :: "u32 list option"
  data_length :: u32
  data_filled :: u32
  spmi_command :: u32

definition spmi_opcode :: "u32 \<Rightarrow> u32" where
  "spmi_opcode r = (if drop_bit 4 r AND 0xf = 1 then r AND 0xff else r AND 0xf8)"

definition spmi_data_length :: "u32 \<Rightarrow> u32" where
  "spmi_data_length r = (if drop_bit 4 r AND 0xf = 1 then 0 else (r AND 0x7) + 1)"

definition spmi_address :: "u32 \<Rightarrow> u32" where
  "spmi_address r =
     (if spmi_opcode r \<in> {ucast SPMI_CMD_EXT_WRITE, ucast SPMI_CMD_EXT_READ, ucast SPMI_CMD_EXT_WRITEL, ucast SPMI_CMD_EXT_READL}
      then drop_bit 16 r AND 0xffff else drop_bit 16 r AND 0xff)"

text \<open>The register of an interrupt bank, as an index of \<open>queue_reg\<close>.\<close>

definition spmi_status_index :: "'d AppleSPMIState \<Rightarrow> nat \<Rightarrow> nat res" where
  "spmi_status_index s b =
     (if reg_vers s = 0 then Inr (SPMI_INT_STATUS_V0 b div 4)
      else if reg_vers s = 1 then Inr (SPMI_INT_STATUS_V1 b div 4)
      else Inl AssertFailed)"

definition apple_spmi_update_irq :: "'d AppleSPMIState \<Rightarrow> 'd AppleSPMIState res" where
  "apple_spmi_update_irq s =
     rbind (spmi_status_index s 0) (\<lambda>st.
       Inr (s\<lparr>spmi_irq := list_ex (\<lambda>i. queue_reg s ! (st + i) AND queue_reg s ! (SPMI_INT_ENAB i div 4) \<noteq> 0) [0..<SPMI_NUM_IRQ_BANK]\<rparr>))"

definition apple_spmi_set_irq :: "nat \<Rightarrow> bool \<Rightarrow> 'd AppleSPMIState \<Rightarrow> 'd AppleSPMIState res" where
  "apple_spmi_set_irq irq level s =
     rbind (spmi_status_index s (irq div 32)) (\<lambda>i.
       if length (queue_reg s) \<le> i then Inl OutOfBounds
       else apple_spmi_update_irq
         (s\<lparr>queue_reg := (queue_reg s)[i := if level then queue_reg s ! i OR BIT (irq mod 32) else queue_reg s ! i AND NOT (BIT (irq mod 32))]\<rparr>))"

text \<open>The response line is wired to the input \<open>resp_intr_index\<close> of the controller itself.\<close>

definition apple_spmi_update_queues_status :: "'d AppleSPMIState \<Rightarrow> 'd AppleSPMIState res" where
  "apple_spmi_update_queues_status s = apple_spmi_set_irq (unat (resp_intr_index s)) (\<not> fifo32_is_empty (resp_fifo s)) s"

text \<open>
  A request word pushed while no data is expected. The first result is \<open>None\<close> when the handler returns early;
  otherwise it is the register contents to store and whether the queue and the line have to be updated.
\<close>

definition spmi_push_request :: "u32 \<Rightarrow> 'd AppleSPMIState \<Rightarrow> ((u32 \<times> bool) option \<times> 'd AppleSPMIState) res" where
  "spmi_push_request v s =
     (let opc = ucast (spmi_opcode v) :: u8; len = spmi_data_length v; parity = (v AND SPMI_REQ_FINAL = 0);
          s = s\<lparr>spmi_command := v\<rparr>;
          s = (if opc = SPMI_CMD_EXT_WRITE \<or> opc = SPMI_CMD_EXT_WRITEL
               then s\<lparr>data_length := (len + 3) div 4, data_filled := 0, spmi_data := Some (replicate (unat ((len + 3) div 4)) 0)\<rparr> else s)
      in rbind (spmi_start_transfer (spmi_bus s) (SPMI_REQ_SID v) opc (ucast (spmi_address v))) (\<lambda>(rv, b).
           let s = s\<lparr>spmi_bus := b\<rparr>
           in if rv \<noteq> 0 then Inr (None, s)
              else rbind
                (if spmi_data s = None \<and> len \<noteq> 0 then
                   if opc \<noteq> SPMI_CMD_EXT_READ \<and> opc \<noteq> SPMI_CMD_EXT_READL then Inl AssertFailed
                   else rbind (spmi_recv (spmi_bus s) (replicate (unat len + 3) 0) (ucast len)) (\<lambda>(count, data2, b).
                     if count > 31 then Inl UndefinedShift
                     else let ack = (if count > 0 then ucast (NOT (push_bit (nat count) (- 1 :: u32))) else 0) :: u8;
                              v = (v AND 0xFFF) OR push_bit SPMI_RSP_ACK_SHIFT (ucast ack)
                       in rbind (push_each fifo32_push (v # map (\<lambda>i. of_le (bslice (4 * i) 4 data2)) [0..<(unat len + 3) div 4]) (resp_fifo s))
                            (\<lambda>f. Inr (v, s\<lparr>spmi_bus := b, resp_fifo := f\<rparr>)))
                 else Inr (v, s))
                (\<lambda>(v, s).
                  if spmi_data s = None \<and> \<not> parity then Inr (Some (v, True), s\<lparr>spmi_bus := spmi_end_transfer (spmi_bus s)\<rparr>)
                  else Inr (Some (v, False), s))))"

text \<open>A word pushed while data is expected.\<close>

definition spmi_push_data :: "u32 \<Rightarrow> u32 list \<Rightarrow> 'd AppleSPMIState \<Rightarrow> (bool \<times> 'd AppleSPMIState) res" where
  "spmi_push_data v data s =
     (if length data \<le> unat (data_filled s) then Inl OutOfBounds
      else let data = data[unat (data_filled s) := v];
               s = s\<lparr>spmi_data := Some data, data_filled := data_filled s + 1\<rparr>
        in if data_filled s \<ge> data_length s then
             let requested_len = spmi_data_length (spmi_command s)
             in rbind (spmi_send (spmi_bus s) (concat (map (to_le 4) data)) (ucast requested_len)) (\<lambda>(count, b).
                  rbind (fifo32_push ((spmi_command s AND 0xFFF) OR (if word_of_int count = requested_len then BIT 15 else 0)) (resp_fifo s)) (\<lambda>f.
                    let s = s\<lparr>spmi_bus := b, resp_fifo := f, spmi_data := None, data_length := 0\<rparr>
                    in if spmi_command s AND SPMI_REQ_FINAL \<noteq> 0 then Inr (True, s\<lparr>spmi_bus := spmi_end_transfer (spmi_bus s)\<rparr>)
                       else Inr (False, s)))
           else Inr (False, s))"

text \<open>The end of the write handler: store the register, then update the queue status and the line.\<close>

definition spmi_store_reg :: "hwaddr \<Rightarrow> u32 \<Rightarrow> bool \<Rightarrow> bool \<Rightarrow> 'd AppleSPMIState \<Rightarrow> 'd AppleSPMIState res" where
  "spmi_store_reg addr v qflg iflg s =
     rbind (let s = s\<lparr>queue_reg := (queue_reg s)[addr div 4 := v]\<rparr> in if qflg then apple_spmi_update_queues_status s else Inr s)
       (\<lambda>s. if iflg then apple_spmi_update_irq s else Inr s)"

definition apple_spmi_queue_reg_write :: "hwaddr \<Rightarrow> u64 \<Rightarrow> 'd AppleSPMIState \<Rightarrow> 'd AppleSPMIState res" where
  "apple_spmi_queue_reg_write addr data s =
     (let v = ucast data :: u32
      in if length (queue_reg s) \<le> addr div 4 then Inl OutOfBounds
         else if addr = SPMI_REQ_QUEUE_PUSH then
           (case spmi_data s of
              None \<Rightarrow> rbind (spmi_push_request v s) (\<lambda>(r, s).
                case r of None \<Rightarrow> Inr s | Some (v, flg) \<Rightarrow> spmi_store_reg addr v flg flg s)
            | Some d \<Rightarrow> rbind (spmi_push_data v d s) (\<lambda>(flg, s). spmi_store_reg addr v flg flg s))
         else if SPMI_INT_ENAB 0 \<le> addr \<and> addr \<le> SPMI_INT_ENAB (SPMI_NUM_IRQ_BANK - 1) then spmi_store_reg addr v False True s
         else if SPMI_INT_STATUS_V1 0 \<le> addr \<and> addr \<le> SPMI_INT_STATUS_V1 (SPMI_NUM_IRQ_BANK - 1) then
           spmi_store_reg addr (queue_reg s ! (addr div 4) AND NOT v) False True s
         else spmi_store_reg addr v False False s)"

definition apple_spmi_queue_reg_read :: "hwaddr \<Rightarrow> 'd AppleSPMIState \<Rightarrow> (u64 \<times> 'd AppleSPMIState) res" where
  "apple_spmi_queue_reg_read addr s =
     (if length (queue_reg s) \<le> addr div 4 then Inl OutOfBounds
      else let v = queue_reg s ! (addr div 4)
        in if addr = SPMI_RSP_QUEUE_POP then
             rbind (if fifo32_is_empty (resp_fifo s) then Inr (0, s)
                    else rbind (fifo32_pop (resp_fifo s)) (\<lambda>(v, f). Inr (v, s\<lparr>resp_fifo := f\<rparr>))) (\<lambda>(v, s).
               rbind (apple_spmi_update_queues_status s) (\<lambda>s. rbind (apple_spmi_update_irq s) (\<lambda>s. Inr (ucast v, s))))
           else if addr = SPMI_QUEUE_STATUS then
             let v = v AND NOT (SPMI_QUEUE_STATUS_REQ_EMPTY OR SPMI_QUEUE_STATUS_RSP_EMPTY);
                 v = v OR SPMI_QUEUE_STATUS_REQ_EMPTY
             in Inr (ucast (if fifo32_is_empty (resp_fifo s) then v OR SPMI_QUEUE_STATUS_RSP_EMPTY else v), s)
           else Inr (ucast v, s))"

definition apple_spmi_control_read :: "hwaddr \<Rightarrow> 'd AppleSPMIState \<Rightarrow> u64 res" where
  "apple_spmi_control_read addr s =
     (if length (control_reg s) \<le> addr div 4 then Inl OutOfBounds else Inr (ucast (control_reg s ! (addr div 4))))"

definition apple_spmi_control_write :: "hwaddr \<Rightarrow> u64 \<Rightarrow> 'd AppleSPMIState \<Rightarrow> 'd AppleSPMIState res" where
  "apple_spmi_control_write addr data s =
     (let v = ucast data :: u32
      in if length (control_reg s) \<le> addr div 4 then Inl OutOfBounds
         else if addr = SPMI_CONTROL_QUEUE_RESET then
           let s = (if v AND SPMI_CONTROL_QUEUE_RESET_RSP \<noteq> 0 then s\<lparr>resp_fifo := fifo32_reset (resp_fifo s)\<rparr> else s);
               v = (if v AND SPMI_CONTROL_QUEUE_RESET_RSP \<noteq> 0 then v AND NOT SPMI_CONTROL_QUEUE_RESET_RSP else v);
               v = v AND NOT SPMI_CONTROL_QUEUE_RESET_REQ
           in apple_spmi_update_queues_status (s\<lparr>control_reg := (control_reg s)[addr div 4 := v]\<rparr>)
         else Inr (s\<lparr>control_reg := (control_reg s)[addr div 4 := v]\<rparr>))"

definition apple_spmi_fault_read :: "hwaddr \<Rightarrow> 'd AppleSPMIState \<Rightarrow> u64 res" where
  "apple_spmi_fault_read addr s =
     (if length (fault_reg s) \<le> addr div 4 then Inl OutOfBounds
      else let v = fault_reg s ! (addr div 4)
        in if addr = SPMI_QUEUE_STATUS then
             let v = v AND NOT (SPMI_QUEUE_STATUS_REQ_EMPTY OR SPMI_QUEUE_STATUS_RSP_EMPTY)
             in Inr (ucast (v OR SPMI_QUEUE_STATUS_REQ_EMPTY OR SPMI_QUEUE_STATUS_RSP_EMPTY))
           else Inr (ucast v))"

definition apple_spmi_fault_write :: "hwaddr \<Rightarrow> u64 \<Rightarrow> 'd AppleSPMIState \<Rightarrow> 'd AppleSPMIState res" where
  "apple_spmi_fault_write addr data s =
     (if length (fault_reg s) \<le> addr div 4 then Inl OutOfBounds
      else Inr (s\<lparr>fault_reg := (fault_reg s)[addr div 4 := ucast data]\<rparr>))"

definition apple_spmi_reset_enter :: "'d AppleSPMIState \<Rightarrow> 'd AppleSPMIState" where
  "apple_spmi_reset_enter s =
     s\<lparr>control_reg := replicate (length (control_reg s)) 0, queue_reg := replicate (length (queue_reg s)) 0,
       fault_reg := replicate (length (fault_reg s)) 0, fault_counter_reg := replicate (length (fault_counter_reg s)) 0,
       resp_fifo := fifo32_reset (resp_fifo s), spmi_data := None, data_length := 0\<rparr>"

definition apple_spmi_reset_exit :: "'d AppleSPMIState \<Rightarrow> 'd AppleSPMIState res" where
  "apple_spmi_reset_exit s = rbind (apple_spmi_update_queues_status s) apple_spmi_update_irq"

text \<open>\<open>fresh\<close> is the contents of new memory for the FIFO; the other fields of a new object are zero.\<close>

definition apple_spmi_init :: "(nat \<Rightarrow> u8) \<Rightarrow> 'd AppleSPMIState" where
  "apple_spmi_init fresh =
     \<lparr>spmi_bus = spmi_init_bus, spmi_irq = False, resp_fifo = fifo32_create fresh SPMI_QUEUE_DEPTH, control_reg = replicate (0x100 div 4) 0,
      queue_reg = replicate (0x100 div 4) 0, fault_reg = replicate (0x100 div 4) 0, fault_counter_reg = replicate (0x64 div 4) 0,
      resp_intr_index = SPMI_RESP_IRQ, reg_vers = 1, spmi_data = None, data_length = 0, data_filled = 0, spmi_command = 0\<rparr>"

text \<open>Wiring the response line needs an input with its number.\<close>

definition apple_spmi_realize :: "'d AppleSPMIState \<Rightarrow> 'd AppleSPMIState res" where
  "apple_spmi_realize s =
     (if unat (resp_intr_index s) < SPMI_NUM_IRQ then Inr (s\<lparr>spmi_bus := spmi_init_bus\<rparr>)
      else Inl AssertFailed)"

definition apple_spmi_from_node :: "(nat \<Rightarrow> u8) \<Rightarrow> AppleDTNode \<Rightarrow> 'd AppleSPMIState res" where
  "apple_spmi_from_node fresh node =
     (let s = apple_spmi_init fresh
      in rbind (apple_dt_get_prop_strdup node (cs ''name'') ErrFatal) (\<lambda>_.
         rbind (apple_dt_get_prop_u32_or node (cs ''reg-vers'') (reg_vers s) ErrFatal) (\<lambda>(vers, _).
           if vers = 0 then Inl AssertFailed
           else rbind (apple_dt_get_prop_u32 node (cs ''AAPL,phandle'') ErrFatal) (\<lambda>(phandle, _).
             rbind (apple_dt_get_prop_u32 node (cs ''interrupts'') ErrWarn) (\<lambda>(intr, _).
             rbind (apple_dt_get_prop_u32 node (cs ''interrupt-parent'') ErrWarn) (\<lambda>(parent, _).
               if parent \<noteq> phandle then Inl AssertFailed
               else Inr (s\<lparr>reg_vers := vers, resp_intr_index := intr\<rparr>)))))))"

subsection \<open>The bus\<close>

lemma spmi_scan_aux:
  "n \<le> length kids \<Longrightarrow>
   case fold (\<lambda>i cur. if spmi_sid (kids ! i) = s then Some i else cur) [0..<n] None of
     None \<Rightarrow> \<forall>i < n. spmi_sid (kids ! i) \<noteq> s
   | Some i \<Rightarrow> i < n \<and> spmi_sid (kids ! i) = s"
  by (induction n) (auto split: option.splits simp: less_Suc_eq)

lemma spmi_scan:
  "spmi_scan s kids = Some i \<Longrightarrow> i < length kids \<and> spmi_sid (kids ! i) = s"
  "spmi_scan s kids = None \<longleftrightarrow> (\<forall>k \<in> set kids. spmi_sid k \<noteq> s)"
  using spmi_scan_aux [of "length kids" kids s]
  by (auto simp: spmi_scan_def all_set_conv_all_nth split: option.splits)

lemma upd_slave [simp]:
  "current_dev (upd_slave i d b) = current_dev b" "length (bus_children (upd_slave i d b)) = length (bus_children b)"
  "saved_sid (upd_slave i d b) = saved_sid b" "j \<noteq> i \<Longrightarrow> bus_children (upd_slave i d b) ! j = bus_children b ! j"
  "i < length (bus_children b) \<Longrightarrow> bus_children (upd_slave i d b) ! i = (bus_children b ! i)\<lparr>slave_dev := d\<rparr>"
  by (simp_all add: upd_slave_def)

text \<open>The bus operations as steps of a transfer.\<close>

datatype spmi_bus_op = SpmiStart u8 u8 u16 | SpmiSend bytes u8 | SpmiRecv bytes u8 | SpmiEnd

fun spmi_bus_step :: "spmi_bus_op \<Rightarrow> 'd SPMIBus \<Rightarrow> 'd SPMIBus res" where
  "spmi_bus_step (SpmiStart s opc a) b = rbind (spmi_start_transfer b s opc a) (\<lambda>(_, b). Inr b)"
| "spmi_bus_step (SpmiSend data len) b = rbind (spmi_send b data len) (\<lambda>(_, b). Inr b)"
| "spmi_bus_step (SpmiRecv data len) b = rbind (spmi_recv b data len) (\<lambda>(_, _, b). Inr b)"
| "spmi_bus_step SpmiEnd b = Inr (spmi_end_transfer b)"

lemma spmi_bus_step_current:
  assumes "current_dev b = Some i" "spmi_bus_step x b = Inr b'"
  shows "current_dev b' = Some i \<and> (\<forall>j. j \<noteq> i \<longrightarrow> bus_children b' ! j = bus_children b ! j)"
  using assms
  by (cases x) (auto simp: spmi_start_transfer_def spmi_end_transfer_def spmi_send_def spmi_recv_def Let_def split: option.splits if_splits)

text \<open>
  Property C36 (error). Ending a transfer does not release the slave: once a slave has been addressed, every later transfer goes to
  it, whatever number the transfer names, and no other slave is reached again.
\<close>

lemma spmi_slave_kept:
  assumes "current_dev b = Some i" "run_res spmi_bus_step xs b = Inr b'"
  shows "current_dev b' = Some i \<and> (\<forall>j. j \<noteq> i \<longrightarrow> bus_children b' ! j = bus_children b ! j)"
  using assms
proof (induction xs arbitrary: b)
  case (Cons x xs)
  then obtain c where c: "spmi_bus_step x b = Inr c" "run_res spmi_bus_step xs c = Inr b'" by auto
  then show ?case using spmi_bus_step_current [OF Cons.prems(1) c(1)] Cons.IH [of c] by simp
qed simp

definition spmi_bus_demo :: "unit SPMIBus" where
  "spmi_bus_demo =
     (let cls = \<lparr>sc_send = None, sc_recv = None, sc_command = None, sc_finish = None\<rparr>
      in \<lparr>bus_children = [\<lparr>slave_class = cls, spmi_sid = 1, slave_dev = ()\<rparr>, \<lparr>slave_class = cls, spmi_sid = 2, slave_dev = ()\<rparr>],
          current_dev = Some 0, saved_sid = 0\<rparr>)"

lemma spmi_slave_kept_witness:
  "\<exists>b. run_res spmi_bus_step [SpmiEnd, SpmiStart 2 0 0, SpmiEnd] spmi_bus_demo = Inr b \<and> current_dev b = Some 0 \<and>
    (\<forall>j. j \<noteq> 0 \<longrightarrow> bus_children b ! j = bus_children spmi_bus_demo ! j)"
proof -
  have "run_res spmi_bus_step [SpmiEnd, SpmiStart 2 0 0, SpmiEnd] spmi_bus_demo = Inr spmi_bus_demo"
    by (simp add: spmi_bus_demo_def spmi_end_transfer_def spmi_start_transfer_def Let_def)
  moreover have "current_dev spmi_bus_demo = Some 0" by (simp add: spmi_bus_demo_def Let_def)
  ultimately show ?thesis using spmi_slave_kept by blast
qed

subsection \<open>The interrupt registers\<close>

definition spmi_wf :: "'d AppleSPMIState \<Rightarrow> bool" where
  "spmi_wf s \<longleftrightarrow> reg_vers s = 1 \<and> length (queue_reg s) = 64 \<and> length (control_reg s) = 64 \<and> length (fault_reg s) = 64 \<and>
     unat (resp_intr_index s) < SPMI_NUM_IRQ \<and> fifo32_wf (resp_fifo s) \<and> fifo32_size (resp_fifo s) = 256"

text \<open>The part of the state the interrupt handling does not change.\<close>

definition spmi_keep :: "'d AppleSPMIState \<Rightarrow> 'd AppleSPMIState \<Rightarrow> bool" where
  "spmi_keep s t \<longleftrightarrow> spmi_wf t \<and> spmi_bus t = spmi_bus s \<and> resp_fifo t = resp_fifo s \<and> spmi_data t = spmi_data s \<and>
     data_length t = data_length s \<and> data_filled t = data_filled s \<and> spmi_command t = spmi_command s \<and> control_reg t = control_reg s \<and>
     resp_intr_index t = resp_intr_index s"

lemma spmi_keep_trans: "spmi_keep s t \<Longrightarrow> spmi_keep t u \<Longrightarrow> spmi_keep s u"
  by (simp add: spmi_keep_def)

text \<open>Whether an interrupt of an enabled bank is pending, which the line shows.\<close>

definition spmi_pending :: "'d AppleSPMIState \<Rightarrow> bool" where
  "spmi_pending s \<longleftrightarrow> (\<exists>b < SPMI_NUM_IRQ_BANK. queue_reg s ! (24 + b) AND queue_reg s ! (8 + b) \<noteq> 0)"

lemma spmi_update_irq:
  assumes "spmi_wf s"
  shows "\<exists>t. apple_spmi_update_irq s = Inr t \<and> spmi_keep s t \<and> queue_reg t = queue_reg s \<and> spmi_irq t = spmi_pending t"
  using assms
  by (auto simp: apple_spmi_update_irq_def spmi_status_index_def spmi_wf_def spmi_keep_def SPMI_INT_STATUS_V1_def SPMI_INT_ENAB_def
      list_ex_iff spmi_pending_def)

lemma spmi_set_irq:
  assumes "spmi_wf s" "irq < SPMI_NUM_IRQ"
  shows "\<exists>t. apple_spmi_set_irq irq level s = Inr t \<and> spmi_keep s t \<and> spmi_irq t = spmi_pending t \<and>
    (bit (queue_reg t ! (24 + irq div 32)) (irq mod 32) \<longleftrightarrow> level)"
proof -
  let ?i = "24 + irq div 32"
  let ?s = "s\<lparr>queue_reg := (queue_reg s)[?i := if level then queue_reg s ! ?i OR BIT (irq mod 32) else queue_reg s ! ?i AND NOT (BIT (irq mod 32))]\<rparr>"
  have i: "?i < length (queue_reg s)" using assms by (simp add: spmi_wf_def div_less_iff_less_mult)
  have wf: "spmi_wf ?s" using assms(1) by (simp add: spmi_wf_def)
  have st: "apple_spmi_set_irq irq level s = apple_spmi_update_irq ?s"
    using i assms(1) by (simp add: apple_spmi_set_irq_def spmi_status_index_def spmi_wf_def SPMI_INT_STATUS_V1_def)
  obtain t where t: "apple_spmi_update_irq ?s = Inr t" "spmi_keep ?s t" "queue_reg t = queue_reg ?s" "spmi_irq t = spmi_pending t"
    using spmi_update_irq [OF wf] by blast
  have "bit (queue_reg t ! ?i) (irq mod 32) \<longleftrightarrow> level"
    using i t(3) by (auto simp: bit_logic bit_BIT)
  then show ?thesis using t st by (auto simp: spmi_keep_def)
qed

text \<open>The response interrupt is pending exactly while the response queue holds a word.\<close>

definition spmi_resp_pending :: "'d AppleSPMIState \<Rightarrow> bool" where
  "spmi_resp_pending s \<longleftrightarrow> bit (queue_reg s ! (24 + unat (resp_intr_index s) div 32)) (unat (resp_intr_index s) mod 32)"

lemma spmi_update_queues:
  assumes "spmi_wf s"
  shows "\<exists>t. apple_spmi_update_queues_status s = Inr t \<and> spmi_keep s t \<and> spmi_irq t = spmi_pending t \<and>
    (spmi_resp_pending t \<longleftrightarrow> fifo32_list (resp_fifo t) \<noteq> [])"
proof -
  have "unat (resp_intr_index s) < SPMI_NUM_IRQ" "fifo32_wf (resp_fifo s)" using assms by (simp_all add: spmi_wf_def)
  then show ?thesis using spmi_set_irq [OF assms, of "unat (resp_intr_index s)" "\<not> fifo32_is_empty (resp_fifo s)"]
    by (auto simp: apple_spmi_update_queues_status_def spmi_resp_pending_def spmi_keep_def fifo32_counts(3))
qed

text \<open>The queue status and then the line, as the handlers end.\<close>

lemma spmi_update_both:
  assumes "spmi_wf s"
  shows "\<exists>t. rbind (apple_spmi_update_queues_status s) apple_spmi_update_irq = Inr t \<and> spmi_keep s t \<and> spmi_irq t = spmi_pending t \<and>
    (spmi_resp_pending t \<longleftrightarrow> fifo32_list (resp_fifo t) \<noteq> [])"
proof -
  obtain t where t: "apple_spmi_update_queues_status s = Inr t" "spmi_keep s t" "spmi_resp_pending t \<longleftrightarrow> fifo32_list (resp_fifo t) \<noteq> []"
    using spmi_update_queues [OF assms] by blast
  then have wf: "spmi_wf t" by (simp add: spmi_keep_def)
  obtain u where u: "apple_spmi_update_irq t = Inr u" "spmi_keep t u" "queue_reg u = queue_reg t" "spmi_irq u = spmi_pending u"
    using spmi_update_irq [OF wf] by blast
  have "spmi_resp_pending u \<longleftrightarrow> fifo32_list (resp_fifo u) \<noteq> []" using t(3) u(2,3) by (simp add: spmi_resp_pending_def spmi_keep_def)
  then show ?thesis using t(1) u(1,4) spmi_keep_trans [OF t(2) u(2)] by auto
qed

lemma spmi_store_reg:
  assumes "spmi_wf s"
  shows "\<exists>t. spmi_store_reg addr v q i s = Inr t \<and> spmi_keep s t \<and>
    (i \<longrightarrow> spmi_irq t = spmi_pending t) \<and> (q \<and> i \<longrightarrow> (spmi_resp_pending t \<longleftrightarrow> fifo32_list (resp_fifo t) \<noteq> []))"
proof -
  let ?s = "s\<lparr>queue_reg := (queue_reg s)[addr div 4 := v]\<rparr>"
  have wf: "spmi_wf ?s" and k: "\<And>t. spmi_keep ?s t \<Longrightarrow> spmi_keep s t" "spmi_keep s ?s"
    using assms by (auto simp: spmi_wf_def spmi_keep_def)
  have d: "spmi_store_reg addr v q i s =
      (if q then rbind (apple_spmi_update_queues_status ?s) (\<lambda>s. if i then apple_spmi_update_irq s else Inr s)
       else if i then apple_spmi_update_irq ?s else Inr ?s)"
    by (simp add: spmi_store_reg_def)
  obtain t where t: "rbind (apple_spmi_update_queues_status ?s) apple_spmi_update_irq = Inr t" "spmi_keep ?s t" "spmi_irq t = spmi_pending t"
    "spmi_resp_pending t \<longleftrightarrow> fifo32_list (resp_fifo t) \<noteq> []" using spmi_update_both [OF wf] by blast
  obtain u where u: "apple_spmi_update_queues_status ?s = Inr u" "spmi_keep ?s u" using spmi_update_queues [OF wf] by blast
  obtain w where w: "apple_spmi_update_irq ?s = Inr w" "spmi_keep ?s w" "spmi_irq w = spmi_pending w" using spmi_update_irq [OF wf] by blast
  have "spmi_store_reg addr v q i s = Inr (if q then if i then t else u else if i then w else ?s)"
    using d t(1) u(1) w(1) by (simp del: rbind_eq_Inr)
  moreover have "spmi_keep s t" "spmi_keep s u" "spmi_keep s w" "spmi_keep s ?s" using t(2) u(2) w(2) k by blast+
  ultimately show ?thesis using t(3,4) w(3) by (cases q; cases i) auto
qed

subsection \<open>Requests\<close>

definition is_ext_write :: "u32 \<Rightarrow> bool" where
  "is_ext_write r \<longleftrightarrow> spmi_opcode r \<in> {0x00, 0x30}"

definition is_ext_read :: "u32 \<Rightarrow> bool" where
  "is_ext_read r \<longleftrightarrow> spmi_opcode r \<in> {0x20, 0x38}"

lemma spmi_ext_nibble:
  assumes "is_ext_write r \<or> is_ext_read r"
  shows "drop_bit 4 r AND 0xf \<noteq> 1"
proof
  assume n: "drop_bit 4 r AND 0xf = 1"
  then have "spmi_opcode r = r AND 0xff" by (simp add: spmi_opcode_def)
  moreover have b: "bit (drop_bit 4 r AND (0xf :: u32)) k = bit (1 :: u32) k" for k by (simp only: n)
  have "bit r 4" "\<not> bit r 5" using b [of 0] b [of 1] by (simp_all add: bit_and_iff bit_drop_bit_eq)
  moreover have "bit (r AND 0xff) 4 \<longleftrightarrow> bit r 4" "bit (r AND 0xff) 5 \<longleftrightarrow> bit r 5" by (simp_all add: bit_and_iff)
  ultimately show False using assms by (auto simp: is_ext_write_def is_ext_read_def)
qed

lemma spmi_ext_length:
  assumes "is_ext_write r \<or> is_ext_read r"
  shows "1 \<le> unat (spmi_data_length r)" "unat (spmi_data_length r) \<le> 8" "spmi_data_length r \<noteq> 0"
proof -
  have "r AND 7 \<le> 7" by (rule word_and_le1)
  then have "unat (r AND 7) \<le> 7" by (simp add: word_le_nat_alt)
  then have "unat (spmi_data_length r) = unat (r AND 7) + 1" "unat (r AND 7) \<le> 7"
    using spmi_ext_nibble [OF assms] by (simp_all add: spmi_data_length_def unat_word_ariths)
  then show "1 \<le> unat (spmi_data_length r)" "unat (spmi_data_length r) \<le> 8" by simp_all
  then show "spmi_data_length r \<noteq> 0" by auto
qed

lemma spmi_ext_opcode:
  "is_ext_write r \<Longrightarrow> ucast (spmi_opcode r) = SPMI_CMD_EXT_WRITE \<or> ucast (spmi_opcode r) = SPMI_CMD_EXT_WRITEL"
  "is_ext_read r \<Longrightarrow> ucast (spmi_opcode r) = SPMI_CMD_EXT_READ \<or> ucast (spmi_opcode r) = SPMI_CMD_EXT_READL"
  by (auto simp: is_ext_write_def is_ext_read_def)

text \<open>The number of data words of a request.\<close>

definition spmi_word_count :: "u32 \<Rightarrow> nat" where
  "spmi_word_count r = (unat (spmi_data_length r) + 3) div 4"

lemma spmi_word_count:
  assumes "is_ext_write r \<or> is_ext_read r"
  shows "spmi_word_count r = 1 \<or> spmi_word_count r = 2" "unat (spmi_data_length r) \<le> 4 * spmi_word_count r"
    "unat ((spmi_data_length r + 3) div 4) = spmi_word_count r"
  using spmi_ext_length [OF assms] by (auto simp: spmi_word_count_def unat_div_distrib unat_word_ariths)

subsection \<open>Transfers\<close>

text \<open>Accesses of the guest to the queue registers: a write has its data, a read returns a number.\<close>

fun spmi_guest :: "(hwaddr \<times> u64 option) list \<Rightarrow> 'd AppleSPMIState \<Rightarrow> (u64 list \<times> 'd AppleSPMIState) res" where
  "spmi_guest [] s = Inr ([], s)"
| "spmi_guest ((a, Some v) # xs) s = rbind (apple_spmi_queue_reg_write a v s) (spmi_guest xs)"
| "spmi_guest ((a, None) # xs) s =
     rbind (apple_spmi_queue_reg_read a s) (\<lambda>(v, s). rbind (spmi_guest xs s) (\<lambda>(vs, s). Inr (v # vs, s)))"

definition spmi_pushes :: "u32 list \<Rightarrow> (hwaddr \<times> u64 option) list" where
  "spmi_pushes ws = map (\<lambda>w. (SPMI_REQ_QUEUE_PUSH, Some (ucast w))) ws"

definition spmi_pops :: "nat \<Rightarrow> (hwaddr \<times> u64 option) list" where
  "spmi_pops n = replicate n (SPMI_RSP_QUEUE_POP, None)"

lemma spmi_guest_append:
  "spmi_guest (xs @ ys) s = rbind (spmi_guest xs s) (\<lambda>(us, s). rbind (spmi_guest ys s) (\<lambda>(vs, s). Inr (us @ vs, s)))"
proof (induction xs s rule: spmi_guest.induct)
  case (1 s)
  then show ?case by (cases "spmi_guest ys s") auto
next
  case (2 a v xs s)
  then show ?case by (cases "apple_spmi_queue_reg_write a v s") simp_all
next
  case (3 a xs s)
  then show ?case
    by (cases "apple_spmi_queue_reg_read a s") (auto simp: rbind_assoc split_beta)
qed

text \<open>The words an answer is cut into hold its bytes.\<close>

lemma spmi_cut_words:
  "4 * n \<le> length bs \<Longrightarrow> concat (map (to_le 4) (map (\<lambda>i. of_le (bslice (4 * i) 4 bs) :: u32) [0..<n])) = take (4 * n) bs"
proof (induction n)
  case (Suc n)
  have "take (4 * Suc n) bs = take (4 * n) bs @ bslice (4 * n) 4 bs"
    using take_add [of "4 * n" 4 bs] by (simp add: bslice_def add.commute)
  moreover have "length (bslice (4 * n) 4 bs) = 4" using Suc.prems by (simp add: bslice_def)
  ultimately show ?case using Suc by simp
qed simp

lemma spmi_ack: "n \<le> 8 \<Longrightarrow> (ucast (mask n :: u32) :: u8) = mask n"
  by (rule bit_word_eqI) (auto simp: bit_logic bit_ucast_iff)

text \<open>Popping the response queue returns its words and ends with its interrupt cleared.\<close>

lemma spmi_pop:
  assumes "spmi_wf s" "fifo32_list (resp_fifo s) = w # ws"
  shows "\<exists>t f. apple_spmi_queue_reg_read SPMI_RSP_QUEUE_POP s = Inr (ucast w, t) \<and> spmi_keep (s\<lparr>resp_fifo := f\<rparr>) t \<and>
    fifo32_list f = ws \<and> spmi_irq t = spmi_pending t \<and> (spmi_resp_pending t \<longleftrightarrow> ws \<noteq> [])"
proof -
  have f: "fifo32_wf (resp_fifo s)" "fifo32_size (resp_fifo s) = 256" "length (queue_reg s) = 64" using assms(1) by (simp_all add: spmi_wf_def)
  obtain f where pop: "fifo32_pop (resp_fifo s) = Inr (w, f)" "fifo32_wf f" "fifo32_list f = ws" "fifo32_size f = 256"
    using fifo32_pop_Cons [OF f(1) assms(2)] f(2) by auto
  have wf: "spmi_wf (s\<lparr>resp_fifo := f\<rparr>)" using assms(1) pop by (simp add: spmi_wf_def)
  obtain t where t: "rbind (apple_spmi_update_queues_status (s\<lparr>resp_fifo := f\<rparr>)) apple_spmi_update_irq = Inr t"
    "spmi_keep (s\<lparr>resp_fifo := f\<rparr>) t" "spmi_irq t = spmi_pending t" "spmi_resp_pending t \<longleftrightarrow> fifo32_list (resp_fifo t) \<noteq> []"
    using spmi_update_both [OF wf] by blast
  have "\<not> fifo32_is_empty (resp_fifo s)" using assms(2) by (simp add: fifo32_counts(3) [OF f(1)])
  moreover have "rbind (apple_spmi_update_queues_status u) (\<lambda>s. rbind (apple_spmi_update_irq s) (\<lambda>s. Inr (ucast w :: u64, s))) =
      rbind (rbind (apple_spmi_update_queues_status u) apple_spmi_update_irq) (\<lambda>s. Inr (ucast w, s))" for u :: "'a AppleSPMIState"
    by (simp add: rbind_assoc)
  ultimately have "apple_spmi_queue_reg_read SPMI_RSP_QUEUE_POP s = Inr (ucast w, t)"
    using pop(1) t(1) f(3) by (simp add: apple_spmi_queue_reg_read_def Let_def del: rbind_eq_Inr)
  moreover have "resp_fifo t = f" using t(2) by (simp add: spmi_keep_def)
  ultimately show ?thesis using t pop(3) by blast
qed

lemma spmi_pop_all:
  "spmi_wf s \<Longrightarrow> fifo32_list (resp_fifo s) = ws \<Longrightarrow> ws \<noteq> [] \<Longrightarrow>
   \<exists>t f. spmi_guest (spmi_pops (length ws)) s = Inr (map ucast ws, t) \<and> spmi_keep (s\<lparr>resp_fifo := f\<rparr>) t \<and> fifo32_list f = [] \<and>
     spmi_irq t = spmi_pending t \<and> \<not> spmi_resp_pending t"
proof (induction ws arbitrary: s)
  case (Cons w ws)
  obtain t f where t: "apple_spmi_queue_reg_read SPMI_RSP_QUEUE_POP s = Inr (ucast w, t)" "spmi_keep (s\<lparr>resp_fifo := f\<rparr>) t"
    "fifo32_list f = ws" "spmi_irq t = spmi_pending t" "spmi_resp_pending t \<longleftrightarrow> ws \<noteq> []"
    using spmi_pop [OF Cons.prems(1,2)] by blast
  show ?case
  proof (cases "ws = []")
    case True
    then show ?thesis using t by (auto simp: spmi_pops_def)
  next
    case False
    have "spmi_wf t" "fifo32_list (resp_fifo t) = ws" using t(2,3) by (simp_all add: spmi_keep_def)
    then obtain u g where u: "spmi_guest (spmi_pops (length ws)) t = Inr (map ucast ws, u)" "spmi_keep (t\<lparr>resp_fifo := g\<rparr>) u" "fifo32_list g = []"
      "spmi_irq u = spmi_pending u" "\<not> spmi_resp_pending u"
      using Cons.IH False by blast
    have "spmi_keep (s\<lparr>resp_fifo := g\<rparr>) u" using t(2) u(2) by (auto simp: spmi_keep_def)
    then show ?thesis using t(1) u by (auto simp: spmi_pops_def)
  qed
qed simp

text \<open>A controller that expects a request, whose transfers go to the slave \<open>i\<close>.\<close>

definition spmi_ready :: "'d SPMISlaveClass \<Rightarrow> u8 \<Rightarrow> nat \<Rightarrow> 'd AppleSPMIState \<Rightarrow> bool" where
  "spmi_ready cls n i s \<longleftrightarrow> spmi_wf s \<and> spmi_data s = None \<and> i < length (bus_children (spmi_bus s)) \<and>
     slave_class (bus_children (spmi_bus s) ! i) = cls \<and>
     (current_dev (spmi_bus s) = Some i \<or> current_dev (spmi_bus s) = None \<and> spmi_scan n (bus_children (spmi_bus s)) = Some i)"

text \<open>The answer to a read: a head with one acknowledge bit per byte, and the bytes, padded to words.\<close>

definition spmi_answer :: "u32 \<Rightarrow> bytes \<Rightarrow> u32 list" where
  "spmi_answer r bs =
     ((r AND 0xFFF) OR push_bit SPMI_RSP_ACK_SHIFT (ucast (mask (length bs) :: u8))) #
     map (\<lambda>i. of_le (bslice (4 * i) 4 (bs @ replicate 3 0))) [0..<spmi_word_count r]"

lemma spmi_answer:
  assumes "length bs = unat (spmi_data_length r)"
  shows "length (spmi_answer r bs) = Suc (spmi_word_count r)"
    "take (length bs) (concat (map (to_le 4) (tl (spmi_answer r bs)))) = bs"
proof -
  have "concat (map (to_le 4) (tl (spmi_answer r bs))) = take (4 * spmi_word_count r) (bs @ replicate 3 0)"
    unfolding spmi_answer_def list.sel by (rule spmi_cut_words) (simp add: assms spmi_word_count_def)
  moreover have "length bs \<le> 4 * spmi_word_count r" by (simp add: assms spmi_word_count_def)
  ultimately show "take (length bs) (concat (map (to_le 4) (tl (spmi_answer r bs)))) = bs" by (simp add: min_absorb1)
qed (simp add: spmi_answer_def)

text \<open>
  What the controller relies on in a slave: it accepts the four extended commands, which set its address, and
  while its registers are long enough, sends and receives move as many bytes as they are asked to.
\<close>

locale spmi_target =
  fixes cls :: "'d SPMISlaveClass" and point :: "u16 \<Rightarrow> 'd \<Rightarrow> 'd" and fits :: "nat \<Rightarrow> 'd \<Rightarrow> bool"
    and put :: "bytes \<Rightarrow> 'd \<Rightarrow> 'd" and get :: "nat \<Rightarrow> 'd \<Rightarrow> bytes" and got :: "nat \<Rightarrow> 'd \<Rightarrow> 'd"
  assumes command: "opc \<in> {SPMI_CMD_EXT_WRITE, SPMI_CMD_EXT_READ, SPMI_CMD_EXT_WRITEL, SPMI_CMD_EXT_READL} \<Longrightarrow>
      \<exists>f. sc_command cls = Some f \<and> f opc a d = Inr (0, point a d)"
    and send: "fits (unat len) d \<Longrightarrow> unat len \<le> length data \<Longrightarrow>
      \<exists>f. sc_send cls = Some f \<and> f data len d = Inr (uint len, put (take (unat len) data) d)"
    and recv: "fits (unat len) d \<Longrightarrow> unat len \<le> length data \<Longrightarrow>
      \<exists>f. sc_recv cls = Some f \<and> f data len d = Inr (uint len, get (unat len) d @ drop (unat len) data, got (unat len) d)"
    and get_length: "fits n d \<Longrightarrow> length (get n d) = n"
    and no_finish: "sc_finish cls = None"
begin

abbreviation ready :: "u8 \<Rightarrow> nat \<Rightarrow> 'd AppleSPMIState \<Rightarrow> bool" where
  "ready \<equiv> spmi_ready cls"

abbreviation dev :: "nat \<Rightarrow> 'd AppleSPMIState \<Rightarrow> 'd" where
  "dev i s \<equiv> slave_dev (bus_children (spmi_bus s) ! i)"

lemma start:
  assumes "ready n i s" "opc \<in> {SPMI_CMD_EXT_WRITE, SPMI_CMD_EXT_READ, SPMI_CMD_EXT_WRITEL, SPMI_CMD_EXT_READL}"
  shows "spmi_start_transfer (spmi_bus s) n opc a = Inr (0, upd_slave i (point a (dev i s)) ((spmi_bus s)\<lparr>current_dev := Some i\<rparr>))"
proof -
  obtain f where "sc_command cls = Some f" "f opc a (dev i s) = Inr (0, point a (dev i s))" using command [OF assms(2)] by blast
  moreover have "(if current_dev (spmi_bus s) = None then (spmi_bus s)\<lparr>current_dev := spmi_scan n (bus_children (spmi_bus s))\<rparr> else spmi_bus s) =
      (spmi_bus s)\<lparr>current_dev := Some i\<rparr>"
    using assms(1) by (cases "spmi_bus s") (auto simp: spmi_ready_def)
  ultimately show ?thesis using assms(1) by (simp add: spmi_start_transfer_def Let_def spmi_ready_def)
qed

lemma finish: "current_dev b = Some i \<Longrightarrow> slave_class (bus_children b ! i) = cls \<Longrightarrow> spmi_end_transfer b = b"
  by (simp add: spmi_end_transfer_def no_finish)

lemma push_write:
  assumes "ready (SPMI_REQ_SID r) i s" "is_ext_write r"
  shows "\<exists>t. apple_spmi_queue_reg_write SPMI_REQ_QUEUE_PUSH (ucast r) s = Inr t \<and> spmi_wf t \<and> spmi_data t = Some (replicate (spmi_word_count r) 0) \<and>
    data_filled t = 0 \<and> unat (data_length t) = spmi_word_count r \<and> spmi_command t = r \<and> resp_fifo t = resp_fifo s \<and>
    spmi_bus t = upd_slave i (point (ucast (spmi_address r)) (dev i s)) ((spmi_bus s)\<lparr>current_dev := Some i\<rparr>)"
proof -
  let ?b = "upd_slave i (point (ucast (spmi_address r)) (dev i s)) ((spmi_bus s)\<lparr>current_dev := Some i\<rparr>)"
  let ?s = "s\<lparr>spmi_command := r, data_length := (spmi_data_length r + 3) div 4, data_filled := 0,
    spmi_data := Some (replicate (spmi_word_count r) 0), spmi_bus := ?b\<rparr>"
  have opc: "ucast (spmi_opcode r) = SPMI_CMD_EXT_WRITE \<or> ucast (spmi_opcode r) = SPMI_CMD_EXT_WRITEL"
    using spmi_ext_opcode(1) [OF assms(2)] .
  have st: "spmi_start_transfer (spmi_bus s) (SPMI_REQ_SID r) (ucast (spmi_opcode r)) (ucast (spmi_address r)) = Inr (0, ?b)"
    using opc by (intro start [OF assms(1)]) auto
  have wc: "unat ((spmi_data_length r + 3) div 4) = spmi_word_count r" using spmi_word_count(3) assms(2) by blast
  have "spmi_push_request r s = Inr (Some (r, False), ?s)"
    using opc by (auto simp: spmi_push_request_def Let_def st wc)
  moreover have "spmi_wf ?s" using assms(1) by (simp add: spmi_ready_def spmi_wf_def)
  moreover have "length (queue_reg s) = 64" "spmi_data s = None" using assms(1) by (simp_all add: spmi_ready_def spmi_wf_def)
  ultimately show ?thesis
    using spmi_store_reg [of ?s SPMI_REQ_QUEUE_PUSH r False False] wc
    by (auto simp: apple_spmi_queue_reg_write_def Let_def spmi_keep_def ucast_ucast_32_64 simp del: rbind_eq_Inr)
qed

lemma push_last:
  assumes "spmi_wf s" "spmi_data s = Some data" "length data = spmi_word_count r" "Suc (unat (data_filled s)) = spmi_word_count r"
    "unat (data_length s) = spmi_word_count r" "spmi_command s = r" "is_ext_write r" "r AND SPMI_REQ_FINAL \<noteq> 0"
    "current_dev (spmi_bus s) = Some i" "i < length (bus_children (spmi_bus s))" "slave_class (bus_children (spmi_bus s) ! i) = cls"
    "fits (unat (spmi_data_length r)) (dev i s)" "length (fifo32_list (resp_fifo s)) < 256"
  shows "\<exists>t. apple_spmi_queue_reg_write SPMI_REQ_QUEUE_PUSH (ucast w) s = Inr t \<and> spmi_wf t \<and> spmi_data t = None \<and>
    spmi_bus t = upd_slave i (put (take (unat (spmi_data_length r)) (concat (map (to_le 4) (data[unat (data_filled s) := w])))) (dev i s)) (spmi_bus s) \<and>
    fifo32_list (resp_fifo t) = fifo32_list (resp_fifo s) @ [(r AND 0xFFF) OR BIT 15] \<and> spmi_irq t = spmi_pending t \<and> spmi_resp_pending t"
proof -
  let ?n = "spmi_data_length r" and ?data = "data[unat (data_filled s) := w]"
  let ?d = "put (take (unat ?n) (concat (map (to_le 4) ?data))) (dev i s)"
  let ?b = "upd_slave i ?d (spmi_bus s)"
  have n: "unat (ucast ?n :: u8) = unat ?n"
    using spmi_ext_length(2) [of r] assms(7) by (simp add: unsigned_ucast_eq take_bit_nat_eq_self)
  have len: "length (concat (map (to_le 4) ?data)) = 4 * spmi_word_count r"
    using assms(3) by (simp add: length_concat comp_def sum_list_triv del: map_update)
  have "fits (unat (ucast ?n :: u8)) (dev i s)" "unat (ucast ?n :: u8) \<le> length (concat (map (to_le 4) ?data))"
    using assms(7,12) spmi_word_count(2) [of r] by (simp_all add: n len del: map_update)
  from send [OF this]
  obtain f where f: "sc_send cls = Some f" "f (concat (map (to_le 4) ?data)) (ucast ?n) (dev i s) = Inr (uint (ucast ?n :: u8), ?d)"
    by (auto simp: n)
  have "(of_nat (unat (ucast ?n :: u8)) :: u32) = ?n" unfolding n by simp
  then have c: "ucast (ucast ?n :: u8) = ?n" by (simp only: of_nat_unat)
  have "unat (data_filled s) < 2" using assms(4) spmi_word_count(1) [OF disjI1, OF assms(7)] by linarith
  then have "unat (data_filled s + 1) = Suc (unat (data_filled s))" by (simp add: unat_word_ariths)
  then have ge: "data_length s \<le> data_filled s + 1" "unat (data_filled s) < length data"
    using assms(3-5) by (simp_all add: word_le_nat_alt)
  have fin: "spmi_end_transfer ?b = ?b" using assms(9-11) by (simp add: finish [of _ i])
  obtain g where g: "fifo32_push ((r AND 0xFFF) OR BIT 15) (resp_fifo s) = Inr g" "fifo32_wf g"
    "fifo32_list g = fifo32_list (resp_fifo s) @ [(r AND 0xFFF) OR BIT 15]" "fifo32_size g = 256"
    using fifo32_push_room [of "resp_fifo s"] assms(1,13) by (auto simp: spmi_wf_def)
  let ?s = "s\<lparr>data_filled := data_filled s + 1, resp_fifo := g, spmi_data := None, data_length := 0, spmi_bus := ?b\<rparr>"
  have a: "spmi_send (spmi_bus s) (concat (map (to_le 4) ?data)) (ucast ?n) = Inr (uint (ucast ?n :: u8), ?b)"
    using f(2) by (simp add: spmi_send_def assms(9,11) f(1) del: map_update rbind_eq_Inr)
  have "spmi_push_data w data s = Inr (True, ?s)"
    using ge by (simp add: spmi_push_data_def Let_def assms(6,8) a c fin g(1) not_le del: rbind_eq_Inr map_update)
  moreover have wf: "spmi_wf ?s" using assms(1) g by (simp add: spmi_wf_def)
  moreover have "length (queue_reg s) = 64" using assms(1) by (simp add: spmi_wf_def)
  ultimately show ?thesis
    using spmi_store_reg [OF wf, of SPMI_REQ_QUEUE_PUSH w True True] assms(2) g(3)
    by (auto simp: apple_spmi_queue_reg_write_def Let_def spmi_keep_def simp del: rbind_eq_Inr)
qed

lemma push_first:
  assumes "spmi_wf s" "spmi_data s = Some data" "length data = 2" "data_filled s = 0" "unat (data_length s) = 2"
  shows "\<exists>t. apple_spmi_queue_reg_write SPMI_REQ_QUEUE_PUSH (ucast w) s = Inr t \<and>
    spmi_keep (s\<lparr>spmi_data := Some (data[0 := w]), data_filled := 1\<rparr>) t"
proof -
  let ?s = "s\<lparr>spmi_data := Some (data[0 := w]), data_filled := 1\<rparr>"
  have wf: "spmi_wf ?s" using assms(1) by (simp add: spmi_wf_def)
  have "spmi_push_data w data s = Inr (False, ?s)"
    using assms(3-5) by (simp add: spmi_push_data_def Let_def word_le_nat_alt)
  moreover have "length (queue_reg s) = 64" using assms(1) by (simp add: spmi_wf_def)
  ultimately show ?thesis
    using spmi_store_reg [OF wf, of SPMI_REQ_QUEUE_PUSH w False False] assms(2)
    by (auto simp: apple_spmi_queue_reg_write_def Let_def simp del: rbind_eq_Inr)
qed

text \<open>A write request with its data: the slave gets the bytes, and the answer is queued.\<close>

lemma write_transfer:
  assumes "ready (SPMI_REQ_SID r) i s" "is_ext_write r" "r AND SPMI_REQ_FINAL \<noteq> 0" "length ws = spmi_word_count r"
    "fits (unat (spmi_data_length r)) (point (ucast (spmi_address r)) (dev i s))" "length (fifo32_list (resp_fifo s)) < 256"
  shows "\<exists>t. spmi_guest (spmi_pushes (r # ws)) s = Inr ([], t) \<and> ready n i t \<and>
    dev i t = put (take (unat (spmi_data_length r)) (concat (map (to_le 4) ws))) (point (ucast (spmi_address r)) (dev i s)) \<and>
    fifo32_list (resp_fifo t) = fifo32_list (resp_fifo s) @ [(r AND 0xFFF) OR BIT 15] \<and> spmi_irq t = spmi_pending t \<and> spmi_resp_pending t"
proof -
  let ?d = "point (ucast (spmi_address r)) (dev i s)"
  obtain t where t: "apple_spmi_queue_reg_write SPMI_REQ_QUEUE_PUSH (ucast r) s = Inr t" "spmi_wf t"
    "spmi_data t = Some (replicate (spmi_word_count r) 0)" "data_filled t = 0" "unat (data_length t) = spmi_word_count r"
    "spmi_command t = r" "resp_fifo t = resp_fifo s" "spmi_bus t = upd_slave i ?d ((spmi_bus s)\<lparr>current_dev := Some i\<rparr>)"
    using push_write [OF assms(1,2)] by blast
  have i: "i < length (bus_children (spmi_bus s))" "slave_class (bus_children (spmi_bus s) ! i) = cls" using assms(1) by (simp_all add: spmi_ready_def)
  then have bus: "current_dev (spmi_bus t) = Some i" "i < length (bus_children (spmi_bus t))"
    "slave_class (bus_children (spmi_bus t) ! i) = cls" "dev i t = ?d" by (simp_all add: t(8))
  have fin: "ready n i v \<and> dev i v = put bs ?d"
    if "spmi_wf v" "spmi_data v = None" "spmi_bus v = upd_slave i (put bs ?d) (spmi_bus t)" for v bs
    using that bus by (simp add: spmi_ready_def)
  consider w where "ws = [w]" "spmi_word_count r = 1" | w w' where "ws = [w, w']" "spmi_word_count r = 2"
    using assms(2,4) spmi_word_count(1) [of r] by (auto simp: length_Suc_conv numeral_2_eq_2)
  then show ?thesis
  proof cases
    case 1
    have "\<exists>v. apple_spmi_queue_reg_write SPMI_REQ_QUEUE_PUSH (ucast w) t = Inr v \<and> spmi_wf v \<and> spmi_data v = None \<and>
      spmi_bus v = upd_slave i (put (take (unat (spmi_data_length r)) (concat (map (to_le 4) ((replicate (spmi_word_count r) 0)[unat (data_filled t) := w])))) (dev i t)) (spmi_bus t) \<and>
      fifo32_list (resp_fifo v) = fifo32_list (resp_fifo t) @ [(r AND 0xFFF) OR BIT 15] \<and> spmi_irq v = spmi_pending v \<and> spmi_resp_pending v"
      by (rule push_last) (use t bus assms 1 in simp_all)
    then show ?thesis using t(1) 1 fin by (auto simp: spmi_pushes_def t(4,7) bus(4))
  next
    case 2
    obtain u where u: "apple_spmi_queue_reg_write SPMI_REQ_QUEUE_PUSH (ucast w) t = Inr u"
      "spmi_keep (t\<lparr>spmi_data := Some ((replicate 2 0)[0 := w]), data_filled := 1\<rparr>) u"
      using push_first [OF t(2), of "replicate 2 0"] t 2 by auto
    then have k: "spmi_wf u" "spmi_bus u = spmi_bus t" "resp_fifo u = resp_fifo t" "spmi_data u = Some ((replicate 2 0)[0 := w])"
      "data_length u = data_length t" "data_filled u = 1" "spmi_command u = spmi_command t" by (simp_all add: spmi_keep_def)
    have "\<exists>v. apple_spmi_queue_reg_write SPMI_REQ_QUEUE_PUSH (ucast w') u = Inr v \<and> spmi_wf v \<and> spmi_data v = None \<and>
      spmi_bus v = upd_slave i (put (take (unat (spmi_data_length r)) (concat (map (to_le 4) ((replicate 2 0)[0 := w, unat (data_filled u) := w'])))) (dev i u)) (spmi_bus u) \<and>
      fifo32_list (resp_fifo v) = fifo32_list (resp_fifo u) @ [(r AND 0xFFF) OR BIT 15] \<and> spmi_irq v = spmi_pending v \<and> spmi_resp_pending v"
      by (rule push_last) (use t k bus assms 2 in simp_all)
    then show ?thesis using t(1) u(1) 2 fin by (auto simp: spmi_pushes_def t(4,7) bus(4) k numeral_2_eq_2)
  qed
qed

abbreviation answer :: "u32 \<Rightarrow> 'd \<Rightarrow> u32 list" where
  "answer r d \<equiv> spmi_answer r (get (unat (spmi_data_length r)) d)"

lemma answer_length: "fits (unat (spmi_data_length r)) d \<Longrightarrow> length (answer r d) = Suc (spmi_word_count r)"
  by (simp add: spmi_answer(1) get_length)

lemma recv_read:
  assumes "is_ext_read r" "current_dev b = Some i" "slave_class (bus_children b ! i) = cls"
    "fits (unat (spmi_data_length r)) (slave_dev (bus_children b ! i))"
  shows "spmi_recv b (replicate (unat (spmi_data_length r) + 3) 0) (ucast (spmi_data_length r)) =
    Inr (int (unat (spmi_data_length r)), get (unat (spmi_data_length r)) (slave_dev (bus_children b ! i)) @ replicate 3 0,
      upd_slave i (got (unat (spmi_data_length r)) (slave_dev (bus_children b ! i))) b)"
proof -
  let ?n = "spmi_data_length r"
  have n: "unat (ucast ?n :: u8) = unat ?n"
    using spmi_ext_length(2) [of r] assms(1) by (simp add: unsigned_ucast_eq take_bit_nat_eq_self)
  then have "uint (ucast ?n :: u8) = int (unat ?n)" by (simp only: uint_nat)
  then obtain f where f: "sc_recv cls = Some f" "f (replicate (unat ?n + 3) 0) (ucast ?n) (slave_dev (bus_children b ! i)) =
      Inr (int (unat ?n), get (unat ?n) (slave_dev (bus_children b ! i)) @ replicate 3 0, got (unat ?n) (slave_dev (bus_children b ! i)))"
    using recv [of "ucast ?n" "slave_dev (bus_children b ! i)" "replicate (unat ?n + 3) 0"] assms(4) unfolding n by auto
  then show ?thesis using assms(2,3) by (simp add: spmi_recv_def del: replicate_add)
qed

lemma read_request:
  assumes "ready (SPMI_REQ_SID r) i s" "is_ext_read r" "r AND SPMI_REQ_FINAL \<noteq> 0"
    "fits (unat (spmi_data_length r)) (point (ucast (spmi_address r)) (dev i s))"
  defines "d \<equiv> point (ucast (spmi_address r)) (dev i s)"
  shows "spmi_push_request r s =
    rbind (push_each fifo32_push (answer r d) (resp_fifo s)) (\<lambda>f.
      Inr (Some (hd (answer r d), True), s\<lparr>spmi_command := r, resp_fifo := f,
        spmi_bus := upd_slave i (got (unat (spmi_data_length r)) d) ((spmi_bus s)\<lparr>current_dev := Some i\<rparr>)\<rparr>))"
proof -
  let ?b = "upd_slave i d ((spmi_bus s)\<lparr>current_dev := Some i\<rparr>)" and ?n = "spmi_data_length r"
  have opc: "ucast (spmi_opcode r) = SPMI_CMD_EXT_READ \<or> ucast (spmi_opcode r) = SPMI_CMD_EXT_READL"
    using spmi_ext_opcode(2) [OF assms(2)] .
  have st: "spmi_start_transfer (spmi_bus s) (SPMI_REQ_SID r) (ucast (spmi_opcode r)) (ucast (spmi_address r)) = Inr (0, ?b)"
    unfolding d_def using opc by (intro start [OF assms(1)]) auto
  have b: "i < length (bus_children (spmi_bus s))" "current_dev ?b = Some i" "slave_class (bus_children ?b ! i) = cls" "slave_dev (bus_children ?b ! i) = d"
    "spmi_data s = None" using assms(1) by (simp_all add: spmi_ready_def)
  have rv: "spmi_recv ?b (replicate (unat ?n + 3) 0) (ucast ?n) = Inr (int (unat ?n), get (unat ?n) d @ replicate 3 0, upd_slave i (got (unat ?n) d) ?b)"
    using recv_read [OF assms(2) b(2,3), unfolded b(4), OF assms(4) [folded d_def]] .
  have n: "1 \<le> unat ?n" "unat ?n \<le> 8" "?n \<noteq> 0" using spmi_ext_length assms(2) by blast+
  have u: "upd_slave i e ?b = upd_slave i e ((spmi_bus s)\<lparr>current_dev := Some i\<rparr>)" for e
    using b(1) by (simp add: upd_slave_def)
  have fin: "spmi_end_transfer (upd_slave i e ((spmi_bus s)\<lparr>current_dev := Some i\<rparr>)) = upd_slave i e ((spmi_bus s)\<lparr>current_dev := Some i\<rparr>)" for e
    using b(1,3) by (intro finish [of _ i]) simp_all
  have gl: "length (get (unat ?n) d) = unat ?n" using get_length [OF assms(4)] by (simp add: d_def)
  have ack: "(ucast (mask (unat ?n) :: u32) :: u8) = mask (unat ?n)" using spmi_ack [OF n(2)] .
  have c: "0 < uint ?n" "uint ?n \<le> 31" "nat (uint ?n) = unat ?n" using n(1,2) by (simp_all only: uint_nat)
  show ?thesis
    using opc n c by (auto simp: spmi_push_request_def Let_def st b(5) rv u fin spmi_answer_def gl ack spmi_word_count_def assms(3) rbind_assoc
        simp del: replicate_add push_each.simps)
qed

lemma read_transfer:
  assumes "ready (SPMI_REQ_SID r) i s" "is_ext_read r" "r AND SPMI_REQ_FINAL \<noteq> 0"
    "fits (unat (spmi_data_length r)) (point (ucast (spmi_address r)) (dev i s))"
    "length (fifo32_list (resp_fifo s)) + spmi_word_count r < 256"
  defines "d \<equiv> point (ucast (spmi_address r)) (dev i s)"
  shows "\<exists>t. spmi_guest (spmi_pushes [r]) s = Inr ([], t) \<and> ready n i t \<and> dev i t = got (unat (spmi_data_length r)) d \<and>
    fifo32_list (resp_fifo t) = fifo32_list (resp_fifo s) @ answer r d \<and> spmi_irq t = spmi_pending t \<and> spmi_resp_pending t"
proof -
  let ?b = "upd_slave i (got (unat (spmi_data_length r)) d) ((spmi_bus s)\<lparr>current_dev := Some i\<rparr>)"
  have s: "spmi_wf s" "i < length (bus_children (spmi_bus s))" "slave_class (bus_children (spmi_bus s) ! i) = cls" "spmi_data s = None"
    using assms(1) by (simp_all add: spmi_ready_def)
  have l: "length (answer r d) = Suc (spmi_word_count r)" using answer_length assms(4) by (simp add: d_def)
  have w: "fifo32_wf (resp_fifo s)" "fifo32_size (resp_fifo s) = 256" using s(1) by (simp_all add: spmi_wf_def)
  obtain f where f: "push_each fifo32_push (answer r d) (resp_fifo s) = Inr f" "fifo32_wf f" "fifo32_list f = fifo32_list (resp_fifo s) @ answer r d"
    "fifo32_size f = 256" using f32.push_each_room [OF w(1), of "answer r d"] w(2) l assms(5) by auto
  let ?s = "s\<lparr>spmi_command := r, resp_fifo := f, spmi_bus := ?b\<rparr>"
  have wf: "spmi_wf ?s" using s(1) f by (simp add: spmi_wf_def)
  obtain t where t: "spmi_store_reg SPMI_REQ_QUEUE_PUSH (hd (answer r d)) True True ?s = Inr t" "spmi_keep ?s t" "spmi_irq t = spmi_pending t"
    "spmi_resp_pending t \<longleftrightarrow> fifo32_list (resp_fifo t) \<noteq> []" using spmi_store_reg [OF wf, of SPMI_REQ_QUEUE_PUSH "hd (answer r d)" True True] by blast
  have "spmi_push_request r s = Inr (Some (hd (answer r d), True), ?s)"
    using read_request [OF assms(1-4)] f(1) by (simp add: d_def)
  moreover have "length (queue_reg s) = 64" using s(1) by (simp add: spmi_wf_def)
  ultimately have "apple_spmi_queue_reg_write SPMI_REQ_QUEUE_PUSH (ucast r) s = Inr t"
    using s(4) t(1) by (simp add: apple_spmi_queue_reg_write_def Let_def del: rbind_eq_Inr)
  moreover have "ready n i t" "dev i t = got (unat (spmi_data_length r)) d" "resp_fifo t = f"
    using t(2) s by (simp_all add: spmi_keep_def spmi_ready_def)
  moreover have "answer r d \<noteq> []" using l by auto
  ultimately show ?thesis using t(3,4) f(3) by (simp add: spmi_pushes_def)
qed

text \<open>A guest that does not pop its answers: a read for which the queue has no room ends the emulator.\<close>

lemma read_overflow:
  assumes "ready (SPMI_REQ_SID r) i s" "is_ext_read r" "r AND SPMI_REQ_FINAL \<noteq> 0"
    "fits (unat (spmi_data_length r)) (point (ucast (spmi_address r)) (dev i s))"
    "256 \<le> length (fifo32_list (resp_fifo s)) + spmi_word_count r"
  shows "apple_spmi_queue_reg_write SPMI_REQ_QUEUE_PUSH (ucast r) s = Inl AssertFailed"
proof -
  let ?d = "point (ucast (spmi_address r)) (dev i s)"
  have s: "fifo32_wf (resp_fifo s)" "fifo32_size (resp_fifo s) = 256" "spmi_data s = None" "length (queue_reg s) = 64"
    using assms(1) by (simp_all add: spmi_ready_def spmi_wf_def)
  have "push_each fifo32_push (answer r ?d) (resp_fifo s) = Inl AssertFailed"
    using f32.push_each_overflow [OF s(1)] s(2) assms(5) answer_length [OF assms(4)] by simp
  then show ?thesis using read_request [OF assms(1-4)] s by (simp add: apple_spmi_queue_reg_write_def)
qed

text \<open>A transfer of the guest: the request with its data, then popping the answer.\<close>

lemma pop_answer:
  assumes "ready n i s" "fifo32_list (resp_fifo s) = ws" "ws \<noteq> []"
  shows "\<exists>t. spmi_guest (spmi_pops (length ws)) s = Inr (map ucast ws, t) \<and> ready n i t \<and> dev i t = dev i s \<and>
    fifo32_list (resp_fifo t) = [] \<and> spmi_irq t = spmi_pending t \<and> \<not> spmi_resp_pending t"
proof -
  have "spmi_wf s" using assms(1) by (simp add: spmi_ready_def)
  then obtain t f where t: "spmi_guest (spmi_pops (length ws)) s = Inr (map ucast ws, t)" "spmi_keep (s\<lparr>resp_fifo := f\<rparr>) t" "fifo32_list f = []"
    "spmi_irq t = spmi_pending t" "\<not> spmi_resp_pending t" using spmi_pop_all [OF _ assms(2,3)] by blast
  have "ready n i t" "dev i t = dev i s" "fifo32_list (resp_fifo t) = []" using assms(1) t(2,3) by (simp_all add: spmi_ready_def spmi_keep_def)
  then show ?thesis using t by blast
qed

lemma guest_write:
  assumes "ready (SPMI_REQ_SID r) i s" "is_ext_write r" "r AND SPMI_REQ_FINAL \<noteq> 0" "length ws = spmi_word_count r"
    "fits (unat (spmi_data_length r)) (point (ucast (spmi_address r)) (dev i s))" "fifo32_list (resp_fifo s) = []"
  shows "\<exists>t. spmi_guest (spmi_pushes (r # ws) @ spmi_pops 1) s = Inr ([ucast ((r AND 0xFFF) OR BIT 15 :: u32)], t) \<and> ready n i t \<and>
    fifo32_list (resp_fifo t) = [] \<and> spmi_irq t = spmi_pending t \<and> \<not> spmi_resp_pending t \<and>
    dev i t = put (take (unat (spmi_data_length r)) (concat (map (to_le 4) ws))) (point (ucast (spmi_address r)) (dev i s))"
proof -
  obtain t where t: "spmi_guest (spmi_pushes (r # ws)) s = Inr ([], t)" "ready n i t"
    "dev i t = put (take (unat (spmi_data_length r)) (concat (map (to_le 4) ws))) (point (ucast (spmi_address r)) (dev i s))"
    "fifo32_list (resp_fifo t) = [(r AND 0xFFF) OR BIT 15]"
    using write_transfer [OF assms(1-5), where n = n] unfolding assms(6) append_Nil list.size(3) by auto
  obtain u where "spmi_guest (spmi_pops 1) t = Inr ([ucast ((r AND 0xFFF) OR BIT 15 :: u32)], u)" "ready n i u" "dev i u = dev i t"
    "fifo32_list (resp_fifo u) = []" "spmi_irq u = spmi_pending u" "\<not> spmi_resp_pending u"
    using pop_answer [OF t(2,4)] by auto
  then show ?thesis using t(1,3) by (simp add: spmi_guest_append)
qed

lemma guest_read:
  assumes "ready (SPMI_REQ_SID r) i s" "is_ext_read r" "r AND SPMI_REQ_FINAL \<noteq> 0"
    "fits (unat (spmi_data_length r)) (point (ucast (spmi_address r)) (dev i s))" "fifo32_list (resp_fifo s) = []"
  defines "d \<equiv> point (ucast (spmi_address r)) (dev i s)"
  shows "\<exists>t. spmi_guest (spmi_pushes [r] @ spmi_pops (Suc (spmi_word_count r))) s = Inr (map ucast (answer r d), t) \<and> ready n i t \<and>
    fifo32_list (resp_fifo t) = [] \<and> spmi_irq t = spmi_pending t \<and> \<not> spmi_resp_pending t \<and> dev i t = got (unat (spmi_data_length r)) d"
proof -
  have "spmi_word_count r < 256" using spmi_word_count(1) [of r] assms(2) by auto
  then obtain t where t: "spmi_guest (spmi_pushes [r]) s = Inr ([], t)" "ready n i t" "dev i t = got (unat (spmi_data_length r)) d"
    "fifo32_list (resp_fifo t) = answer r d"
    using read_transfer [OF assms(1-4), where n = n, folded d_def] unfolding assms(5) append_Nil list.size(3) by auto
  have l: "length (answer r d) = Suc (spmi_word_count r)" using answer_length assms(4) by (simp add: d_def)
  then have "answer r d \<noteq> []" by auto
  then obtain u where "spmi_guest (spmi_pops (Suc (spmi_word_count r))) t = Inr (map ucast (answer r d), u)" "ready n i u" "dev i u = dev i t"
    "fifo32_list (resp_fifo u) = []" "spmi_irq u = spmi_pending u" "\<not> spmi_resp_pending u"
    using pop_answer [OF t(2,4), unfolded l] by auto
  then show ?thesis using t(1,3) by (simp add: spmi_guest_append)
qed

end

text \<open>A controller after its reset is well-formed, expects a request and has an empty queue and no interrupt.\<close>

lemma spmi_reset:
  assumes "spmi_wf s"
  shows "\<exists>t. apple_spmi_reset_exit (apple_spmi_reset_enter s) = Inr t \<and> spmi_wf t \<and> spmi_data t = None \<and> spmi_bus t = spmi_bus s \<and>
    fifo32_list (resp_fifo t) = [] \<and> \<not> spmi_resp_pending t"
proof -
  let ?s = "apple_spmi_reset_enter s"
  have wf: "spmi_wf ?s" using assms by (simp add: apple_spmi_reset_enter_def spmi_wf_def fifo32_reset_empty)
  obtain t where t: "apple_spmi_reset_exit ?s = Inr t" "spmi_keep ?s t" "spmi_resp_pending t \<longleftrightarrow> fifo32_list (resp_fifo t) \<noteq> []"
    using spmi_update_both [OF wf] unfolding apple_spmi_reset_exit_def by blast
  then have "spmi_wf t" "spmi_data t = None" "spmi_bus t = spmi_bus s" "fifo32_list (resp_fifo t) = []"
    by (simp_all add: spmi_keep_def apple_spmi_reset_enter_def fifo32_reset_empty)
  then show ?thesis using t by auto
qed

lemma spmi_init_wf: "spmi_wf (apple_spmi_init fresh)" "fifo32_list (resp_fifo (apple_spmi_init fresh)) = []" "spmi_data (apple_spmi_init fresh) = None"
  using fifo32_create_empty [of SPMI_QUEUE_DEPTH fresh] by (simp_all add: apple_spmi_init_def spmi_wf_def)

end
