(* ===== verification/Spmi_Pmu.thy ===== *)
theory Spmi_Pmu
  imports Spmi
begin

text \<open>
  A slave of the SPMI bus: the power management unit with its real-time clock and alarm,
  \<open>hw/misc/apple-silicon/spmi-pmu.c\<close>. The register file is a function with explicit bounds. \<open>pmu_now\<close> is the clock of the host in nanoseconds, which the passing
  of time changes; the timer is its expiry time, and wake-up requests are counted.
\<close>

declare rbind_cong [fundef_cong]

abbreviation (input) "RTC_TICK_FREQ \<equiv> 32768 :: u64"
abbreviation (input) "R_LEG_SCRPAD_OFFSET_SECS \<equiv> 4 :: u32"
abbreviation (input) "R_LEG_SCRPAD_OFFSET_TICKS \<equiv> 21 :: u32"
abbreviation (input) "R_RTC_CONTROL_ALARM_EN_MASK \<equiv> 0x40 :: u8"
abbreviation (input) "R_RTC_EVENT_ALARM_MASK \<equiv> 0x01 :: u8"
abbreviation (input) "NANOSECONDS_PER_SECOND \<equiv> 1000000000 :: u64"

record AppleSPMIPMUState =
  pmu_irq :: bool
  pmu_timer :: "u64 option"
  pmu_now :: u64
  pmu_wakeups :: nat
  reg_leg_scrpad :: u32
  reg_rtc :: u32
  reg_rtc_irq_mask :: u32
  reg_alarm :: u32
  reg_alarm_ctrl :: u32
  reg_alarm_event :: u32
  pmu_reg :: "nat \<Rightarrow> u8"
  pmu_addr :: u16

text \<open>An access to \<open>reg[i]\<close>.\<close>

definition pmu_ld :: "u32 \<Rightarrow> AppleSPMIPMUState \<Rightarrow> u8 res" where
  "pmu_ld i s = (if unat i < 0x10000 then Inr (pmu_reg s (unat i)) else Inl OutOfBounds)"

definition pmu_st :: "u32 \<Rightarrow> u8 \<Rightarrow> AppleSPMIPMUState \<Rightarrow> AppleSPMIPMUState res" where
  "pmu_st i b s = (if unat i < 0x10000 then Inr (s\<lparr>pmu_reg := (pmu_reg s)(unat i := b)\<rparr>) else Inl OutOfBounds)"

definition apple_spmi_pmu_get_tick_offset :: "AppleSPMIPMUState \<Rightarrow> u64 res" where
  "apple_spmi_pmu_get_tick_offset s =
     (let secs_reg = reg_leg_scrpad s + R_LEG_SCRPAD_OFFSET_SECS; ticks_reg = reg_leg_scrpad s + R_LEG_SCRPAD_OFFSET_TICKS
      in rbind (pmu_ld (secs_reg + 3) s) (\<lambda>s3. rbind (pmu_ld (secs_reg + 2) s) (\<lambda>s2.
         rbind (pmu_ld (secs_reg + 1) s) (\<lambda>s1. rbind (pmu_ld (secs_reg + 0) s) (\<lambda>s0.
         rbind (pmu_ld (ticks_reg + 1) s) (\<lambda>t1. rbind (pmu_ld (ticks_reg + 0) s) (\<lambda>t0.
           Inr (push_bit 39 (ucast s3) OR push_bit 31 (ucast s2) OR push_bit 23 (ucast s1) OR push_bit 15 (ucast s0) OR
             push_bit 8 (ucast t1 AND 0x7F) OR ucast t0))))))))"

definition apple_spmi_pmu_set_tick_offset :: "u64 \<Rightarrow> AppleSPMIPMUState \<Rightarrow> AppleSPMIPMUState res" where
  "apple_spmi_pmu_set_tick_offset tick_offset s =
     (let secs_reg = reg_leg_scrpad s + R_LEG_SCRPAD_OFFSET_SECS; ticks_reg = reg_leg_scrpad s + R_LEG_SCRPAD_OFFSET_TICKS
      in rbind (pmu_st (secs_reg + 3) (ucast (drop_bit 39 tick_offset AND 0xFF)) s) (\<lambda>s.
         rbind (pmu_st (secs_reg + 2) (ucast (drop_bit 31 tick_offset AND 0xFF)) s) (\<lambda>s.
         rbind (pmu_st (secs_reg + 1) (ucast (drop_bit 23 tick_offset AND 0xFF)) s) (\<lambda>s.
         rbind (pmu_st (secs_reg + 0) (ucast (drop_bit 15 tick_offset AND 0xFF)) s) (\<lambda>s.
         rbind (pmu_st (ticks_reg + 1) (ucast (drop_bit 8 tick_offset AND 0x7F)) s) (\<lambda>s.
           pmu_st (ticks_reg + 0) (ucast (tick_offset AND 0xFF)) s))))))"

text \<open>The ticks of a time, before the offset is taken off.\<close>

definition rtc_ticks :: "u64 \<Rightarrow> u64" where
  "rtc_ticks now =
     (let secs = now div NANOSECONDS_PER_SECOND; frac_ns = now mod NANOSECONDS_PER_SECOND;
          frac_ticks = (frac_ns * RTC_TICK_FREQ + NANOSECONDS_PER_SECOND div 2) div NANOSECONDS_PER_SECOND
      in push_bit 15 secs OR (frac_ticks AND 0x7FFF))"

definition apple_rtc_ns_to_tick :: "u64 \<Rightarrow> AppleSPMIPMUState \<Rightarrow> u64 res" where
  "apple_rtc_ns_to_tick now s = rbind (apple_spmi_pmu_get_tick_offset s) (\<lambda>off. Inr (rtc_ticks now - off))"

definition apple_rtc_get_current_tick :: "AppleSPMIPMUState \<Rightarrow> u64 res" where
  "apple_rtc_get_current_tick s = apple_rtc_ns_to_tick (pmu_now s) s"

definition apple_spmi_pmu_update_irq :: "AppleSPMIPMUState \<Rightarrow> AppleSPMIPMUState res" where
  "apple_spmi_pmu_update_irq s =
     rbind (pmu_ld (reg_rtc_irq_mask s) s) (\<lambda>m. rbind (pmu_ld (reg_alarm_event s) s) (\<lambda>e. Inr (s\<lparr>pmu_irq := (m AND e \<noteq> 0)\<rparr>)))"

definition apple_spmi_pmu_alarm :: "AppleSPMIPMUState \<Rightarrow> AppleSPMIPMUState res" where
  "apple_spmi_pmu_alarm s =
     rbind (pmu_ld (reg_alarm_event s) s) (\<lambda>e.
     rbind (pmu_st (reg_alarm_event s) (e OR R_RTC_EVENT_ALARM_MASK) s) (\<lambda>s.
     rbind (apple_spmi_pmu_update_irq s) (\<lambda>s. Inr (s\<lparr>pmu_wakeups := pmu_wakeups s + 1\<rparr>))))"

text \<open>\<open>ldl_le_p\<close> of the alarm registers; it returns an \<open>int\<close>, which the caller widens with its sign.\<close>

definition pmu_alarm_time :: "AppleSPMIPMUState \<Rightarrow> u32 res" where
  "pmu_alarm_time s =
     (if unat (reg_alarm s) + 4 \<le> 0x10000 then Inr (of_le (map (\<lambda>i. pmu_reg s (unat (reg_alarm s) + i)) [0..<4])) else Inl OutOfBounds)"

definition apple_spmi_pmu_set_alarm :: "AppleSPMIPMUState \<Rightarrow> AppleSPMIPMUState res" where
  "apple_spmi_pmu_set_alarm s =
     rbind (pmu_alarm_time s) (\<lambda>alarm. rbind (apple_rtc_ns_to_tick (pmu_now s) s) (\<lambda>tick.
       let seconds = sint alarm - int (unat (drop_bit 15 tick))
       in rbind (pmu_ld (reg_alarm_ctrl s) s) (\<lambda>c.
            if c AND R_RTC_CONTROL_ALARM_EN_MASK \<noteq> 0 then
              if seconds \<le> 0 then apple_spmi_pmu_alarm (s\<lparr>pmu_timer := None\<rparr>)
              else Inr (s\<lparr>pmu_timer := Some (pmu_now s + word_of_int seconds * NANOSECONDS_PER_SECOND)\<rparr>)
            else Inr (s\<lparr>pmu_timer := None\<rparr>))))"

text \<open>
  The loop of \<open>send\<close>: \<open>addr\<close> has 16 bits, its limit \<open>a + len\<close> is an \<open>int\<close>. When \<open>addr\<close> wraps to 0 the next
  byte is read before the start of the data.
\<close>

definition is_alarm_reg :: "u16 \<Rightarrow> AppleSPMIPMUState \<Rightarrow> bool" where
  "is_alarm_reg addr s \<longleftrightarrow> ucast addr = reg_alarm_ctrl s \<or> (ucast addr \<ge> reg_alarm s \<and> ucast addr < reg_alarm s + 4)"

function pmu_send_loop :: "bytes \<Rightarrow> u8 \<Rightarrow> u16 \<Rightarrow> u16 \<Rightarrow> AppleSPMIPMUState \<Rightarrow> (u16 \<times> AppleSPMIPMUState) res" where
  "pmu_send_loop data len a addr s =
     (if unat addr < unat a + unat len then
        if addr < a \<or> length data \<le> unat (addr - a) then Inl OutOfBounds
        else rbind (pmu_st (ucast addr) (data ! unat (addr - a)) s) (\<lambda>s.
          rbind (if is_alarm_reg addr s then apple_spmi_pmu_set_alarm s else Inr s) (\<lambda>s. pmu_send_loop data len a (addr + 1) s))
      else Inr (addr, s))"
  by pat_completeness auto
termination
proof (relation "measure (\<lambda>(_, len, a, addr, _). if addr < a then 0 else 0x20000 - unat addr)", goal_cases)
  case (2 data len a addr s t u)
  have "unat addr < 2 ^ 16" "unat len < 2 ^ 8" using unsigned_less [of addr, where 'a = nat] unsigned_less [of len, where 'a = nat] by simp_all
  then show ?case using 2
    by (cases "unat addr = 2 ^ 16 - 1") (auto simp: word_less_nat_alt word_le_nat_alt unat_word_ariths)
qed simp

definition apple_spmi_pmu_send :: "bytes \<Rightarrow> u8 \<Rightarrow> AppleSPMIPMUState \<Rightarrow> (int \<times> AppleSPMIPMUState) res" where
  "apple_spmi_pmu_send data len s =
     rbind (pmu_send_loop data len (pmu_addr s) (pmu_addr s) s) (\<lambda>(addr, s). Inr (uint len, s\<lparr>pmu_addr := addr\<rparr>))"

definition pmu_store_rtc :: "AppleSPMIPMUState \<Rightarrow> AppleSPMIPMUState res" where
  "pmu_store_rtc s =
     rbind (apple_rtc_get_current_tick s) (\<lambda>now.
     rbind (pmu_st (reg_rtc s) (ucast (push_bit 1 now AND 0xFF)) s) (\<lambda>s.
     rbind (pmu_st (reg_rtc s + 1) (ucast (drop_bit 7 now AND 0xFF)) s) (\<lambda>s.
     rbind (pmu_st (reg_rtc s + 2) (ucast (drop_bit 15 now AND 0xFF)) s) (\<lambda>s.
     rbind (pmu_st (reg_rtc s + 3) (ucast (drop_bit 23 now AND 0xFF)) s) (\<lambda>s.
     rbind (pmu_st (reg_rtc s + 4) (ucast (drop_bit 31 now AND 0xFF)) s) (\<lambda>s.
       pmu_st (reg_rtc s + 5) (ucast (drop_bit 39 now AND 0xFF)) s))))))"

text \<open>Here the limit has 16 bits as well, so nothing is copied when it wraps.\<close>

definition apple_spmi_pmu_recv :: "bytes \<Rightarrow> u8 \<Rightarrow> AppleSPMIPMUState \<Rightarrow> (int \<times> bytes \<times> AppleSPMIPMUState) res" where
  "apple_spmi_pmu_recv data len s =
     (let addr = pmu_addr s; end_addr = pmu_addr s + ucast len
      in rbind (if ucast end_addr > reg_rtc s \<and> ucast addr < reg_rtc s + 6 then pmu_store_rtc s else Inr s) (\<lambda>s.
           let n = unat end_addr - unat addr
           in if length data < n then Inl OutOfBounds
              else Inr (uint len, map (pmu_reg s) [unat addr..<unat addr + n] @ drop n data, s\<lparr>pmu_addr := max addr end_addr\<rparr>)))"

definition apple_spmi_pmu_command :: "u8 \<Rightarrow> u16 \<Rightarrow> AppleSPMIPMUState \<Rightarrow> (int \<times> AppleSPMIPMUState) res" where
  "apple_spmi_pmu_command opcode addr s =
     Inr (if opcode \<in> {SPMI_CMD_EXT_READ, SPMI_CMD_EXT_READL, SPMI_CMD_EXT_WRITE, SPMI_CMD_EXT_WRITEL} then 0 else 1, s\<lparr>pmu_addr := addr\<rparr>)"

definition apple_spmi_pmu_class :: "AppleSPMIPMUState SPMISlaveClass" where
  "apple_spmi_pmu_class =
     \<lparr>sc_send = Some apple_spmi_pmu_send, sc_recv = Some apple_spmi_pmu_recv, sc_command = Some apple_spmi_pmu_command, sc_finish = None\<rparr>"

definition apple_spmi_pmu_from_node :: "u64 \<Rightarrow> AppleDTNode \<Rightarrow> AppleSPMIPMUState SPMISlave res" where
  "apple_spmi_pmu_from_node now node =
     (case apple_dt_get_prop node (cs ''reg'') of
        None \<Rightarrow> Inl AssertFailed
      | Some prop \<Rightarrow>
          if length (p_data prop) < 4 then Inl OutOfBounds
          else rbind (apple_dt_get_prop_u32 node (cs ''info-rtc'') ErrFatal) (\<lambda>(rtc, _).
            rbind (apple_dt_get_prop_u32 node (cs ''info-rtc_alarm_offset'') ErrFatal) (\<lambda>(alarm, _).
            rbind (apple_dt_get_prop_u32 node (cs ''info-rtc_alarm_ctrl'') ErrFatal) (\<lambda>(ctrl, _).
            rbind (apple_dt_get_prop_u32 node (cs ''info-rtc_alarm_event'') ErrFatal) (\<lambda>(event, _).
            rbind (apple_dt_get_prop_u32 node (cs ''info-rtc_irq_mask_offset'') ErrFatal) (\<lambda>(msk, _).
            rbind (apple_dt_get_prop_u32 node (cs ''info-leg_scrpad'') ErrFatal) (\<lambda>(scrpad, _).
              let s = \<lparr>pmu_irq = False, pmu_timer = None, pmu_now = now, pmu_wakeups = 0, reg_leg_scrpad = scrpad, reg_rtc = rtc,
                       reg_rtc_irq_mask = msk, reg_alarm = alarm, reg_alarm_ctrl = ctrl, reg_alarm_event = event, pmu_reg = (\<lambda>_. 0), pmu_addr = 0\<rparr>
              in rbind (apple_rtc_get_current_tick s) (\<lambda>tick. rbind (apple_spmi_pmu_set_tick_offset tick s) (\<lambda>s.
                   Inr \<lparr>slave_class = apple_spmi_pmu_class, spmi_sid = ucast (of_le (take 4 (p_data prop)) :: u32), slave_dev = s\<rparr>)))))))))"

subsection \<open>The real-time clock\<close>

text \<open>The register numbers of the device tree lie inside the register file.\<close>

definition pmu_ok :: "AppleSPMIPMUState \<Rightarrow> bool" where
  "pmu_ok s \<longleftrightarrow> unat (reg_leg_scrpad s) + 22 < 0x10000 \<and> unat (reg_rtc s) + 5 < 0x10000 \<and> unat (reg_rtc_irq_mask s) < 0x10000 \<and>
     unat (reg_alarm s) + 3 < 0x10000 \<and> unat (reg_alarm_ctrl s) < 0x10000 \<and> unat (reg_alarm_event s) < 0x10000"

lemma unat_reg: "unat (r :: u32) + k < 0x10000 \<Longrightarrow> unat (r + of_nat k) = unat r + k"
  by (simp add: unat_word_ariths unat_of_nat take_bit_eq_mod)

lemma pmu_scrpad:
  assumes "pmu_ok s"
  shows "unat (reg_leg_scrpad s + R_LEG_SCRPAD_OFFSET_SECS + 3) = unat (reg_leg_scrpad s) + 7"
    "unat (reg_leg_scrpad s + R_LEG_SCRPAD_OFFSET_SECS + 2) = unat (reg_leg_scrpad s) + 6"
    "unat (reg_leg_scrpad s + R_LEG_SCRPAD_OFFSET_SECS + 1) = unat (reg_leg_scrpad s) + 5"
    "unat (reg_leg_scrpad s + R_LEG_SCRPAD_OFFSET_SECS + 0) = unat (reg_leg_scrpad s) + 4"
    "unat (reg_leg_scrpad s + R_LEG_SCRPAD_OFFSET_TICKS + 1) = unat (reg_leg_scrpad s) + 22"
    "unat (reg_leg_scrpad s + R_LEG_SCRPAD_OFFSET_TICKS + 0) = unat (reg_leg_scrpad s) + 21"
  using assms by (simp_all add: pmu_ok_def unat_word_ariths)

text \<open>The offset a register file holds.\<close>

definition tick_offset :: "(nat \<Rightarrow> u8) \<Rightarrow> nat \<Rightarrow> u64" where
  "tick_offset f k = push_bit 39 (ucast (f (k + 7))) OR push_bit 31 (ucast (f (k + 6))) OR push_bit 23 (ucast (f (k + 5))) OR
     push_bit 15 (ucast (f (k + 4))) OR push_bit 8 (ucast (f (k + 22)) AND 0x7F) OR ucast (f (k + 21))"

lemma pmu_get_offset:
  assumes "pmu_ok s"
  shows "apple_spmi_pmu_get_tick_offset s = Inr (tick_offset (pmu_reg s) (unat (reg_leg_scrpad s)))"
  unfolding apple_spmi_pmu_get_tick_offset_def Let_def pmu_ld_def pmu_scrpad [OF assms]
  using assms by (simp add: tick_offset_def pmu_ok_def)

definition put_offset :: "u64 \<Rightarrow> nat \<Rightarrow> (nat \<Rightarrow> u8) \<Rightarrow> nat \<Rightarrow> u8" where
  "put_offset x k f = f(k + 7 := ucast (drop_bit 39 x AND 0xFF), k + 6 := ucast (drop_bit 31 x AND 0xFF), k + 5 := ucast (drop_bit 23 x AND 0xFF),
     k + 4 := ucast (drop_bit 15 x AND 0xFF), k + 22 := ucast (drop_bit 8 x AND 0x7F), k + 21 := ucast (x AND 0xFF))"

lemma pmu_set_offset:
  assumes "pmu_ok s"
  shows "apple_spmi_pmu_set_tick_offset x s = Inr (s\<lparr>pmu_reg := put_offset x (unat (reg_leg_scrpad s)) (pmu_reg s)\<rparr>)"
  unfolding apple_spmi_pmu_set_tick_offset_def Let_def pmu_st_def pmu_scrpad [OF assms]
  using assms by (simp add: put_offset_def pmu_ok_def)

lemma bytes_masks: "(0xFF :: u64) = mask 8" "(0x7F :: u64) = mask 7" "(0x7FFF :: u64) = mask 15"
  by (simp_all add: mask_eq_exp_minus_1)

lemma bit_piece:
  "bit (push_bit a (ucast (ucast (drop_bit a x AND mask 8 :: u64) :: u8)) :: u64) n \<longleftrightarrow> n < 64 \<and> a \<le> n \<and> n < a + 8 \<and> bit x n"
  "bit (push_bit a (ucast (ucast (drop_bit a x AND mask 7 :: u64) :: u8) AND mask 7) :: u64) n \<longleftrightarrow> n < 64 \<and> a \<le> n \<and> n < a + 7 \<and> bit x n"
  by (auto simp: bit_logic bit_ucast_iff)

lemma tick_offset_put: "tick_offset (put_offset x k f) k = take_bit 47 x"
proof (rule bit_word_eqI)
  fix n assume "n < LENGTH(64)"
  then have "n < 64" by simp
  moreover have "bit (ucast (ucast (x AND mask 8) :: u8) :: u64) n \<longleftrightarrow> n < 64 \<and> n < 8 \<and> bit x n"
    using bit_piece(1) [of 0 x n] by simp
  moreover have "n < 47 \<longleftrightarrow> 39 \<le> n \<and> n < 39 + 8 \<or> 31 \<le> n \<and> n < 31 + 8 \<or> 23 \<le> n \<and> n < 23 + 8 \<or> 15 \<le> n \<and> n < 15 + 8 \<or> 8 \<le> n \<and> n < 8 + 7 \<or> n < 8"
    by arith
  ultimately show "bit (tick_offset (put_offset x k f) k) n = bit (take_bit 47 x) n"
    by (simp only: tick_offset_def put_offset_def bytes_masks bit_or_iff bit_piece bit_take_bit_iff fun_upd_apply add_left_cancel
        refl if_True if_False numeral_eq_iff num.distinct num.inject simp_thms) blast
qed

text \<open>The fraction of a second in ticks, rounded to the nearest.\<close>

definition frac_ticks :: "nat \<Rightarrow> nat" where
  "frac_ticks t = ((t mod 1000000000) * 32768 + 500000000) div 1000000000"

lemma unat_rtc_ticks: "unat (rtc_ticks now) = (unat now div 1000000000) * 32768 + frac_ticks (unat now) mod 32768"
proof -
  let ?s = "now div 1000000000" and ?f = "(now mod 1000000000 * 32768 + 1000000000 div 2) div 1000000000"
  have f: "unat ?f = frac_ticks (unat now)"
  proof -
    have "unat now mod 1000000000 < 1000000000" by simp
    then have "unat (now mod 1000000000 * 32768 + 1000000000 div 2) = (unat now mod 1000000000) * 32768 + 500000000"
      by (simp add: unat_word_ariths unat_mod_distrib unat_div_distrib)
    then show ?thesis by (simp add: frac_ticks_def unat_div_distrib)
  qed
  have "unat now < 2 ^ 64" using unsigned_less [of now, where 'a = nat] by simp
  then have "unat now div 1000000000 < 2 ^ 35" by simp
  then have s: "unat (push_bit 15 ?s) = (unat now div 1000000000) * 32768"
    by (simp add: push_bit_eq_mult unat_word_ariths unat_div_distrib)
  have "push_bit 15 ?s AND (?f AND mask 15) = 0" by (rule bit_word_eqI) (auto simp: bit_logic)
  then have "rtc_ticks now = push_bit 15 ?s + take_bit 15 ?f"
    by (simp add: rtc_ticks_def Let_def disjunctive_add_eq_or bytes_masks take_bit_eq_mask)
  moreover have "unat (take_bit 15 ?f) = frac_ticks (unat now) mod 32768"
    unfolding unsigned_take_bit_eq f by (simp add: take_bit_eq_mod)
  ultimately show ?thesis using s \<open>unat now div 1000000000 < 2 ^ 35\<close> by (simp add: unat_word_ariths)
qed

text \<open>
  The ticks do not go backwards, except into the last 15 microseconds of a second, for which the rounded
  fraction does not fit its field.
\<close>

lemma rtc_monotone:
  assumes "now \<le> later" "unat later mod 1000000000 \<le> 999984741"
  shows "rtc_ticks now \<le> rtc_ticks later"
proof -
  let ?n = "unat now" and ?l = "unat later"
  have le: "?n \<le> ?l" using assms(1) by (simp add: word_le_nat_alt)
  have l: "frac_ticks ?l < 32768" using assms(2) by (simp add: frac_ticks_def div_less_iff_less_mult)
  consider "?n div 1000000000 = ?l div 1000000000" | "?n div 1000000000 < ?l div 1000000000"
    using div_le_mono [OF le, of 1000000000] by linarith
  then have "unat (rtc_ticks now) \<le> unat (rtc_ticks later)"
  proof cases
    case 1
    have "?n = ?n div 1000000000 * 1000000000 + ?n mod 1000000000" "?l = ?l div 1000000000 * 1000000000 + ?l mod 1000000000" by simp_all
    then have "?n mod 1000000000 \<le> ?l mod 1000000000" using 1 le by linarith
    then have "frac_ticks ?n \<le> frac_ticks ?l" unfolding frac_ticks_def by (intro div_le_mono add_le_mono mult_le_mono) simp_all
    then show ?thesis using 1 l by (simp add: unat_rtc_ticks)
  next
    case 2
    have "frac_ticks ?n mod 32768 < 32768" by simp
    then show ?thesis using 2 by (simp add: unat_rtc_ticks)
  qed
  then show ?thesis by (simp add: word_le_nat_alt)
qed

lemma rtc_monotone_witness:
  "(1500000000 :: u64) \<le> 2000000000 \<and> unat (2000000000 :: u64) mod 1000000000 \<le> 999984741 \<and> rtc_ticks 1500000000 \<le> rtc_ticks 2000000000"
  using rtc_monotone [of 1500000000 2000000000] by simp

lemma rtc_jumps_back: "rtc_ticks 999990000 = 0" "rtc_ticks 999900000 = 32765"
  by (simp_all add: rtc_ticks_def)

text \<open>A whole number of seconds adds that number to the seconds of the clock.\<close>

lemma rtc_ticks_seconds:
  assumes "unat now + k * 1000000000 < 2 ^ 64"
  shows "rtc_ticks (now + of_nat k * NANOSECONDS_PER_SECOND) = rtc_ticks now + of_nat (k * 32768)"
proof -
  have n: "unat (now + of_nat k * NANOSECONDS_PER_SECOND) = unat now + k * 1000000000"
    using assms by (simp add: unat_word_ariths unat_of_nat take_bit_eq_mod)
  have f: "frac_ticks (t + k * 1000000000) = frac_ticks t" for t by (simp add: frac_ticks_def)
  have "unat (rtc_ticks (now + of_nat k * NANOSECONDS_PER_SECOND)) = unat (rtc_ticks now) + k * 32768"
    by (simp add: unat_rtc_ticks n f algebra_simps)
  then have "(of_nat (unat (rtc_ticks (now + of_nat k * NANOSECONDS_PER_SECOND))) :: u64) = of_nat (unat (rtc_ticks now) + k * 32768)"
    by (simp only:)
  then show ?thesis by simp
qed

subsection \<open>The alarm\<close>

text \<open>The seconds the clock shows at a time, and the time the alarm registers hold.\<close>

definition pmu_seconds :: "AppleSPMIPMUState \<Rightarrow> u64 \<Rightarrow> nat" where
  "pmu_seconds s t = unat (drop_bit 15 (rtc_ticks t - tick_offset (pmu_reg s) (unat (reg_leg_scrpad s))))"

definition alarm_time :: "AppleSPMIPMUState \<Rightarrow> u32" where
  "alarm_time s = of_le (map (\<lambda>i. pmu_reg s (unat (reg_alarm s) + i)) [0..<4])"

text \<open>The alarm goes off: its event is set, the line follows the mask, and the machine is woken.\<close>

definition pmu_ring :: "AppleSPMIPMUState \<Rightarrow> AppleSPMIPMUState" where
  "pmu_ring s =
     (let e = unat (reg_alarm_event s); f = (pmu_reg s)(e := pmu_reg s e OR R_RTC_EVENT_ALARM_MASK)
      in s\<lparr>pmu_reg := f, pmu_irq := (f (unat (reg_rtc_irq_mask s)) AND f e \<noteq> 0), pmu_wakeups := pmu_wakeups s + 1\<rparr>)"

lemma pmu_alarm_eq: "pmu_ok s \<Longrightarrow> apple_spmi_pmu_alarm s = Inr (pmu_ring s)"
  by (simp add: apple_spmi_pmu_alarm_def apple_spmi_pmu_update_irq_def pmu_ld_def pmu_st_def pmu_ring_def pmu_ok_def Let_def)

text \<open>The time is due: as a signed number it is not above the seconds the clock shows.\<close>

definition alarm_due :: "AppleSPMIPMUState \<Rightarrow> bool" where
  "alarm_due s \<longleftrightarrow> bit (alarm_time s) 31 \<or> unat (alarm_time s) \<le> pmu_seconds s (pmu_now s)"

lemma sint_u32: "sint (w :: u32) = int (unat w) - (if bit w 31 then 2 ^ 32 else 0)"
  using unsigned_less [of w, where 'a = int]
  by (simp add: sint_uint signed_take_bit_eq_take_bit_minus take_bit_int_eq_self bit_uint_iff)

lemma alarm_due_sint: "alarm_due s \<longleftrightarrow> sint (alarm_time s) \<le> int (pmu_seconds s (pmu_now s))"
proof -
  define n where "n = unat (alarm_time s)"
  have "n < 2 ^ 32" using unsigned_less [of "alarm_time s", where 'a = nat] by (simp add: n_def)
  then show ?thesis unfolding alarm_due_def sint_u32 n_def [symmetric] by (cases "bit (alarm_time s) 31") simp_all
qed

lemma alarm_not_due: "\<not> alarm_due s \<Longrightarrow> sint (alarm_time s) = int (unat (alarm_time s))"
  by (simp add: alarm_due_def sint_u32)

lemma pmu_set_alarm_eq:
  assumes "pmu_ok s"
  shows "apple_spmi_pmu_set_alarm s = Inr
    (if pmu_reg s (unat (reg_alarm_ctrl s)) AND R_RTC_CONTROL_ALARM_EN_MASK = 0 then s\<lparr>pmu_timer := None\<rparr>
     else if alarm_due s then pmu_ring (s\<lparr>pmu_timer := None\<rparr>)
     else s\<lparr>pmu_timer := Some (pmu_now s + of_nat (unat (alarm_time s) - pmu_seconds s (pmu_now s)) * NANOSECONDS_PER_SECOND)\<rparr>)"
proof -
  have a: "pmu_alarm_time s = Inr (alarm_time s)" using assms by (simp add: pmu_alarm_time_def alarm_time_def pmu_ok_def)
  have t: "apple_rtc_ns_to_tick (pmu_now s) s = Inr (rtc_ticks (pmu_now s) - tick_offset (pmu_reg s) (unat (reg_leg_scrpad s)))"
    by (simp add: apple_rtc_ns_to_tick_def pmu_get_offset [OF assms])
  have c: "pmu_ld (reg_alarm_ctrl s) s = Inr (pmu_reg s (unat (reg_alarm_ctrl s)))" using assms by (simp add: pmu_ld_def pmu_ok_def)
  have ok: "pmu_ok (s\<lparr>pmu_timer := None\<rparr>)" using assms by (simp add: pmu_ok_def)
  define n m where "n = unat (alarm_time s)" and "m = pmu_seconds s (pmu_now s)"
  have d: "sint (alarm_time s) - int m \<le> 0 \<longleftrightarrow> alarm_due s" by (simp add: alarm_due_sint m_def)
  have k: "sint (alarm_time s) - int m = int (n - m)" if "\<not> alarm_due s"
    using that alarm_not_due [OF that] by (simp add: n_def m_def alarm_due_def)
  have m: "unat (drop_bit 15 (rtc_ticks (pmu_now s) - tick_offset (pmu_reg s) (unat (reg_leg_scrpad s)))) = m"
    by (simp add: m_def pmu_seconds_def)
  show ?thesis
    unfolding apple_spmi_pmu_set_alarm_def a t c rbind_simps Let_def pmu_alarm_eq [OF ok] m d n_def [symmetric] m_def [symmetric]
    by (simp add: k)
qed

lemma pmu_seconds_add:
  assumes "tick_offset (pmu_reg s) (unat (reg_leg_scrpad s)) \<le> rtc_ticks now" "unat now < 2 ^ 62" "k < 2 ^ 32"
  shows "pmu_seconds s (now + of_nat k * NANOSECONDS_PER_SECOND) = pmu_seconds s now + k"
proof -
  let ?o = "tick_offset (pmu_reg s) (unat (reg_leg_scrpad s))"
  have b: "k * 1000000000 < 2 ^ 32 * 1000000000" using assms(3) by simp
  have t: "rtc_ticks (now + of_nat k * NANOSECONDS_PER_SECOND) = rtc_ticks now + of_nat (k * 32768)"
    by (rule rtc_ticks_seconds) (use assms(2) b in simp)
  have "unat now div 1000000000 < 2 ^ 33" using assms(2) by (simp add: div_less_iff_less_mult)
  moreover have "frac_ticks (unat now) mod 32768 < 32768" by simp
  ultimately have r: "unat (rtc_ticks now) < 2 ^ 49" unfolding unat_rtc_ticks by simp
  have d: "unat (drop_bit 15 w) = unat w div 32768" for w :: u64
    unfolding drop_bit_eq_div by (simp add: unat_div_distrib)
  have u: "unat (rtc_ticks now - ?o) = unat (rtc_ticks now) - unat ?o" using assms(1) by (simp add: unat_sub)
  have e: "rtc_ticks now + of_nat (k * 32768) - ?o = (rtc_ticks now - ?o) + of_nat (k * 32768)" by simp
  have "unat ((rtc_ticks now - ?o) + of_nat (k * 32768)) = unat (rtc_ticks now - ?o) + k * 32768"
    using r u assms(3) by (simp add: unat_word_ariths unat_of_nat take_bit_eq_mod del: of_nat_mult)
  then show ?thesis
    by (simp only: pmu_seconds_def t e d)
qed

text \<open>
  Property C22 (liveness). Setting an enabled alarm, with a clock that does not wrap: when its time has come it goes off at once,
  otherwise the timer is armed for a later time, at which the clock shows exactly the seconds of the alarm, and the callback
  then raises the line if the event is not masked. The time is read as a signed number: one with its highest bit set goes off
  at once, however far ahead it is.
\<close>

lemma pmu_alarm_on_time:
  assumes "pmu_ok s" "pmu_reg s (unat (reg_alarm_ctrl s)) AND R_RTC_CONTROL_ALARM_EN_MASK \<noteq> 0"
    "tick_offset (pmu_reg s) (unat (reg_leg_scrpad s)) \<le> rtc_ticks (pmu_now s)" "unat (pmu_now s) < 2 ^ 62"
  shows "\<exists>t. apple_spmi_pmu_set_alarm s = Inr t \<and>
    (if bit (alarm_time s) 31 \<or> unat (alarm_time s) \<le> pmu_seconds s (pmu_now s) then t = pmu_ring (s\<lparr>pmu_timer := None\<rparr>)
     else \<exists>T. t = s\<lparr>pmu_timer := Some T\<rparr> \<and> pmu_now s < T \<and> pmu_seconds s T = unat (alarm_time s) \<and>
       apple_spmi_pmu_alarm (t\<lparr>pmu_now := T\<rparr>) = Inr (pmu_ring (t\<lparr>pmu_now := T\<rparr>)))"
proof (cases "alarm_due s")
  case False
  let ?k = "unat (alarm_time s) - pmu_seconds s (pmu_now s)"
  let ?T = "pmu_now s + of_nat ?k * NANOSECONDS_PER_SECOND"
  have k: "?k < 2 ^ 32" "0 < ?k" using unsigned_less [of "alarm_time s", where 'a = nat] False by (simp_all add: alarm_due_def)
  then have "?k * 1000000000 < 2 ^ 32 * 1000000000" by simp
  then have "unat ?T = unat (pmu_now s) + ?k * 1000000000"
    using assms(4) by (simp add: unat_word_ariths unat_of_nat take_bit_eq_mod)
  then have "pmu_now s < ?T" using k(2) by (simp add: word_less_nat_alt)
  moreover have "pmu_seconds s ?T = unat (alarm_time s)" using pmu_seconds_add [OF assms(3,4) k(1)] False by (simp add: alarm_due_def)
  moreover have "pmu_ok (s\<lparr>pmu_timer := Some ?T, pmu_now := ?T\<rparr>)" using assms(1) by (simp add: pmu_ok_def)
  moreover have "apple_spmi_pmu_set_alarm s = Inr (s\<lparr>pmu_timer := Some ?T\<rparr>)"
    unfolding pmu_set_alarm_eq [OF assms(1)] using False assms(2) by simp
  ultimately show ?thesis using False pmu_alarm_eq by (auto simp: alarm_due_def)
qed (use assms in \<open>simp add: pmu_set_alarm_eq flip: alarm_due_def\<close>)

subsection \<open>Reading and writing registers\<close>

text \<open>What an operation keeps: the register numbers, the address and the clock.\<close>

definition pmu_same :: "AppleSPMIPMUState \<Rightarrow> AppleSPMIPMUState \<Rightarrow> bool" where
  "pmu_same s t \<longleftrightarrow> reg_leg_scrpad t = reg_leg_scrpad s \<and> reg_rtc t = reg_rtc s \<and> reg_rtc_irq_mask t = reg_rtc_irq_mask s \<and>
     reg_alarm t = reg_alarm s \<and> reg_alarm_ctrl t = reg_alarm_ctrl s \<and> reg_alarm_event t = reg_alarm_event s \<and>
     pmu_addr t = pmu_addr s \<and> pmu_now t = pmu_now s"

lemma pmu_same_ok: "pmu_same s t \<Longrightarrow> pmu_ok s \<Longrightarrow> pmu_ok t"
  by (simp add: pmu_same_def pmu_ok_def)

lemma pmu_same_trans: "pmu_same s t \<Longrightarrow> pmu_same t u \<Longrightarrow> pmu_same s u"
  by (simp add: pmu_same_def)

text \<open>A register written, with the effect of the alarm registers.\<close>

definition pmu_put1 :: "u16 \<Rightarrow> u8 \<Rightarrow> AppleSPMIPMUState \<Rightarrow> AppleSPMIPMUState" where
  "pmu_put1 addr b s =
     (let s = s\<lparr>pmu_reg := (pmu_reg s)(unat addr := b)\<rparr>
      in if is_alarm_reg addr s then case apple_spmi_pmu_set_alarm s of Inl _ \<Rightarrow> s | Inr t \<Rightarrow> t else s)"

primrec pmu_puts :: "bytes \<Rightarrow> u16 \<Rightarrow> AppleSPMIPMUState \<Rightarrow> AppleSPMIPMUState" where
  "pmu_puts [] addr s = s"
| "pmu_puts (b # bs) addr s = pmu_puts bs (addr + 1) (pmu_put1 addr b s)"

lemma pmu_set_alarm_same:
  assumes "pmu_ok s"
  shows "\<exists>t. apple_spmi_pmu_set_alarm s = Inr t \<and> pmu_same s t \<and> (\<forall>x. x \<noteq> unat (reg_alarm_event s) \<longrightarrow> pmu_reg t x = pmu_reg s x)"
  by (auto simp: pmu_set_alarm_eq [OF assms] pmu_same_def pmu_ring_def Let_def)

lemma pmu_put1_step:
  assumes "pmu_ok s"
  shows "rbind (pmu_st (ucast addr) b s) (\<lambda>s. rbind (if is_alarm_reg addr s then apple_spmi_pmu_set_alarm s else Inr s) g) = g (pmu_put1 addr b s)"
    "pmu_same s (pmu_put1 addr b s)" "x \<noteq> unat (reg_alarm_event s) \<Longrightarrow> pmu_reg (pmu_put1 addr b s) x = (if x = unat addr then b else pmu_reg s x)"
proof -
  let ?s = "s\<lparr>pmu_reg := (pmu_reg s)(unat addr := b)\<rparr>"
  have ok: "pmu_ok ?s" and same: "pmu_same s ?s" using assms by (simp_all add: pmu_ok_def pmu_same_def)
  obtain t where t: "apple_spmi_pmu_set_alarm ?s = Inr t" "pmu_same ?s t" "\<And>x. x \<noteq> unat (reg_alarm_event s) \<Longrightarrow> pmu_reg t x = pmu_reg ?s x"
    using pmu_set_alarm_same [OF ok] by auto
  have u: "unat (ucast addr :: u32) = unat addr" "unat addr < 0x10000"
    using unsigned_less [of addr, where 'a = nat] by (simp_all add: unsigned_ucast_eq take_bit_nat_eq_self)
  then have "pmu_st (ucast addr) b s = Inr ?s" by (simp add: pmu_st_def)
  moreover have "is_alarm_reg addr ?s = is_alarm_reg addr s" by (simp add: is_alarm_reg_def)
  ultimately show "rbind (pmu_st (ucast addr) b s) (\<lambda>s. rbind (if is_alarm_reg addr s then apple_spmi_pmu_set_alarm s else Inr s) g) = g (pmu_put1 addr b s)"
    using t(1) by (simp add: pmu_put1_def Let_def)
  show "pmu_same s (pmu_put1 addr b s)" using t(1) pmu_same_trans [OF same t(2)] same by (simp add: pmu_put1_def Let_def)
  show "pmu_reg (pmu_put1 addr b s) x = (if x = unat addr then b else pmu_reg s x)" if "x \<noteq> unat (reg_alarm_event s)"
    using t(1) t(3) [OF that] by (auto simp: pmu_put1_def Let_def)
qed

lemma pmu_puts:
  assumes "pmu_ok s" "unat addr + length bs \<le> 0xFFFF"
  shows "pmu_same s (pmu_puts bs addr s) \<and> (x \<noteq> unat (reg_alarm_event s) \<longrightarrow>
    pmu_reg (pmu_puts bs addr s) x = (if unat addr \<le> x \<and> x < unat addr + length bs then bs ! (x - unat addr) else pmu_reg s x))"
  using assms
proof (induction bs arbitrary: addr s)
  case (Cons b bs)
  have n: "unat (addr + 1) = unat addr + 1" using Cons.prems(2) by (simp add: unat_word_ariths)
  note p = pmu_put1_step(2) [OF Cons.prems(1), of addr b] pmu_put1_step(3) [OF Cons.prems(1), where addr = addr and b = b]
  have ok: "pmu_ok (pmu_put1 addr b s)" using pmu_same_ok [OF p(1) Cons.prems(1)] .
  have len: "unat (addr + 1) + length bs \<le> 0xFFFF" using Cons.prems(2) n by simp
  have e: "reg_alarm_event (pmu_put1 addr b s) = reg_alarm_event s" using p(1) by (simp add: pmu_same_def)
  note IH = Cons.IH [OF ok len, unfolded e n]
  have "pmu_same s (pmu_puts (b # bs) addr s)" using pmu_same_trans [OF p(1)] IH by simp
  moreover have "pmu_reg (pmu_puts (b # bs) addr s) x =
      (if unat addr \<le> x \<and> x < unat addr + length (b # bs) then (b # bs) ! (x - unat addr) else pmu_reg s x)"
    if "x \<noteq> unat (reg_alarm_event s)"
    using IH p(2) [OF that] that by (auto simp: nth_Cons')
  ultimately show ?case by blast
qed (simp add: pmu_same_def)

lemma pmu_send_loop_eq:
  assumes "pmu_ok s" "unat a + unat len \<le> 0xFFFF" "unat len \<le> length data" "k \<le> unat len" "unat addr = unat a + k"
  shows "pmu_send_loop data len a addr s = Inr (a + ucast len, pmu_puts (take (unat len - k) (drop k data)) addr s)"
  using assms
proof (induction "unat len - k" arbitrary: k addr s)
  case 0
  have "unat (a + ucast len) = unat a + unat len" using assms(2) by (simp add: unat_word_ariths unsigned_ucast_eq take_bit_nat_eq_self)
  then have "addr = a + ucast len" using 0 by (simp add: word_unat_eq_iff)
  then show ?case using 0 by (simp add: pmu_send_loop.simps)
next
  case (Suc j)
  then have k: "k < unat len" "k < length data" by simp_all
  have n: "unat (addr + 1) = unat a + Suc k" using Suc.prems k by (simp add: unat_word_ariths)
  have i: "unat (addr - a) = k" "\<not> addr < a" using Suc.prems by (simp_all add: unat_sub word_le_nat_alt word_less_nat_alt)
  have ok: "pmu_ok (pmu_put1 addr (data ! k) s)" using pmu_same_ok pmu_put1_step(2) Suc.prems(1) by blast
  have "pmu_send_loop data len a addr s = pmu_send_loop data len a (addr + 1) (pmu_put1 addr (data ! k) s)"
    using Suc.prems(5) k i pmu_put1_step(1) [OF Suc.prems(1), of addr "data ! k" "pmu_send_loop data len a (addr + 1)"]
    by (simp add: pmu_send_loop.simps [of data len a addr])
  also have "\<dots> = Inr (a + ucast len, pmu_puts (take (unat len - Suc k) (drop (Suc k) data)) (addr + 1) (pmu_put1 addr (data ! k) s))"
    using Suc.hyps(1) [of "Suc k" "pmu_put1 addr (data ! k) s" "addr + 1"] Suc.hyps(2) Suc.prems(2,3) ok n k by simp
  also have "take (unat len - k) (drop k data) = data ! k # take (unat len - Suc k) (drop (Suc k) data)"
    using k by (simp add: Cons_nth_drop_Suc [symmetric] take_Cons' Suc_diff_Suc [symmetric])
  ultimately show ?case by simp
qed

text \<open>The clock registers as a read of them finds them.\<close>

definition put_rtc :: "u64 \<Rightarrow> nat \<Rightarrow> (nat \<Rightarrow> u8) \<Rightarrow> nat \<Rightarrow> u8" where
  "put_rtc now k f = f(k := ucast (push_bit 1 now AND 0xFF), k + 1 := ucast (drop_bit 7 now AND 0xFF), k + 2 := ucast (drop_bit 15 now AND 0xFF),
     k + 3 := ucast (drop_bit 23 now AND 0xFF), k + 4 := ucast (drop_bit 31 now AND 0xFF), k + 5 := ucast (drop_bit 39 now AND 0xFF))"

definition pmu_tick :: "AppleSPMIPMUState \<Rightarrow> u64" where
  "pmu_tick s = rtc_ticks (pmu_now s) - tick_offset (pmu_reg s) (unat (reg_leg_scrpad s))"

lemma pmu_store_rtc_eq:
  assumes "pmu_ok s"
  shows "pmu_store_rtc s = Inr (s\<lparr>pmu_reg := put_rtc (pmu_tick s) (unat (reg_rtc s)) (pmu_reg s)\<rparr>)"
proof -
  have t: "apple_rtc_get_current_tick s = Inr (pmu_tick s)"
    by (simp add: apple_rtc_get_current_tick_def apple_rtc_ns_to_tick_def pmu_get_offset [OF assms] pmu_tick_def)
  have r: "unat (reg_rtc s) + 5 < 0x10000" using assms by (simp add: pmu_ok_def)
  then have "unat (reg_rtc s + 1) = unat (reg_rtc s) + 1" "unat (reg_rtc s + 2) = unat (reg_rtc s) + 2" "unat (reg_rtc s + 3) = unat (reg_rtc s) + 3"
    "unat (reg_rtc s + 4) = unat (reg_rtc s) + 4" "unat (reg_rtc s + 5) = unat (reg_rtc s) + 5" by (simp_all add: unat_word_ariths)
  then show ?thesis using r by (simp add: pmu_store_rtc_def t pmu_st_def put_rtc_def)
qed

definition pmu_view :: "nat \<Rightarrow> AppleSPMIPMUState \<Rightarrow> AppleSPMIPMUState" where
  "pmu_view n s =
     (if unat (reg_rtc s) < unat (pmu_addr s) + n \<and> unat (pmu_addr s) < unat (reg_rtc s) + 6
      then s\<lparr>pmu_reg := put_rtc (pmu_tick s) (unat (reg_rtc s)) (pmu_reg s)\<rparr> else s)"

definition pmu_fits :: "nat \<Rightarrow> AppleSPMIPMUState \<Rightarrow> bool" where
  "pmu_fits n s \<longleftrightarrow> pmu_ok s \<and> unat (pmu_addr s) + n \<le> 0xFFFF"

definition pmu_put :: "bytes \<Rightarrow> AppleSPMIPMUState \<Rightarrow> AppleSPMIPMUState" where
  "pmu_put bs s = (pmu_puts bs (pmu_addr s) s)\<lparr>pmu_addr := pmu_addr s + of_nat (length bs)\<rparr>"

definition pmu_get :: "nat \<Rightarrow> AppleSPMIPMUState \<Rightarrow> bytes" where
  "pmu_get n s = map (pmu_reg (pmu_view n s)) [unat (pmu_addr s)..<unat (pmu_addr s) + n]"

definition pmu_got :: "nat \<Rightarrow> AppleSPMIPMUState \<Rightarrow> AppleSPMIPMUState" where
  "pmu_got n s = (pmu_view n s)\<lparr>pmu_addr := pmu_addr s + of_nat n\<rparr>"

lemma pmu_end:
  assumes "unat a + unat len \<le> 0xFFFF"
  shows "unat (a + ucast (len :: u8) :: u16) = unat a + unat len" "a + ucast len = a + of_nat (unat len)" "max a (a + ucast len) = a + ucast len"
proof -
  show u: "unat (a + ucast len) = unat a + unat len" using assms by (simp add: unat_word_ariths unsigned_ucast_eq take_bit_nat_eq_self)
  show "a + ucast len = a + of_nat (unat len)" by simp
  show "max a (a + ucast len) = a + ucast len" using u by (simp add: max_def word_le_nat_alt)
qed

lemma pmu_recv_eq:
  assumes "pmu_fits (unat len) s" "unat len \<le> length data"
  shows "apple_spmi_pmu_recv data len s = Inr (uint len, pmu_get (unat len) s @ drop (unat len) data, pmu_got (unat len) s)"
proof -
  have ok: "pmu_ok s" and f: "unat (pmu_addr s) + unat len \<le> 0xFFFF" using assms(1) by (simp_all add: pmu_fits_def)
  have rtc: "unat (reg_rtc s) + 5 < 0x10000" using ok by (simp add: pmu_ok_def)
  then have r6: "unat (reg_rtc s + 6) = unat (reg_rtc s) + 6" by (simp add: unat_word_ariths)
  have u: "unat (ucast (w :: u16) :: u32) = unat w" for w
    using unsigned_less [of w, where 'a = nat] by (simp add: unsigned_ucast_eq take_bit_nat_eq_self)
  have "(ucast (pmu_addr s + ucast len) > reg_rtc s \<and> ucast (pmu_addr s) < reg_rtc s + 6) \<longleftrightarrow>
      unat (reg_rtc s) < unat (pmu_addr s) + unat len \<and> unat (pmu_addr s) < unat (reg_rtc s) + 6"
    by (simp only: word_less_nat_alt u r6 pmu_end(1) [OF f])
  then have v: "(if ucast (pmu_addr s + ucast len) > reg_rtc s \<and> ucast (pmu_addr s) < reg_rtc s + 6 then pmu_store_rtc s else Inr s) = Inr (pmu_view (unat len) s)"
    by (simp add: pmu_view_def pmu_store_rtc_eq [OF ok])
  have n: "unat (pmu_addr s + ucast len) - unat (pmu_addr s) = unat len" by (simp only: pmu_end(1) [OF f])
  show ?thesis
    unfolding apple_spmi_pmu_recv_def Let_def v n rbind_simps pmu_end(3) [OF f] pmu_get_def pmu_got_def using assms(2) by simp
qed

lemma pmu_send_eq:
  assumes "pmu_fits (unat len) s" "unat len \<le> length data"
  shows "apple_spmi_pmu_send data len s = Inr (uint len, pmu_put (take (unat len) data) s)"
  using assms pmu_send_loop_eq [of s "pmu_addr s" len data 0 "pmu_addr s"]
  by (simp add: apple_spmi_pmu_send_def pmu_fits_def pmu_put_def min_absorb2)

interpretation pmu: spmi_target apple_spmi_pmu_class "\<lambda>a s. s\<lparr>pmu_addr := a\<rparr>" pmu_fits pmu_put pmu_get pmu_got
  by unfold_locales (auto simp: apple_spmi_pmu_class_def apple_spmi_pmu_command_def pmu_send_eq pmu_recv_eq pmu_get_def)

lemma pmu_get_put:
  assumes "pmu_fits (length bs) s" "unat (reg_alarm_event s) \<notin> {unat (pmu_addr s)..<unat (pmu_addr s) + length bs}"
    "unat (pmu_addr s) + length bs \<le> unat (reg_rtc s) \<or> unat (reg_rtc s) + 6 \<le> unat (pmu_addr s)"
  shows "pmu_get (length bs) ((pmu_put bs s)\<lparr>pmu_addr := pmu_addr s\<rparr>) = bs"
    "pmu_ok ((pmu_put bs s)\<lparr>pmu_addr := pmu_addr s\<rparr>)"
proof -
  let ?t = "(pmu_put bs s)\<lparr>pmu_addr := pmu_addr s\<rparr>"
  have ok: "pmu_ok s" and f: "unat (pmu_addr s) + length bs \<le> 0xFFFF" using assms(1) by (simp_all add: pmu_fits_def)
  have same: "pmu_same s (pmu_puts bs (pmu_addr s) s)" using pmu_puts [OF ok f] by blast
  then have "reg_rtc ?t = reg_rtc s" by (simp add: pmu_put_def pmu_same_def)
  then have "\<not> (unat (reg_rtc ?t) < unat (pmu_addr ?t) + length bs \<and> unat (pmu_addr ?t) < unat (reg_rtc ?t) + 6)" using assms(3) by simp linarith
  then have v: "pmu_view (length bs) ?t = ?t" unfolding pmu_view_def by (simp only: if_False)
  have r: "pmu_reg ?t x = bs ! (x - unat (pmu_addr s))" if "x \<in> set [unat (pmu_addr s)..<unat (pmu_addr s) + length bs]" for x
  proof -
    have "x \<noteq> unat (reg_alarm_event s)" "unat (pmu_addr s) \<le> x" "x < unat (pmu_addr s) + length bs" using that assms(2) by auto
    then show ?thesis using pmu_puts [OF ok f, of x] by (simp add: pmu_put_def)
  qed
  have "pmu_get (length bs) ?t = map (\<lambda>x. bs ! (x - unat (pmu_addr s))) [unat (pmu_addr s)..<unat (pmu_addr s) + length bs]"
    unfolding pmu_get_def v using r by (simp del: set_upt cong: map_cong)
  also have "\<dots> = bs" by (rule nth_equalityI) simp_all
  finally show "pmu_get (length bs) ?t = bs" .
  show "pmu_ok ?t" using pmu_same_ok [OF same ok] by (simp add: pmu_put_def pmu_ok_def)
qed

text \<open>
  Property C15 (roundtrip). A guest that writes registers of the power management unit through the controller, pops the answer and reads
  the same registers back pops the bytes it wrote; the queue is then empty again and its interrupt is cleared.
  The clock registers and the alarm event register are excepted, which change on their own.
\<close>

lemma pmu_guest_roundtrip:
  fixes s :: "AppleSPMIPMUState AppleSPMIState"
  assumes "spmi_ready apple_spmi_pmu_class (SPMI_REQ_SID w) i s" "fifo32_list (resp_fifo s) = []"
    "is_ext_write w" "is_ext_read r" "w AND SPMI_REQ_FINAL \<noteq> 0" "r AND SPMI_REQ_FINAL \<noteq> 0" "SPMI_REQ_SID r = SPMI_REQ_SID w"
    "spmi_address r = spmi_address w" "spmi_data_length r = spmi_data_length w" "length ws = spmi_word_count w"
    "d = slave_dev (bus_children (spmi_bus s) ! i)" "pmu_ok d" "a = unat (ucast (spmi_address w) :: u16)" "n = unat (spmi_data_length w)"
    "a + n \<le> 0xFFFF" "unat (reg_alarm_event d) \<notin> {a..<a + n}" "a + n \<le> unat (reg_rtc d) \<or> unat (reg_rtc d) + 6 \<le> a"
  shows "\<exists>vs t. spmi_guest (spmi_pushes (w # ws) @ spmi_pops 1 @ spmi_pushes [r] @ spmi_pops (Suc (spmi_word_count r))) s = Inr (vs, t) \<and>
    take n (concat (map (to_le 4) (map (\<lambda>v. ucast v :: u32) (drop 2 vs)))) = take n (concat (map (to_le 4) ws)) \<and>
    spmi_ready apple_spmi_pmu_class (SPMI_REQ_SID w) i t \<and> fifo32_list (resp_fifo t) = [] \<and> spmi_irq t = spmi_pending t \<and> \<not> spmi_resp_pending t"
proof -
  let ?d = "d\<lparr>pmu_addr := ucast (spmi_address w)\<rparr>" and ?bs = "take n (concat (map (to_le 4) ws))"
  have bs: "length ?bs = n"
    using assms(3,10,14) spmi_word_count(2) [of w] by (simp add: length_concat comp_def sum_list_triv)
  have f: "pmu_fits n ?d" using assms(12,13,15) by (simp add: pmu_fits_def pmu_ok_def)
  obtain t where t: "spmi_guest (spmi_pushes (w # ws) @ spmi_pops 1) s = Inr ([ucast ((w AND 0xFFF) OR BIT 15 :: u32)], t)"
    "spmi_ready apple_spmi_pmu_class (SPMI_REQ_SID r) i t" "fifo32_list (resp_fifo t) = []"
    "slave_dev (bus_children (spmi_bus t) ! i) = pmu_put ?bs ?d"
    using pmu.guest_write [OF assms(1,3,5,10), where n = "SPMI_REQ_SID r", unfolded assms(11,14) [symmetric], OF f assms(2)] by blast
  let ?e = "(pmu_put ?bs ?d)\<lparr>pmu_addr := ucast (spmi_address w)\<rparr>"
  have g: "pmu_get n ?e = ?bs" "pmu_ok ?e"
    using pmu_get_put [of ?bs ?d, unfolded bs] f assms(13,16,17) by simp_all
  then have fe: "pmu_fits n ?e" using f by (simp add: pmu_fits_def)
  have rn: "unat (spmi_data_length r) = n" using assms(9,14) by simp
  obtain u where u: "spmi_guest (spmi_pushes [r] @ spmi_pops (Suc (spmi_word_count r))) t = Inr (map ucast (spmi_answer r ?bs), u)"
    "spmi_ready apple_spmi_pmu_class (SPMI_REQ_SID w) i u" "fifo32_list (resp_fifo u) = []" "spmi_irq u = spmi_pending u" "\<not> spmi_resp_pending u"
    using pmu.guest_read [OF t(2) assms(4,6) _ t(3), where n = "SPMI_REQ_SID w", unfolded t(4) assms(8) rn, OF fe] unfolding g(1) by auto
  let ?h = "ucast ((w AND 0xFFF) OR BIT 15 :: u32) :: u64"
  have "spmi_guest ((spmi_pushes (w # ws) @ spmi_pops 1) @ (spmi_pushes [r] @ spmi_pops (Suc (spmi_word_count r)))) s =
      Inr (?h # map ucast (spmi_answer r ?bs), u)"
    unfolding spmi_guest_append [of "spmi_pushes (w # ws) @ spmi_pops 1"] t(1) by (simp only: rbind_simps prod.case u(1)) simp
  then have run: "spmi_guest (spmi_pushes (w # ws) @ spmi_pops 1 @ spmi_pushes [r] @ spmi_pops (Suc (spmi_word_count r))) s =
      Inr (?h # map ucast (spmi_answer r ?bs), u)" by (simp only: append_assoc)
  have "map (\<lambda>v. ucast v :: u32) (drop 2 (?h # map ucast (spmi_answer r ?bs))) = tl (spmi_answer r ?bs)"
    by (simp add: spmi_answer_def comp_def)
  then have "take n (concat (map (to_le 4) (map (\<lambda>v. ucast v :: u32) (drop 2 (?h # map ucast (spmi_answer r ?bs)))))) = ?bs"
    using spmi_answer(2) [of ?bs r, unfolded bs rn] by (simp only:)
  then show ?thesis using run u(2-5) by blast
qed

text \<open>The witness: one power management unit on the bus, four registers written and read back.\<close>

definition pmu_demo :: AppleSPMIPMUState where
  "pmu_demo = \<lparr>pmu_irq = False, pmu_timer = None, pmu_now = 5000000000, pmu_wakeups = 0, reg_leg_scrpad = 0x100, reg_rtc = 0x10, reg_rtc_irq_mask = 0x20,
     reg_alarm = 0x30, reg_alarm_ctrl = 0x40, reg_alarm_event = 0x50, pmu_reg = (\<lambda>_. 0)(0x30 := 7, 0x40 := 0x40), pmu_addr = 0\<rparr>"

definition spmi_demo :: "AppleSPMIPMUState AppleSPMIState" where
  "spmi_demo = (apple_spmi_init (\<lambda>_. 0))\<lparr>spmi_bus :=
     spmi_slave_realize_and_unref \<lparr>slave_class = apple_spmi_pmu_class, spmi_sid = 1, slave_dev = pmu_demo\<rparr> spmi_init_bus\<rparr>"

lemma spmi_demo_ready: "spmi_ready apple_spmi_pmu_class 1 0 spmi_demo" "fifo32_list (resp_fifo spmi_demo) = []"
  "slave_dev (bus_children (spmi_bus spmi_demo) ! 0) = pmu_demo"
proof -
  have "spmi_wf spmi_demo" using spmi_init_wf(1) [of "\<lambda>_. 0"] by (simp add: spmi_demo_def spmi_wf_def)
  then show "spmi_ready apple_spmi_pmu_class 1 0 spmi_demo"
    by (simp add: spmi_ready_def spmi_demo_def apple_spmi_init_def spmi_slave_realize_and_unref_def spmi_init_bus_def spmi_scan_def)
  show "fifo32_list (resp_fifo spmi_demo) = []" using spmi_init_wf(2) by (simp add: spmi_demo_def)
qed (simp add: spmi_demo_def spmi_slave_realize_and_unref_def)

lemma pmu_demo_ok: "pmu_ok pmu_demo"
  by (simp add: pmu_ok_def pmu_demo_def)

lemma spmi_demo_request:
  "SPMI_REQ_SID 0x02008133 = 1" "is_ext_write 0x02008133" "(0x02008133 :: u32) AND SPMI_REQ_FINAL \<noteq> 0" "spmi_address 0x02008133 = 0x200" "spmi_data_length 0x02008133 = 4"
  "SPMI_REQ_SID 0x0200813b = 1" "is_ext_read 0x0200813b" "(0x0200813b :: u32) AND SPMI_REQ_FINAL \<noteq> 0" "spmi_address 0x0200813b = 0x200" "spmi_data_length 0x0200813b = 4"
  by (simp_all add: SPMI_REQ_SID_def is_ext_write_def is_ext_read_def spmi_opcode_def spmi_address_def spmi_data_length_def BIT_def)

lemma pmu_guest_roundtrip_witness:
  "\<exists>vs t. spmi_guest (spmi_pushes [0x02008133, 0x12345678] @ spmi_pops 1 @ spmi_pushes [0x0200813b] @ spmi_pops 2) spmi_demo = Inr (vs, t) \<and>
    take 4 (concat (map (to_le 4) (map (\<lambda>v. ucast v :: u32) (drop 2 vs)))) = [0x78, 0x56, 0x34, 0x12]"
proof -
  have wc: "spmi_word_count 0x0200813b = 1" "spmi_word_count 0x02008133 = 1" by (simp_all add: spmi_word_count_def spmi_demo_request)
  have "\<exists>vs t. spmi_guest (spmi_pushes (0x02008133 # [0x12345678]) @ spmi_pops 1 @ spmi_pushes [0x0200813b] @ spmi_pops (Suc (spmi_word_count 0x0200813b))) spmi_demo = Inr (vs, t) \<and>
    take 4 (concat (map (to_le 4) (map (\<lambda>v. ucast v :: u32) (drop 2 vs)))) = take 4 (concat (map (to_le 4) [0x12345678 :: u32])) \<and>
    spmi_ready apple_spmi_pmu_class (SPMI_REQ_SID 0x02008133) 0 t \<and> fifo32_list (resp_fifo t) = [] \<and> spmi_irq t = spmi_pending t \<and> \<not> spmi_resp_pending t"
    by (rule pmu_guest_roundtrip [where a = "0x200"])
      (simp_all add: spmi_demo_request spmi_demo_ready wc pmu_demo_ok, simp_all add: pmu_demo_def pmu_demo_ok [unfolded pmu_demo_def])
  moreover have "to_le 4 (0x12345678 :: u32) = [0x78, 0x56, 0x34, 0x12]" by code_simp
  ultimately show ?thesis by (auto simp: wc numeral_2_eq_2)
qed

lemma put_rtc_of_le: "of_le (map (put_rtc now k f) [k..<k + 6]) = take_bit 48 (push_bit 1 now)"
proof -
  let ?x = "push_bit 1 now"
  have six: "(6 :: nat) = Suc (Suc (Suc (Suc (Suc (Suc 0)))))" by simp
  have l: "[k..<k + 6] = [k, k + 1, k + 2, k + 3, k + 4, k + 5]" unfolding six by (simp add: upt_conv_Cons)
  have p: "(ucast (drop_bit a now AND mask 8) :: u8) = ucast (drop_bit (a + 1) ?x)" if "a < 48" for a
  proof (rule bit_word_eqI)
    fix j assume "j < LENGTH(8)"
    then have "bit ?x (a + 1 + j) \<longleftrightarrow> bit now (a + j)" using that by (simp only: bit_push_bit_iff) simp
    then show "bit (ucast (drop_bit a now AND mask 8) :: u8) j = bit (ucast (drop_bit (a + 1) ?x) :: u8) j"
      using \<open>j < LENGTH(8)\<close> by (simp only: bit_ucast_iff bit_and_iff bit_drop_bit_eq bit_mask_iff o_apply) simp
  qed
  have q: "(ucast (w AND mask 8) :: u8) = ucast w" for w :: u64 by (rule bit_word_eqI) (auto simp: bit_logic bit_ucast_iff)
  have "to_le 6 ?x = [ucast ?x, ucast (drop_bit 8 ?x), ucast (drop_bit 16 ?x), ucast (drop_bit 24 ?x), ucast (drop_bit 32 ?x), ucast (drop_bit 40 ?x)]"
    unfolding six by (simp add: drop_bit_drop_bit del: push_bit_Suc push_bit_of_Suc_0)
  also have "\<dots> = map (put_rtc now k f) [k..<k + 6]"
    unfolding l put_rtc_def bytes_masks using q p [of 7] p [of 15] p [of 23] p [of 31] p [of 39] by simp
  finally show ?thesis using of_le_to_le [of 6 ?x] by simp
qed

text \<open>
  Reading the six clock registers through the controller returns twice the ticks of the clock, modulo
  \<open>2 ^ 48\<close>, at the time of the request.
\<close>

lemma pmu_guest_clock:
  fixes s :: "AppleSPMIPMUState AppleSPMIState"
  assumes "spmi_ready apple_spmi_pmu_class (SPMI_REQ_SID r) i s" "fifo32_list (resp_fifo s) = []"
    "is_ext_read r" "r AND SPMI_REQ_FINAL \<noteq> 0" "spmi_data_length r = 6"
    "d = slave_dev (bus_children (spmi_bus s) ! i)" "pmu_ok d" "unat (ucast (spmi_address r) :: u16) = unat (reg_rtc d)" "unat (reg_rtc d) + 6 \<le> 0xFFFF"
  shows "\<exists>vs t. spmi_guest (spmi_pushes [r] @ spmi_pops 3) s = Inr (vs, t) \<and>
    of_le (take 6 (concat (map (to_le 4) (map (\<lambda>v. ucast v :: u32) (tl vs))))) =
      take_bit 48 (push_bit 1 (rtc_ticks (pmu_now d) - tick_offset (pmu_reg d) (unat (reg_leg_scrpad d))))"
proof -
  let ?d = "d\<lparr>pmu_addr := ucast (spmi_address r)\<rparr>"
  have f: "pmu_fits 6 ?d" using assms(7-9) by (simp add: pmu_fits_def pmu_ok_def)
  have g: "pmu_get 6 ?d = map (put_rtc (pmu_tick d) (unat (reg_rtc d)) (pmu_reg d)) [unat (reg_rtc d)..<unat (reg_rtc d) + 6]"
    using assms(8) by (simp add: pmu_get_def pmu_view_def pmu_tick_def)
  have six: "unat (spmi_data_length r) = 6" by (simp add: assms(5))
  have wc: "spmi_word_count r = 2" by (simp add: spmi_word_count_def assms(5))
  obtain t where t: "spmi_guest (spmi_pushes [r] @ spmi_pops (Suc (spmi_word_count r))) s = Inr (map ucast (spmi_answer r (pmu_get 6 ?d)), t)"
    using pmu.guest_read [OF assms(1,3,4) _ assms(2), where n = 0, unfolded assms(6) [symmetric] six, OF f] by blast
  have "length (pmu_get 6 ?d) = 6" by (simp add: pmu_get_def)
  then have "take 6 (concat (map (to_le 4) (tl (spmi_answer r (pmu_get 6 ?d))))) = pmu_get 6 ?d"
    using spmi_answer(2) [of "pmu_get 6 ?d" r] assms(5) by simp
  moreover have "map (\<lambda>v. ucast v :: u32) (tl (map (\<lambda>x. ucast x :: u64) xs)) = tl xs" for xs :: "u32 list"
    by (simp add: map_tl [symmetric] comp_def)
  ultimately have "of_le (take 6 (concat (map (to_le 4) (map (\<lambda>v. ucast v :: u32) (tl (map (\<lambda>x. ucast x :: u64) (spmi_answer r (pmu_get 6 ?d)))))))) =
      take_bit 48 (push_bit 1 (pmu_tick d))" using put_rtc_of_le by (simp only: g)
  then show ?thesis using t unfolding wc pmu_tick_def by (auto simp: numeral_3_eq_3 numeral_2_eq_2)
qed

text \<open>
  A write that reaches the last register of the file does not stop at it: the address wraps to 0 and the loop
  goes on with bytes before the data.
\<close>

lemma pmu_send_loop_overrun:
  assumes "pmu_ok s" "a \<le> addr" "0xFFFF < unat a + unat len" "unat len \<le> length data"
  shows "pmu_send_loop data len a addr s = Inl OutOfBounds"
  using assms
proof (induction "0xFFFF - unat addr" arbitrary: addr s)
  case 0
  have b: "unat addr < 2 ^ 16" "unat len < 2 ^ 8" using unsigned_less [of addr, where 'a = nat] unsigned_less [of len, where 'a = nat] by simp_all
  then have "unat addr = 0xFFFF" using 0 by simp
  then have z: "addr + 1 = 0" by (simp add: word_unat_eq_iff unat_word_ariths)
  have i: "unat (addr - a) < length data" "\<not> addr < a" "unat addr < unat a + unat len"
    using 0 \<open>unat addr = 0xFFFF\<close> by (simp_all add: unat_sub word_le_nat_alt word_less_nat_alt)
  have "0 < unat a" using 0(4) b(2) by simp
  then have "pmu_send_loop data len a 0 (pmu_put1 addr (data ! unat (addr - a)) s) = Inl OutOfBounds"
    by (simp add: pmu_send_loop.simps [of data len a 0] word_less_nat_alt)
  then show ?case using i z pmu_put1_step(1) [OF 0(2), of addr "data ! unat (addr - a)" "pmu_send_loop data len a (addr + 1)"]
    by (simp add: pmu_send_loop.simps [of data len a addr])
next
  case (Suc k)
  have n: "unat (addr + 1) = unat addr + 1" using Suc.hyps(2) by (simp add: unat_word_ariths)
  show ?case
  proof (cases "unat (addr - a) < length data")
    case True
    have ok: "pmu_ok (pmu_put1 addr (data ! unat (addr - a)) s)" using pmu_same_ok pmu_put1_step(2) Suc.prems(1) by blast
    have "pmu_send_loop data len a (addr + 1) (pmu_put1 addr (data ! unat (addr - a)) s) = Inl OutOfBounds"
      using Suc.hyps Suc.prems(2-4) n ok by (intro Suc.hyps(1)) (simp_all add: word_le_nat_alt)
    moreover have "unat addr < unat a + unat len" "\<not> addr < a" using Suc.prems(2,3) Suc.hyps(2) by (simp_all add: not_less)
    ultimately show ?thesis
      using True pmu_put1_step(1) [OF Suc.prems(1), of addr "data ! unat (addr - a)" "pmu_send_loop data len a (addr + 1)"]
      by (simp add: pmu_send_loop.simps [of data len a addr])
  next
    case False
    then show ?thesis using Suc.prems(2,3) Suc.hyps(2) by (simp add: pmu_send_loop.simps [of data len a addr] not_less)
  qed
qed

text \<open>Property C37 (error). A write of registers that reaches the last register of the file runs past the data, whatever it writes.\<close>

lemma pmu_send_overrun:
  assumes "pmu_ok s" "0xFFFF < unat (pmu_addr s) + unat len" "unat len \<le> length data"
  shows "apple_spmi_pmu_send data len s = Inl OutOfBounds"
  using pmu_send_loop_overrun [OF assms(1) order_refl assms(2,3)] by (simp add: apple_spmi_pmu_send_def)

lemma pmu_send_overrun_witness:
  "apple_spmi_pmu_send [1, 2] 2 (pmu_demo\<lparr>pmu_addr := 0xFFFE\<rparr>) = Inl OutOfBounds"
  by (rule pmu_send_overrun) (simp_all add: pmu_ok_def pmu_demo_def)

lemma pmu_guest_clock_witness:
  "\<exists>vs t. spmi_guest (spmi_pushes [0x0010813d] @ spmi_pops 3) spmi_demo = Inr (vs, t) \<and>
    of_le (take 6 (concat (map (to_le 4) (map (\<lambda>v. ucast v :: u32) (tl vs))))) =
      take_bit 48 (push_bit 1 (rtc_ticks (pmu_now pmu_demo) - tick_offset (pmu_reg pmu_demo) (unat (reg_leg_scrpad pmu_demo))))"
proof -
  have r: "SPMI_REQ_SID 0x0010813d = 1" "is_ext_read 0x0010813d" "(0x0010813d :: u32) AND SPMI_REQ_FINAL \<noteq> 0" "spmi_data_length 0x0010813d = 6" "spmi_address 0x0010813d = 0x10"
    by (simp_all add: SPMI_REQ_SID_def is_ext_read_def spmi_opcode_def spmi_address_def spmi_data_length_def BIT_def)
  have rtc: "reg_rtc pmu_demo = 0x10" by (simp add: pmu_demo_def)
  show ?thesis
    by (rule pmu_guest_clock [where i = 0]) (simp_all only: r spmi_demo_ready pmu_demo_ok rtc, simp_all)
qed

lemma pmu_alarm_on_time_witness:
  "\<exists>t T. apple_spmi_pmu_set_alarm pmu_demo = Inr t \<and> pmu_timer t = Some T \<and> pmu_now pmu_demo < T \<and> pmu_seconds pmu_demo T = unat (alarm_time pmu_demo)"
proof -
  have o: "tick_offset (pmu_reg pmu_demo) (unat (reg_leg_scrpad pmu_demo)) = 0" by (simp add: tick_offset_def pmu_demo_def)
  have l: "[0..<4] = [0, 1, 2, 3 :: nat]" by code_simp
  have a: "alarm_time pmu_demo = 7" unfolding alarm_time_def l by (simp add: pmu_demo_def)
  have c: "\<not> (bit (alarm_time pmu_demo) 31 \<or> unat (alarm_time pmu_demo) \<le> pmu_seconds pmu_demo (pmu_now pmu_demo))"
    unfolding pmu_seconds_def o a by (simp add: pmu_demo_def rtc_ticks_def)
  have h: "pmu_reg pmu_demo (unat (reg_alarm_ctrl pmu_demo)) AND R_RTC_CONTROL_ALARM_EN_MASK \<noteq> 0" by (simp add: pmu_demo_def)
  have n: "tick_offset (pmu_reg pmu_demo) (unat (reg_leg_scrpad pmu_demo)) \<le> rtc_ticks (pmu_now pmu_demo)" "unat (pmu_now pmu_demo) < 2 ^ 62"
    unfolding o by (simp_all add: pmu_demo_def)
  show ?thesis using pmu_alarm_on_time [OF pmu_demo_ok h n] c by auto
qed

text \<open>
  A guest that does not pop its answers: a read whose answer does not fit the queue fails an assertion.
\<close>

lemma pmu_read_overflow:
  fixes s :: "AppleSPMIPMUState AppleSPMIState"
  assumes "spmi_ready apple_spmi_pmu_class (SPMI_REQ_SID r) i s" "is_ext_read r" "r AND SPMI_REQ_FINAL \<noteq> 0"
    "pmu_ok (slave_dev (bus_children (spmi_bus s) ! i))" "unat (ucast (spmi_address r) :: u16) + unat (spmi_data_length r) \<le> 0xFFFF"
    "256 \<le> length (fifo32_list (resp_fifo s)) + spmi_word_count r"
  shows "apple_spmi_queue_reg_write SPMI_REQ_QUEUE_PUSH (ucast r) s = Inl AssertFailed"
  using assms by (intro pmu.read_overflow) (simp_all add: pmu_fits_def pmu_ok_def)

lemma pmu_read_overflow_witness:
  "\<exists>s :: AppleSPMIPMUState AppleSPMIState. length (fifo32_list (resp_fifo s)) = 255 \<and>
    apple_spmi_queue_reg_write SPMI_REQ_QUEUE_PUSH (ucast (0x0200813b :: u32)) s = Inl AssertFailed"
proof -
  have w: "spmi_wf spmi_demo" using spmi_demo_ready(1) by (simp add: spmi_ready_def)
  then obtain f where f: "fifo32_wf f" "fifo32_list f = replicate 255 0" "fifo32_size f = 256"
    using f32.push_each_room [of "resp_fifo spmi_demo" "replicate 255 0"] spmi_demo_ready(2) by (auto simp: spmi_wf_def)
  let ?s = "spmi_demo\<lparr>resp_fifo := f\<rparr>"
  have "spmi_ready apple_spmi_pmu_class 1 0 ?s" using spmi_demo_ready(1) w f by (simp add: spmi_ready_def spmi_wf_def)
  then have "apple_spmi_queue_reg_write SPMI_REQ_QUEUE_PUSH (ucast (0x0200813b :: u32)) ?s = Inl AssertFailed"
    by (intro pmu_read_overflow [where i = 0])
      (simp_all add: spmi_demo_request spmi_demo_ready pmu_demo_ok f spmi_word_count_def del: ucast_ucast_32_64)
  then show ?thesis using f(2) by (intro exI [of _ ?s]) simp
qed

text \<open>A new unit starts its clock at 0.\<close>

lemma pmu_from_node_clock:
  assumes "apple_spmi_pmu_from_node now node = Inr p" "pmu_ok (slave_dev p)" "unat now < 2 ^ 61"
  shows "apple_rtc_get_current_tick (slave_dev p) = Inr 0"
proof -
  have "\<exists>s. pmu_reg s = (\<lambda>_. 0) \<and> pmu_now s = now \<and>
      rbind (apple_rtc_get_current_tick s) (\<lambda>tick. apple_spmi_pmu_set_tick_offset tick s) = Inr (slave_dev p)"
    using assms(1) unfolding apple_spmi_pmu_from_node_def Let_def
    by (auto split: option.splits if_splits) (rule exI, intro conjI exI, assumption?, simp_all)
  then obtain s where s: "pmu_reg s = (\<lambda>_. 0)" "pmu_now s = now" and p: "rbind (apple_rtc_get_current_tick s) (\<lambda>tick. apple_spmi_pmu_set_tick_offset tick s) = Inr (slave_dev p)"
    by blast
  have "\<exists>f. slave_dev p = s\<lparr>pmu_reg := f\<rparr>"
    using p by (auto simp: apple_spmi_pmu_set_tick_offset_def pmu_st_def Let_def eq_commute [of _ "slave_dev p"] split: if_splits)
  then have ok: "pmu_ok s" using assms(2) by (auto simp: pmu_ok_def)
  let ?k = "unat (reg_leg_scrpad s)"
  have "tick_offset (pmu_reg s) ?k = 0" by (simp add: s(1) tick_offset_def)
  then have "apple_rtc_get_current_tick s = Inr (rtc_ticks now)"
    by (simp add: apple_rtc_get_current_tick_def apple_rtc_ns_to_tick_def pmu_get_offset [OF ok] s(2))
  then have d: "slave_dev p = s\<lparr>pmu_reg := put_offset (rtc_ticks now) ?k (pmu_reg s)\<rparr>" using p by (simp add: pmu_set_offset [OF ok])
  have "unat now div 1000000000 < 2 ^ 32 - 1" using assms(3) by (simp add: div_less_iff_less_mult)
  moreover have "frac_ticks (unat now) mod 32768 < 32768" by simp
  ultimately have "unat (rtc_ticks now) < 2 ^ 47" unfolding unat_rtc_ticks by simp
  then have "take_bit 47 (rtc_ticks now) = rtc_ticks now" by (simp add: word_unat_eq_iff unsigned_take_bit_eq take_bit_nat_eq_self)
  then show ?thesis
    using pmu_get_offset [OF assms(2)] by (simp add: apple_rtc_get_current_tick_def apple_rtc_ns_to_tick_def d tick_offset_put s(2))
qed

end
