(* ===== verification/Spec2Isabelle.thy ===== *)
theory Spec2Isabelle
  imports Aic Smc Nvram Sart Dart Spi_Dma Gpio Wdt Spmi_Pmu
begin

text \<open>
  A verification of the Apple device models of this fork of QEMU: the devices an emulated Apple system on a
  chip consists of besides its processor cores. The guest reaches a device through register windows; devices
  reach each other through interrupt and GPIO lines, mailbox messages, DMA and serial buses.

  \<^bold>\<open>Conventions.\<close> A C structure is a record with the fields its handlers use, and an operation is a
  function from states to states. Machine integers are words of their width where they can wrap, and natural
  numbers where they count or index. A failed assertion, an access past an array, a null pointer, an undefined
  shift, a division by zero, a use of freed or uninitialised memory and a fatal error are results of type
  \<open>fault\<close> (theory \<open>Prelude\<close>), so that a theorem that an operation returns \<open>Inr\<close> is a theorem that none of them
  happens. Assertions count as enabled, as the build requires. An interrupt line is its level; a timer is its
  expiry time, and the clock is an argument or a field. A handler is one atomic step: the big lock of the emulator
  or the lock of the device is held across it. Allocation succeeds. Code outside the repository, callbacks of other
  devices and the order of hash tables are arguments, with what is assumed of them as hypotheses.

  \<^bold>\<open>Foundations.\<close> \<open>Prelude\<close> has the word types, faults and loops; \<open>Bitops\<close> the bit arrays of
  \<open>include/qemu/bitops.h\<close> and \<open>util/bitops.c\<close>, with the unrolled search proved equal to the search bit by bit;
  \<open>Bytes\<close>, \<open>Cstrings\<close> and \<open>Iov\<close> memory, strings (\<open>util/cutils.c\<close>) and scatter-gather lists (\<open>util/iov.c\<close>,
  \<open>system/dma-helpers.c\<close>); \<open>Fifo8\<close> the ring buffers of \<open>util/fifo8.c\<close> and \<open>include/qemu/fifo32.h\<close>, proved to
  implement a list. \<open>Interfaces\<close> has the contracts devices share, as locales: a device whose operations keep an
  invariant, one whose permitted operations never fault, a register with set and clear ports, a channel, a bounded
  queue and a keyed store. Every locale is interpreted on the definitions of the devices.

  \<^bold>\<open>Interrupts, pins and time.\<close> \<open>Aic\<close> is \<open>hw/intc/apple_aic.c\<close>: an acknowledge returns the event the
  specification picks and masks it, no other processor gets it until it is unmasked, and an update reaches every
  deliverable interrupt. \<open>Gpio\<close> is \<open>hw/gpio/apple_gpio.c\<close>: triggers and group lines. \<open>Wdt\<close> is
  \<open>hw/watchdog/apple_wdt.c\<close>: the action comes when it is due, at most one tick late, and a write of the counter
  restarts it.

  \<^bold>\<open>Co-processors.\<close> \<open>Mailbox\<close> and \<open>Mailbox_Regs\<close> are the two inboxes of a co-processor with their
  interrupt lines and register layouts (\<open>hw/misc/apple-silicon/a7iop/mailbox\<close>), \<open>A7iop\<close> the wrapper around them
  (\<open>a7iop/core.c\<close> and its registers), \<open>Rtkit\<close> the message protocol on top (\<open>a7iop/rtkit.c\<close>) and \<open>Smc\<close> the
  system management controller, a client of that protocol (\<open>smc.c\<close>). Messages arrive in order and once, the
  handshake announces the registered endpoints and ends, the message loop ends, and no message of the guest makes
  the key endpoint fault. A record of a device extends that of the layer below it, as the structures embed it.

  \<^bold>\<open>Memory and DMA.\<close> \<open>Iommu\<close> is what the memory core makes of a translation (\<open>system/physmem.c\<close>), \<open>Dart\<close>
  and \<open>Sart\<close> are the two IOMMUs (\<open>hw/arm/apple-silicon/dart.c\<close>, \<open>sart.c\<close>): a translation follows the page
  tables, a refused access is reported, and the pages that changed are unmapped. \<open>Sio\<close> is the DMA controller
  \<open>hw/dma/apple_sio.c\<close>, itself a client of \<open>Rtkit\<close>: its peripherals see the bytes of the queued segments as one
  stream.

  \<^bold>\<open>Serial buses.\<close> \<open>Ssi\<close> and \<open>Spi\<close> are the bus \<open>hw/ssi/ssi.c\<close> and the controller \<open>hw/ssi/apple_spi.c\<close>;
  \<open>Spi_Dma\<close> is its transfers by DMA over any pair of channels with the contract \<open>dma_port\<close>, and this theory puts
  them together with the DMA controller. \<open>Spmi\<close> is the bus \<open>hw/spmi/core.c\<close> and the controller
  \<open>hw/spmi/apple_spmi.c\<close>, with transfers proved for every slave with the contract \<open>spmi_target\<close>; \<open>Spmi_Pmu\<close> is a
  slave, \<open>hw/misc/apple-silicon/spmi-pmu.c\<close>, with its clock and alarm: registers written through all layers are
  read back, and an alarm rings at its time.

  \<^bold>\<open>Stored data.\<close> \<open>Dt\<close> is the device tree (\<open>hw/arm/apple-silicon/dt.c\<close>), from which the devices are
  created: a finalised tree is serialised within the size computed for it and comes back from its bytes. \<open>Nvram\<close> is
  \<open>hw/nvram/apple_nvram.c\<close>: what is saved is what is loaded.

  \<^bold>\<open>Bounds and fuel.\<close> Loops are structural recursions or terminating functions, with two exceptions. The
  message loop of a co-processor is a partial function, since a handler may send to itself; it is proved to end for
  handlers that do not. Deserialising a device tree has one unit of fuel more than the blob has bytes, and is proved
  to return for every blob. Ring buffers have at most \<open>2 ^ 31\<close> bytes, and clocks stay below \<open>2 ^ 62\<close> nanoseconds.

  \<^bold>\<open>Not modelled.\<close> The machines and processor cores (\<open>t8030.c\<close>, \<open>s8000.c\<close>, \<open>a13.c\<close>, \<open>a9.c\<close>, \<open>boot.c\<close>)
  wire devices and load firmware through the object model; the Secure Enclave and the AES engine are thin layers
  over cipher libraries that are not in the repository; the kernel patcher works on firmware images that are not
  either; display, audio, storage, USB, UART and baseband devices are clients of the display, audio, block and
  character layers, which are the environment here, as are the translator, migration and the object model. The I2C
  controller and its devices and the touch controller are open. Reference counts, tracing, log messages, migration
  descriptions and class registration have no part in the states.
\<close>

subsection \<open>A DMA transfer, from memory to the bus and back\<close>

text \<open>Two endpoints with a buffer each: that of \<open>sio_demo\<close>, and one of four bytes to fill.\<close>

definition sio_demo_pair :: AppleSIOState where
  "sio_demo_pair = upd_ep 5 (\<lambda>e. e\<lparr>buffers := [sio_demo_buf\<lparr>sgl := \<lparr>sg = [\<lparr>sg_base = 0x4000, sg_len = 4\<rparr>], sg_size = 4\<rparr>,
     segment_count := 1, completed := 0, buf_tag := 2\<rparr>]\<rparr>) (sio_demo 4)"

lemma sio_demo_pair:
  "sio_wf sio_demo_pair" "ep_pend (eps sio_demo_pair ! 4) = [0x2001, 0x2002, 0x3000, 0x3001]"
  "ep_pend (eps sio_demo_pair ! 5) = [0x4000, 0x4001, 0x4002, 0x4003]" "dma_as sio_demo_pair = ucast"
  "(ep_slots sio_demo_pair 4 \<union> ep_slots sio_demo_pair 5) \<inter> (set [0x2001, 0x2002, 0x3000, 0x3001] \<union> set [0x4000, 0x4001, 0x4002, 0x4003]) = {}"
proof -
  let ?b = "sio_demo_buf\<lparr>sgl := \<lparr>sg = [\<lparr>sg_base = 0x4000, sg_len = 4\<rparr>], sg_size = 4\<rparr>, segment_count := 1, completed := 0, buf_tag := 2\<rparr>"
  have ok: "buf_ok ?b" "pend ?b = [0x4000, 0x4001, 0x4002, 0x4003]" by code_simp+
  have l: "length (eps (sio_demo 4)) = SIO_NUM_EPS" using sio_demo(1) [of 4] by (simp add: sio_wf_def)
  show "sio_wf sio_demo_pair" unfolding sio_demo_pair_def using wf_upd_ep [OF sio_demo(1), of 4 "[?b]" 5] ok(1) by simp
  show "ep_pend (eps sio_demo_pair ! 4) = [0x2001, 0x2002, 0x3000, 0x3001]" using sio_demo(3) [of 4] by (simp add: sio_demo_pair_def)
  show "ep_pend (eps sio_demo_pair ! 5) = [0x4000, 0x4001, 0x4002, 0x4003]" using l ok(2) by (simp add: sio_demo_pair_def ep_pend_def)
  show "dma_as sio_demo_pair = ucast" using sio_demo(5) [of 4] by (simp add: sio_demo_pair_def)
  have s: "ep_slots sio_demo_pair 4 = set (span 0x8800 16)" "ep_slots sio_demo_pair 5 = set (span 0x8A10 16)"
    using l sio_demo(2,4) [of 4] by (simp_all add: sio_demo_pair_def ep_slots_def resp_slot_def sio_demo_buf_def sio_resp_off_def)
  have "list_all (\<lambda>a. a \<notin> set (span 0x8800 16) \<and> a \<notin> set (span 0x8A10 16))
      [0x2001, 0x2002, 0x3000, 0x3001, 0x4000, 0x4001, 0x4002, 0x4003]" by code_simp
  then show "(ep_slots sio_demo_pair 4 \<union> ep_slots sio_demo_pair 5) \<inter>
      (set [0x2001, 0x2002, 0x3000, 0x3001] \<union> set [0x4000, 0x4001, 0x4002, 0x4003]) = {}"
    unfolding s by auto
qed

text \<open>
  Property C11 (functional). A DMA transfer of the SPI controller through the DMA controller sends the
  bytes of the segments queued on the transmit endpoint, as many words as the counts ask for, in order to
  the bus, and stores the answers, in order, at the addresses of the segments queued on the receive
  endpoint. It ends with both counts at 0, both FIFOs empty and the completion flag set, however many
  refills and flushes of the 16-word FIFOs it takes.
\<close>

theorem spi_dma_transfer:
  fixes s :: "(AppleSIOState, 'd) AppleSPIState" and i j n :: nat
  defines "A \<equiv> ep_pend (eps (sio s) ! i)" and "R \<equiv> ep_pend (eps (sio s) ! j)"
  assumes spi: "dma_mode i j ws s" "dma_capable s" "tx_list s = []" "rx_list s = []"
    and go: "REG s SPI_CTRL AND SPI_CTRL_RUN \<noteq> 0" "REG s SPI_RXCNT = REG s SPI_TXCNT" "unat (REG s SPI_TXCNT) = n" "0 < n"
    and sio: "maps_all bus" "sio_wf (sio s)" "i < SIO_NUM_EPS" "\<not> bit i 0" "j < SIO_NUM_EPS" "bit j 0"
    and apart: "distinct R" "set A \<inter> set R = {}" "(ep_slots (sio s) i \<union> ep_slots (sio s) j) \<inter> (set A \<union> set R) = {}"
    and len: "n * unat ws < 2 ^ 32" "n * unat ws \<le> length A" "n * unat ws \<le> length R" "length A < 2 ^ 64" "length R < 2 ^ 64"
  shows "\<exists>t. apple_spi_run (sio_ops bus now) s = Inr t \<and> spi_wf t \<and> sio_wf (sio t) \<and> tx_list t = [] \<and> rx_list t = [] \<and>
    REG t SPI_TXCNT = 0 \<and> REG t SPI_RXCNT = 0 \<and> bit (REG t SPI_STATUS) 22 \<and>
    ep_pend (eps (sio t) ! i) = drop (n * unat ws) A \<and> ep_pend (eps (sio t) ! j) = drop (n * unat ws) R \<and>
    (map (dma_as (sio t)) (take (n * unat ws) R), ssi_bus t) =
      apfst (le_bytes (unat ws)) (exchange_words (unat ws) (le_chunks (unat ws) n (map (dma_as (sio s)) A)) (ssi_bus s))"
proof -
  have ok: "sio_port bus i j A R (sio s)" using sio apart len(4,5) by (auto simp: sio_port_def A_def R_def intro!: exI [of _ 0])
  have io: "sio_inp i (sio s) = map (dma_as (sio s)) A" "sio_room j (sio s) = length R" "sio_got j R (sio s) = []"
    by (simp_all add: sio_inp_def sio_room_def sio_got_def A_def R_def)
  have nz: "REG s SPI_TXCNT \<noteq> 0" using go(3,4) by auto
  obtain t where t: "apple_spi_run (sio_ops bus now) s = Inr t" "dma_mode i j ws t" "sio_port bus i j A R (sio t)" "tx_list t = []" "rx_list t = []"
      "REG t SPI_TXCNT = 0" "REG t SPI_RXCNT = 0" "bit (REG t SPI_STATUS) 22" "sio_inp i (sio t) = drop (n * unat ws) (sio_inp i (sio s))"
      "(sio_got j R (sio t), ssi_bus t) = apfst (le_bytes (unat ws))
        (exchange_words (unat ws) (le_chunks (unat ws) n (map (dma_as (sio s)) A)) (ssi_bus s))"
    using sio_dma.run_dma [OF spi(1,2) ok spi(3,4) go(1,2) nz, of now] go(3) len io by auto
  obtain m where m: "m \<le> length A" "ep_pend (eps (sio t) ! i) = drop m A" using t(3) by (auto simp: sio_port_def)
  obtain k where k: "k \<le> length R" "ep_pend (eps (sio t) ! j) = drop k R" using t(3) by (auto simp: sio_port_def)
  have "length (sio_inp i (sio t)) = length A - n * unat ws" using t(9) io(1) by simp
  then have "ep_pend (eps (sio t) ! i) = drop (n * unat ws) A" using m len(2) by (intro trans [OF m(2) drop_by_length]) (simp_all add: sio_inp_def)
  moreover have "length (sio_got j R (sio t)) = n * unat ws"
    using arg_cong [OF t(10), of "\<lambda>x. length (fst x)"] by (simp add: length_exchange_words)
  then have "k = n * unat ws" using k by (simp add: sio_got_def sio_room_def)
  moreover then have "sio_got j R (sio t) = map (dma_as (sio t)) (take (n * unat ws) R)" using k by (simp add: sio_got_def sio_room_def)
  ultimately show ?thesis using t k(2) by (auto simp: sio_port_def dma_mode_def)
qed

theorem spi_dma_transfer_witness:
  "\<exists>t. apple_spi_run (sio_ops sio_demo_bus 0) (spi_demo_dma 0x40 [] 2 sio_demo_pair) = Inr t \<and> bit (REG t SPI_STATUS) 22 \<and>
     map (dma_as (sio t)) [0x4000, 0x4001] = [0xFE, 0xFD] \<and> ep_pend (eps (sio t) ! 5) = [0x4002, 0x4003]"
proof -
  let ?s = "spi_demo_dma 0x40 [] 2 sio_demo_pair"
  note d = spi_demo_dma [of "[]" "0x40" 2 sio_demo_pair, simplified]
  note r = spi_demo [of "[]" "0x40" 2 sio_demo_pair, simplified]
  have m: "dma_mode 4 5 1 ?s" by (rule spi_demo_dma_mode) (simp, code_simp+)
  have go: "REG ?s SPI_CTRL AND SPI_CTRL_RUN \<noteq> 0" "REG ?s SPI_RXCNT = REG ?s SPI_TXCNT" "unat (REG ?s SPI_TXCNT) = 2"
    unfolding d r by code_simp+
  have "fst (exchange_words 1 (le_chunks 1 2 (map ucast [0x2001, 0x2002, 0x3000, 0x3001 :: u64])) spi_demo_bus) = [0xFE, 0xFD]"
    by code_simp
  then show ?thesis
    using spi_dma_transfer [OF m d(8,2,3) go, of sio_demo_bus 0] maps_all_demo sio_demo_pair d(4,5) by (auto simp: le_bytes_def pair_eq_apfst)
qed

end
